(* ===== verification/Prelude.thy ===== *)
theory Prelude
  imports Main "HOL-Library.Word" "HOL-Library.Multiset" "HOL-Library.Monad_Syntax"
begin

text \<open>
  The prelude of the development: the machine types of the C sources, the
  collections of rewrite rules the component theories share, and generic lemmas on words
  and lists.

  Unsigned C integers are words of their width (\<open>+\<close>, \<open>-\<close> and \<open>*\<close> wrap around as in C).
  \<open>litedt_time_t\<close> and other \<open>int64_t\<close> timestamps are \<open>int\<close>: they hold microseconds since
  boot and never come near the 64-bit bounds. A pointer is a natural number, \<open>None\<close> is
  \<open>NULL\<close>. The targets are little endian.
\<close>

unbundle bit_operations_syntax

type_synonym u8 = "8 word"
type_synonym u16 = "16 word"
type_synonym u32 = "32 word"
type_synonym u64 = "64 word"
type_synonym byte = "8 word"
type_synonym addr = nat
type_synonym pointer = "nat option"
type_synonym time = int

named_theorems seq_simps \<open>comparisons of sequence numbers inside a window\<close>
named_theorems tree_simps \<open>the in-order content of the search tree operations\<close>
named_theorems heap_simps \<open>heap order and back pointers of the timer list\<close>

section \<open>Words\<close>

lemma unat_sub_le: "b \<le> a \<Longrightarrow> unat (a - b) = unat a - unat (b :: 'a::len word)"
  by (rule unat_sub)

lemma word_diff_cancel: "(b - s) - (a - s) = b - (a :: 'a::len word)"
  by simp

lemma unat_plus_small:
  "unat a + unat b < 2 ^ LENGTH('a) \<Longrightarrow> unat (a + b) = unat a + unat (b :: 'a::len word)"
  by (simp add: unat_word_ariths)

lemma unat_inc: "unat w < unat (u :: 'a::len word) \<Longrightarrow> unat (w + 1) = Suc (unat (w :: 'a word))"
proof -
  assume "unat w < unat u"
  moreover have "unat u < 2 ^ LENGTH('a)" by (rule unsigned_less)
  ultimately have "Suc (unat w) < 2 ^ LENGTH('a)" by linarith
  then show ?thesis by (simp add: unat_word_ariths)
qed

lemma unat_pred: "0 < (w :: 'a::len word) \<Longrightarrow> unat (w - 1) = unat w - 1"
  by (metis unat_minus_one word_neq_0_conv)

lemma word_zero_cases:
  obtains "(w :: 'a::len word) = 0" | "0 < w"
  by (cases "w = 0") (auto simp: word_neq_0_conv)

section \<open>Lists\<close>

lemma distinct_same_length: "distinct xs \<Longrightarrow> distinct ys \<Longrightarrow> set xs = set ys \<Longrightarrow> length xs = length ys"
  by (metis distinct_card)

lemma sorted_wrt_snocI:
  "sorted_wrt P xs \<Longrightarrow> (\<And>x. x \<in> set xs \<Longrightarrow> P x y) \<Longrightarrow> sorted_wrt P (xs @ [y])"
  by (simp add: sorted_wrt_append)

lemma distinct_remove1_filter: "distinct xs \<Longrightarrow> remove1 x xs = filter (\<lambda>y. y \<noteq> x) xs"
  by (simp add: distinct_remove1_removeAll removeAll_filter_not_eq, metis)

end
