(* ===== verification/Seq.thy ===== *)
theory Seq
  imports Prelude
begin

text \<open>
  Wrap-around comparison of 32-bit sequence numbers: the macros \<open>LESS_EQUAL\<close>, \<open>BEFORE\<close>,
  \<open>AFTER\<close> and the comparator \<open>seq_cmp\<close> of \<open>src/src/util.h\<close> (\<open>rbuffer.c\<close> has its own copy of
  both). The comparison is not an order on all of \<open>uint32_t\<close>; it is a total order on any
  window of less than \<open>2\<^sup>3\<^sup>1\<close> positions, which is what the tree maps keyed by sequence numbers
  rely on. That contract is the locale \<open>cmp_order\<close>, interpreted here for \<open>seq_cmp\<close>.
\<close>

section \<open>The comparison macros\<close>

definition LESS_EQUAL :: "u32 \<Rightarrow> u32 \<Rightarrow> bool" where
  "LESS_EQUAL a b \<longleftrightarrow> b - a < 0x80000000"

definition BEFORE :: "u32 \<Rightarrow> u32 \<Rightarrow> bool" where
  "BEFORE a b \<longleftrightarrow> LESS_EQUAL a b \<and> a \<noteq> b"

definition AFTER :: "u32 \<Rightarrow> u32 \<Rightarrow> bool" where
  "AFTER a b \<longleftrightarrow> \<not> LESS_EQUAL a b"

definition seq_cmp :: "u32 \<Rightarrow> u32 \<Rightarrow> int" where
  "seq_cmp a b = (if LESS_EQUAL a b then (if a = b then 0 else -1) else 1)"

section \<open>Windows of sequence numbers\<close>

text \<open>The positions at most \<open>2\<^sup>3\<^sup>1 - 1\<close> after \<open>base\<close>.\<close>

definition seq_window :: "u32 \<Rightarrow> u32 set" where
  "seq_window base = {x. x - base < 0x80000000}"

lemma LESS_EQUAL_offset:
  assumes "a - s < 0x80000000" "b - s < (0x80000000 :: u32)"
  shows "LESS_EQUAL a b \<longleftrightarrow> a - s \<le> b - s"
proof -
  define x y where "x = a - s" and "y = b - s"
  have "b - a = y - x" by (simp add: x_def y_def)
  moreover have "y - x < 0x80000000 \<longleftrightarrow> x \<le> y"
    using assms unfolding x_def [symmetric] y_def [symmetric]
    by (auto simp: word_less_nat_alt word_le_nat_alt unat_sub_if')
  ultimately show ?thesis
    by (simp add: LESS_EQUAL_def x_def y_def)
qed

lemma LESS_EQUAL_window [seq_simps]:
  "a \<in> seq_window s \<Longrightarrow> b \<in> seq_window s \<Longrightarrow> LESS_EQUAL a b \<longleftrightarrow> a - s \<le> b - s"
  by (rule LESS_EQUAL_offset) (simp_all add: seq_window_def)

lemma LESS_EQUAL_refl [simp]: "LESS_EQUAL a a"
  by (simp add: LESS_EQUAL_def)

section \<open>The contract of a key comparator\<close>

locale cmp_order =
  fixes cmp :: "'k \<Rightarrow> 'k \<Rightarrow> int" and K :: "'k set"
  assumes cmp_eq: "a \<in> K \<Longrightarrow> b \<in> K \<Longrightarrow> cmp a b = 0 \<longleftrightarrow> a = b"
    and cmp_sym: "a \<in> K \<Longrightarrow> b \<in> K \<Longrightarrow> 0 < cmp a b \<longleftrightarrow> cmp b a < 0"
    and cmp_trans: "a \<in> K \<Longrightarrow> b \<in> K \<Longrightarrow> c \<in> K \<Longrightarrow> cmp a b < 0 \<Longrightarrow> cmp b c < 0 \<Longrightarrow> cmp a c < 0"
begin

lemma cmp_irrefl [simp]: "a \<in> K \<Longrightarrow> \<not> cmp a a < 0"
  using cmp_eq [of a a] by simp

lemma cmp_asym: "a \<in> K \<Longrightarrow> b \<in> K \<Longrightarrow> cmp a b < 0 \<Longrightarrow> \<not> cmp b a < 0"
  using cmp_trans [of a b a] by auto

lemma cmp_cases:
  assumes "a \<in> K" "b \<in> K"
  obtains "cmp a b < 0" | "a = b" | "cmp b a < 0"
  using cmp_eq [OF assms] cmp_sym [OF assms] by linarith

lemma cmp_not_less: "a \<in> K \<Longrightarrow> b \<in> K \<Longrightarrow> \<not> cmp a b < 0 \<longleftrightarrow> a = b \<or> cmp b a < 0"
  by (meson cmp_asym cmp_cases cmp_irrefl)

end

lemma seq_cmp_window [seq_simps]:
  assumes "a \<in> seq_window s" "b \<in> seq_window s"
  shows "seq_cmp a b < 0 \<longleftrightarrow> a - s < b - s" "seq_cmp a b = 0 \<longleftrightarrow> a = b"
    "0 < seq_cmp a b \<longleftrightarrow> b - s < a - s"
proof -
  have "a - s = b - s \<longleftrightarrow> a = b" by simp
  then show "seq_cmp a b < 0 \<longleftrightarrow> a - s < b - s" "seq_cmp a b = 0 \<longleftrightarrow> a = b"
    "0 < seq_cmp a b \<longleftrightarrow> b - s < a - s"
    using LESS_EQUAL_window [OF assms] by (auto simp: seq_cmp_def order.strict_iff_order)
qed

interpretation seq: cmp_order seq_cmp "seq_window s" for s
  by unfold_locales (auto simp: seq_simps)

end
