(* ===== verification/TreeMap.thy ===== *)
theory TreeMap
  imports Seq
begin

text \<open>
  The tree map of \<open>src/common/treemap.c\<close>: a left-leaning red-black tree with parent pointers
  and a cached pointer to the least node.

  A node carries its address and its stored \<open>parent\<close> pointer, so that pointers held by
  clients, the pointer cached in \<open>tm->first\<close> and the walks along \<open>parent\<close> are modelled; the
  child pointers are the subtrees themselves. A function that updates the tree through
  \<open>tree_node_t **\<close> returns the new subtree. The result of the one \<open>malloc\<close> call of an insertion
  is an argument (\<open>None\<close> is \<open>NULL\<close>). \<open>None\<close> as a result of an operation is a dereference of
  \<open>NULL\<close>; for a valid tree it never occurs.
\<close>

section \<open>Nodes\<close>

datatype color = NODE_BLACK | NODE_RED

datatype ('k, 'v) tree_node =
    NULL
  | Node (self: addr) (parent: pointer) (left: "('k, 'v) tree_node") (right: "('k, 'v) tree_node")
      (node_color: color) (node_key: 'k) (node_val: 'v)

record ('k, 'v) treemap =
  tm_key_size :: u32
  tm_data_size :: u32
  cmp_fn :: "'k \<Rightarrow> 'k \<Rightarrow> int"
  node_cnt :: u32
  tm_root :: "('k, 'v) tree_node"
  tm_first :: pointer

fun node_ptr :: "('k, 'v) tree_node \<Rightarrow> pointer" where
  "node_ptr NULL = None"
| "node_ptr (Node x p l r c k v) = Some x"

fun IS_RED :: "('k, 'v) tree_node \<Rightarrow> bool" where
  "IS_RED NULL = False"
| "IS_RED (Node x p l r c k v) = (c = NODE_RED)"

fun left_of :: "('k, 'v) tree_node \<Rightarrow> ('k, 'v) tree_node" where
  "left_of NULL = NULL"
| "left_of (Node x p l r c k v) = l"

fun right_of :: "('k, 'v) tree_node \<Rightarrow> ('k, 'v) tree_node" where
  "right_of NULL = NULL"
| "right_of (Node x p l r c k v) = r"

text \<open>\<open>n->parent = p\<close> under the guard \<open>n != NULL\<close>, and \<open>n->color = c\<close>.\<close>

fun set_parent :: "pointer \<Rightarrow> ('k, 'v) tree_node \<Rightarrow> ('k, 'v) tree_node" where
  "set_parent q NULL = NULL"
| "set_parent q (Node x p l r c k v) = Node x q l r c k v"

fun set_color :: "color \<Rightarrow> ('k, 'v) tree_node \<Rightarrow> ('k, 'v) tree_node" where
  "set_color d NULL = NULL"
| "set_color d (Node x p l r c k v) = Node x p l r d k v"

fun toggle :: "('k, 'v) tree_node \<Rightarrow> ('k, 'v) tree_node" where
  "toggle NULL = NULL"
| "toggle (Node x p l r c k v) =
     Node x p l r (if c = NODE_RED then NODE_BLACK else NODE_RED) k v"

section \<open>Rotations and colour changes\<close>

fun rotate_left :: "('k, 'v) tree_node \<Rightarrow> ('k, 'v) tree_node option" where
  "rotate_left (Node x p l (Node y q yl yr yc yk yv) c k v) =
     Some (Node y p (Node x (Some y) l (set_parent (Some x) yl) NODE_RED k v) yr c yk yv)"
| "rotate_left _ = None"

fun rotate_right :: "('k, 'v) tree_node \<Rightarrow> ('k, 'v) tree_node option" where
  "rotate_right (Node x p (Node y q yl yr yc yk yv) r c k v) =
     Some (Node y p yl (Node x (Some y) (set_parent (Some x) yr) r NODE_RED k v) c yk yv)"
| "rotate_right _ = None"

fun flip_color :: "('k, 'v) tree_node \<Rightarrow> ('k, 'v) tree_node option" where
  "flip_color (Node x p l r c k v) =
     (if l = NULL \<or> r = NULL then None
      else Some (toggle (Node x p (toggle l) (toggle r) c k v)))"
| "flip_color NULL = None"

fun move_red_left_tail :: "('k, 'v) tree_node \<Rightarrow> ('k, 'v) tree_node option" where
  "move_red_left_tail (Node x p l r c k v) =
     (if r = NULL then None
      else if IS_RED (left_of r) then do {
        r1 \<leftarrow> rotate_right r;
        n1 \<leftarrow> rotate_left (Node x p l r1 c k v);
        flip_color n1
      } else Some (Node x p l r c k v))"
| "move_red_left_tail NULL = None"

definition move_red_left :: "('k, 'v) tree_node \<Rightarrow> ('k, 'v) tree_node option" where
  "move_red_left node = do { n \<leftarrow> flip_color node; move_red_left_tail n }"

fun move_red_right_tail :: "('k, 'v) tree_node \<Rightarrow> ('k, 'v) tree_node option" where
  "move_red_right_tail (Node x p l r c k v) =
     (if l = NULL then None
      else if IS_RED (left_of l) then do {
        n1 \<leftarrow> rotate_right (Node x p l r c k v);
        flip_color n1
      } else Some (Node x p l r c k v))"
| "move_red_right_tail NULL = None"

definition move_red_right :: "('k, 'v) tree_node \<Rightarrow> ('k, 'v) tree_node option" where
  "move_red_right node = do { n \<leftarrow> flip_color node; move_red_right_tail n }"

text \<open>
  The statements that restore the balance of a subtree. An insertion and a deletion differ in
  the guard of the first rotation.
\<close>

definition fix_right_rotation :: "('k, 'v) tree_node \<Rightarrow> ('k, 'v) tree_node option" where
  "fix_right_rotation n =
     (if IS_RED (left_of n) \<and> IS_RED (left_of (left_of n)) then rotate_right n else Some n)"

definition fix_flip :: "('k, 'v) tree_node \<Rightarrow> ('k, 'v) tree_node option" where
  "fix_flip n = (if IS_RED (left_of n) \<and> IS_RED (right_of n) then flip_color n else Some n)"

definition insert_fix :: "('k, 'v) tree_node \<Rightarrow> ('k, 'v) tree_node option" where
  "insert_fix n = do {
     n1 \<leftarrow> (if \<not> IS_RED (left_of n) \<and> IS_RED (right_of n) then rotate_left n else Some n);
     n2 \<leftarrow> fix_right_rotation n1;
     fix_flip n2
   }"

definition delete_fix :: "('k, 'v) tree_node \<Rightarrow> ('k, 'v) tree_node option" where
  "delete_fix n = do {
     n1 \<leftarrow> (if IS_RED (right_of n) then rotate_left n else Some n);
     n2 \<leftarrow> fix_right_rotation n1;
     fix_flip n2
   }"

section \<open>Insertion\<close>

definition treemap_init ::
  "u32 \<Rightarrow> u32 \<Rightarrow> ('k \<Rightarrow> 'k \<Rightarrow> int) \<Rightarrow> ('k, 'v) treemap" where
  "treemap_init ksize dsize cmp =
     \<lparr>tm_key_size = ksize, tm_data_size = dsize, cmp_fn = cmp, node_cnt = 0,
      tm_root = NULL, tm_first = None\<rparr>"

definition create_node ::
  "('k, 'v) treemap \<Rightarrow> pointer \<Rightarrow> 'k \<Rightarrow> 'v \<Rightarrow> pointer \<Rightarrow>
     ('k, 'v) treemap \<times> ('k, 'v) tree_node" where
  "create_node tm par key val mem =
     (case mem of None \<Rightarrow> (tm, NULL)
      | Some a \<Rightarrow> (tm\<lparr>node_cnt := node_cnt tm + 1\<rparr>, Node a par NULL NULL NODE_RED key val))"

text \<open>
  The result: the map, the new subtree, the return code and what is stored through
  \<open>inserted\<close> (\<open>None\<close>: nothing is stored).
\<close>

fun treemap_insert_internal ::
  "('k, 'v) treemap \<Rightarrow> ('k, 'v) tree_node \<Rightarrow> pointer \<Rightarrow> 'k \<Rightarrow> 'v \<Rightarrow> pointer \<Rightarrow>
     (('k, 'v) treemap \<times> ('k, 'v) tree_node \<times> int \<times> pointer option) option" where
  "treemap_insert_internal tm NULL par key val mem =
     (let (tm1, n) = create_node tm par key val mem
      in Some (tm1, n, if n = NULL then -1 else 0, Some (node_ptr n)))"
| "treemap_insert_internal tm (Node x p l r c k v) par key val mem =
     (let ret = cmp_fn tm key k in
      if ret > 0 then do {
        (tm1, r1, ret1, ins) \<leftarrow> treemap_insert_internal tm r (Some x) key val mem;
        if ret1 \<noteq> 0 then Some (tm1, Node x p l r1 c k v, ret1, ins)
        else do { n \<leftarrow> insert_fix (Node x p l r1 c k v); Some (tm1, n, 0, ins) }
      }
      else if ret < 0 then do {
        (tm1, l1, ret1, ins) \<leftarrow> treemap_insert_internal tm l (Some x) key val mem;
        let tm2 = (if ret1 = 0 \<and> tm_first tm1 = Some x
                   then tm1\<lparr>tm_first := node_ptr l1\<rparr> else tm1);
        if ret1 \<noteq> 0 then Some (tm2, Node x p l1 r c k v, ret1, ins)
        else do { n \<leftarrow> insert_fix (Node x p l1 r c k v); Some (tm2, n, 0, ins) }
      }
      else Some (tm, Node x p l r c k v, 1, None))"

definition treemap_insert2 ::
  "('k, 'v) treemap \<Rightarrow> 'k \<Rightarrow> 'v \<Rightarrow> pointer \<Rightarrow> (('k, 'v) treemap \<times> int \<times> pointer option) option" where
  "treemap_insert2 tm key val mem = do {
     (tm1, n, ret, ins) \<leftarrow> treemap_insert_internal tm (tm_root tm) None key val mem;
     if n = NULL then None
     else Some (tm1\<lparr>tm_root := set_color NODE_BLACK n\<rparr>, ret, ins)
   }"

definition treemap_insert ::
  "('k, 'v) treemap \<Rightarrow> 'k \<Rightarrow> 'v \<Rightarrow> pointer \<Rightarrow> (('k, 'v) treemap \<times> int) option" where
  "treemap_insert tm key val mem = do {
     (tm1, ret, ins) \<leftarrow> treemap_insert2 tm key val mem;
     Some (tm1, ret)
   }"

section \<open>Deletion\<close>

fun node_count_of :: "('k, 'v) tree_node \<Rightarrow> nat" where
  "node_count_of NULL = 0"
| "node_count_of (Node x p l r c k v) = Suc (node_count_of l + node_count_of r)"

lemma node_count_set_parent [simp]: "node_count_of (set_parent q t) = node_count_of t"
  by (cases t) simp_all

lemma node_count_toggle [simp]: "node_count_of (toggle t) = node_count_of t"
  by (cases t) simp_all

lemma node_count_rotate_left: "rotate_left t = Some u \<Longrightarrow> node_count_of u = node_count_of t"
  by (induction t rule: rotate_left.induct) auto

lemma node_count_rotate_right: "rotate_right t = Some u \<Longrightarrow> node_count_of u = node_count_of t"
  by (induction t rule: rotate_right.induct) auto

lemma node_count_flip_color: "flip_color t = Some u \<Longrightarrow> node_count_of u = node_count_of t"
  by (cases t) (auto split: if_splits)

lemmas node_count_rotations =
  node_count_rotate_left node_count_rotate_right node_count_flip_color

lemma node_count_move_red_left_tail:
  "move_red_left_tail t = Some u \<Longrightarrow> node_count_of u = node_count_of t"
  by (cases t)
    (auto simp: bind_eq_Some_conv dest!: node_count_rotations split: if_splits)

lemma node_count_move_red_left: "move_red_left t = Some u \<Longrightarrow> node_count_of u = node_count_of t"
  by (auto simp: move_red_left_def bind_eq_Some_conv
      dest!: node_count_move_red_left_tail node_count_flip_color)

lemma node_count_move_red_right_tail:
  "move_red_right_tail t = Some u \<Longrightarrow> node_count_of u = node_count_of t"
  by (cases t)
    (auto simp: bind_eq_Some_conv dest!: node_count_rotations split: if_splits)

lemma node_count_move_red_right: "move_red_right t = Some u \<Longrightarrow> node_count_of u = node_count_of t"
  by (auto simp: move_red_right_def bind_eq_Some_conv
      dest!: node_count_move_red_right_tail node_count_flip_color)

function delete_min ::
  "('k, 'v) tree_node \<Rightarrow> (('k, 'v) tree_node \<times> ('k, 'v) tree_node) option" where
  "delete_min NULL = Some (NULL, NULL)"
| "delete_min (Node x p l r c k v) =
     (if l = NULL then Some (NULL, Node x p l r c k v)
      else do {
        n1 \<leftarrow> (if \<not> IS_RED l \<and> \<not> IS_RED (left_of l)
              then move_red_left (Node x p l r c k v) else Some (Node x p l r c k v));
        case n1 of NULL \<Rightarrow> None
        | Node x1 p1 l1 r1 c1 k1 v1 \<Rightarrow> do {
            (l2, n) \<leftarrow> delete_min l1;
            n2 \<leftarrow> delete_fix (Node x1 p1 l2 r1 c1 k1 v1);
            Some (n2, n)
          }
      })"
  by pat_completeness auto
termination
  by (relation "measure node_count_of")
    (auto dest!: node_count_move_red_left split: if_splits)

definition release_node :: "('k, 'v) treemap \<Rightarrow> ('k, 'v) treemap" where
  "release_node tm = tm\<lparr>node_cnt := node_cnt tm - 1\<rparr>"

function treemap_delete_internal ::
  "('k, 'v) treemap \<Rightarrow> ('k, 'v) tree_node \<Rightarrow> 'k \<Rightarrow>
     (('k, 'v) treemap \<times> ('k, 'v) tree_node \<times> int) option" where
  "treemap_delete_internal tm NULL key = Some (tm, NULL, 0)"
| "treemap_delete_internal tm (Node x p l r c k v) key =
     (if cmp_fn tm key k < 0 then
        (if l = NULL then Some (tm, Node x p l r c k v, 0)
         else do {
           n1 \<leftarrow> (if \<not> IS_RED l \<and> \<not> IS_RED (left_of l)
                 then move_red_left (Node x p l r c k v) else Some (Node x p l r c k v));
           case n1 of NULL \<Rightarrow> None
           | Node x1 p1 l1 r1 c1 k1 v1 \<Rightarrow> do {
               (tm1, l2, ret) \<leftarrow> treemap_delete_internal tm l1 key;
               n2 \<leftarrow> delete_fix (Node x1 p1 l2 r1 c1 k1 v1);
               Some (tm1, n2, ret)
             }
         })
      else do {
        n1 \<leftarrow> (if IS_RED l then rotate_right (Node x p l r c k v) else Some (Node x p l r c k v));
        case n1 of NULL \<Rightarrow> None
        | Node x1 p1 l1 r1 c1 k1 v1 \<Rightarrow>
            if cmp_fn tm key k1 = 0 \<and> r1 = NULL then
              (let tm1 = (if tm_first tm = Some x1 then tm\<lparr>tm_first := p1\<rparr> else tm)
               in Some (release_node tm1, NULL, 1))
            else do {
              n2 \<leftarrow> (if r1 \<noteq> NULL \<and> \<not> IS_RED r1 \<and> \<not> IS_RED (left_of r1)
                    then move_red_right (Node x1 p1 l1 r1 c1 k1 v1)
                    else Some (Node x1 p1 l1 r1 c1 k1 v1));
              case n2 of NULL \<Rightarrow> None
              | Node x2 p2 l2 r2 c2 k2 v2 \<Rightarrow>
                  if cmp_fn tm key k2 = 0 then do {
                    (r3, mn) \<leftarrow> delete_min r2;
                    case mn of NULL \<Rightarrow> None
                    | Node xm pm lm rm cm km vm \<Rightarrow>
                        (let n3 = Node xm p2 (set_parent (Some xm) l2)
                                    (set_parent (Some xm) r3) c2 km vm;
                             tm1 = (if tm_first tm = Some x2 then tm\<lparr>tm_first := Some xm\<rparr> else tm)
                         in do { n4 \<leftarrow> delete_fix n3; Some (release_node tm1, n4, 1) })
                  }
                  else do {
                    (tm1, r3, ret) \<leftarrow> treemap_delete_internal tm r2 key;
                    n4 \<leftarrow> delete_fix (Node x2 p2 l2 r3 c2 k2 v2);
                    Some (tm1, n4, ret)
                  }
            }
      })"
  by pat_completeness auto
termination
  by (relation "measure (\<lambda>(tm, t, key). node_count_of t)")
    (auto dest!: node_count_move_red_left node_count_move_red_right node_count_rotate_right
      split: if_splits)

definition treemap_delete :: "('k, 'v) treemap \<Rightarrow> 'k \<Rightarrow> (('k, 'v) treemap \<times> int) option" where
  "treemap_delete tm key = do {
     (tm1, n, ret) \<leftarrow> treemap_delete_internal tm (tm_root tm) key;
     Some (tm1\<lparr>tm_root := set_color NODE_BLACK n\<rparr>, ret)
   }"

section \<open>Removing all nodes\<close>

text \<open>The addresses passed to \<open>free\<close>, in order.\<close>

fun treemap_clear_internal :: "('k, 'v) tree_node \<Rightarrow> addr list" where
  "treemap_clear_internal NULL = []"
| "treemap_clear_internal (Node x p l r c k v) =
     treemap_clear_internal l @ treemap_clear_internal r @ [x]"

definition treemap_clear :: "('k, 'v) treemap \<Rightarrow> ('k, 'v) treemap \<times> addr list" where
  "treemap_clear tm =
     (tm\<lparr>tm_root := NULL, tm_first := None, node_cnt := 0\<rparr>, treemap_clear_internal (tm_root tm))"

definition treemap_fini :: "('k, 'v) treemap \<Rightarrow> ('k, 'v) treemap \<times> addr list" where
  "treemap_fini tm = treemap_clear tm"

section \<open>Walking the tree\<close>

fun leftmost :: "('k, 'v) tree_node \<Rightarrow> pointer" where
  "leftmost NULL = None"
| "leftmost (Node x p l r c k v) = (if l = NULL then Some x else leftmost l)"

fun rightmost :: "('k, 'v) tree_node \<Rightarrow> pointer" where
  "rightmost NULL = None"
| "rightmost (Node x p l r c k v) = (if r = NULL then Some x else rightmost r)"

definition treemap_first :: "('k, 'v) treemap \<Rightarrow> ('k, 'v) treemap \<times> pointer" where
  "treemap_first tm =
     (let tm1 = (if tm_first tm = None \<and> tm_root tm \<noteq> NULL
                 then tm\<lparr>tm_first := leftmost (tm_root tm)\<rparr> else tm)
      in (tm1, tm_first tm1))"

definition treemap_last :: "('k, 'v) treemap \<Rightarrow> pointer" where
  "treemap_last tm = rightmost (tm_root tm)"

text \<open>The memory of the nodes: the node stored at an address, \<open>NULL\<close> if there is none.\<close>

fun find_node :: "('k, 'v) tree_node \<Rightarrow> addr \<Rightarrow> ('k, 'v) tree_node" where
  "find_node NULL a = NULL"
| "find_node (Node x p l r c k v) a =
     (if a = x then Node x p l r c k v
      else if find_node l a \<noteq> NULL then find_node l a else find_node r a)"

text \<open>
  The walks along the stored \<open>parent\<close> pointers. The outer option is \<open>None\<close> when a pointer to no
  node is dereferenced or the loop does not end.
\<close>

partial_function (option) next_climb ::
  "('k, 'v) tree_node \<Rightarrow> addr \<Rightarrow> pointer \<Rightarrow> pointer option" where
  "next_climb t cur par =
     (case par of None \<Rightarrow> Some None
      | Some q \<Rightarrow>
          (case find_node t q of NULL \<Rightarrow> None
           | Node y py l r c k v \<Rightarrow>
               if node_ptr r = Some cur then next_climb t q py else Some (Some q)))"

partial_function (option) prev_climb ::
  "('k, 'v) tree_node \<Rightarrow> addr \<Rightarrow> pointer \<Rightarrow> pointer option" where
  "prev_climb t cur par =
     (case par of None \<Rightarrow> Some None
      | Some q \<Rightarrow>
          (case find_node t q of NULL \<Rightarrow> None
           | Node y py l r c k v \<Rightarrow>
               if node_ptr l = Some cur then prev_climb t q py else Some (Some q)))"

definition treemap_next :: "('k, 'v) treemap \<Rightarrow> addr \<Rightarrow> pointer option" where
  "treemap_next tm cur =
     (case find_node (tm_root tm) cur of NULL \<Rightarrow> None
      | Node x p l r c k v \<Rightarrow>
          if r \<noteq> NULL then Some (leftmost r) else next_climb (tm_root tm) cur p)"

definition treemap_prev :: "('k, 'v) treemap \<Rightarrow> addr \<Rightarrow> pointer option" where
  "treemap_prev tm cur =
     (case find_node (tm_root tm) cur of NULL \<Rightarrow> None
      | Node x p l r c k v \<Rightarrow>
          if l \<noteq> NULL then Some (rightmost l) else prev_climb (tm_root tm) cur p)"

section \<open>Searching\<close>

fun lower_bound_from ::
  "('k \<Rightarrow> 'k \<Rightarrow> int) \<Rightarrow> ('k, 'v) tree_node \<Rightarrow> 'k \<Rightarrow> pointer \<Rightarrow> pointer" where
  "lower_bound_from cmp NULL key result = result"
| "lower_bound_from cmp (Node x p l r c k v) key result =
     (if cmp k key < 0 then lower_bound_from cmp r key result
      else lower_bound_from cmp l key (Some x))"

definition treemap_lower_bound :: "('k, 'v) treemap \<Rightarrow> 'k \<Rightarrow> pointer" where
  "treemap_lower_bound tm key = lower_bound_from (cmp_fn tm) (tm_root tm) key None"

fun upper_bound_from ::
  "('k \<Rightarrow> 'k \<Rightarrow> int) \<Rightarrow> ('k, 'v) tree_node \<Rightarrow> 'k \<Rightarrow> pointer \<Rightarrow> pointer" where
  "upper_bound_from cmp NULL key result = result"
| "upper_bound_from cmp (Node x p l r c k v) key result =
     (if cmp key k < 0 then upper_bound_from cmp l key (Some x)
      else upper_bound_from cmp r key result)"

definition treemap_upper_bound :: "('k, 'v) treemap \<Rightarrow> 'k \<Rightarrow> pointer" where
  "treemap_upper_bound tm key = upper_bound_from (cmp_fn tm) (tm_root tm) key None"

fun get_from :: "('k \<Rightarrow> 'k \<Rightarrow> int) \<Rightarrow> ('k, 'v) tree_node \<Rightarrow> 'k \<Rightarrow> pointer" where
  "get_from cmp NULL key = None"
| "get_from cmp (Node x p l r c k v) key =
     (let ret = cmp key k
      in if ret > 0 then get_from cmp r key
         else if ret < 0 then get_from cmp l key
         else Some x)"

text \<open>The pointer is that of the node whose value the source returns a pointer to.\<close>

definition treemap_get :: "('k, 'v) treemap \<Rightarrow> 'k \<Rightarrow> pointer" where
  "treemap_get tm key = get_from (cmp_fn tm) (tm_root tm) key"

definition treemap_size :: "('k, 'v) treemap \<Rightarrow> u32" where
  "treemap_size tm = node_cnt tm"

text \<open>Reading the key and the value of a node through its address, and writing the value.\<close>

definition treemap_key :: "('k, 'v) treemap \<Rightarrow> addr \<Rightarrow> 'k option" where
  "treemap_key tm a =
     (case find_node (tm_root tm) a of NULL \<Rightarrow> None | Node x p l r c k v \<Rightarrow> Some k)"

definition treemap_value :: "('k, 'v) treemap \<Rightarrow> addr \<Rightarrow> 'v option" where
  "treemap_value tm a =
     (case find_node (tm_root tm) a of NULL \<Rightarrow> None | Node x p l r c k v \<Rightarrow> Some v)"

fun store_value :: "('k, 'v) tree_node \<Rightarrow> addr \<Rightarrow> 'v \<Rightarrow> ('k, 'v) tree_node" where
  "store_value NULL a w = NULL"
| "store_value (Node x p l r c k v) a w =
     Node x p (store_value l a w) (store_value r a w) c k (if a = x then w else v)"

definition treemap_set_value ::
  "('k, 'v) treemap \<Rightarrow> addr \<Rightarrow> 'v \<Rightarrow> ('k, 'v) treemap" where
  "treemap_set_value tm a w = tm\<lparr>tm_root := store_value (tm_root tm) a w\<rparr>"

end
