(* ===== verification/TreeMapShape.thy ===== *)
theory TreeMapShape
  imports TreeMap
begin

text \<open>
  The shape of the trees of \<^verbatim>\<open>src/common/treemap.c\<close>. The abstraction \<open>inorder\<close> reads a tree as the
  list of its nodes (address, key, value) in order; \<open>parents_ok\<close> says that every stored parent
  pointer is right; \<open>lean\<close> and \<open>invh\<close> are the invariants of a left-leaning red-black tree: no red
  right child, no red node with a red left child, and the same number of black nodes on every path.
  The lemmas follow the rotations, the colour flips and the repairs through these predicates, up to
  \<open>delete_min\<close>. The last section shows that the colour of the root of a subtree only passes through.
\<close>

section \<open>Contents, parent pointers and balance\<close>

fun inorder :: "('k, 'v) tree_node \<Rightarrow> (addr \<times> 'k \<times> 'v) list" where
  "inorder NULL = []"
| "inorder (Node x p l r c k v) = inorder l @ (x, k, v) # inorder r"

fun parents_ok :: "pointer \<Rightarrow> ('k, 'v) tree_node \<Rightarrow> bool" where
  "parents_ok q NULL = True"
| "parents_ok q (Node x p l r c k v) =
     (p = q \<and> parents_ok (Some x) l \<and> parents_ok (Some x) r)"

fun bheight :: "('k, 'v) tree_node \<Rightarrow> nat" where
  "bheight NULL = 0"
| "bheight (Node x p l r c k v) = (if c = NODE_BLACK then Suc (bheight l) else bheight l)"

fun invh :: "('k, 'v) tree_node \<Rightarrow> bool" where
  "invh NULL = True"
| "invh (Node x p l r c k v) = (bheight l = bheight r \<and> invh l \<and> invh r)"

fun lean :: "('k, 'v) tree_node \<Rightarrow> bool" where
  "lean NULL = True"
| "lean (Node x p l r c k v) =
     (\<not> IS_RED r \<and> (c = NODE_RED \<longrightarrow> \<not> IS_RED l) \<and> lean l \<and> lean r)"

definition keys_of :: "(addr \<times> 'k \<times> 'v) list \<Rightarrow> 'k list" where
  "keys_of xs = map (fst \<circ> snd) xs"

lemma keys_of_simps [simp]:
  "keys_of [] = []" "keys_of (e # xs) = fst (snd e) # keys_of xs" "keys_of (xs @ ys) = keys_of xs @ keys_of ys"
  by (simp_all add: keys_of_def)

lemma color_neq [simp]: "c \<noteq> NODE_BLACK \<longleftrightarrow> c = NODE_RED" "c \<noteq> NODE_RED \<longleftrightarrow> c = NODE_BLACK"
  by (cases c; simp)+

lemma inorder_eq_Nil [simp]: "inorder t = [] \<longleftrightarrow> t = NULL" "[] = inorder t \<longleftrightarrow> t = NULL"
  by (cases t; simp)+

lemma left_of_set_parent [simp]:
  "left_of (set_parent q t) = left_of t" "right_of (set_parent q t) = right_of t"
  "IS_RED (set_parent q t) = IS_RED t" "set_parent q t = NULL \<longleftrightarrow> t = NULL"
  by (cases t; simp)+

lemma inorder_updates [simp]:
  "inorder (set_parent q t) = inorder t" "inorder (set_color c t) = inorder t"
  "inorder (toggle t) = inorder t"
  by (cases t; simp)+

lemma toggle_NULL [simp]: "toggle t = NULL \<longleftrightarrow> t = NULL" "set_color c t = NULL \<longleftrightarrow> t = NULL"
  by (cases t; simp)+

lemma parents_ok_updates [simp]:
  "parents_ok q t \<Longrightarrow> parents_ok q' (set_parent q' t)"
  "parents_ok q (set_color c t) = parents_ok q t" "parents_ok q (toggle t) = parents_ok q t"
  by (cases t; simp)+

lemma shape_set_parent [simp]:
  "bheight (set_parent q t) = bheight t" "invh (set_parent q t) = invh t"
  "lean (set_parent q t) = lean t"
  by (cases t; simp)+

lemma rotate_left_content:
  "rotate_left t = Some u \<Longrightarrow> inorder u = inorder t \<and> (parents_ok q t \<longrightarrow> parents_ok q u)"
  by (induction t rule: rotate_left.induct) auto

lemma rotate_right_content:
  "rotate_right t = Some u \<Longrightarrow> inorder u = inorder t \<and> (parents_ok q t \<longrightarrow> parents_ok q u)"
  by (induction t rule: rotate_right.induct) auto

lemma flip_color_content:
  "flip_color t = Some u \<Longrightarrow> inorder u = inorder t \<and> (parents_ok q t \<longrightarrow> parents_ok q u)"
  by (cases t) (auto split: if_splits)

lemmas rotations_content = rotate_left_content rotate_right_content flip_color_content

lemma move_red_left_tail_content:
  "move_red_left_tail t = Some u \<Longrightarrow> inorder u = inorder t \<and> (parents_ok q t \<longrightarrow> parents_ok q u)"
proof (cases t)
  case (Node x p l r c k v)
  assume "move_red_left_tail t = Some u"
  with Node show ?thesis
    using rotate_right_content [of r _ "Some x"] 
    by (auto simp: bind_eq_Some_conv split: if_splits dest!: rotate_left_content [where q = q] flip_color_content [where q = q])
qed simp

lemma move_red_left_content:
  "move_red_left t = Some u \<Longrightarrow> inorder u = inorder t \<and> (parents_ok q t \<longrightarrow> parents_ok q u)"
  using flip_color_content [of t _ q] move_red_left_tail_content [of _ u q]
  by (fastforce simp: move_red_left_def bind_eq_Some_conv)

lemma move_red_right_tail_content:
  "move_red_right_tail t = Some u \<Longrightarrow> inorder u = inorder t \<and> (parents_ok q t \<longrightarrow> parents_ok q u)"
  by (cases t) (auto simp: bind_eq_Some_conv split: if_splits
      dest!: rotate_right_content [where q = q] flip_color_content [where q = q])

lemma move_red_right_content:
  "move_red_right t = Some u \<Longrightarrow> inorder u = inorder t \<and> (parents_ok q t \<longrightarrow> parents_ok q u)"
  using flip_color_content [of t _ q] move_red_right_tail_content [of _ u q]
  by (fastforce simp: move_red_right_def bind_eq_Some_conv)

lemma fixes_content:
  "fix_right_rotation t = Some u \<Longrightarrow> inorder u = inorder t \<and> (parents_ok q t \<longrightarrow> parents_ok q u)"
  "fix_flip t = Some u \<Longrightarrow> inorder u = inorder t \<and> (parents_ok q t \<longrightarrow> parents_ok q u)"
  by (auto simp: fix_right_rotation_def fix_flip_def split: if_splits
      dest: rotations_content [where q = q])

lemma delete_fix_content:
  "delete_fix t = Some u \<Longrightarrow> inorder u = inorder t \<and> (parents_ok q t \<longrightarrow> parents_ok q u)"
  by (auto simp: delete_fix_def bind_eq_Some_conv split: if_splits
      dest!: fixes_content [where q = q] rotations_content [where q = q])

lemma insert_fix_content:
  "insert_fix t = Some u \<Longrightarrow> inorder u = inorder t \<and> (parents_ok q t \<longrightarrow> parents_ok q u)"
  by (auto simp: insert_fix_def bind_eq_Some_conv split: if_splits
      dest!: fixes_content [where q = q] rotations_content [where q = q])

lemma IS_RED_cases:
  assumes "IS_RED t" obtains x p l r k v where "t = Node x p l r NODE_RED k v"
  using assms by (cases t) auto

lemma delete_fix_shape:
  assumes "lean l" "lean r" "invh l" "invh r" "bheight l = bheight r"
    and "c = NODE_BLACK \<or> \<not> IS_RED l \<and> \<not> IS_RED r"
  shows "\<exists>u. delete_fix (Node x p l r c k v) = Some u \<and> lean u \<and> invh u \<and>
    bheight u = bheight (Node x p l r c k v) \<and>
    (c = NODE_BLACK \<and> \<not> (IS_RED l \<and> IS_RED r) \<longrightarrow> \<not> IS_RED u)"
proof (cases "IS_RED r")
  case True
  then obtain y q yl yr yk yv where r: "r = Node y q yl yr NODE_RED yk yv" by (elim IS_RED_cases)
  show ?thesis
  proof (cases "IS_RED l")
    case True
    then obtain z s zl zr zk zv where l: "l = Node z s zl zr NODE_RED zk zv" by (elim IS_RED_cases)
    show ?thesis using assms unfolding r l
      by (simp add: delete_fix_def fix_right_rotation_def fix_flip_def)
  next
    case False
    with assms show ?thesis unfolding r
      by (simp add: delete_fix_def fix_right_rotation_def fix_flip_def)
  qed
next
  case False
  then have "\<not> (IS_RED l \<and> IS_RED (left_of l))" using assms by (cases l) auto
  with False assms show ?thesis
    by (auto simp: delete_fix_def fix_right_rotation_def fix_flip_def)
qed

section \<open>Removing the smallest node\<close>

lemma black_NULL_sibling:
  assumes "bheight l = bheight r" "invh l" "invh r" "\<not> IS_RED l" "l \<noteq> NULL"
  shows "r \<noteq> NULL"
  using assms by (cases l; cases r) auto

lemma NULL_sibling:
  assumes "bheight l = bheight r" "\<not> IS_RED r" "l = NULL"
  shows "r = NULL"
  using assms by (cases r) auto

lemma black_cases:
  assumes "\<not> IS_RED t" "t \<noteq> NULL" obtains x p l r k v where "t = Node x p l r NODE_BLACK k v"
  using assms by (cases t) auto

lemma move_red_left_shape:
  assumes "lean (Node x p l r NODE_RED k v)" "invh (Node x p l r NODE_RED k v)"
    and "l \<noteq> NULL" "\<not> IS_RED (left_of l)"
  shows "\<exists>x1 p1 l1 r1 c1 k1 v1. move_red_left (Node x p l r NODE_RED k v) = Some (Node x1 p1 l1 r1 c1 k1 v1) \<and>
    (k1 = k \<or> k1 \<in> set (keys_of (inorder r))) \<and>
    lean l1 \<and> lean r1 \<and> invh l1 \<and> invh r1 \<and> bheight l1 = bheight r1 \<and>
    bheight (Node x1 p1 l1 r1 c1 k1 v1) = bheight l \<and>
    (c1 = NODE_RED \<and> \<not> IS_RED l1 \<and> IS_RED (left_of l1) \<and> \<not> IS_RED r1 \<or>
     c1 = NODE_BLACK \<and> IS_RED l1 \<and> IS_RED r1)"
proof -
  obtain y q yl yr yk yv where l: "l = Node y q yl yr NODE_BLACK yk yv"
    using assms by (auto elim!: black_cases [of l])
  obtain z s zl zr zk zv where r: "r = Node z s zl zr NODE_BLACK zk zv"
    using assms black_NULL_sibling [of l r] by (auto elim!: black_cases [of r])
  show ?thesis
  proof (cases "IS_RED zl")
    case True
    then obtain w t wl wr wk wv where zl: "zl = Node w t wl wr NODE_RED wk wv" by (elim IS_RED_cases)
    show ?thesis using assms unfolding l r zl by (simp add: move_red_left_def)
  next
    case False
    then show ?thesis using assms unfolding l r by (simp add: move_red_left_def)
  qed
qed

definition repaired :: "('k, 'v) tree_node \<Rightarrow> ('k, 'v) tree_node \<Rightarrow> bool" where
  "repaired t u \<longleftrightarrow> lean u \<and> invh u \<and> bheight u = bheight t \<and> (\<not> IS_RED t \<longrightarrow> \<not> IS_RED u)"

lemma descend_left:
  assumes t: "lean (Node x p l r c k v)" "invh (Node x p l r c k v)" "c = NODE_RED \<or> IS_RED l" "l \<noteq> NULL"
  shows "\<exists>x1 p1 l1 r1 c1 k1 v1.
    (if \<not> IS_RED l \<and> \<not> IS_RED (left_of l) then move_red_left (Node x p l r c k v) else Some (Node x p l r c k v))
      = Some (Node x1 p1 l1 r1 c1 k1 v1) \<and> (k1 = k \<or> k1 \<in> set (keys_of (inorder r))) \<and>
    lean l1 \<and> invh l1 \<and> (IS_RED l1 \<or> IS_RED (left_of l1)) \<and> l1 \<noteq> NULL \<and>
    (\<forall>l2. repaired l1 l2 \<longrightarrow> (\<exists>u. delete_fix (Node x1 p1 l2 r1 c1 k1 v1) = Some u \<and>
       repaired (Node x p l r c k v) u)) \<and>
    node_count_of l1 < node_count_of (Node x p l r c k v)"
proof (cases "\<not> IS_RED l \<and> \<not> IS_RED (left_of l)")
  case True
  then have c: "c = NODE_RED" using t by auto
  obtain x1 p1 l1 r1 c1 k1 v1 where
    m: "move_red_left (Node x p l r NODE_RED k v) = Some (Node x1 p1 l1 r1 c1 k1 v1)"
    and 0: "k1 = k \<or> k1 \<in> set (keys_of (inorder r))"
    and 1: "lean l1" "lean r1" "invh l1" "invh r1" "bheight l1 = bheight r1"
      "bheight (Node x1 p1 l1 r1 c1 k1 v1) = bheight l"
    and 2: "c1 = NODE_RED \<and> \<not> IS_RED l1 \<and> IS_RED (left_of l1) \<and> \<not> IS_RED r1 \<or>
      c1 = NODE_BLACK \<and> IS_RED l1 \<and> IS_RED r1"
    using move_red_left_shape [of x p l r k v] t True unfolding c by auto
  have n: "node_count_of l1 < node_count_of (Node x p l r c k v)"
    using node_count_move_red_left [OF m] by simp
  have "\<exists>u. delete_fix (Node x1 p1 l2 r1 c1 k1 v1) = Some u \<and> repaired (Node x p l r c k v) u"
    if "repaired l1 l2" for l2
    using delete_fix_shape [of l2 r1 c1 x1 p1 k1 v1] that 1 2 unfolding repaired_def c
    by auto
  with m 0 1 2 n True show ?thesis unfolding c by auto
next
  case False
  have "\<exists>u. delete_fix (Node x p l2 r c k v) = Some u \<and> repaired (Node x p l r c k v) u"
    if "repaired l l2" for l2
    using delete_fix_shape [of l2 r c x p k v] that t False unfolding repaired_def
    by (cases c) auto
  with False t show ?thesis by auto
qed

lemma delete_min_spec:
  assumes "lean t" "invh t" "IS_RED t \<or> IS_RED (left_of t)" "t \<noteq> NULL" "parents_ok q t"
  shows "\<exists>u xm pm lm rm cm km vm. delete_min t = Some (u, Node xm pm lm rm cm km vm) \<and>
    repaired t u \<and> parents_ok q u \<and> inorder t = (xm, km, vm) # inorder u"
  using assms
proof (induction "node_count_of t" arbitrary: t q rule: less_induct)
  case less
  then obtain x p l r c k v where t: "t = Node x p l r c k v" by (cases t) auto
  show ?case
  proof (cases "l = NULL")
    case True
    with less.prems show ?thesis using NULL_sibling [of l r] unfolding t
      by (auto simp: repaired_def)
  next
    case False
    obtain x1 p1 l1 r1 c1 k1 v1 where
      n1: "(if \<not> IS_RED l \<and> \<not> IS_RED (left_of l) then move_red_left (Node x p l r c k v) else Some (Node x p l r c k v))
        = Some (Node x1 p1 l1 r1 c1 k1 v1)"
      and 1: "lean l1" "invh l1" "IS_RED l1 \<or> IS_RED (left_of l1)" "l1 \<noteq> NULL"
      and fx: "\<And>l2. repaired l1 l2 \<Longrightarrow> \<exists>u. delete_fix (Node x1 p1 l2 r1 c1 k1 v1) = Some u \<and>
         repaired (Node x p l r c k v) u"
      and n: "node_count_of l1 < node_count_of (Node x p l r c k v)"
      using descend_left [of x p l r c k v] less.prems False unfolding t by auto
    have con: "inorder (Node x1 p1 l1 r1 c1 k1 v1) = inorder t" "parents_ok q (Node x1 p1 l1 r1 c1 k1 v1)"
      using n1 less.prems(5) move_red_left_content [of t _ q] unfolding t by (auto split: if_splits)
    obtain l2 xm pm lm rm cm km vm where d: "delete_min l1 = Some (l2, Node xm pm lm rm cm km vm)"
      "repaired l1 l2" "parents_ok (Some x1) l2" "inorder l1 = (xm, km, vm) # inorder l2"
      using less.hyps [of l1 "Some x1"] 1 n con(2) unfolding t by auto
    obtain u where u: "delete_fix (Node x1 p1 l2 r1 c1 k1 v1) = Some u" "repaired t u"
      using fx d(2) unfolding t by blast
    have "delete_min t = Some (u, Node xm pm lm rm cm km vm)"
      unfolding t using False n1 d(1) u(1) by simp
    with u con d(3,4) delete_fix_content [OF u(1), of q] show ?thesis by auto
  qed
qed

section \<open>Descending to the right\<close>

lemma move_red_right_shape:
  assumes "lean (Node x p l r NODE_RED k v)" "invh (Node x p l r NODE_RED k v)"
    and "r \<noteq> NULL" "\<not> IS_RED (left_of r)"
  shows "\<exists>x2 p2 l2 r2 c2 k2 v2. move_red_right (Node x p l r NODE_RED k v) = Some (Node x2 p2 l2 r2 c2 k2 v2) \<and>
    (k2 = k \<or> k2 \<in> set (keys_of (inorder l))) \<and>
    lean l2 \<and> invh l2 \<and> invh r2 \<and> bheight l2 = bheight r2 \<and>
    bheight (Node x2 p2 l2 r2 c2 k2 v2) = bheight r \<and>
    (c2 = NODE_BLACK \<and> IS_RED l2 \<and> IS_RED r2 \<and> lean r2 \<or>
     c2 = NODE_RED \<and> \<not> IS_RED l2 \<and>
       (\<exists>y q yl yr yv. r2 = Node y q yl yr NODE_BLACK k yv \<and> lean yl \<and> lean yr \<and> \<not> IS_RED yl \<and> IS_RED yr))"
proof -
  obtain z s zl zr zk zv where r: "r = Node z s zl zr NODE_BLACK zk zv"
    using assms by (auto elim!: black_cases [of r])
  obtain y q yl yr yk yv where l: "l = Node y q yl yr NODE_BLACK yk yv"
    using assms black_NULL_sibling [of r l] by (auto elim!: black_cases [of l])
  show ?thesis
  proof (cases "IS_RED yl")
    case True
    then obtain w t wl wr wk wv where yl: "yl = Node w t wl wr NODE_RED wk wv" by (elim IS_RED_cases)
    show ?thesis using assms unfolding l r yl by (simp add: move_red_right_def)
  next
    case False
    then show ?thesis using assms unfolding l r by (simp add: move_red_right_def)
  qed
qed

definition right_heavy :: "('k \<Rightarrow> 'k \<Rightarrow> int) \<Rightarrow> 'k \<Rightarrow> ('k, 'v) tree_node \<Rightarrow> bool" where
  "right_heavy cmp key t \<longleftrightarrow> (\<exists>x p l r k v. t = Node x p l r NODE_BLACK k v \<and> lean l \<and> lean r \<and>
     \<not> IS_RED l \<and> IS_RED r \<and> \<not> cmp key k < 0)"

definition deletable :: "('k \<Rightarrow> 'k \<Rightarrow> int) \<Rightarrow> 'k \<Rightarrow> ('k, 'v) tree_node \<Rightarrow> bool" where
  "deletable cmp key t \<longleftrightarrow> invh t \<and>
     (t = NULL \<or> lean t \<and> (IS_RED t \<or> IS_RED (left_of t)) \<or> right_heavy cmp key t)"

lemma descend_right:
  assumes t: "deletable cmp key (Node x p l r c k v)" and ge: "\<not> cmp key k < 0"
  shows "\<exists>x1 p1 l1 r1 c1 k1 v1.
    (if IS_RED l then rotate_right (Node x p l r c k v) else Some (Node x p l r c k v))
      = Some (Node x1 p1 l1 r1 c1 k1 v1) \<and>
    (r1 = NULL \<longrightarrow> l1 = NULL \<and> repaired (Node x p l r c k v) NULL) \<and>
    (\<exists>x2 p2 l2 r2 c2 k2 v2.
      (if r1 \<noteq> NULL \<and> \<not> IS_RED r1 \<and> \<not> IS_RED (left_of r1)
       then move_red_right (Node x1 p1 l1 r1 c1 k1 v1) else Some (Node x1 p1 l1 r1 c1 k1 v1))
        = Some (Node x2 p2 l2 r2 c2 k2 v2) \<and>
      (k2 = k \<or> k2 \<in> set (keys_of (inorder l))) \<and>
      deletable cmp key r2 \<and> (r2 = NULL \<longrightarrow> r1 = NULL \<and> k2 = k1) \<and>
      (\<forall>r3 x2' l2' k2' v2'. repaired r2 r3 \<and> bheight l2' = bheight l2 \<and> lean l2' = lean l2 \<and>
         invh l2' = invh l2 \<and> IS_RED l2' = IS_RED l2 \<longrightarrow>
        (\<exists>u. delete_fix (Node x2' p2 l2' r3 c2 k2' v2') = Some u \<and> repaired (Node x p l r c k v) u)) \<and>
      node_count_of r2 < node_count_of (Node x p l r c k v))"
proof (cases "c = NODE_RED")
  case True
  then have t': "lean (Node x p l r NODE_RED k v)" "invh (Node x p l r NODE_RED k v)" "\<not> IS_RED l" "\<not> IS_RED r"
    using t by (auto simp: deletable_def right_heavy_def)
  have nul: "r = NULL \<longrightarrow> l = NULL \<and> repaired (Node x p l r c k v) NULL"
    using t' NULL_sibling [of r l] True by (auto simp: repaired_def)
  show ?thesis
  proof (cases "r \<noteq> NULL \<and> \<not> IS_RED r \<and> \<not> IS_RED (left_of r)")
    case mv: True
    obtain x2 p2 l2 r2 c2 k2 v2 where
      m: "move_red_right (Node x p l r NODE_RED k v) = Some (Node x2 p2 l2 r2 c2 k2 v2)"
      and 0: "k2 = k \<or> k2 \<in> set (keys_of (inorder l))"
      and 1: "lean l2" "invh l2" "invh r2" "bheight l2 = bheight r2"
        "bheight (Node x2 p2 l2 r2 c2 k2 v2) = bheight r"
      and 2: "c2 = NODE_BLACK \<and> IS_RED l2 \<and> IS_RED r2 \<and> lean r2 \<or>
        c2 = NODE_RED \<and> \<not> IS_RED l2 \<and>
       (\<exists>y q yl yr yv. r2 = Node y q yl yr NODE_BLACK k yv \<and> lean yl \<and> lean yr \<and> \<not> IS_RED yl \<and> IS_RED yr)"
      using move_red_right_shape [of x p l r k v] t' mv by auto
    have d: "deletable cmp key r2"
      using 1 2 ge by (auto simp: deletable_def right_heavy_def)
    have n0: "r2 \<noteq> NULL" using 2 by auto
    have n: "node_count_of r2 < node_count_of (Node x p l r c k v)"
      using node_count_move_red_right [OF m] by simp
    have "\<exists>u. delete_fix (Node x2' p2 l2' r3 c2 k2' v2') = Some u \<and> repaired (Node x p l r c k v) u"
      if "repaired r2 r3" "bheight l2' = bheight l2" "lean l2' = lean l2" "invh l2' = invh l2" "IS_RED l2' = IS_RED l2"
      for r3 x2' l2' k2' v2'
      using delete_fix_shape [of l2' r3 c2 x2' p2 k2' v2'] that 1 2 t' unfolding repaired_def True
      by auto
    with m 0 d n n0 mv nul t' show ?thesis unfolding True by auto
  next
    case False
    have d: "deletable cmp key r" using t' False by (auto simp: deletable_def)
    have "\<exists>u. delete_fix (Node x2' p l2' r3 c k2' v2') = Some u \<and> repaired (Node x p l r c k v) u"
      if "repaired r r3" "bheight l2' = bheight l" "lean l2' = lean l" "invh l2' = invh l" "IS_RED l2' = IS_RED l"
      for r3 x2' l2' k2' v2'
      using delete_fix_shape [of l2' r3 c x2' p k2' v2'] that t' unfolding repaired_def True by auto
    with d False nul t' show ?thesis unfolding True by auto
  qed
next
  case False
  then have c: "c = NODE_BLACK" by simp
  have "\<exists>x1 p1 l1 r1 k1 v1.
    (if IS_RED l then rotate_right (Node x p l r c k v) else Some (Node x p l r c k v))
      = Some (Node x1 p1 l1 r1 NODE_BLACK k1 v1) \<and> (k1 = k \<or> k1 \<in> set (keys_of (inorder l))) \<and> lean l1 \<and> lean r1 \<and> invh l1 \<and> invh r1 \<and>
      bheight l1 = bheight r1 \<and> Suc (bheight l1) = bheight (Node x p l r c k v) \<and> \<not> IS_RED l1 \<and> IS_RED r1 \<and>
      node_count_of r1 < node_count_of (Node x p l r c k v)"
  proof (cases "IS_RED l")
    case True
    then obtain y q yl yr yk yv where l: "l = Node y q yl yr NODE_RED yk yv" by (elim IS_RED_cases)
    show ?thesis using t unfolding l c by (auto simp: deletable_def right_heavy_def)
  next
    case False
    with t show ?thesis unfolding c by (auto simp: deletable_def right_heavy_def)
  qed
  then obtain x1 p1 l1 r1 k1 v1 where
    n1: "(if IS_RED l then rotate_right (Node x p l r c k v) else Some (Node x p l r c k v))
      = Some (Node x1 p1 l1 r1 NODE_BLACK k1 v1)"
    and 0: "k1 = k \<or> k1 \<in> set (keys_of (inorder l))"
    and 1: "lean l1" "lean r1" "invh l1" "invh r1" "bheight l1 = bheight r1"
      "Suc (bheight l1) = bheight (Node x p l r c k v)" "\<not> IS_RED l1" "IS_RED r1"
      "node_count_of r1 < node_count_of (Node x p l r c k v)"
    by blast
  have d: "deletable cmp key r1" "r1 \<noteq> NULL" using 1 by (auto simp: deletable_def)
  have "\<exists>u. delete_fix (Node x2' p1 l2' r3 NODE_BLACK k2' v2') = Some u \<and> repaired (Node x p l r c k v) u"
    if "repaired r1 r3" "bheight l2' = bheight l1" "lean l2' = lean l1" "invh l2' = invh l1" "IS_RED l2' = IS_RED l1"
    for r3 x2' l2' k2' v2'
    using delete_fix_shape [of l2' r3 NODE_BLACK x2' p1 k2' v2'] that 1 unfolding repaired_def by auto
  with n1 0 1 d show ?thesis by auto
qed

section \<open>The colour of the root\<close>

lemma children_toggle [simp]: "left_of (toggle t) = left_of t" "right_of (toggle t) = right_of t"
  by (cases t; simp)+

lemma rotate_left_toggle: "rotate_left (toggle t) = map_option toggle (rotate_left t)"
  by (cases t rule: rotate_left.cases) simp_all

lemma rotate_right_toggle: "rotate_right (toggle t) = map_option toggle (rotate_right t)"
  by (cases t rule: rotate_right.cases) simp_all

lemma flip_color_toggle: "flip_color (toggle t) = map_option toggle (flip_color t)"
  by (cases t) simp_all

lemmas rotations_toggle = rotate_left_toggle rotate_right_toggle flip_color_toggle

lemma move_red_left_tail_toggle:
  "move_red_left_tail (toggle t) = map_option toggle (move_red_left_tail t)"
proof (cases t)
  case (Node x p l r c k v)
  then show ?thesis by (cases r rule: rotate_right.cases) (auto, (metis color.exhaust)?)
qed simp

lemma move_red_right_tail_toggle:
  "move_red_right_tail (toggle t) = map_option toggle (move_red_right_tail t)"
  by (cases t rule: rotate_right.cases) auto

lemma map_option_bind_commute:
  "(\<And>y. g (h y) = map_option h' (g y)) \<Longrightarrow> map_option h x \<bind> g = map_option h' (x \<bind> g)"
  by (cases x) simp_all

lemma moves_toggle:
  "move_red_left (toggle t) = map_option toggle (move_red_left t)"
  "move_red_right (toggle t) = map_option toggle (move_red_right t)"
  unfolding move_red_left_def move_red_right_def
  by (simp_all add: flip_color_toggle map_option_bind_commute move_red_left_tail_toggle move_red_right_tail_toggle)

lemma fixes_toggle:
  "fix_right_rotation (toggle t) = map_option toggle (fix_right_rotation t)"
  "fix_flip (toggle t) = map_option toggle (fix_flip t)"
  by (simp_all add: fix_right_rotation_def fix_flip_def rotations_toggle)

lemma delete_fix_toggle: "delete_fix (toggle t) = map_option toggle (delete_fix t)"
  unfolding delete_fix_def
  by (auto simp: rotations_toggle fixes_toggle map_option_bind_commute)

end
