(* ===== verification/TreeMapSpec.thy ===== *)
theory TreeMapSpec
  imports TreeMapShape Seq
begin

text \<open>
  The specification of the ordered map. A map is the list of its nodes (address, key, value), ascending
  in the key; \<open>ins_key\<close> and \<open>del_key\<close> are insertion and deletion on the list, \<open>lookup\<close>,
  \<open>first_not_less\<close> and \<open>first_greater\<close> the searches. \<open>first_after\<close> and \<open>first_before\<close> say what
  becomes of the cached pointer \<open>tree_first\<close>. \<open>treemap_inv\<close> is the invariant of a map.
\<close>

definition ascending :: "('k \<Rightarrow> 'k \<Rightarrow> int) \<Rightarrow> 'k set \<Rightarrow> (addr \<times> 'k \<times> 'v) list \<Rightarrow> bool" where
  "ascending cmp K xs \<longleftrightarrow> set (keys_of xs) \<subseteq> K \<and> sorted_wrt (\<lambda>a b. cmp a b < 0) (keys_of xs)"

definition del_key :: "'k \<Rightarrow> (addr \<times> 'k \<times> 'v) list \<Rightarrow> (addr \<times> 'k \<times> 'v) list" where
  "del_key key xs = filter (\<lambda>e. fst (snd e) \<noteq> key) xs"

definition first_after :: "pointer \<Rightarrow> 'k \<Rightarrow> pointer \<Rightarrow> (addr \<times> 'k \<times> 'v) list \<Rightarrow> pointer" where
  "first_after q key f xs =
     (case xs of [] \<Rightarrow> f
      | e # ys \<Rightarrow> if f = Some (fst e) \<and> fst (snd e) = key
                 then (case ys of [] \<Rightarrow> q | e' # _ \<Rightarrow> Some (fst e')) else f)"

lemma ascending_append [simp]:
  "ascending cmp K (xs @ ys) \<longleftrightarrow> ascending cmp K xs \<and> ascending cmp K ys \<and>
     (\<forall>a \<in> set (keys_of xs). \<forall>b \<in> set (keys_of ys). cmp a b < 0)"
  by (auto simp: ascending_def sorted_wrt_append)

lemma ascending_Cons [simp]:
  "ascending cmp K (e # ys) \<longleftrightarrow> fst (snd e) \<in> K \<and> ascending cmp K ys \<and>
     (\<forall>b \<in> set (keys_of ys). cmp (fst (snd e)) b < 0)"
  by (auto simp: ascending_def)

lemma ascending_Nil [simp]: "ascending cmp K []"
  by (simp add: ascending_def)

lemma ascending_keys: "ascending cmp K xs \<Longrightarrow> k \<in> set (keys_of xs) \<Longrightarrow> k \<in> K"
  by (auto simp: ascending_def)

lemma del_key_simps [simp]:
  "del_key key [] = []" "del_key key (xs @ ys) = del_key key xs @ del_key key ys"
  "del_key key (e # ys) = (if fst (snd e) = key then del_key key ys else e # del_key key ys)"
  by (simp_all add: del_key_def)

lemma del_key_absent [simp]: "key \<notin> set (keys_of xs) \<Longrightarrow> del_key key xs = xs"
  by (induction xs) (auto simp: keys_of_def)

lemma first_after_left:
  assumes "xs \<noteq> []" shows "first_after (Some x) key f xs = first_after q key f (xs @ (x, e) # ys)"
  using assms by (cases xs) (auto simp: first_after_def split: list.splits)

lemma first_after_absent: "key \<notin> set (keys_of xs) \<Longrightarrow> first_after q key f xs = f"
  by (cases xs) (auto simp: first_after_def)

lemma first_after_right:
  assumes "f \<notin> Some ` fst ` set (tl (xs @ e # ys))" "key \<notin> set (keys_of xs)" "key \<noteq> fst (snd e)"
  shows "first_after q' key f ys = f" "first_after q key f (xs @ e # ys) = f"
  using assms by (cases xs; cases ys; auto simp: first_after_def)+

context cmp_order
begin

lemma key_before:
  assumes "ascending cmp K (xs @ e # ys)" "key \<in> K" "cmp key (fst (snd e)) < 0"
  shows "key \<notin> set (keys_of ys)" "key \<noteq> fst (snd e)"
  using assms cmp_asym [of key "fst (snd e)"] by auto

lemma key_after:
  assumes "ascending cmp K (xs @ e # ys)" "key \<in> K" "cmp (fst (snd e)) key < 0"
  shows "key \<notin> set (keys_of xs)" "key \<noteq> fst (snd e)"
  using assms cmp_asym [of key "fst (snd e)"] by auto

lemma key_at:
  assumes "ascending cmp K (xs @ e # ys)"
  shows "fst (snd e) \<notin> set (keys_of xs)" "fst (snd e) \<notin> set (keys_of ys)"
  using assms by auto

lemma key_not_before:
  assumes "ascending cmp K (xs @ (x, k, v) # ys)" "key \<in> K" "\<not> cmp key k < 0" "k2 = k \<or> k2 \<in> set (keys_of xs)"
    and "cmp key k2 \<noteq> 0"
  shows "cmp k2 key < 0"
proof -
  have *: "k \<in> K" "k2 \<in> K" "k2 = k \<or> cmp k2 k < 0" using assms by (auto dest: ascending_keys)
  then have "k = key \<or> cmp k key < 0" using assms cmp_not_less by blast
  then show ?thesis using * assms(2,5) cmp_trans [of k2 k key] cmp_eq [of key k2] by auto
qed

end

definition contents :: "('k, 'v) treemap \<Rightarrow> (addr \<times> 'k \<times> 'v) list" where
  "contents tm = inorder (tm_root tm)"

definition first_ok :: "pointer \<Rightarrow> (addr \<times> 'k \<times> 'v) list \<Rightarrow> bool" where
  "first_ok f xs \<longleftrightarrow> f = None \<or> xs \<noteq> [] \<and> f = Some (fst (hd xs))"

definition balanced :: "('k, 'v) tree_node \<Rightarrow> bool" where
  "balanced t \<longleftrightarrow> lean t \<and> invh t \<and> \<not> IS_RED t"

definition treemap_inv :: "('k \<Rightarrow> 'k \<Rightarrow> int) \<Rightarrow> 'k set \<Rightarrow> ('k, 'v) treemap \<Rightarrow> bool" where
  "treemap_inv cmp K tm \<longleftrightarrow>
     cmp_fn tm = cmp \<and> balanced (tm_root tm) \<and> parents_ok None (tm_root tm) \<and>
     ascending cmp K (contents tm) \<and> distinct (map fst (contents tm)) \<and>
     node_cnt tm = of_nat (length (contents tm)) \<and> first_ok (tm_first tm) (contents tm)"

lemma shape_set_color [simp]:
  "lean t \<Longrightarrow> lean (set_color NODE_BLACK t)" "invh (set_color c t) = invh t"
  "\<not> IS_RED (set_color NODE_BLACK t)"
  by (cases t; auto)+

lemma set_color_toggle [simp]: "set_color c (toggle t) = set_color c t"
  by (cases t) auto

lemma toggle_toggle [simp]: "toggle (toggle t) = t"
  by (cases t) auto

lemma shape_toggle: "\<not> IS_RED t \<Longrightarrow> \<not> IS_RED (left_of t) \<Longrightarrow> lean t \<Longrightarrow> lean (toggle t)"
  "invh (toggle t) = invh t" "t \<noteq> NULL \<Longrightarrow> \<not> IS_RED t \<Longrightarrow> IS_RED (toggle t)"
  by (cases t; auto)+

lemma first_ok_tl:
  "first_ok f xs \<Longrightarrow> distinct (map fst xs) \<Longrightarrow> f \<notin> Some ` fst ` set (tl xs)"
  by (cases xs) (auto simp: first_ok_def image_iff)

lemma del_key_length:
  "ascending cmp K xs \<Longrightarrow> (\<And>a. a \<in> K \<Longrightarrow> \<not> cmp a a < 0) \<Longrightarrow>
     length xs = length (del_key key xs) + of_bool (key \<in> set (keys_of xs))"
  by (induction xs) auto

lemma first_ok_del:
  "first_ok f xs \<Longrightarrow> ascending cmp K xs \<Longrightarrow> (\<And>a. a \<in> K \<Longrightarrow> \<not> cmp a a < 0) \<Longrightarrow>
     first_ok (first_after None key f xs) (del_key key xs)"
  by (cases xs) (auto simp: first_ok_def first_after_def split: list.splits)

lemma ascending_del: "ascending cmp K xs \<Longrightarrow> ascending cmp K (del_key key xs)"
  by (auto simp: ascending_def del_key_def keys_of_def sorted_wrt_map intro: sorted_wrt_filter)

lemma distinct_del: "distinct (map fst xs) \<Longrightarrow> distinct (map fst (del_key key xs))"
  by (simp add: del_key_def distinct_map_filter)

fun ins_key :: "('k \<Rightarrow> 'k \<Rightarrow> int) \<Rightarrow> (addr \<times> 'k \<times> 'v) \<Rightarrow> (addr \<times> 'k \<times> 'v) list \<Rightarrow> (addr \<times> 'k \<times> 'v) list" where
  "ins_key cmp e [] = [e]"
| "ins_key cmp e (y # ys) = (if cmp (fst (snd e)) (fst (snd y)) < 0 then e # y # ys else y # ins_key cmp e ys)"

definition first_before :: "('k \<Rightarrow> 'k \<Rightarrow> int) \<Rightarrow> addr \<Rightarrow> 'k \<Rightarrow> pointer \<Rightarrow> (addr \<times> 'k \<times> 'v) list \<Rightarrow> pointer" where
  "first_before cmp a key f xs =
     (if xs \<noteq> [] \<and> f = Some (fst (hd xs)) \<and> cmp key (fst (snd (hd xs))) < 0 then Some a else f)"

lemma ins_key_left:
  "cmp (fst (snd e)) (fst (snd p)) < 0 \<Longrightarrow> ins_key cmp e (xs @ p # ys) = ins_key cmp e xs @ p # ys"
  by (induction xs) auto

lemma ins_key_right:
  "\<forall>a \<in> set (keys_of xs). \<not> cmp (fst (snd e)) a < 0 \<Longrightarrow> ins_key cmp e (xs @ ys) = xs @ ins_key cmp e ys"
  by (induction xs) auto

lemma ins_key_set: "set (ins_key cmp e xs) = insert e (set xs)"
  by (induction xs) auto

lemma ins_key_length [simp]: "length (ins_key cmp e xs) = Suc (length xs)"
  by (induction xs) auto

lemma ins_key_distinct:
  "distinct (map fst xs) \<Longrightarrow> fst e \<notin> fst ` set xs \<Longrightarrow> distinct (map fst (ins_key cmp e xs))"
  by (induction xs) (auto simp: ins_key_set)

lemma keys_of_set: "set (keys_of xs) = (fst \<circ> snd) ` set xs"
  by (simp add: keys_of_def)

lemma ins_key_del_key:
  "fst (snd e) \<notin> set (keys_of xs) \<Longrightarrow> del_key (fst (snd e)) (ins_key cmp e xs) = xs"
  by (induction xs) auto

lemma first_ok_ins:
  "first_ok f xs \<Longrightarrow> first_ok (first_before cmp a key f xs) (ins_key cmp (a, key, val) xs)"
  by (cases xs) (auto simp: first_ok_def first_before_def)

definition lookup :: "'k \<Rightarrow> (addr \<times> 'k \<times> 'v) list \<Rightarrow> pointer" where
  "lookup key xs = map_option fst (find (\<lambda>e. fst (snd e) = key) xs)"

definition first_not_less :: "('k \<Rightarrow> 'k \<Rightarrow> int) \<Rightarrow> 'k \<Rightarrow> (addr \<times> 'k \<times> 'v) list \<Rightarrow> pointer" where
  "first_not_less cmp key xs = map_option fst (find (\<lambda>e. \<not> cmp (fst (snd e)) key < 0) xs)"

definition first_greater :: "('k \<Rightarrow> 'k \<Rightarrow> int) \<Rightarrow> 'k \<Rightarrow> (addr \<times> 'k \<times> 'v) list \<Rightarrow> pointer" where
  "first_greater cmp key xs = map_option fst (find (\<lambda>e. cmp key (fst (snd e)) < 0) xs)"

lemma find_append: "find P (xs @ ys) = (case find P xs of None \<Rightarrow> find P ys | Some x \<Rightarrow> Some x)"
  by (induction xs) auto

lemma find_keys_None: "(\<And>k. k \<in> set (keys_of xs) \<Longrightarrow> \<not> P k) \<Longrightarrow> find (\<lambda>e. P (fst (snd e))) xs = None"
  by (induction xs) auto

lemma find_absent: "key \<notin> set (keys_of xs) \<Longrightarrow> find (\<lambda>e. fst (snd e) = key) xs = None"
  by (rule find_keys_None) auto

context cmp_order
begin

lemma ins_key_ascending:
  "ascending cmp K xs \<Longrightarrow> fst (snd e) \<in> K \<Longrightarrow> fst (snd e) \<notin> set (keys_of xs) \<Longrightarrow>
     ascending cmp K (ins_key cmp e xs)"
proof (induction xs)
  case (Cons y ys)
  let ?k = "fst (snd e)" and ?i = "fst (snd y)"
  have lt: "cmp ?i ?k < 0" if "\<not> cmp ?k ?i < 0" using that Cons.prems cmp_not_less [of ?k ?i] by auto
  have "cmp ?k b < 0" if "cmp ?k ?i < 0" "b \<in> set (keys_of ys)" for b
    using that Cons.prems cmp_trans [of ?k ?i b] by (auto dest: ascending_keys)
  with Cons lt show ?case by (auto simp: keys_of_set ins_key_set)
qed simp

end

end
