(* ===== verification/TreeMapDelete.thy ===== *)
theory TreeMapDelete
  imports TreeMapSpec
begin

text \<open>
  The deletion of \<^verbatim>\<open>src/common/treemap.c\<close> does what \<open>del_key\<close> does on the list of nodes, keeps the
  invariant, and never follows a null pointer.
\<close>

definition delete_left_step where
  "delete_left_step tm key n = (case n of NULL \<Rightarrow> None
     | Node x1 p1 l1 r1 c1 k1 v1 \<Rightarrow> do {
         (tm1, l2, ret) \<leftarrow> treemap_delete_internal tm l1 key;
         n2 \<leftarrow> delete_fix (Node x1 p1 l2 r1 c1 k1 v1);
         Some (tm1, n2, ret)
       })"

definition delete_here_step where
  "delete_here_step tm key n = (case n of NULL \<Rightarrow> None
     | Node x2 p2 l2 r2 c2 k2 v2 \<Rightarrow>
         if cmp_fn tm key k2 = 0 then do {
           (r3, mn) \<leftarrow> delete_min r2;
           case mn of NULL \<Rightarrow> None
           | Node xm pm lm rm cm km vm \<Rightarrow>
               (let n3 = Node xm p2 (set_parent (Some xm) l2)
                           (set_parent (Some xm) r3) c2 km vm;
                    tm1 = (if tm_first tm = Some x2 then tm\<lparr>tm_first := Some xm\<rparr> else tm)
                in do { n4 \<leftarrow> delete_fix n3; Some (release_node tm1, n4, 1) })
         }
         else do {
           (tm1, r3, ret) \<leftarrow> treemap_delete_internal tm r2 key;
           n4 \<leftarrow> delete_fix (Node x2 p2 l2 r3 c2 k2 v2);
           Some (tm1, n4, ret)
         })"

definition delete_right_step where
  "delete_right_step tm key n = (case n of NULL \<Rightarrow> None
     | Node x1 p1 l1 r1 c1 k1 v1 \<Rightarrow>
         if cmp_fn tm key k1 = 0 \<and> r1 = NULL then
           (let tm1 = (if tm_first tm = Some x1 then tm\<lparr>tm_first := p1\<rparr> else tm)
            in Some (release_node tm1, NULL, 1))
         else do {
           n2 \<leftarrow> (if r1 \<noteq> NULL \<and> \<not> IS_RED r1 \<and> \<not> IS_RED (left_of r1)
                 then move_red_right n else Some n);
           delete_here_step tm key n2
         })"

lemma treemap_delete_internal_steps:
  assumes "t = Node x p l r c k v"
  shows "treemap_delete_internal tm t key =
    (if cmp_fn tm key k < 0 then
       (if l = NULL then Some (tm, t, 0)
        else (if \<not> IS_RED l \<and> \<not> IS_RED (left_of l) then move_red_left t else Some t) \<bind> delete_left_step tm key)
     else (if IS_RED l then rotate_right t else Some t) \<bind> delete_right_step tm key)"
  unfolding assms treemap_delete_internal.simps delete_left_step_def [abs_def] delete_right_step_def [abs_def]
    delete_here_step_def [abs_def]
  by (auto intro!: arg_cong2 [where f = Option.bind] ext split: tree_node.splits)

declare treemap_delete_internal.simps(2) [simp del]

text \<open>After the two preparing steps, the descent to the right is the removal at the node reached.\<close>

lemma treemap_delete_internal_here:
  assumes "t = Node x p l r c k v" "\<not> cmp_fn tm key k < 0"
    and n1: "(if IS_RED l then rotate_right t else Some t) = Some n1" "n1 = Node x1 p1 l1 r1 c1 k1 v1"
    and "\<not> (cmp_fn tm key k1 = 0 \<and> r1 = NULL)"
    and n2: "(if r1 \<noteq> NULL \<and> \<not> IS_RED r1 \<and> \<not> IS_RED (left_of r1) then move_red_right n1 else Some n1) = Some n2"
  shows "treemap_delete_internal tm t key = delete_here_step tm key n2"
proof -
  have "treemap_delete_internal tm t key = delete_right_step tm key n1"
    unfolding treemap_delete_internal_steps [OF assms(1)] n1(1) using assms(2) by simp
  also have "\<dots> = (if r1 \<noteq> NULL \<and> \<not> IS_RED r1 \<and> \<not> IS_RED (left_of r1) then move_red_right n1 else Some n1)
      \<bind> delete_here_step tm key"
    using assms(5) by (auto simp: delete_right_step_def n1(2))
  finally show ?thesis unfolding n2 by simp
qed

abbreviation toggle_result :: "(('k, 'v) treemap \<times> ('k, 'v) tree_node \<times> int) option \<Rightarrow>
    (('k, 'v) treemap \<times> ('k, 'v) tree_node \<times> int) option" where
  "toggle_result \<equiv> map_option (map_prod id (map_prod toggle id))"

lemma toggle_result_Some:
  "toggle_result r = Some (tm, u, ret) \<Longrightarrow> r = Some (tm, toggle u, ret)"
  by (cases r) auto

lemma delete_fix_toggle_Node:
  "delete_fix (Node x p l r (if c = NODE_RED then NODE_BLACK else NODE_RED) k v)
   = map_option toggle (delete_fix (Node x p l r c k v))"
  using delete_fix_toggle [of "Node x p l r c k v"] by simp

lemma delete_left_step_toggle:
  "delete_left_step tm key (toggle n) = toggle_result (delete_left_step tm key n)"
  by (cases n) (auto simp: delete_left_step_def delete_fix_toggle_Node
      split: Option.bind_split)

lemma delete_here_step_toggle:
  "delete_here_step tm key (toggle n) = toggle_result (delete_here_step tm key n)"
  by (cases n) (auto simp: delete_here_step_def Let_def delete_fix_toggle_Node
      split: Option.bind_split tree_node.splits)

lemma delete_right_step_toggle:
  "delete_right_step tm key (toggle n) = toggle_result (delete_right_step tm key n)"
proof (cases n)
  case (Node x p l r c k v)
  have "move_red_right (toggle n) \<bind> delete_here_step tm key = toggle_result (move_red_right n \<bind> delete_here_step tm key)"
    by (simp add: moves_toggle map_option_bind_commute delete_here_step_toggle)
  with Node delete_here_step_toggle [of tm key n] show ?thesis
    by (auto simp: delete_right_step_def Let_def)
qed (simp add: delete_right_step_def)

lemma delete_internal_toggle:
  "treemap_delete_internal tm (toggle t) key = toggle_result (treemap_delete_internal tm t key)"
proof (cases t)
  case (Node x p l r c k v)
  then have "toggle t = Node x p l r (if c = NODE_RED then NODE_BLACK else NODE_RED) k v" by simp
  note steps = treemap_delete_internal_steps [OF Node] treemap_delete_internal_steps [OF this]
  show ?thesis
    by (simp add: steps moves_toggle rotations_toggle map_option_bind_commute
        delete_left_step_toggle delete_right_step_toggle)
qed simp

definition deletes :: "('k, 'v) treemap \<Rightarrow> 'k \<Rightarrow> pointer \<Rightarrow> ('k, 'v) tree_node \<Rightarrow> bool" where
  "deletes tm key q t \<longleftrightarrow>
     (\<exists>u. treemap_delete_internal tm t key =
       Some (tm\<lparr>node_cnt := node_cnt tm - of_bool (key \<in> set (keys_of (inorder t))),
                tm_first := first_after q key (tm_first tm) (inorder t)\<rparr>, u,
             of_bool (key \<in> set (keys_of (inorder t)))) \<and>
       repaired t u \<and> parents_ok q u \<and> inorder u = del_key key (inorder t))"

definition delete_pre :: "'k set \<Rightarrow> ('k, 'v) treemap \<Rightarrow> 'k \<Rightarrow> pointer \<Rightarrow> ('k, 'v) tree_node \<Rightarrow> bool" where
  "delete_pre K tm key q t \<longleftrightarrow> deletable (cmp_fn tm) key t \<and> parents_ok q t \<and> key \<in> K \<and>
     ascending (cmp_fn tm) K (inorder t) \<and> tm_first tm \<notin> Some ` fst ` set (tl (inorder t))"

context cmp_order
begin

lemma delete_internal_left:
  assumes tm: "cmp_fn tm = cmp" and pre: "delete_pre K tm key q (Node x p l r c k v)" and lt: "cmp key k < 0"
    and IH: "\<And>t q. node_count_of t < node_count_of (Node x p l r c k v) \<Longrightarrow> delete_pre K tm key q t \<Longrightarrow> deletes tm key q t"
  shows "deletes tm key q (Node x p l r c k v)"
proof -
  let ?t = "Node x p l r c k v"
  have l: "lean ?t" "invh ?t" "c = NODE_RED \<or> IS_RED l"
    using pre lt tm by (auto simp: delete_pre_def deletable_def right_heavy_def)
  have K: "key \<in> K" "ascending cmp K (inorder ?t)" using pre tm by (auto simp: delete_pre_def)
  have kr: "key \<notin> set (keys_of (inorder r))" "key \<noteq> k"
    using key_before [of "inorder l" "(x, k, v)" "inorder r" key] K lt by auto
  show ?thesis
  proof (cases "l = NULL")
    case True
    then have nin: "key \<notin> set (keys_of (inorder ?t))" using kr by simp
    then have "repaired ?t ?t" using l by (auto simp: repaired_def)
    then show ?thesis using True nin pre tm lt first_after_absent [OF nin] del_key_absent [OF nin]
      by (simp add: deletes_def delete_pre_def treemap_delete_internal_steps)
  next
    case False
    obtain x1 p1 l1 r1 c1 k1 v1 where
      n1: "(if \<not> IS_RED l \<and> \<not> IS_RED (left_of l) then move_red_left ?t else Some ?t) = Some (Node x1 p1 l1 r1 c1 k1 v1)"
      and k1: "k1 = k \<or> k1 \<in> set (keys_of (inorder r))"
      and d: "lean l1" "invh l1" "IS_RED l1 \<or> IS_RED (left_of l1)" "l1 \<noteq> NULL"
      and fx: "\<And>l2. repaired l1 l2 \<Longrightarrow> \<exists>u. delete_fix (Node x1 p1 l2 r1 c1 k1 v1) = Some u \<and> repaired ?t u"
      and n: "node_count_of l1 < node_count_of ?t"
      using descend_left [OF l False] by blast
    have io: "inorder (Node x1 p1 l1 r1 c1 k1 v1) = inorder ?t" "parents_ok q (Node x1 p1 l1 r1 c1 k1 v1)"
      using n1 pre move_red_left_content [of ?t _ q] by (auto simp: delete_pre_def split: if_splits)
    have K1: "ascending cmp K (inorder l1 @ (x1, k1, v1) # inorder r1)"
      using K(2) io(1) by (metis inorder.simps(2))
    have "cmp key k1 < 0" using k1 lt K cmp_trans [of key k k1] by (auto dest: ascending_keys)
    then have nin: "key \<notin> set (keys_of (inorder r1))" "key \<noteq> k1"
      using key_before [OF K1 K(1)] by simp_all
    have "delete_pre K tm key (Some x1) l1"
      using pre d io nin unfolding delete_pre_def tm io(1) [symmetric]
      by (cases "inorder l1") (auto simp: deletable_def)
    from IH [OF n this] obtain l2 where l2: "treemap_delete_internal tm l1 key =
       Some (tm\<lparr>node_cnt := node_cnt tm - of_bool (key \<in> set (keys_of (inorder l1))),
                tm_first := first_after (Some x1) key (tm_first tm) (inorder l1)\<rparr>, l2,
             of_bool (key \<in> set (keys_of (inorder l1))))"
       "repaired l1 l2" "parents_ok (Some x1) l2" "inorder l2 = del_key key (inorder l1)"
      unfolding deletes_def by blast
    obtain u where u: "delete_fix (Node x1 p1 l2 r1 c1 k1 v1) = Some u" "repaired ?t u"
      using fx [OF l2(2)] by blast
    have "first_after (Some x1) key (tm_first tm) (inorder l1) = first_after q key (tm_first tm) (inorder ?t)"
      using first_after_left [of "inorder l1" x1 key "tm_first tm" q "(k1, v1)" "inorder r1"] d(4) io(1) by simp
    moreover have "treemap_delete_internal tm ?t key = delete_left_step tm key (Node x1 p1 l1 r1 c1 k1 v1)"
      unfolding treemap_delete_internal_steps [OF refl] n1 using lt False by (simp add: tm)
    ultimately show ?thesis
      using l2 u nin delete_fix_content [OF u(1), of q] io(2)
      unfolding deletes_def io(1) [symmetric] by (auto simp: delete_left_step_def)
  qed
qed

end

context cmp_order
begin

lemma delete_here:
  assumes tm: "cmp_fn tm = cmp" and K: "ascending cmp K (inorder (Node x2 p2 l2 r2 c2 k2 v2))"
    and p: "parents_ok q (Node x2 p2 l2 r2 c2 k2 v2)"
    and f: "tm_first tm \<notin> Some ` fst ` set (tl (inorder (Node x2 p2 l2 r2 c2 k2 v2)))"
    and r2: "lean r2" "invh r2" "IS_RED r2 \<or> IS_RED (left_of r2)" "r2 \<noteq> NULL"
    and fx: "\<And>r3 x2' l2' k2' v2'. repaired r2 r3 \<Longrightarrow> bheight l2' = bheight l2 \<Longrightarrow> lean l2' = lean l2 \<Longrightarrow>
         invh l2' = invh l2 \<Longrightarrow> IS_RED l2' = IS_RED l2 \<Longrightarrow>
        \<exists>u. delete_fix (Node x2' p2 l2' r3 c2 k2' v2') = Some u \<and> repaired t u"
  shows "\<exists>r3 xm pm lm rm cm km vm n4. delete_min r2 = Some (r3, Node xm pm lm rm cm km vm) \<and>
    delete_fix (Node xm p2 (set_parent (Some xm) l2) (set_parent (Some xm) r3) c2 km vm) = Some n4 \<and>
    repaired t n4 \<and> parents_ok q n4 \<and>
    inorder n4 = del_key k2 (inorder (Node x2 p2 l2 r2 c2 k2 v2)) \<and>
    (if tm_first tm = Some x2 then Some xm else tm_first tm)
      = first_after q k2 (tm_first tm) (inorder (Node x2 p2 l2 r2 c2 k2 v2))"
proof -
  obtain r3 xm pm lm rm cm km vm where d: "delete_min r2 = Some (r3, Node xm pm lm rm cm km vm)"
    "repaired r2 r3" "parents_ok (Some x2) r3" "inorder r2 = (xm, km, vm) # inorder r3"
    using delete_min_spec [OF r2, of "Some x2"] p by auto
  have "repaired r2 (set_parent (Some xm) r3)" using d(2) by (simp add: repaired_def)
  then obtain n4 where n4: "delete_fix (Node xm p2 (set_parent (Some xm) l2) (set_parent (Some xm) r3) c2 km vm) = Some n4"
    "repaired t n4"
    using fx [of "set_parent (Some xm) r3" "set_parent (Some xm) l2" xm km vm] by auto
  have k2: "k2 \<notin> set (keys_of (inorder l2))" "k2 \<notin> set (keys_of (inorder r2))"
    using key_at [of "inorder l2" "(x2, k2, v2)" "inorder r2"] K by auto
  have "first_after q k2 (tm_first tm) (inorder l2 @ (x2, k2, v2) # inorder r2) =
    (if tm_first tm = Some x2 then Some xm else tm_first tm)"
    using f k2(1) d(4) by (cases "inorder l2") (auto simp: first_after_def)
  then show ?thesis
    using d n4 k2 p delete_fix_content [OF n4(1), of q] by auto
qed

lemma delete_internal_right:
  assumes tm: "cmp_fn tm = cmp" and pre: "delete_pre K tm key q (Node x p l r c k v)" and ge: "\<not> cmp key k < 0"
    and IH: "\<And>t q. node_count_of t < node_count_of (Node x p l r c k v) \<Longrightarrow> delete_pre K tm key q t \<Longrightarrow> deletes tm key q t"
  shows "deletes tm key q (Node x p l r c k v)"
proof -
  let ?t = "Node x p l r c k v"
  have del: "deletable cmp key ?t" and K: "key \<in> K" "ascending cmp K (inorder ?t)"
    and f: "tm_first tm \<notin> Some ` fst ` set (tl (inorder ?t))"
    using pre tm by (auto simp: delete_pre_def)
  obtain x1 p1 l1 r1 c1 k1 v1 x2 p2 l2 r2 c2 k2 v2 where
    n1: "(if IS_RED l then rotate_right ?t else Some ?t) = Some (Node x1 p1 l1 r1 c1 k1 v1)" and
    lf: "r1 = NULL \<longrightarrow> l1 = NULL \<and> repaired ?t NULL" and
    n2: "(if r1 \<noteq> NULL \<and> \<not> IS_RED r1 \<and> \<not> IS_RED (left_of r1) then move_red_right (Node x1 p1 l1 r1 c1 k1 v1)
      else Some (Node x1 p1 l1 r1 c1 k1 v1)) = Some (Node x2 p2 l2 r2 c2 k2 v2)" and
    k2: "k2 = k \<or> k2 \<in> set (keys_of (inorder l))" and
    d: "deletable cmp key r2" "r2 = NULL \<longrightarrow> r1 = NULL \<and> k2 = k1" and
    fx': "\<forall>r3 x2' l2' k2' v2'. repaired r2 r3 \<and> bheight l2' = bheight l2 \<and> lean l2' = lean l2 \<and>
         invh l2' = invh l2 \<and> IS_RED l2' = IS_RED l2 \<longrightarrow>
        (\<exists>u. delete_fix (Node x2' p2 l2' r3 c2 k2' v2') = Some u \<and> repaired ?t u)" and
    n: "node_count_of r2 < node_count_of ?t"
    using descend_right [OF del ge] by (elim exE conjE) rule
  have fx: "\<exists>u. delete_fix (Node x2' p2 l2' r3 c2 k2' v2') = Some u \<and> repaired ?t u"
    if "repaired r2 r3" "bheight l2' = bheight l2" "lean l2' = lean l2" "invh l2' = invh l2" "IS_RED l2' = IS_RED l2"
    for r3 x2' l2' k2' v2' using fx' that by blast
  let ?n1 = "Node x1 p1 l1 r1 c1 k1 v1" and ?n2 = "Node x2 p2 l2 r2 c2 k2 v2"
  have io1: "inorder ?n1 = inorder ?t" "parents_ok q ?n1"
    using n1 pre rotate_right_content [of ?t ?n1 q] by (auto simp: delete_pre_def split: if_splits)
  have io: "inorder ?n2 = inorder ?t" "parents_ok q ?n2"
    using n2 io1 move_red_right_content [of ?n1 ?n2 q] by (auto split: if_splits)
  have K2: "ascending cmp K (inorder ?n2)" using K(2) io(1) by simp
  have k2K: "k2 \<in> K" using K2 by simp
  have "ascending cmp K (inorder ?n1)" using K(2) io1(1) by simp
  then have k1K: "k1 \<in> K" by simp
  consider (leaf) "cmp key k1 = 0" "r1 = NULL" | (here) "\<not> (cmp key k1 = 0 \<and> r1 = NULL)" "cmp key k2 = 0"
    | (right) "\<not> (cmp key k1 = 0 \<and> r1 = NULL)" "cmp key k2 \<noteq> 0" by blast
  then show ?thesis
  proof cases
    case leaf
    with lf have "inorder ?t = [(x1, k1, v1)]" "repaired ?t NULL"
      using io1(1) by auto
    moreover have "key = k1" using leaf(1) K(1) k1K cmp_eq by blast
    moreover have "treemap_delete_internal tm ?t key = delete_right_step tm key ?n1"
      unfolding treemap_delete_internal_steps [OF refl] n1 using ge by (simp add: tm)
    ultimately show ?thesis
      using leaf io1(2) unfolding deletes_def \<open>inorder ?t = _\<close>
      by (auto simp: tm release_node_def first_after_def delete_right_step_def)
  next
    case here
    then have key: "key = k2" using cmp_eq K(1) k2K by blast
    have "\<not> right_heavy cmp key r2"
      using K2 unfolding key right_heavy_def by auto
    moreover have "r2 \<noteq> NULL" using d(2) here by auto
    ultimately have r2: "lean r2" "invh r2" "IS_RED r2 \<or> IS_RED (left_of r2)" "r2 \<noteq> NULL"
      using d(1) by (auto simp: deletable_def)
    obtain r3 xm pm lm rm cm km vm n4 where m: "delete_min r2 = Some (r3, Node xm pm lm rm cm km vm)"
      "delete_fix (Node xm p2 (set_parent (Some xm) l2) (set_parent (Some xm) r3) c2 km vm) = Some n4"
      "repaired ?t n4" "parents_ok q n4" "inorder n4 = del_key k2 (inorder ?n2)"
      "(if tm_first tm = Some x2 then Some xm else tm_first tm) = first_after q k2 (tm_first tm) (inorder ?n2)"
      using delete_here [OF tm K2 io(2) _ r2 fx] f unfolding io(1) by blast
    have "treemap_delete_internal tm ?t key = delete_here_step tm key ?n2"
      using here(1) ge by (intro treemap_delete_internal_here [OF refl _ n1 refl _ n2]) (auto simp: tm)
    also have "\<dots> = Some (tm\<lparr>node_cnt := node_cnt tm - 1,
        tm_first := if tm_first tm = Some x2 then Some xm else tm_first tm\<rparr>, n4, 1)"
      using here(2) m(1,2) by (simp add: delete_here_step_def tm release_node_def)
    finally have del_eq: "treemap_delete_internal tm ?t key = Some (tm\<lparr>node_cnt := node_cnt tm - 1,
        tm_first := first_after q k2 (tm_first tm) (inorder ?t)\<rparr>, n4, 1)" using m(6) unfolding io(1) by simp
    have "k2 \<in> set (keys_of (inorder ?n2))" by simp
    then have "k2 \<in> set (keys_of (inorder ?t))" unfolding io(1) .
    then show ?thesis using del_eq m(3-5) unfolding deletes_def key io(1) by simp
  next
    case right
    have lt: "cmp k2 key < 0"
      using key_not_before [of "inorder l" x k v "inorder r" key k2] K ge k2 right by simp
    have nin: "key \<notin> set (keys_of (inorder l2))" "key \<noteq> k2"
      using key_after [of "inorder l2" "(x2, k2, v2)" "inorder r2" key] K2 K(1) lt by auto
    have "delete_pre K tm key (Some x2) r2"
      using f d(1) io K(1) K2 unfolding delete_pre_def tm io(1) [symmetric]
      by (cases "inorder l2"; cases "inorder r2") auto
    from IH [OF n this] obtain r3 where r3: "treemap_delete_internal tm r2 key =
       Some (tm\<lparr>node_cnt := node_cnt tm - of_bool (key \<in> set (keys_of (inorder r2))),
                tm_first := first_after (Some x2) key (tm_first tm) (inorder r2)\<rparr>, r3,
             of_bool (key \<in> set (keys_of (inorder r2))))"
       "repaired r2 r3" "parents_ok (Some x2) r3" "inorder r3 = del_key key (inorder r2)"
      unfolding deletes_def by blast
    obtain u where u: "delete_fix (Node x2 p2 l2 r3 c2 k2 v2) = Some u" "repaired ?t u"
      using fx [OF r3(2)] by blast
    have fa: "first_after (Some x2) key (tm_first tm) (inorder r2) = first_after q key (tm_first tm) (inorder ?n2)"
      using first_after_right [of "tm_first tm" "inorder l2" "(x2, k2, v2)" "inorder r2" key "Some x2"]
        first_after_right(2) [of "tm_first tm" "inorder l2" "(x2, k2, v2)" "inorder r2" key q] f nin io(1) by simp
    have "treemap_delete_internal tm ?t key = Some (tm\<lparr>node_cnt := node_cnt tm - of_bool (key \<in> set (keys_of (inorder r2))),
                tm_first := first_after q key (tm_first tm) (inorder ?n2)\<rparr>, u, of_bool (key \<in> set (keys_of (inorder r2))))"
      using treemap_delete_internal_here [OF refl _ n1 refl _ n2, where key = key and tm = tm] ge right r3(1) u(1) fa
      by (simp add: delete_here_step_def tm)
    then show ?thesis using r3 u nin delete_fix_content [OF u(1), of q] io
      unfolding deletes_def io(1) [symmetric] by auto
  qed
qed

lemma delete_internal_spec:
  assumes "cmp_fn tm = cmp" "delete_pre K tm key q t"
  shows "deletes tm key q t"
  using assms(2)
proof (induction "node_count_of t" arbitrary: t q rule: less_induct)
  case less
  show ?case
  proof (cases t)
    case NULL
    then show ?thesis by (simp add: deletes_def repaired_def first_after_def)
  next
    case (Node x p l r c k v)
    then show ?thesis
      using less delete_internal_left [OF assms(1), of key q x p l r c k v]
        delete_internal_right [OF assms(1), of key q x p l r c k v] by blast
  qed
qed

end

context cmp_order
begin

lemma delete_internal_root:
  assumes inv: "treemap_inv cmp K tm" and K: "key \<in> K"
  shows "\<exists>u. treemap_delete_internal tm (tm_root tm) key =
       Some (tm\<lparr>node_cnt := node_cnt tm - of_bool (key \<in> set (keys_of (contents tm))),
                tm_first := first_after None key (tm_first tm) (contents tm)\<rparr>, u,
             of_bool (key \<in> set (keys_of (contents tm)))) \<and>
     lean (set_color NODE_BLACK u) \<and> invh u \<and> parents_ok None u \<and> inorder u = del_key key (contents tm)"
proof -
  let ?t = "tm_root tm"
  define t where "t = (if ?t = NULL \<or> IS_RED (left_of ?t) then ?t else toggle ?t)"
  have inv': "cmp_fn tm = cmp" "lean ?t" "invh ?t" "\<not> IS_RED ?t" "parents_ok None ?t" "ascending cmp K (inorder ?t)"
    "tm_first tm \<notin> Some ` fst ` set (tl (inorder ?t))"
    using inv by (auto simp: treemap_inv_def balanced_def contents_def dest: first_ok_tl)
  have "delete_pre K tm key None t"
    using inv' K unfolding delete_pre_def t_def deletable_def by (auto simp: shape_toggle)
  from delete_internal_spec [OF inv'(1) this]
  obtain u where u: "treemap_delete_internal tm t key =
       Some (tm\<lparr>node_cnt := node_cnt tm - of_bool (key \<in> set (keys_of (inorder t))),
                tm_first := first_after None key (tm_first tm) (inorder t)\<rparr>, u,
             of_bool (key \<in> set (keys_of (inorder t))))"
       "repaired t u" "parents_ok None u" "inorder u = del_key key (inorder t)"
    unfolding deletes_def by blast
  have t: "inorder t = contents tm" by (simp add: t_def contents_def)
  show ?thesis
  proof (cases "?t = NULL \<or> IS_RED (left_of ?t)")
    case True
    then show ?thesis using u by (auto simp: t_def repaired_def contents_def)
  next
    case False
    then have "t = toggle ?t" by (simp add: t_def)
    with u(1) have "treemap_delete_internal tm ?t key = Some (tm\<lparr>node_cnt := node_cnt tm - of_bool (key \<in> set (keys_of (inorder t))),
                tm_first := first_after None key (tm_first tm) (inorder t)\<rparr>, toggle u,
             of_bool (key \<in> set (keys_of (inorder t))))"
      using delete_internal_toggle [of tm ?t key] by (auto dest!: toggle_result_Some)
    then show ?thesis using u(2-4) t by (auto simp: repaired_def shape_toggle)
  qed
qed

lemma treemap_delete_spec:
  assumes inv: "treemap_inv cmp K tm" and K: "key \<in> K"
  shows "\<exists>tm'. treemap_delete tm key = Some (tm', of_bool (key \<in> set (keys_of (contents tm)))) \<and>
     treemap_inv cmp K tm' \<and> contents tm' = del_key key (contents tm)"
proof -
  obtain u where u: "treemap_delete_internal tm (tm_root tm) key =
       Some (tm\<lparr>node_cnt := node_cnt tm - of_bool (key \<in> set (keys_of (contents tm))),
                tm_first := first_after None key (tm_first tm) (contents tm)\<rparr>, u,
             of_bool (key \<in> set (keys_of (contents tm))))"
     "lean (set_color NODE_BLACK u)" "invh u" "parents_ok None u" "inorder u = del_key key (contents tm)"
    using delete_internal_root [OF assms] by blast
  have "of_nat (length (contents tm)) - of_bool (key \<in> set (keys_of (contents tm)))
      = (of_nat (length (del_key key (contents tm))) :: u32)"
    using del_key_length [of cmp K "contents tm" key] inv by (simp add: treemap_inv_def)
  then show ?thesis
    using u inv ascending_del distinct_del first_ok_del [of "tm_first tm" "contents tm" cmp K key]
    by (auto simp: treemap_delete_def treemap_inv_def balanced_def contents_def)
qed

end

end
