(* ===== verification/TreeMapInsert.thy ===== *)
theory TreeMapInsert
  imports TreeMapSpec
begin

text \<open>
  The insertion of \<^verbatim>\<open>src/common/treemap.c\<close> on its three branches: a new key, a key that is present,
  and an allocation that fails.
\<close>

text \<open>The shape of a subtree after an insertion into \<open>t\<close>.\<close>

definition grown :: "('k, 'v) tree_node \<Rightarrow> ('k, 'v) tree_node \<Rightarrow> bool" where
  "grown t u \<longleftrightarrow> invh u \<and> bheight u = bheight t \<and> lean (left_of u) \<and> lean (right_of u) \<and>
     \<not> IS_RED (right_of u) \<and> u \<noteq> NULL \<and> (if IS_RED t then IS_RED u else lean u)"

lemma grownD:
  assumes "grown t u" obtains x p l r c k v where "u = Node x p l r c k v" "lean l" "lean r" "\<not> IS_RED r"
    "invh l" "invh r" "bheight l = bheight r"
  using assms by (cases u) (auto simp: grown_def)

lemma insert_fix_left:
  assumes "lean (Node x p l r c k v)" "invh (Node x p l r c k v)" "grown l l1"
  shows "\<exists>u. insert_fix (Node x p l1 r c k v) = Some u \<and> grown (Node x p l r c k v) u"
proof -
  obtain y q yl yr yc yk yv where l1: "l1 = Node y q yl yr yc yk yv" "lean yl" "lean yr" "\<not> IS_RED yr"
    "invh yl" "invh yr" "bheight yl = bheight yr" using assms(3) by (rule grownD)
  have r: "\<not> IS_RED r" "lean r" "invh r" "bheight l1 = bheight r" using assms by (auto simp: grown_def)
  show ?thesis
  proof (cases "IS_RED l1 \<and> IS_RED yl")
    case True
    then have "IS_RED l" using assms(3) l1 by (auto simp: grown_def split: if_splits)
    then have c: "c = NODE_BLACK" using assms(1) by (cases c) auto
    have l1': "yc = NODE_RED" using True l1 by (cases yc) auto
    obtain z s zl zr zk zv where yl: "yl = Node z s zl zr NODE_RED zk zv" using True by (auto elim: IS_RED_cases)
    show ?thesis using assms l1 r unfolding c l1' yl
      by (simp add: insert_fix_def fix_right_rotation_def fix_flip_def grown_def)
  next
    case False
    then have "insert_fix (Node x p l1 r c k v) = Some (Node x p l1 r c k v)"
      using l1 r(1) by (auto simp: insert_fix_def fix_right_rotation_def fix_flip_def)
    moreover have "grown (Node x p l r c k v) (Node x p l1 r c k v)"
      using assms l1 r False by (cases c; cases yc) (auto simp: grown_def split: if_splits)
    ultimately show ?thesis by blast
  qed
qed

lemma insert_fix_right:
  assumes "lean (Node x p l r c k v)" "invh (Node x p l r c k v)" "grown r r1"
  shows "\<exists>u. insert_fix (Node x p l r1 c k v) = Some u \<and> grown (Node x p l r c k v) u"
proof -
  obtain y q yl yr yc yk yv where r1: "r1 = Node y q yl yr yc yk yv" "lean yl" "lean yr" "\<not> IS_RED yr"
    "invh yl" "invh yr" "bheight yl = bheight yr" using assms(3) by (rule grownD)
  have r: "\<not> IS_RED r" "lean r1" "bheight r1 = bheight r" "bheight l = bheight r"
    using assms by (auto simp: grown_def)
  show ?thesis
  proof (cases yc)
    case NODE_BLACK
    then have "insert_fix (Node x p l r1 c k v) = Some (Node x p l r1 c k v)"
      using r1 assms(1) by (cases l) (auto simp: insert_fix_def fix_right_rotation_def fix_flip_def)
    moreover have "grown (Node x p l r c k v) (Node x p l r1 c k v)"
      using assms r1 r NODE_BLACK by (cases c) (auto simp: grown_def split: if_splits)
    ultimately show ?thesis by blast
  next
    case NODE_RED
    show ?thesis
    proof (cases "IS_RED l")
      case True
      then obtain z s zl zr zk zv where l: "l = Node z s zl zr NODE_RED zk zv" by (auto elim: IS_RED_cases)
      then show ?thesis using assms r1 r unfolding NODE_RED
        by (cases c) (auto simp: insert_fix_def fix_right_rotation_def fix_flip_def grown_def)
    next
      case False
      then show ?thesis using assms r1 r unfolding NODE_RED
        by (cases c) (auto simp: insert_fix_def fix_right_rotation_def fix_flip_def grown_def)
    qed
  qed
qed

definition inserts :: "('k, 'v) treemap \<Rightarrow> pointer \<Rightarrow> 'k \<Rightarrow> 'v \<Rightarrow> addr \<Rightarrow> ('k, 'v) tree_node \<Rightarrow> bool" where
  "inserts tm q key val a t \<longleftrightarrow>
     (\<exists>u. treemap_insert_internal tm t q key val (Some a) =
       Some (tm\<lparr>node_cnt := node_cnt tm + 1,
                tm_first := first_before (cmp_fn tm) a key (tm_first tm) (inorder t)\<rparr>, u, 0, Some (Some a)) \<and>
       grown t u \<and> parents_ok q u \<and> inorder u = ins_key (cmp_fn tm) (a, key, val) (inorder t))"

context cmp_order
begin

lemma insert_internal_fresh:
  assumes tm: "cmp_fn tm = cmp" and "key \<in> K" "tm_first tm \<noteq> Some a"
    and "lean t" "invh t" "parents_ok q t" "ascending cmp K (inorder t)" "key \<notin> set (keys_of (inorder t))"
    and "a \<notin> fst ` set (inorder t)" "tm_first tm \<notin> Some ` fst ` set (tl (inorder t))"
  shows "inserts tm q key val a t"
  using assms(4-)
proof (induction t arbitrary: q)
  case NULL
  then show ?case by (simp add: inserts_def create_node_def first_before_def grown_def tm)
next
  case (Node x p l r c k v)
  let ?t = "Node x p l r c k v"
  have k: "k \<in> K" "k \<noteq> key" using Node.prems by auto
  show ?case
  proof (cases "cmp key k < 0")
    case True
    have "inserts tm (Some x) key val a l"
      using Node.prems by (intro Node.IH(1)) (cases "inorder l"; auto)+
    then obtain l1 where l1: "treemap_insert_internal tm l (Some x) key val (Some a) =
       Some (tm\<lparr>node_cnt := node_cnt tm + 1,
                tm_first := first_before cmp a key (tm_first tm) (inorder l)\<rparr>, l1, 0, Some (Some a))"
       "grown l l1" "parents_ok (Some x) l1" "inorder l1 = ins_key cmp (a, key, val) (inorder l)"
      unfolding inserts_def tm by blast
    obtain u where u: "insert_fix (Node x p l1 r c k v) = Some u" "grown ?t u"
      using insert_fix_left [OF Node.prems(1,2) l1(2)] by blast
    have hd: "l = NULL \<Longrightarrow> node_ptr l1 = Some a" using l1(1) by (auto simp: create_node_def)
    have f: "first_before cmp a key (tm_first tm) (inorder ?t) =
       (if first_before cmp a key (tm_first tm) (inorder l) = Some x then node_ptr l1
        else first_before cmp a key (tm_first tm) (inorder l))"
      using True hd Node.prems(6,7) assms(3)
      by (cases "inorder l") (auto simp: first_before_def)
    have "inorder u = ins_key cmp (a, key, val) (inorder ?t)"
      using insert_fix_content [OF u(1)] l1(4) ins_key_left [of cmp "(a, key, val)" "(x, k, v)"] True by simp
    then show ?thesis
      using True l1 u f Node.prems(3) insert_fix_content [OF u(1), of q]
      unfolding inserts_def by (auto simp: tm Let_def)
  next
    case False
    then have gt: "cmp k key < 0" using k assms(2) cmp_not_less by blast
    then have gt': "0 < cmp key k" using cmp_sym k assms(2) by blast
    have "inserts tm (Some x) key val a r"
      using Node.prems by (intro Node.IH(2)) (cases "inorder l"; cases "inorder r"; auto)+
    then obtain r1 where r1: "treemap_insert_internal tm r (Some x) key val (Some a) =
       Some (tm\<lparr>node_cnt := node_cnt tm + 1,
                tm_first := first_before cmp a key (tm_first tm) (inorder r)\<rparr>, r1, 0, Some (Some a))"
       "grown r r1" "parents_ok (Some x) r1" "inorder r1 = ins_key cmp (a, key, val) (inorder r)"
      unfolding inserts_def tm by blast
    obtain u where u: "insert_fix (Node x p l r1 c k v) = Some u" "grown ?t u"
      using insert_fix_right [OF Node.prems(1,2) r1(2)] by blast
    have lt: "\<not> cmp key i < 0" if "i \<in> set (keys_of (inorder l @ [(x, k, v)]))" for i
    proof -
      have "i \<in> K" "i = k \<or> cmp i k < 0" using that Node.prems(4) by (auto dest: ascending_keys)
      then show ?thesis using gt k assms(2) cmp_trans [of i k key] cmp_asym [of i key] by auto
    qed
    have io: "inorder ?t = (inorder l @ [(x, k, v)]) @ inorder r" by simp
    have f: "first_before cmp a key (tm_first tm) (inorder r) = tm_first tm"
      "first_before cmp a key (tm_first tm) (inorder ?t) = tm_first tm"
      using lt Node.prems(7) by (cases "inorder l"; cases "inorder r"; auto simp: first_before_def)+
    have "inorder u = ins_key cmp (a, key, val) (inorder ?t)"
      using insert_fix_content [OF u(1)] r1(4) ins_key_right [of "inorder l @ [(x, k, v)]" cmp "(a, key, val)" "inorder r"] lt
      unfolding io by simp
    then show ?thesis
      using gt' r1(1,3) u f Node.prems(3) insert_fix_content [OF u(1), of q]
      unfolding inserts_def by (auto simp: tm Let_def)
  qed
qed

end

lemma set_color_black: "\<not> IS_RED t \<Longrightarrow> set_color NODE_BLACK t = t"
  by (cases t) auto

lemma grown_black: "grown t u \<Longrightarrow> lean (set_color NODE_BLACK u)"
  by (cases u) (auto simp: grown_def)

context cmp_order
begin

lemma insert_internal_present:
  assumes "cmp_fn tm = cmp" "key \<in> K" "ascending cmp K (inorder t)" "key \<in> set (keys_of (inorder t))"
  shows "treemap_insert_internal tm t q key val mem = Some (tm, t, 1, None)"
  using assms(3-)
proof (induction t arbitrary: q)
  case (Node x p l r c k v)
  consider "cmp key k < 0" | "cmp key k = 0" | "0 < cmp key k" by linarith
  then show ?case
  proof cases
    case 1
    then have "key \<in> set (keys_of (inorder l))"
      using Node.prems key_before [of "inorder l" "(x, k, v)" "inorder r" key] assms(2) by auto
    then have "treemap_insert_internal tm l q key val mem = Some (tm, l, 1, None)" for q
      using Node.IH(1) Node.prems by simp
    then show ?thesis using 1 by (simp add: assms(1) Let_def)
  next
    case 3
    then have "cmp k key < 0" using cmp_sym assms(2) Node.prems(1) by auto
    then have "key \<in> set (keys_of (inorder r))"
      using Node.prems key_after [of "inorder l" "(x, k, v)" "inorder r" key] assms(2) by auto
    then have "treemap_insert_internal tm r q key val mem = Some (tm, r, 1, None)" for q
      using Node.IH(2) Node.prems by simp
    then show ?thesis using 3 by (simp add: assms(1) Let_def)
  qed (simp add: assms(1))
qed simp

lemma insert_internal_no_memory:
  assumes "cmp_fn tm = cmp" "key \<in> K" "ascending cmp K (inorder t)" "key \<notin> set (keys_of (inorder t))"
  shows "treemap_insert_internal tm t q key val None = Some (tm, t, -1, Some None)"
  using assms(3-)
proof (induction t arbitrary: q)
  case NULL
  show ?case by (simp add: create_node_def)
next
  case (Node x p l r c k v)
  have "cmp key k \<noteq> 0" using Node.prems cmp_eq [of key k] assms(2) by auto
  moreover have "treemap_insert_internal tm l q key val None = Some (tm, l, -1, Some None)"
    "treemap_insert_internal tm r q key val None = Some (tm, r, -1, Some None)" for q
    using Node.IH Node.prems by simp_all
  ultimately show ?case by (simp add: assms(1) Let_def)
qed

lemma treemap_insert2_fresh:
  assumes inv: "treemap_inv cmp K tm" and key: "key \<in> K" "key \<notin> set (keys_of (contents tm))"
    and a: "a \<notin> fst ` set (contents tm)"
  shows "\<exists>tm'. treemap_insert2 tm key val (Some a) = Some (tm', 0, Some (Some a)) \<and>
    treemap_inv cmp K tm' \<and> contents tm' = ins_key cmp (a, key, val) (contents tm)"
proof -
  have i: "cmp_fn tm = cmp" "lean (tm_root tm)" "invh (tm_root tm)" "parents_ok None (tm_root tm)"
    "ascending cmp K (inorder (tm_root tm))" "tm_first tm \<notin> Some ` fst ` set (tl (inorder (tm_root tm)))"
    using inv by (auto simp: treemap_inv_def balanced_def contents_def dest: first_ok_tl)
  have na: "tm_first tm \<noteq> Some a"
    using inv a by (cases "contents tm") (auto simp: treemap_inv_def first_ok_def)
  obtain u where u: "treemap_insert_internal tm (tm_root tm) None key val (Some a) =
       Some (tm\<lparr>node_cnt := node_cnt tm + 1,
                tm_first := first_before cmp a key (tm_first tm) (contents tm)\<rparr>, u, 0, Some (Some a))"
    "grown (tm_root tm) u" "parents_ok None u" "inorder u = ins_key cmp (a, key, val) (contents tm)"
    using insert_internal_fresh [OF i(1) key(1) na i(2-5) _ _ i(6), of val] key(2) a i(1)
    unfolding inserts_def contents_def by auto
  have "u \<noteq> NULL" using u(2) by (simp add: grown_def)
  then show ?thesis
    using u inv key a ins_key_ascending [of "contents tm" "(a, key, val)"] grown_black [OF u(2)]
      ins_key_distinct [of "contents tm" "(a, key, val)" cmp] first_ok_ins [of "tm_first tm" "contents tm" cmp a key val]
    by (auto simp: treemap_insert2_def treemap_inv_def balanced_def contents_def grown_def)
qed

lemma treemap_insert2_present:
  assumes inv: "treemap_inv cmp K tm" and key: "key \<in> K" "key \<in> set (keys_of (contents tm))"
  shows "treemap_insert2 tm key val mem = Some (tm, 1, None)"
proof -
  have "tm_root tm \<noteq> NULL" using key(2) by (auto simp: contents_def)
  then show ?thesis
    using insert_internal_present [of tm key "tm_root tm" None val mem] assms
    by (auto simp: treemap_insert2_def treemap_inv_def contents_def balanced_def set_color_black)
qed

lemma treemap_insert2_no_memory:
  assumes inv: "treemap_inv cmp K tm" and key: "key \<in> K" "key \<notin> set (keys_of (contents tm))"
  shows "treemap_insert2 tm key val None = (if contents tm = [] then None else Some (tm, -1, Some None))"
  using insert_internal_no_memory [of tm key "tm_root tm" None val] assms
  by (auto simp: treemap_insert2_def treemap_inv_def contents_def balanced_def set_color_black)

end

end
