(* ===== verification/TreeMapSearch.thy ===== *)
theory TreeMapSearch
  imports TreeMapSpec
begin

text \<open>
  The searches and the walks of \<^verbatim>\<open>src/common/treemap.c\<close> return what the list of nodes says, and the
  walks along the parent pointers end without following a bad pointer. Reading and writing through a
  node, clearing, and the logarithmic height of the tree.
\<close>

context cmp_order
begin

lemma get_from_spec:
  assumes "key \<in> K" "ascending cmp K (inorder t)"
  shows "get_from cmp t key = lookup key (inorder t)"
  using assms(2)
proof (induction t)
  case (Node x p l r c k v)
  have asc: "ascending cmp K (inorder l @ (x, k, v) # inorder r)" using Node.prems by simp
  have IH: "get_from cmp l key = lookup key (inorder l)" "get_from cmp r key = lookup key (inorder r)"
    using Node by simp_all
  have k: "k \<in> K" using Node.prems by simp
  then consider "cmp key k < 0" | "key = k" "cmp key k = 0" | "0 < cmp key k" "cmp k key < 0"
    by (metis assms(1) cmp_eq cmp_sym linorder_less_linear)
  then show ?case
  proof cases
    case 1
    then have "key \<notin> set (keys_of (inorder r))" "key \<noteq> k" using key_before [OF asc assms(1)] by simp_all
    then show ?thesis using 1 IH by (auto simp: lookup_def find_append find_absent split: option.splits)
  next
    case 2
    then have "key \<notin> set (keys_of (inorder l))" using key_at(1) [OF asc] by simp
    then show ?thesis using 2 by (auto simp: lookup_def find_append find_absent)
  next
    case 3
    then have "key \<notin> set (keys_of (inorder l))" "key \<noteq> k" using key_after [OF asc assms(1)] by simp_all
    then show ?thesis using 3 IH by (auto simp: lookup_def find_append find_absent)
  qed
qed (simp add: lookup_def)

lemma lower_bound_from_spec:
  assumes "key \<in> K" "ascending cmp K (inorder t)"
  shows "lower_bound_from cmp t key res =
    (case first_not_less cmp key (inorder t) of None \<Rightarrow> res | Some a \<Rightarrow> Some a)"
  using assms(2)
proof (induction t arbitrary: res)
  case (Node x p l r c k v)
  have "cmp a key < 0" if "a \<in> set (keys_of (inorder l))" "cmp k key < 0" for a
    using that Node.prems cmp_trans [of a k key] assms(1) by (auto dest: ascending_keys)
  then have "find (\<lambda>e. \<not> cmp (fst (snd e)) key < 0) (inorder l) = None" if "cmp k key < 0"
    using that by (intro find_keys_None) blast
  with Node show ?case
    by (auto simp: first_not_less_def find_append split: option.splits)
qed (simp add: first_not_less_def)

lemma upper_bound_from_spec:
  assumes "key \<in> K" "ascending cmp K (inorder t)"
  shows "upper_bound_from cmp t key res =
    (case first_greater cmp key (inorder t) of None \<Rightarrow> res | Some a \<Rightarrow> Some a)"
  using assms(2)
proof (induction t arbitrary: res)
  case (Node x p l r c k v)
  have "\<not> cmp key a < 0" if "a \<in> set (keys_of (inorder l))" "\<not> cmp key k < 0" for a
  proof -
    have "a \<in> K" "k \<in> K" "cmp a k < 0" using that Node.prems by (auto dest: ascending_keys)
    then show ?thesis using that(2) assms(1) cmp_trans [of key a k] by blast
  qed
  then have "find (\<lambda>e. cmp key (fst (snd e)) < 0) (inorder l) = None" if "\<not> cmp key k < 0"
    using that by (intro find_keys_None) blast
  with Node show ?case
    by (auto simp: first_greater_def find_append split: option.splits)
qed (simp add: first_greater_def)

lemma treemap_searches:
  assumes "treemap_inv cmp K tm" "key \<in> K"
  shows "treemap_get tm key = lookup key (contents tm)"
    "treemap_lower_bound tm key = first_not_less cmp key (contents tm)"
    "treemap_upper_bound tm key = first_greater cmp key (contents tm)"
  using assms get_from_spec [of key "tm_root tm"] lower_bound_from_spec [of key "tm_root tm"]
    upper_bound_from_spec [of key "tm_root tm"]
  by (auto simp: treemap_inv_def contents_def treemap_get_def treemap_lower_bound_def treemap_upper_bound_def
      split: option.splits)

end

section \<open>Walks\<close>

definition head_addr :: "(addr \<times> 'k \<times> 'v) list \<Rightarrow> pointer" where
  "head_addr xs = (case xs of [] \<Rightarrow> None | e # _ \<Rightarrow> Some (fst e))"

definition last_addr :: "(addr \<times> 'k \<times> 'v) list \<Rightarrow> pointer" where
  "last_addr xs = (if xs = [] then None else Some (fst (last xs)))"

lemma head_addr_simps [simp]: "head_addr [] = None" "head_addr (e # xs) = Some (fst e)"
  "xs \<noteq> [] \<Longrightarrow> head_addr (xs @ ys) = head_addr xs"
  by (auto simp: head_addr_def split: list.splits)

lemma last_addr_simps [simp]: "last_addr [] = None" "last_addr (xs @ [e]) = Some (fst e)"
  "ys \<noteq> [] \<Longrightarrow> last_addr (xs @ ys) = last_addr ys" "ys \<noteq> [] \<Longrightarrow> last_addr (e # ys) = last_addr ys"
  "last_addr [e] = Some (fst e)"
  by (auto simp: last_addr_def)

lemma leftmost_head: "leftmost t = head_addr (inorder t)"
  by (induction t) auto

lemma rightmost_last: "rightmost t = last_addr (inorder t)"
  by (induction t) auto

abbreviation addrs :: "('k, 'v) tree_node \<Rightarrow> addr set" where
  "addrs t \<equiv> fst ` set (inorder t)"

lemma find_node_NULL: "find_node t a = NULL \<longleftrightarrow> a \<notin> addrs t"
  by (induction t) auto

lemma node_ptr_in: "node_ptr t = Some a \<Longrightarrow> a \<in> addrs t"
  by (cases t) auto

definition resides :: "('k, 'v) tree_node \<Rightarrow> ('k, 'v) tree_node \<Rightarrow> bool" where
  "resides G t \<longleftrightarrow> distinct (map fst (inorder t)) \<and> (\<forall>a. a \<in> addrs t \<longrightarrow> find_node G a = find_node t a)"

lemma distinct_addrs:
  assumes "distinct (map fst (inorder (Node x p l r c k v)))"
  shows "addrs l \<inter> addrs r = {}" "x \<notin> addrs l" "x \<notin> addrs r"
    "distinct (map fst (inorder l))" "distinct (map fst (inorder r))"
  using assms by auto

lemma addrsI: "(a, e) \<in> set (inorder t) \<Longrightarrow> a \<in> addrs t"
  by force

lemma resides_children:
  assumes "resides G (Node x p l r c k v)"
  shows "resides G l" "resides G r" "find_node G x = Node x p l r c k v" "node_ptr r \<noteq> node_ptr l \<or> r = NULL"
    "x \<notin> addrs l" "x \<notin> addrs r"
proof -
  have "distinct (map fst (inorder (Node x p l r c k v)))" using assms by (simp only: resides_def)
  note d = distinct_addrs [OF this]
  have sub: "addrs (Node x p l r c k v) = addrs l \<union> {x} \<union> addrs r" by auto
  have G: "find_node G a = find_node (Node x p l r c k v) a" if "a \<in> addrs l \<or> a \<in> addrs r" for a
    using that assms unfolding resides_def sub by blast
  have l: "find_node G a = find_node l a" if "a \<in> addrs l" for a
    using that G [of a] find_node_NULL [of l a] d(2) by (metis find_node.simps(2))
  have r: "find_node G a = find_node r a" if "a \<in> addrs r" for a
    using that G [of a] find_node_NULL [of l a] d(1,3) by (metis disjoint_iff find_node.simps(2))
  from d l r show "resides G l" "resides G r" by (auto simp: resides_def)
  show "find_node G x = Node x p l r c k v" using assms by (simp add: resides_def)
  show "node_ptr r \<noteq> node_ptr l \<or> r = NULL" 
    using d(1) node_ptr_in [of l] node_ptr_in [of r] by (cases r) auto
  show "x \<notin> addrs l" "x \<notin> addrs r" by fact+
qed

definition next_in :: "('k, 'v) tree_node \<Rightarrow> addr \<Rightarrow> pointer option" where
  "next_in G a = (case find_node G a of NULL \<Rightarrow> None
      | Node x p l r c k v \<Rightarrow> if r \<noteq> NULL then Some (leftmost r) else next_climb G a p)"

definition prev_in :: "('k, 'v) tree_node \<Rightarrow> addr \<Rightarrow> pointer option" where
  "prev_in G a = (case find_node G a of NULL \<Rightarrow> None
      | Node x p l r c k v \<Rightarrow> if l \<noteq> NULL then Some (rightmost l) else prev_climb G a p)"

lemma climb_None [simp]: "next_climb G a None = Some None" "prev_climb G a None = Some None"
  by (simp_all add: next_climb.simps prev_climb.simps)

lemma next_in_subtree:
  assumes "resides G t" "parents_ok q t" "inorder t = xs @ (a, e) # ys"
  shows "\<exists>y. node_ptr t = Some y \<and> next_in G a = (if ys = [] then next_climb G y q else Some (head_addr ys))"
  using assms
proof (induction t arbitrary: q xs ys)
  case (Node x p l r c k v)
  note ch = resides_children [OF Node.prems(1)]
  have "distinct (map fst (inorder (Node x p l r c k v)))" using Node.prems(1) by (simp add: resides_def)
  from Node.prems(3) consider "xs = inorder l" "a = x" "ys = inorder r"
    | zs where "inorder l = xs @ (a, e) # zs" "ys = zs @ (x, k, v) # inorder r"
    | zs where "inorder r = zs @ (a, e) # ys" "xs = inorder l @ (x, k, v) # zs"
    by (auto simp: append_eq_append_conv2 append_eq_Cons_conv Cons_eq_append_conv)
  then show ?case
  proof cases
    case 1
    then show ?thesis using ch(3) Node.prems(2) by (auto simp: next_in_def leftmost_head)
  next
    case 2
    obtain y where y: "node_ptr l = Some y"
      "next_in G a = (if zs = [] then next_climb G y (Some x) else Some (head_addr zs))"
      using Node.IH(1) [OF ch(1) _ 2(1), of "Some x"] Node.prems(2) by auto
    have "next_climb G y (Some x) = Some (Some x)"
      using ch(3,4) y(1) by (subst next_climb.simps) auto
    then show ?thesis using y(2) 2(2) by auto
  next
    case 3
    obtain y where y: "node_ptr r = Some y"
      "next_in G a = (if ys = [] then next_climb G y (Some x) else Some (head_addr ys))"
      using Node.IH(2) [OF ch(2) _ 3(1), of "Some x"] Node.prems(2) by auto
    have "next_climb G y (Some x) = next_climb G x p"
      using ch(3) y(1) by (subst next_climb.simps) auto
    then show ?thesis using y(2) Node.prems(2) by auto
  qed
qed simp

lemma prev_in_subtree:
  assumes "resides G t" "parents_ok q t" "inorder t = xs @ (a, e) # ys"
  shows "\<exists>y. node_ptr t = Some y \<and> prev_in G a = (if xs = [] then prev_climb G y q else Some (last_addr xs))"
  using assms
proof (induction t arbitrary: q xs ys)
  case (Node x p l r c k v)
  note ch = resides_children [OF Node.prems(1)]
  from Node.prems(3) consider "xs = inorder l" "a = x" "ys = inorder r"
    | zs where "inorder l = xs @ (a, e) # zs" "ys = zs @ (x, k, v) # inorder r"
    | zs where "inorder r = zs @ (a, e) # ys" "xs = inorder l @ (x, k, v) # zs"
    by (auto simp: append_eq_append_conv2 append_eq_Cons_conv Cons_eq_append_conv)
  then show ?case
  proof cases
    case 1
    then show ?thesis using ch(3) Node.prems(2) by (auto simp: prev_in_def rightmost_last)
  next
    case 2
    obtain y where y: "node_ptr l = Some y"
      "prev_in G a = (if xs = [] then prev_climb G y (Some x) else Some (last_addr xs))"
      using Node.IH(1) [OF ch(1) _ 2(1), of "Some x"] Node.prems(2) by auto
    have "prev_climb G y (Some x) = prev_climb G x p"
      using ch(3) y(1) by (subst prev_climb.simps) auto
    then show ?thesis using y(2) Node.prems(2) by auto
  next
    case 3
    obtain y where y: "node_ptr r = Some y"
      "prev_in G a = (if zs = [] then prev_climb G y (Some x) else Some (last_addr zs))"
      using Node.IH(2) [OF ch(2) _ 3(1), of "Some x"] Node.prems(2) by auto
    have "prev_climb G y (Some x) = Some (Some x)"
      using ch(3,4) y(1) by (subst prev_climb.simps) auto
    then show ?thesis using y(2) 3(2) by auto
  qed
qed simp

lemma treemap_next_spec:
  assumes "treemap_inv cmp K tm" "contents tm = xs @ (a, e) # ys"
  shows "treemap_next tm a = Some (head_addr ys)"
proof -
  have "resides (tm_root tm) (tm_root tm)" using assms(1) by (simp add: resides_def treemap_inv_def contents_def)
  from next_in_subtree [OF this _ assms(2) [unfolded contents_def], of None] assms(1) show ?thesis
    by (auto split: if_splits simp: treemap_inv_def next_in_def treemap_next_def)
qed

lemma treemap_prev_spec:
  assumes "treemap_inv cmp K tm" "contents tm = xs @ (a, e) # ys"
  shows "treemap_prev tm a = Some (last_addr xs)"
proof -
  have "resides (tm_root tm) (tm_root tm)" using assms(1) by (simp add: resides_def treemap_inv_def contents_def)
  from prev_in_subtree [OF this _ assms(2) [unfolded contents_def], of None] assms(1) show ?thesis
    by (auto split: if_splits simp: treemap_inv_def prev_in_def treemap_prev_def)
qed

lemma treemap_first_spec:
  assumes "treemap_inv cmp K tm"
  shows "snd (treemap_first tm) = head_addr (contents tm)" "treemap_inv cmp K (fst (treemap_first tm))"
    "contents (fst (treemap_first tm)) = contents tm"
  using assms by (cases "contents tm"; auto simp: treemap_first_def Let_def treemap_inv_def first_ok_def
      leftmost_head contents_def)+

lemma treemap_last_spec: "treemap_last tm = last_addr (contents tm)"
  by (simp add: treemap_last_def rightmost_last contents_def)

section \<open>Keys and values\<close>

lemma find_node_entry:
  assumes "distinct (map fst (inorder t))" "(a, k, v) \<in> set (inorder t)"
  shows "\<exists>p l r c. find_node t a = Node a p l r c k v"
  using assms
proof (induction t)
  case (Node x p l r c i w)
  note d = distinct_addrs [OF Node.prems(1)]
  from Node.prems(2) consider "a = x" "k = i" "v = w" | "(a, k, v) \<in> set (inorder l)" "a \<noteq> x"
    | "(a, k, v) \<in> set (inorder r)" "a \<noteq> x" "a \<notin> addrs l"
    using d(1-3) addrsI [of a "(k, v)" l] addrsI [of a "(k, v)" r] disjoint_iff [of "addrs l" "addrs r"]
    by (metis Un_iff inorder.simps(2) list.set_intros(2) prod.inject set_ConsD set_append)
  then show ?case
  proof cases
    case 2
    then show ?thesis using Node.IH(1) d(4) by auto
  next
    case 3
    then show ?thesis using Node.IH(2) d(5) find_node_NULL [of l a] by auto
  qed simp
qed simp

definition set_entry :: "addr \<Rightarrow> 'v \<Rightarrow> (addr \<times> 'k \<times> 'v) list \<Rightarrow> (addr \<times> 'k \<times> 'v) list" where
  "set_entry a w xs = map (\<lambda>(b, k, v). (b, k, if a = b then w else v)) xs"

lemma set_entry_keys [simp]:
  "keys_of (set_entry a w xs) = keys_of xs" "map fst (set_entry a w xs) = map fst xs"
  "length (set_entry a w xs) = length xs" "set_entry a w xs = [] \<longleftrightarrow> xs = []"
  by (auto simp: set_entry_def keys_of_def)

lemma set_entry_hd [simp]: "xs \<noteq> [] \<Longrightarrow> fst (hd (set_entry a w xs)) = fst (hd xs)"
  by (cases xs) (auto simp: set_entry_def)

lemma set_entry_ascending [simp]: "ascending cmp K (set_entry a w xs) = ascending cmp K xs"
  by (simp add: ascending_def)

lemma inorder_store_value: "inorder (store_value t a w) = set_entry a w (inorder t)"
  by (induction t) (auto simp: set_entry_def)

lemma store_value_shape [simp]:
  "IS_RED (store_value t a w) = IS_RED t" "bheight (store_value t a w) = bheight t"
  "invh (store_value t a w) = invh t" "lean (store_value t a w) = lean t"
  "parents_ok q (store_value t a w) = parents_ok q t"
  by (induction t arbitrary: q) simp_all

lemma treemap_access:
  assumes "treemap_inv cmp K tm" "(a, k, v) \<in> set (contents tm)"
  shows "treemap_key tm a = Some k" "treemap_value tm a = Some v"
  using find_node_entry [of "tm_root tm" a k v] assms
  by (auto simp: treemap_inv_def contents_def treemap_key_def treemap_value_def)

lemma treemap_set_value_spec:
  assumes "treemap_inv cmp K tm"
  shows "treemap_inv cmp K (treemap_set_value tm a w)" "contents (treemap_set_value tm a w) = set_entry a w (contents tm)"
  using assms
  by (auto simp: treemap_inv_def balanced_def contents_def treemap_set_value_def inorder_store_value
      first_ok_def)

section \<open>Clearing\<close>

lemma treemap_clear_internal_mset: "mset (treemap_clear_internal t) = mset (map fst (inorder t))"
  by (induction t) auto

lemma treemap_clear_spec:
  assumes "treemap_inv cmp K tm"
  shows "treemap_inv cmp K (fst (treemap_clear tm))" "contents (fst (treemap_clear tm)) = []"
    "distinct (snd (treemap_clear tm))" "set (snd (treemap_clear tm)) = fst ` set (contents tm)"
proof -
  have m: "mset (snd (treemap_clear tm)) = mset (map fst (contents tm))"
    by (simp add: treemap_clear_def treemap_clear_internal_mset contents_def)
  show "distinct (snd (treemap_clear tm))"
    using mset_eq_imp_distinct_iff [OF m] assms by (simp add: treemap_inv_def)
  show "set (snd (treemap_clear tm)) = fst ` set (contents tm)"
    using m by (metis set_map set_mset_mset)
  show "treemap_inv cmp K (fst (treemap_clear tm))" "contents (fst (treemap_clear tm)) = []"
    using assms by (simp_all add: treemap_clear_def treemap_inv_def balanced_def contents_def first_ok_def)
qed

lemma treemap_init_inv: "treemap_inv cmp K (treemap_init ks ds cmp)" "contents (treemap_init ks ds cmp) = []"
  by (simp_all add: treemap_init_def treemap_inv_def balanced_def contents_def first_ok_def)

section \<open>Height\<close>

fun height :: "('k, 'v) tree_node \<Rightarrow> nat" where
  "height NULL = 0"
| "height (Node x p l r c k v) = Suc (max (height l) (height r))"

lemma height_bheight: "lean t \<Longrightarrow> invh t \<Longrightarrow> height t \<le> 2 * bheight t + of_bool (IS_RED t)"
proof (induction t)
  case (Node x p l r c k v)
  then show ?case by (cases "IS_RED l"; cases c) auto
qed simp

lemma bheight_count: "invh t \<Longrightarrow> 2 ^ bheight t \<le> Suc (node_count_of t)"
  by (induction t) auto

lemma node_count_contents: "node_count_of t = length (inorder t)"
  by (induction t) auto

lemma treemap_height:
  assumes "treemap_inv cmp K tm"
  shows "2 ^ ((height (tm_root tm) + 1) div 2) \<le> length (contents tm) + 1"
proof -
  have "(height (tm_root tm) + 1) div 2 \<le> bheight (tm_root tm)"
    using height_bheight [of "tm_root tm"] assms by (auto simp: treemap_inv_def balanced_def)
  then have "(2::nat) ^ ((height (tm_root tm) + 1) div 2) \<le> 2 ^ bheight (tm_root tm)" by simp
  also have "\<dots> \<le> Suc (length (contents tm))"
    using bheight_count [of "tm_root tm"] assms by (auto simp: treemap_inv_def balanced_def contents_def node_count_contents)
  finally show ?thesis by simp
qed

end
