(* ===== verification/TreeMapProps.thy ===== *)
theory TreeMapProps
  imports TreeMapDelete TreeMapInsert TreeMapSearch
begin

text \<open>
  What \<^verbatim>\<open>src/common/treemap.c\<close> promises to its clients. The locale \<open>ordered_map\<close> is the interface the
  clients see: the laws of the operations over the ascending list of entries, with the consequences
  that do not depend on the tree. The tree map provides it for every comparator that is an order on
  the keys in use. The properties of the tree map follow.
\<close>

section \<open>The interface\<close>

text \<open>The loop \<open>for (it = first(m); it != NULL; it = next(it))\<close>: the nodes it visits.\<close>

fun walk :: "nat \<Rightarrow> (addr \<Rightarrow> pointer option) \<Rightarrow> pointer \<Rightarrow> addr list option" where
  "walk fuel nxt None = Some []"
| "walk 0 nxt (Some a) = None"
| "walk (Suc fuel) nxt (Some a) = do { p \<leftarrow> nxt a; as \<leftarrow> walk fuel nxt p; Some (a # as) }"

locale ordered_map = cmp_order cmp K
  for cmp :: "'k \<Rightarrow> 'k \<Rightarrow> int" and K :: "'k set" +
  fixes inv :: "'m \<Rightarrow> bool" and entries :: "'m \<Rightarrow> (addr \<times> 'k \<times> 'v) list"
    and ins :: "'m \<Rightarrow> 'k \<Rightarrow> 'v \<Rightarrow> pointer \<Rightarrow> ('m \<times> int \<times> pointer option) option"
    and del :: "'m \<Rightarrow> 'k \<Rightarrow> ('m \<times> int) option"
    and get :: "'m \<Rightarrow> 'k \<Rightarrow> pointer"
    and fst_of :: "'m \<Rightarrow> 'm \<times> pointer"
    and nxt :: "'m \<Rightarrow> addr \<Rightarrow> pointer option"
  assumes asc: "inv m \<Longrightarrow> ascending cmp K (entries m)"
    and ins_new: "inv m \<Longrightarrow> key \<in> K \<Longrightarrow> key \<notin> set (keys_of (entries m)) \<Longrightarrow>
        a \<notin> fst ` set (entries m) \<Longrightarrow>
        \<exists>m'. ins m key v (Some a) = Some (m', 0, Some (Some a)) \<and> inv m' \<and>
          entries m' = ins_key cmp (a, key, v) (entries m)"
    and del_any: "inv m \<Longrightarrow> key \<in> K \<Longrightarrow>
        \<exists>m'. del m key = Some (m', of_bool (key \<in> set (keys_of (entries m)))) \<and> inv m' \<and>
          entries m' = del_key key (entries m)"
    and get_any: "inv m \<Longrightarrow> key \<in> K \<Longrightarrow> get m key = lookup key (entries m)"
    and first_any: "inv m \<Longrightarrow> snd (fst_of m) = head_addr (entries m) \<and> inv (fst (fst_of m)) \<and>
          entries (fst (fst_of m)) = entries m"
    and next_any: "inv m \<Longrightarrow> entries m = xs @ (a, e) # ys \<Longrightarrow> nxt m a = Some (head_addr ys)"
begin

lemma lookup_ins_key:
  "ascending cmp K xs \<Longrightarrow> key \<in> K \<Longrightarrow> key' \<in> K \<Longrightarrow> key \<notin> set (keys_of xs) \<Longrightarrow>
     lookup key' (ins_key cmp (a, key, v) xs) = (if key' = key then Some a else lookup key' xs)"
  by (induction xs) (auto simp: lookup_def)

lemma lookup_del_key:
  "lookup key' (del_key key xs) = (if key' = key then None else lookup key' xs)"
  by (induction xs) (auto simp: lookup_def)

lemma get_after_ins:
  assumes "inv m" "key \<in> K" "key' \<in> K" "key \<notin> set (keys_of (entries m))" "a \<notin> fst ` set (entries m)"
    and "ins m key v (Some a) = Some (m', ret, at)"
  shows "inv m' \<and> ret = 0 \<and> at = Some (Some a) \<and> get m' key' = (if key' = key then Some a else get m key')"
proof -
  have 1: "inv m'" "ret = 0" "at = Some (Some a)" "entries m' = ins_key cmp (a, key, v) (entries m)"
    using ins_new [OF assms(1,2,4,5), of v] assms(6) by auto
  then show ?thesis
    using lookup_ins_key [OF asc [OF assms(1)] assms(2,3,4), of a v] get_any assms(1,3) by simp
qed

lemma get_after_del:
  assumes "inv m" "key \<in> K" "key' \<in> K" "del m key = Some (m', ret)"
  shows "inv m' \<and> ret = of_bool (get m key \<noteq> None) \<and> get m' key' = (if key' = key then None else get m key')"
proof -
  have 1: "inv m'" "ret = of_bool (key \<in> set (keys_of (entries m)))" "entries m' = del_key key (entries m)"
    using del_any [OF assms(1,2)] assms(4) by auto
  have "lookup key xs \<noteq> None \<longleftrightarrow> key \<in> set (keys_of xs)" for xs :: "(addr \<times> 'k \<times> 'v) list"
    by (induction xs) (auto simp: lookup_def)
  with 1 show ?thesis using get_any assms(1-3) by (simp add: lookup_del_key)
qed

lemma del_after_ins:
  assumes "inv m" "key \<in> K" "key \<notin> set (keys_of (entries m))" "a \<notin> fst ` set (entries m)"
    and "ins m key v (Some a) = Some (m', ret, at)"
  shows "\<exists>m''. del m' key = Some (m'', 1) \<and> inv m'' \<and> entries m'' = entries m"
proof -
  have m': "inv m'" "entries m' = ins_key cmp (a, key, v) (entries m)"
    using ins_new [OF assms(1-4), of v] assms(5) by auto
  then show ?thesis
    using del_any [OF m'(1) assms(2)] ins_key_del_key [of "(a, key, v)" "entries m" cmp] assms(3)
      ins_key_set [of cmp "(a, key, v)" "entries m"] by (auto simp: keys_of_set)
qed

lemma walk_from:
  assumes "inv m" "entries m = xs @ ys" "length ys \<le> fuel"
  shows "walk fuel (nxt m) (head_addr ys) = Some (map fst ys)"
  using assms(2,3)
proof (induction ys arbitrary: xs fuel)
  case (Cons y ys)
  obtain a e where y: "y = (a, e)" by (cases y)
  obtain n where n: "fuel = Suc n" using Cons.prems(2) by (cases fuel) auto
  have "walk n (nxt m) (head_addr ys) = Some (map fst ys)"
    using Cons.IH [of "xs @ [y]" n] Cons.prems n by simp
  then show ?case using next_any [OF assms(1)] Cons.prems(1) n y by simp
qed simp

lemma walk_all:
  assumes "inv m" "fst_of m = (m', p)" "length (entries m) \<le> fuel"
  shows "walk fuel (nxt m') p = Some (map fst (entries m))"
proof -
  have m': "p = head_addr (entries m)" "inv m'" "entries m' = entries m"
    using first_any [OF assms(1)] unfolding assms(2) by auto
  then show ?thesis using walk_from [of m' "[]" "entries m" fuel] assms(3) by simp
qed

end

sublocale cmp_order \<subseteq> tm: ordered_map cmp K "treemap_inv cmp K" contents treemap_insert2 treemap_delete
  treemap_get treemap_first treemap_next
proof (unfold_locales, goal_cases)
  case (1 m)
  then show ?case by (simp add: treemap_inv_def)
next
  case (5 m)
  then show ?case using treemap_first_spec by blast
qed (simp_all add: treemap_insert2_fresh treemap_delete_spec treemap_searches treemap_next_spec)

interpretation seq_map: ordered_map seq_cmp "seq_window s" "treemap_inv seq_cmp (seq_window s)" contents
  treemap_insert2 treemap_delete treemap_get treemap_first treemap_next for s
  by (rule seq.tm.ordered_map_axioms)

section \<open>The properties of the tree map\<close>

text \<open>
  The maps a program can build: any sequence of operations from an initialised map. The addresses
  come from the allocator, which never returns one that is in use.
\<close>

inductive tm_reachable :: "('k \<Rightarrow> 'k \<Rightarrow> int) \<Rightarrow> 'k set \<Rightarrow> ('k, 'v) treemap \<Rightarrow> bool"
  for cmp K where
  tm_start: "tm_reachable cmp K (treemap_init ks ds cmp)"
| tm_insert: "tm_reachable cmp K tm \<Longrightarrow> key \<in> K \<Longrightarrow> (\<forall>a. mem = Some a \<longrightarrow> a \<notin> fst ` set (contents tm)) \<Longrightarrow>
    treemap_insert2 tm key val mem = Some (tm', ret, ins) \<Longrightarrow> tm_reachable cmp K tm'"
| tm_delete: "tm_reachable cmp K tm \<Longrightarrow> key \<in> K \<Longrightarrow> treemap_delete tm key = Some (tm', ret) \<Longrightarrow>
    tm_reachable cmp K tm'"
| tm_first_step: "tm_reachable cmp K tm \<Longrightarrow> treemap_first tm = (tm', p) \<Longrightarrow> tm_reachable cmp K tm'"
| tm_store: "tm_reachable cmp K tm \<Longrightarrow> tm_reachable cmp K (treemap_set_value tm a w)"
| tm_clear: "tm_reachable cmp K tm \<Longrightarrow> treemap_clear tm = (tm', freed) \<Longrightarrow> tm_reachable cmp K tm'"

context cmp_order
begin

lemma treemap_insert2_any:
  assumes inv: "treemap_inv cmp K tm" and key: "key \<in> K"
    and mem: "\<And>a. mem = Some a \<Longrightarrow> a \<notin> fst ` set (contents tm)"
    and eq: "treemap_insert2 tm key val mem = Some (tm', ret, at)"
  shows "treemap_inv cmp K tm'"
proof (cases "key \<in> set (keys_of (contents tm))")
  case True
  then show ?thesis using treemap_insert2_present [OF inv key] eq inv by simp
next
  case False
  show ?thesis
  proof (cases mem)
    case None
    then show ?thesis using treemap_insert2_no_memory [OF inv key False, of val] eq inv by (auto split: if_splits)
  next
    case (Some a)
    then show ?thesis using treemap_insert2_fresh [OF inv key False, of a val] mem eq by auto
  qed
qed

lemma treemap_walk_all:
  assumes "treemap_inv cmp K tm" "treemap_first tm = (tm', p)" "length (contents tm) \<le> n"
  shows "walk n (treemap_next tm') p = Some (map fst (contents tm))"
  using tm.walk_all [OF assms] .

end

text \<open>Three nodes whose keys wrap around: \<open>0xFFFFFFFE < 2 < 7\<close> in the window from \<open>0xFFFFFFF0\<close>.\<close>

definition sample_tm :: "(u32, nat) treemap" where
  "sample_tm = \<lparr>tm_key_size = 4, tm_data_size = 4, cmp_fn = seq_cmp, node_cnt = 3,
     tm_root = Node 10 None (Node 20 (Some 10) NULL NULL NODE_BLACK 0xFFFFFFFE 1)
       (Node 30 (Some 10) NULL NULL NODE_BLACK 7 3) NODE_BLACK 2 2, tm_first = Some 20\<rparr>"

lemma sample_tm_contents: "contents sample_tm = [(20, 0xFFFFFFFE, 1), (10, 2, 2), (30, 7, 3)]"
  by (simp add: sample_tm_def contents_def)

lemma sample_tm_inv: "treemap_inv seq_cmp (seq_window 0xFFFFFFF0) sample_tm"
  by (simp add: treemap_inv_def sample_tm_contents balanced_def first_ok_def ascending_def seq_window_def
      seq_cmp_def LESS_EQUAL_def) (simp add: sample_tm_def)

lemma sample_keys: "2 \<in> seq_window 0xFFFFFFF0" "3 \<in> seq_window 0xFFFFFFF0"
  by (simp_all add: seq_window_def)

lemmas sample_facts = seq.cmp_order_axioms sample_tm_inv sample_tm_contents sample_keys

text \<open>
  C10. Deletion. On a valid map, for a comparator that orders the keys, \<open>treemap_delete\<close> never follows
  a null pointer, returns 1 exactly when the key was present, removes exactly that entry (every other
  node keeps its address), and leaves a valid map: balanced, sorted, parent pointers, node count and
  cached first node right.
\<close>

theorem treemap_delete_correct:
  assumes "cmp_order cmp K" "treemap_inv cmp K tm" "key \<in> K"
  shows "\<exists>tm'. treemap_delete tm key = Some (tm', of_bool (key \<in> set (keys_of (contents tm)))) \<and>
    treemap_inv cmp K tm' \<and> contents tm' = del_key key (contents tm)"
  using cmp_order.treemap_delete_spec [OF assms] .

theorem treemap_delete_correct_witness:
  "\<exists>tm'. treemap_delete sample_tm 2 = Some (tm', 1) \<and> contents tm' = [(20, 0xFFFFFFFE, 1), (30, 7, 3)]"
  using treemap_delete_correct [OF sample_facts(1,2,4)] by (auto simp: sample_tm_contents)

text \<open>
  C11. Insertion. With memory at a fresh address, \<open>treemap_insert2\<close> on a valid map returns 0, reports
  the new node and leaves a valid map with exactly the new entry added in its place; if the key is
  present it returns 1 and changes nothing.
\<close>

theorem treemap_insert_correct:
  assumes "cmp_order cmp K" "treemap_inv cmp K tm" "key \<in> K" "a \<notin> fst ` set (contents tm)"
  shows "\<exists>tm'. treemap_inv cmp K tm' \<and>
    (if key \<in> set (keys_of (contents tm))
     then treemap_insert2 tm key val (Some a) = Some (tm', 1, None) \<and> tm' = tm
     else treemap_insert2 tm key val (Some a) = Some (tm', 0, Some (Some a)) \<and>
       contents tm' = ins_key cmp (a, key, val) (contents tm))"
  using cmp_order.treemap_insert2_fresh [OF assms(1-3) _ assms(4), of val]
    cmp_order.treemap_insert2_present [OF assms(1-3), of val "Some a"] assms(2) by auto

theorem treemap_insert_correct_witness:
  "\<exists>tm'. treemap_insert2 sample_tm 3 9 (Some 40) = Some (tm', 0, Some (Some 40)) \<and>
    contents tm' = [(20, 0xFFFFFFFE, 1), (10, 2, 2), (40, 3, 9), (30, 7, 3)]"
  using treemap_insert_correct [OF sample_facts(1,2,5), of 40 9]
  by (auto simp: sample_tm_contents seq_cmp_def LESS_EQUAL_def)

text \<open>
  C26. When the allocator has no memory, an insertion of a new key into a map that is not empty
  returns -1 and changes nothing; into an empty map it dereferences the null root.
\<close>

theorem treemap_insert_no_memory:
  assumes "cmp_order cmp K" "treemap_inv cmp K tm" "key \<in> K" "key \<notin> set (keys_of (contents tm))"
  shows "treemap_insert tm key val None = (if contents tm = [] then None else Some (tm, -1))"
  using cmp_order.treemap_insert2_no_memory [OF assms, of val] by (simp add: treemap_insert_def)

theorem treemap_insert_no_memory_witness: "treemap_insert sample_tm 3 9 None = Some (sample_tm, -1)"
  using treemap_insert_no_memory [OF sample_facts(1,2,5), of 9] by (simp add: sample_tm_contents)

text \<open>
  C25. The searches. On a valid map \<open>treemap_get\<close> finds the node with the key, \<open>treemap_lower_bound\<close>
  the first node whose key is not less and \<open>treemap_upper_bound\<close> the first node whose key is greater,
  or no node when the map has none.
\<close>

theorem treemap_search_correct:
  assumes "cmp_order cmp K" "treemap_inv cmp K tm" "key \<in> K"
  shows "treemap_get tm key = lookup key (contents tm) \<and>
    treemap_lower_bound tm key = first_not_less cmp key (contents tm) \<and>
    treemap_upper_bound tm key = first_greater cmp key (contents tm)"
  using cmp_order.treemap_searches [OF assms] by blast

theorem treemap_search_correct_witness:
  "treemap_get sample_tm 3 = None \<and> treemap_lower_bound sample_tm 3 = Some 30 \<and>
   treemap_upper_bound sample_tm 3 = Some 30"
  using treemap_search_correct [OF sample_facts(1,2,5)]
  by (simp add: sample_tm_contents lookup_def first_not_less_def first_greater_def seq_cmp_def LESS_EQUAL_def)

text \<open>
  C24. Iteration. The loop from \<open>treemap_first\<close> through \<open>treemap_next\<close>, which climbs the stored parent
  pointers, ends, follows no bad pointer and visits every node exactly once in ascending order.
\<close>

theorem treemap_iteration:
  assumes "cmp_order cmp K" "treemap_inv cmp K tm" "treemap_first tm = (tm', p)" "length (contents tm) \<le> n"
  shows "walk n (treemap_next tm') p = Some (map fst (contents tm))"
  using cmp_order.treemap_walk_all [OF assms] .

theorem treemap_iteration_witness:
  "walk 3 (treemap_next (fst (treemap_first sample_tm))) (snd (treemap_first sample_tm)) = Some [20, 10, 30]"
  using treemap_iteration [OF sample_facts(1,2), of _ _ 3] by (simp add: sample_tm_contents)

text \<open>
  Neighbours. On a valid map \<open>treemap_next\<close> and \<open>treemap_prev\<close> of a node are the node after it
  and the node before it in key order, null at the ends; \<open>treemap_last\<close> is the last node.
\<close>

theorem treemap_neighbours:
  assumes "treemap_inv cmp K tm" "contents tm = xs @ (a, e) # ys"
  shows "treemap_next tm a = Some (head_addr ys) \<and> treemap_prev tm a = Some (last_addr xs) \<and>
    treemap_last tm = last_addr (contents tm)"
  using treemap_next_spec [OF assms] treemap_prev_spec [OF assms] treemap_last_spec by blast

theorem treemap_neighbours_witness:
  "treemap_next sample_tm 10 = Some (Some 30) \<and> treemap_prev sample_tm 10 = Some (Some 20) \<and>
   treemap_last sample_tm = Some 30"
  using treemap_neighbours [OF sample_tm_inv, of "[(20, 0xFFFFFFFE, 1)]" 10 "(2, 2)" "[(30, 7, 3)]"]
  by (simp add: sample_tm_contents last_addr_def)

text \<open>
  Clearing frees the memory of every node exactly once and leaves a valid empty map.
\<close>

theorem treemap_clear_frees_all:
  assumes "treemap_inv cmp K tm" "treemap_clear tm = (tm', freed)"
  shows "treemap_inv cmp K tm' \<and> contents tm' = [] \<and> distinct freed \<and> set freed = fst ` set (contents tm)"
  using treemap_clear_spec [OF assms(1)] assms(2) by simp

theorem treemap_clear_frees_all_witness: "distinct (snd (treemap_clear sample_tm)) \<and>
    set (snd (treemap_clear sample_tm)) = {10, 20, 30}"
  using treemap_clear_frees_all [OF sample_tm_inv, of "fst (treemap_clear sample_tm)" "snd (treemap_clear sample_tm)"]
  by (auto simp: sample_tm_contents)

section \<open>The maps that a program can build\<close>

lemma reachable_inv:
  assumes "cmp_order cmp K" "tm_reachable cmp K tm"
  shows "treemap_inv cmp K tm"
  using assms(2)
proof induction
  case (tm_insert tm key mem val tm' ret ins)
  show ?case
    by (rule cmp_order.treemap_insert2_any [OF assms(1) tm_insert.IH tm_insert.hyps(2) _ tm_insert.hyps(4)])
      (use tm_insert.hyps(3) in blast)
next
  case (tm_delete tm key tm' ret)
  then show ?case using cmp_order.treemap_delete_spec [OF assms(1) tm_delete.IH tm_delete.hyps(2)] by auto
next
  case (tm_first_step tm tm' p)
  then show ?case using treemap_first_spec by (metis fst_conv)
next
  case (tm_clear tm tm' freed)
  then show ?case using treemap_clear_spec by (metis fst_conv)
qed (simp_all add: treemap_init_inv treemap_set_value_spec)

text \<open>
  C12. Every map a program can build from \<open>treemap_init\<close> by insertions (successful or not),
  deletions, iteration, stores through a node and clearing is valid.
\<close>

theorem treemap_reachable_valid:
  assumes "cmp_order cmp K" "tm_reachable cmp K tm"
  shows "treemap_inv cmp K tm"
  by (rule reachable_inv [OF assms])

theorem treemap_reachable_valid_witness:
  "\<exists>tm. treemap_insert2 (treemap_init 4 4 seq_cmp) 2 (7::nat) (Some 1) = Some (tm, 0, Some (Some 1)) \<and>
     treemap_inv seq_cmp (seq_window 0xFFFFFFF0) tm"
proof -
  obtain tm where tm: "treemap_insert2 (treemap_init 4 4 seq_cmp) 2 (7::nat) (Some 1) = Some (tm, 0, Some (Some 1))"
    by (simp add: treemap_insert2_def treemap_init_def create_node_def)
  have "tm_reachable seq_cmp (seq_window 0xFFFFFFF0) tm"
    using tm_insert [OF tm_start sample_keys(1) _ tm] by (simp add: treemap_init_inv)
  with tm treemap_reachable_valid [OF seq.cmp_order_axioms] show ?thesis by blast
qed

text \<open>
  C27. Every map a program can build is balanced, so that a search follows few links: after any insertions, deletions, steps of
  an iteration, stores and clearings, with \<open>n\<close> entries its height \<open>h\<close> has \<open>2 ^ \<lceil>h / 2\<rceil> \<le> n + 1\<close>, and \<open>treemap_size\<close>
  returns \<open>n\<close>.
\<close>

theorem treemap_logarithmic:
  assumes "cmp_order cmp K" "tm_reachable cmp K tm"
  shows "2 ^ ((height (tm_root tm) + 1) div 2) \<le> length (contents tm) + 1 \<and> treemap_size tm = of_nat (length (contents tm))"
proof -
  have inv: "treemap_inv cmp K tm" by (rule reachable_inv [OF assms])
  then show ?thesis using treemap_height [OF inv] by (simp add: treemap_inv_def treemap_size_def)
qed

theorem treemap_logarithmic_witness:
  "\<exists>tm. treemap_insert2 (treemap_init 4 4 seq_cmp) 2 (7::nat) (Some 1) = Some (tm, 0, Some (Some 1)) \<and>
     (2::nat) ^ ((height (tm_root tm) + 1) div 2) \<le> 2 \<and> treemap_size tm = 1"
proof -
  obtain tm where tm: "treemap_insert2 (treemap_init 4 4 seq_cmp) 2 (7::nat) (Some 1) = Some (tm, 0, Some (Some 1))" "length (contents tm) = 1"
    by (simp add: treemap_insert2_def treemap_init_def create_node_def contents_def)
  have "tm_reachable seq_cmp (seq_window 0xFFFFFFF0) tm"
    using tm_insert [OF tm_start sample_keys(1) _ tm(1)] by (simp add: treemap_init_inv)
  from treemap_logarithmic [OF seq.cmp_order_axioms this] show ?thesis using tm by (intro exI [of _ tm]) simp
qed

end
