(* ===== verification/IntrusiveList.thy ===== *)
theory IntrusiveList
  imports Prelude
begin

text \<open>
  The doubly linked lists of \<^verbatim>\<open>src/common/list.h\<close> at the level of the pointers. The memory of the
  links is a pair of functions from addresses to addresses; \<open>0\<close> is \<open>NULL\<close>, and a read or a write
  through it is \<open>None\<close>. \<open>dlist h head xs\<close> says that the circular list with the given head holds the
  entries \<open>xs\<close>; every operation implements the list operation of its comment and touches no other list.
\<close>

record links =
  nxt :: "addr \<Rightarrow> addr"
  prv :: "addr \<Rightarrow> addr"

section \<open>Memory accesses\<close>

definition get_next :: "links \<Rightarrow> addr \<Rightarrow> addr option" where
  "get_next h p = (if p = 0 then None else Some (nxt h p))"

definition get_prev :: "links \<Rightarrow> addr \<Rightarrow> addr option" where
  "get_prev h p = (if p = 0 then None else Some (prv h p))"

definition put_next :: "links \<Rightarrow> addr \<Rightarrow> addr \<Rightarrow> links option" where
  "put_next h p v = (if p = 0 then None else Some (h\<lparr>nxt := (nxt h)(p := v)\<rparr>))"

definition put_prev :: "links \<Rightarrow> addr \<Rightarrow> addr \<Rightarrow> links option" where
  "put_prev h p v = (if p = 0 then None else Some (h\<lparr>prv := (prv h)(p := v)\<rparr>))"

lemmas access_defs = get_next_def get_prev_def put_next_def put_prev_def

section \<open>The operations\<close>

definition INIT_LIST_HEAD :: "links \<Rightarrow> addr \<Rightarrow> links option" where
  "INIT_LIST_HEAD h p = do { h1 \<leftarrow> put_next h p p; put_prev h1 p p }"

definition list_add_between :: "links \<Rightarrow> addr \<Rightarrow> addr \<Rightarrow> addr \<Rightarrow> links option" where
  "list_add_between h new1 prev next1 = do {
     h1 \<leftarrow> put_prev h next1 new1;
     h2 \<leftarrow> put_next h1 new1 next1;
     h3 \<leftarrow> put_prev h2 new1 prev;
     put_next h3 prev new1
   }"

definition list_add :: "links \<Rightarrow> addr \<Rightarrow> addr \<Rightarrow> links option" where
  "list_add h new1 head = do { n \<leftarrow> get_next h head; list_add_between h new1 head n }"

definition list_add_tail :: "links \<Rightarrow> addr \<Rightarrow> addr \<Rightarrow> links option" where
  "list_add_tail h new1 head = do { p \<leftarrow> get_prev h head; list_add_between h new1 p head }"

definition list_del_between :: "links \<Rightarrow> addr \<Rightarrow> addr \<Rightarrow> links option" where
  "list_del_between h prev next1 = do { h1 \<leftarrow> put_prev h next1 prev; put_next h1 prev next1 }"

text \<open>The common first step of the removals: \<open>__list_del(entry->prev, entry->next)\<close>.\<close>

definition list_unlink :: "links \<Rightarrow> addr \<Rightarrow> links option" where
  "list_unlink h entry = do {
     p \<leftarrow> get_prev h entry;
     n \<leftarrow> get_next h entry;
     list_del_between h p n
   }"

definition list_del :: "links \<Rightarrow> addr \<Rightarrow> links option" where
  "list_del h entry = do {
     h1 \<leftarrow> list_unlink h entry;
     h2 \<leftarrow> put_next h1 entry 0;
     put_prev h2 entry 0
   }"

definition list_del_init :: "links \<Rightarrow> addr \<Rightarrow> links option" where
  "list_del_init h entry = do { h1 \<leftarrow> list_unlink h entry; INIT_LIST_HEAD h1 entry }"

definition list_move :: "links \<Rightarrow> addr \<Rightarrow> addr \<Rightarrow> links option" where
  "list_move h list head = do { h1 \<leftarrow> list_unlink h list; list_add h1 list head }"

definition list_move_tail :: "links \<Rightarrow> addr \<Rightarrow> addr \<Rightarrow> links option" where
  "list_move_tail h list head = do { h1 \<leftarrow> list_unlink h list; list_add_tail h1 list head }"

definition list_empty :: "links \<Rightarrow> addr \<Rightarrow> bool option" where
  "list_empty h head = do { n \<leftarrow> get_next h head; Some (n = head) }"

definition list_splice_at :: "links \<Rightarrow> addr \<Rightarrow> addr \<Rightarrow> links option" where
  "list_splice_at h list head = do {
     first \<leftarrow> get_next h list;
     last \<leftarrow> get_prev h list;
     at \<leftarrow> get_next h head;
     h1 \<leftarrow> put_prev h first head;
     h2 \<leftarrow> put_next h1 head first;
     h3 \<leftarrow> put_next h2 last at;
     put_prev h3 at last
   }"

definition list_splice :: "links \<Rightarrow> addr \<Rightarrow> addr \<Rightarrow> links option" where
  "list_splice h list head = do {
     e \<leftarrow> list_empty h list;
     if e then Some h else list_splice_at h list head
   }"

definition list_splice_init :: "links \<Rightarrow> addr \<Rightarrow> addr \<Rightarrow> links option" where
  "list_splice_init h list head = do {
     e \<leftarrow> list_empty h list;
     if e then Some h else do { h1 \<leftarrow> list_splice_at h list head; INIT_LIST_HEAD h1 list }
   }"

section \<open>Circular lists\<close>

fun chain :: "links \<Rightarrow> addr \<Rightarrow> addr list \<Rightarrow> addr \<Rightarrow> bool" where
  "chain h a [] z \<longleftrightarrow> nxt h a = z \<and> prv h z = a"
| "chain h a (x # xs) z \<longleftrightarrow> nxt h a = x \<and> prv h x = a \<and> chain h x xs z"

definition dlist :: "links \<Rightarrow> addr \<Rightarrow> addr list \<Rightarrow> bool" where
  "dlist h head xs \<longleftrightarrow> chain h head xs head \<and> distinct (head # xs) \<and> 0 \<notin> set (head # xs)"

text \<open>Two memories agree outside a set of addresses.\<close>

definition unchanged :: "addr set \<Rightarrow> links \<Rightarrow> links \<Rightarrow> bool" where
  "unchanged S h h' \<longleftrightarrow> (\<forall>a. a \<notin> S \<longrightarrow> nxt h' a = nxt h a \<and> prv h' a = prv h a)"

lemma chain_split: "chain h a (us @ vs) z \<longleftrightarrow> chain h a us (hd (vs @ [z])) \<and> chain h (last (a # us)) vs z"
  by (induction us arbitrary: a) (auto, (cases vs; simp)+)

lemma chain_retarget_end:
  "chain h a us y \<Longrightarrow> (\<And>b. b \<in> set (butlast (a # us)) \<Longrightarrow> nxt h' b = nxt h b) \<Longrightarrow>
     (\<And>b. b \<in> set us \<Longrightarrow> prv h' b = prv h b) \<Longrightarrow> nxt h' (last (a # us)) = z \<Longrightarrow>
     prv h' z = last (a # us) \<Longrightarrow> chain h' a us z"
  by (induction us arbitrary: a) auto

lemma chain_cong:
  "chain h a xs z \<Longrightarrow> (\<And>b. b \<in> set (a # xs) \<Longrightarrow> nxt h' b = nxt h b) \<Longrightarrow>
     (\<And>b. b \<in> set (xs @ [z]) \<Longrightarrow> prv h' b = prv h b) \<Longrightarrow> chain h' a xs z"
  by (induction xs arbitrary: a) auto

lemma chain_retarget_start:
  "chain h p vs z \<Longrightarrow> (\<And>b. b \<in> set vs \<Longrightarrow> nxt h' b = nxt h b) \<Longrightarrow>
     (\<And>b. b \<in> set (tl (vs @ [z])) \<Longrightarrow> prv h' b = prv h b) \<Longrightarrow> nxt h' a = hd (vs @ [z]) \<Longrightarrow>
     prv h' (hd (vs @ [z])) = a \<Longrightarrow> chain h' a vs z"
  by (cases vs) (auto intro: chain_cong)

lemma dlist_unchanged:
  assumes "dlist h head xs" "unchanged S h h'" "set (head # xs) \<inter> S = {}"
  shows "dlist h' head xs"
  using assms chain_cong [of h head xs head h'] by (auto simp: dlist_def unchanged_def disjoint_iff)

lemma unchanged_mono: "unchanged S h h' \<Longrightarrow> S \<subseteq> T \<Longrightarrow> unchanged T h h'"
  by (auto simp: unchanged_def)

lemma unchanged_trans: "unchanged S h h' \<Longrightarrow> unchanged S h' h'' \<Longrightarrow> unchanged S h h''"
  by (auto simp: unchanged_def)

lemma neighbours:
  assumes "dlist h head (us @ vs)"
  shows "nxt h (last (head # us)) = hd (vs @ [head])" "prv h (hd (vs @ [head])) = last (head # us)"
    "last (head # us) \<noteq> 0" "hd (vs @ [head]) \<noteq> 0" "last (head # us) \<in> set (head # us)"
    "hd (vs @ [head]) \<in> set (vs @ [head])"
proof -
  have c: "chain h (last (head # us)) vs head" using assms by (simp add: dlist_def chain_split)
  then show "nxt h (last (head # us)) = hd (vs @ [head])" "prv h (hd (vs @ [head])) = last (head # us)"
    by (cases vs; simp)+
  show 1: "last (head # us) \<in> set (head # us)" "hd (vs @ [head]) \<in> set (vs @ [head])"
    by (rule last_in_set; simp) (rule hd_in_set; simp)
  show "last (head # us) \<noteq> 0" "hd (vs @ [head]) \<noteq> 0" using assms 1 by (auto simp: dlist_def)
qed

text \<open>Linking an entry between two neighbours, and unlinking one.\<close>

lemma list_add_between_spec:
  assumes d: "dlist h head (us @ vs)" and new: "new1 \<notin> set (head # us @ vs)" "new1 \<noteq> 0"
    and p: "p = last (head # us)" and n: "n = hd (vs @ [head])"
  shows "\<exists>h'. list_add_between h new1 p n = Some h' \<and> dlist h' head (us @ new1 # vs) \<and>
    unchanged (set (new1 # head # us @ vs)) h h'"
proof -
  note nb = neighbours [OF d, folded p n]
  let ?h = "h\<lparr>nxt := (nxt h)(new1 := n, p := new1), prv := (prv h)(n := new1, new1 := p)\<rparr>"
  have eq: "list_add_between h new1 p n = Some ?h"
    using nb new by (simp add: list_add_between_def access_defs)
  have ne: "p \<noteq> new1" "n \<noteq> new1" using nb new by auto
  have c: "chain h head us n" "chain h p vs head" using d p n by (auto simp: dlist_def chain_split)
  have dist: "distinct (head # us)" "n \<notin> set us" "p \<notin> set vs" "n \<notin> set (tl (vs @ [head]))"
    using d nb(5,6) n by (cases vs; auto simp: dlist_def)+
  have pl: "p \<notin> set (butlast (head # us))"
    using dist(1) p by (metis append_butlast_last_id distinct_append not_distinct_conv_prefix list.distinct(1))
  have "chain ?h head us new1"
    using c(1) by (rule chain_retarget_end) (use pl ne dist(2) new p in \<open>auto dest: in_set_butlastD\<close>)
  moreover have "chain ?h new1 vs head"
    using c(2) by (rule chain_retarget_start) (use ne dist(3,4) new n in \<open>cases vs; auto\<close>)+
  ultimately have "dlist ?h head (us @ new1 # vs)"
    using d new p by (auto simp: dlist_def chain_split)
  moreover have "unchanged (set (new1 # head # us @ vs)) h ?h"
    using nb by (auto simp: unchanged_def)
  ultimately show ?thesis using eq by blast
qed

lemma list_unlink_spec:
  assumes d: "dlist h head (us @ x # vs)"
  shows "\<exists>h'. list_unlink h x = Some h' \<and> dlist h' head (us @ vs) \<and>
    unchanged (set (head # us @ vs)) h h'"
proof -
  define p n where p: "p = last (head # us)" and n: "n = hd (vs @ [head])"
  have px: "prv h x = p" "p \<noteq> 0" "p \<in> set (head # us)" using neighbours [of h head us "x # vs"] d p by auto
  have nx: "nxt h x = n" "n \<noteq> 0" "n \<in> set (vs @ [head])" using neighbours [of h head "us @ [x]" vs] d n by auto
  let ?h = "h\<lparr>nxt := (nxt h)(p := n), prv := (prv h)(n := p)\<rparr>"
  have "x \<noteq> 0" using d by (auto simp: dlist_def)
  then have eq: "list_unlink h x = Some ?h"
    using px nx by (simp add: list_unlink_def list_del_between_def access_defs)
  have c: "chain h head us x" "chain h x vs head" using d by (auto simp: dlist_def chain_split)
  have dist: "distinct (head # us)" "n \<notin> set us" "p \<notin> set vs" "n \<notin> set (tl (vs @ [head]))"
    using d px nx n by (cases vs; auto simp: dlist_def)+
  have pl: "p \<notin> set (butlast (head # us))"
    using dist(1) p by (metis append_butlast_last_id distinct_append not_distinct_conv_prefix list.distinct(1))
  have "chain ?h head us n"
    using c(1) by (rule chain_retarget_end) (use pl dist(2) p in \<open>auto dest: in_set_butlastD\<close>)
  moreover have "chain ?h p vs head"
    using c(2) by (rule chain_retarget_start) (use dist(3,4) n in \<open>cases vs; auto\<close>)+
  ultimately have "dlist ?h head (us @ vs)"
    using d p n by (auto simp: dlist_def chain_split)
  moreover have "unchanged (set (head # us @ vs)) h ?h"
    using px nx by (auto simp: unchanged_def)
  ultimately show ?thesis using eq by blast
qed

section \<open>What the operations do to a list\<close>

lemma INIT_LIST_HEAD_spec:
  assumes "p \<noteq> 0"
  shows "\<exists>h'. INIT_LIST_HEAD h p = Some h' \<and> dlist h' p [] \<and> unchanged {p} h h'"
  using assms by (simp add: INIT_LIST_HEAD_def access_defs dlist_def unchanged_def)

lemma list_add_spec:
  assumes "dlist h head (us @ vs)" "new1 \<notin> set (head # us @ vs)" "new1 \<noteq> 0" "p = last (head # us)"
  shows "\<exists>h'. list_add h new1 p = Some h' \<and> dlist h' head (us @ new1 # vs) \<and>
    unchanged (set (new1 # head # us @ vs)) h h'"
  using list_add_between_spec [OF assms refl] neighbours [OF assms(1)] assms(4)
  by (simp add: list_add_def get_next_def)

lemma list_add_tail_spec:
  assumes "dlist h head (us @ vs)" "new1 \<notin> set (head # us @ vs)" "new1 \<noteq> 0" "n = hd (vs @ [head])"
  shows "\<exists>h'. list_add_tail h new1 n = Some h' \<and> dlist h' head (us @ new1 # vs) \<and>
    unchanged (set (new1 # head # us @ vs)) h h'"
  using list_add_between_spec [OF assms(1-3) refl assms(4)] neighbours [OF assms(1)] assms(4)
  by (simp add: list_add_tail_def get_prev_def)

lemma list_del_spec:
  assumes "dlist h head (us @ x # vs)"
  shows "\<exists>h'. list_del h x = Some h' \<and> dlist h' head (us @ vs) \<and> nxt h' x = 0 \<and> prv h' x = 0 \<and>
    unchanged (set (x # head # us @ vs)) h h'"
proof -
  obtain h1 where h1: "list_unlink h x = Some h1" "dlist h1 head (us @ vs)" "unchanged (set (head # us @ vs)) h h1"
    using list_unlink_spec [OF assms] by blast
  have x: "x \<noteq> 0" "x \<notin> set (head # us @ vs)" using assms by (auto simp: dlist_def)
  let ?h = "h1\<lparr>nxt := (nxt h1)(x := 0), prv := (prv h1)(x := 0)\<rparr>"
  have "unchanged {x} h1 ?h" by (simp add: unchanged_def)
  moreover from this have "dlist ?h head (us @ vs)" using h1(2) x(2) by (auto intro: dlist_unchanged)
  moreover have "list_del h x = Some ?h" using h1(1) x(1) by (simp add: list_del_def access_defs)
  moreover have "unchanged (set (x # head # us @ vs)) h ?h"
    using h1(3) \<open>unchanged {x} h1 ?h\<close> by (auto simp: unchanged_def)
  ultimately show ?thesis by auto
qed

lemma list_del_init_spec:
  assumes "dlist h head (us @ x # vs)"
  shows "\<exists>h'. list_del_init h x = Some h' \<and> dlist h' head (us @ vs) \<and> dlist h' x [] \<and>
    unchanged (set (x # head # us @ vs)) h h'"
proof -
  obtain h1 where h1: "list_unlink h x = Some h1" "dlist h1 head (us @ vs)" "unchanged (set (head # us @ vs)) h h1"
    using list_unlink_spec [OF assms] by blast
  have x: "x \<noteq> 0" "x \<notin> set (head # us @ vs)" using assms by (auto simp: dlist_def)
  obtain h2 where h2: "INIT_LIST_HEAD h1 x = Some h2" "dlist h2 x []" "unchanged {x} h1 h2"
    using INIT_LIST_HEAD_spec [OF x(1)] by blast
  have "dlist h2 head (us @ vs)" using h1(2) h2(3) x(2) by (auto intro: dlist_unchanged)
  moreover have "unchanged (set (x # head # us @ vs)) h h2" using h1(3) h2(3) by (auto simp: unchanged_def)
  ultimately show ?thesis using h1(1) h2 by (auto simp: list_del_init_def)
qed

text \<open>Moving an entry behind another entry of the same list, or behind its head.\<close>

lemma list_move_spec:
  assumes d: "dlist h head (us @ x # vs)" and s: "us @ vs = as @ bs" and p: "p = last (head # as)"
  shows "\<exists>h'. list_move h x p = Some h' \<and> dlist h' head (as @ x # bs) \<and>
    unchanged (set (x # head # us @ vs)) h h'"
proof -
  obtain h1 where h1: "list_unlink h x = Some h1" "dlist h1 head (as @ bs)" "unchanged (set (head # us @ vs)) h h1"
    using list_unlink_spec [OF d] unfolding s by blast
  have x: "x \<noteq> 0" "x \<notin> set (head # as @ bs)" using d s [symmetric] by (auto simp: dlist_def)
  obtain h2 where h2: "list_add h1 x p = Some h2" "dlist h2 head (as @ x # bs)"
      "unchanged (set (x # head # as @ bs)) h1 h2"
    using list_add_spec [OF h1(2) x(2,1) p] by blast
  have "unchanged (set (x # head # us @ vs)) h h2" using h1(3) h2(3) unfolding s by (auto simp: unchanged_def)
  then show ?thesis using h1(1) h2 by (auto simp: list_move_def)
qed

lemma list_move_tail_spec:
  assumes d: "dlist h head (us @ x # vs)" and s: "us @ vs = as @ bs" and n: "n = hd (bs @ [head])"
  shows "\<exists>h'. list_move_tail h x n = Some h' \<and> dlist h' head (as @ x # bs) \<and>
    unchanged (set (x # head # us @ vs)) h h'"
proof -
  obtain h1 where h1: "list_unlink h x = Some h1" "dlist h1 head (as @ bs)" "unchanged (set (head # us @ vs)) h h1"
    using list_unlink_spec [OF d] unfolding s by blast
  have x: "x \<noteq> 0" "x \<notin> set (head # as @ bs)" using d s [symmetric] by (auto simp: dlist_def)
  obtain h2 where h2: "list_add_tail h1 x n = Some h2" "dlist h2 head (as @ x # bs)"
      "unchanged (set (x # head # as @ bs)) h1 h2"
    using list_add_tail_spec [OF h1(2) x(2,1) n] by blast
  have "unchanged (set (x # head # us @ vs)) h h2" using h1(3) h2(3) unfolding s by (auto simp: unchanged_def)
  then show ?thesis using h1(1) h2 by (auto simp: list_move_tail_def)
qed

lemma list_empty_spec: "dlist h head xs \<Longrightarrow> list_empty h head = Some (xs = [])"
  by (cases xs) (auto simp: list_empty_def get_next_def dlist_def)

lemma list_splice_at_spec:
  assumes l: "dlist h list xs" "xs \<noteq> []" and d: "dlist h head ys" and disj: "set (list # xs) \<inter> set (head # ys) = {}"
  shows "\<exists>h'. list_splice_at h list head = Some h' \<and> dlist h' head (xs @ ys) \<and>
    unchanged (set (head # xs @ ys)) h h' \<and> nxt h' list = nxt h list \<and> prv h' list = prv h list"
proof -
  obtain f xs' where xs: "xs = f # xs'" using l(2) by (cases xs) auto
  define e where "e = last xs"
  define at where "at = hd (ys @ [head])"
  have fe: "f \<noteq> 0" "e \<noteq> 0" "e \<in> set xs" "nxt h list = f" "prv h list = e"
    using l neighbours [of h list "[]" xs] neighbours [of h list xs "[]"] unfolding xs
    by (auto simp: dlist_def e_def xs)
  have at: "nxt h head = at" "at \<noteq> 0" "at \<in> set (ys @ [head])" "head \<noteq> 0"
    using neighbours [of h head "[]" ys] d by (auto simp: at_def)
  let ?h = "h\<lparr>nxt := (nxt h)(head := f, e := at), prv := (prv h)(f := head, at := e)\<rparr>"
  have "list \<noteq> 0" using l by (simp add: dlist_def)
  then have eq: "list_splice_at h list head = Some ?h"
    using fe at by (simp add: list_splice_at_def access_defs)
  have ne: "e \<noteq> head" "f \<noteq> at" "list \<notin> set (head # ys)" "at \<notin> set xs" "e \<notin> set ys" "head \<notin> set xs" "list \<notin> set xs"
    using disj fe(3) at(3) l(1) unfolding xs by (auto simp: dlist_def disjoint_iff)
  have dx: "distinct (f # xs')" and dy: "distinct (head # ys)" using l d xs by (auto simp: dlist_def)
  have bl: "e \<notin> set (butlast (f # xs'))"
    using dx unfolding e_def xs by (metis append_butlast_last_id distinct_append not_distinct_conv_prefix list.distinct(1))
  have "chain h f xs' list" using l by (simp add: dlist_def xs)
  then have "chain ?h f xs' at"
    by (rule chain_retarget_end) (use bl ne dx in \<open>auto simp: e_def xs dest: in_set_butlastD\<close>)
  then have 1: "chain ?h head xs at" using ne by (auto simp: xs)
  have tl: "at \<notin> set (tl (ys @ [head]))" "f \<notin> set (tl (ys @ [head]))" "f \<noteq> head"
    using dy disj by (cases ys; auto simp: at_def xs)+
  have "chain h head ys head" using d by (simp add: dlist_def)
  then have 2: "chain ?h e ys head"
    by (rule chain_retarget_start) (use ne tl dy in \<open>auto simp: at_def [symmetric]\<close>)
  have "dlist ?h head (xs @ ys)"
  proof -
    have "chain ?h head xs (hd (ys @ [head])) \<and> chain ?h (last (head # xs)) ys head"
      using 1 2 l(2) by (simp add: at_def e_def)
    then have "chain ?h head (xs @ ys) head" unfolding chain_split .
    then show ?thesis using l(1) d disj by (auto simp: dlist_def)
  qed
  moreover have "unchanged (set (head # xs @ ys)) h ?h" using fe(3) at(3) xs by (auto simp: unchanged_def)
  moreover have "nxt ?h list = nxt h list" "prv ?h list = prv h list" using ne fe(3) at(3) xs by auto
  ultimately show ?thesis using eq by blast
qed

lemma list_splice_init_spec:
  assumes l: "dlist h list xs" and d: "dlist h head ys" and disj: "set (list # xs) \<inter> set (head # ys) = {}"
  shows "\<exists>h'. list_splice_init h list head = Some h' \<and> dlist h' head (xs @ ys) \<and> dlist h' list []"
proof (cases "xs = []")
  case True
  then show ?thesis using list_empty_spec [OF l] l d by (auto simp: list_splice_init_def)
next
  case False
  obtain h1 where h1: "list_splice_at h list head = Some h1" "dlist h1 head (xs @ ys)"
    using list_splice_at_spec [OF l False d disj] by blast
  have "list \<noteq> 0" using l by (simp add: dlist_def)
  then obtain h2 where h2: "INIT_LIST_HEAD h1 list = Some h2" "dlist h2 list []" "unchanged {list} h1 h2"
    using INIT_LIST_HEAD_spec by blast
  have "dlist h2 head (xs @ ys)"
    using h1(2) h2(3) by (rule dlist_unchanged) (use l disj in \<open>auto simp: dlist_def\<close>)
  then show ?thesis using list_empty_spec [OF l] False h1(1) h2 by (auto simp: list_splice_init_def)
qed

section \<open>The properties of the lists\<close>

text \<open>The list with head 1 and entries 2, 3 and 4, and the empty list with head 9.\<close>

definition sample_links :: links where
  "sample_links = \<lparr>nxt = (\<lambda>_. 0)(1 := 2, 2 := 3, 3 := 4, 4 := 1, 9 := 9),
     prv = (\<lambda>_. 0)(2 := 1, 3 := 2, 4 := 3, 1 := 4, 9 := 9)\<rparr>"

lemma sample_links_lists: "dlist sample_links 1 [2, 3, 4]" "dlist sample_links 9 []"
  by (simp_all add: sample_links_def dlist_def)

text \<open>
  Adding: \<open>list_add\<close> puts a new entry behind a given entry (or behind the head), \<open>list_add_tail\<close> in
  front of one. Both keep the list circular and doubly linked and touch no other list.
\<close>

theorem list_add_refines:
  assumes "dlist h head (us @ vs)" "new1 \<notin> set (head # us @ vs)" "new1 \<noteq> 0"
    and "dlist h other ys" "set (other # ys) \<inter> set (new1 # head # us @ vs) = {}"
  shows "\<exists>a t. list_add h new1 (last (head # us)) = Some a \<and> dlist a head (us @ new1 # vs) \<and> dlist a other ys \<and>
    list_add_tail h new1 (hd (vs @ [head])) = Some t \<and> dlist t head (us @ new1 # vs) \<and> dlist t other ys"
  using list_add_spec [OF assms(1-3) refl] list_add_tail_spec [OF assms(1-3) refl] dlist_unchanged [OF assms(4) _ assms(5)]
  by blast

theorem list_add_refines_witness:
  "\<exists>a t. list_add sample_links 5 2 = Some a \<and> dlist a 1 [2, 5, 3, 4] \<and> dlist a 9 [] \<and>
     list_add_tail sample_links 5 3 = Some t \<and> dlist t 1 [2, 5, 3, 4]"
  using list_add_refines [of sample_links 1 "[2]" "[3, 4]" 5 9 "[]"] sample_links_lists by auto

text \<open>
  C31. Removing and moving: \<open>list_del\<close> takes an entry out and clears its links, \<open>list_move\<close> puts it behind
  any other entry of the list (or behind the head), \<open>list_move_tail\<close> in front of one. The list stays circular
  and doubly linked and no other list is touched.
\<close>

theorem list_del_move_refines:
  assumes "dlist h head (us @ x # vs)" "us @ vs = as @ bs"
    and "dlist h other ys" "set (other # ys) \<inter> set (x # head # us @ vs) = {}"
  shows "\<exists>d m t. list_del h x = Some d \<and> dlist d head (us @ vs) \<and> nxt d x = 0 \<and> prv d x = 0 \<and> dlist d other ys \<and>
    list_move h x (last (head # as)) = Some m \<and> dlist m head (as @ x # bs) \<and> dlist m other ys \<and>
    list_move_tail h x (hd (bs @ [head])) = Some t \<and> dlist t head (as @ x # bs) \<and> dlist t other ys"
proof -
  note keep = dlist_unchanged [OF assms(3) _ assms(4)]
  obtain d where "list_del h x = Some d" "dlist d head (us @ vs)" "nxt d x = 0" "prv d x = 0" "dlist d other ys"
    using list_del_spec [OF assms(1)] keep by blast
  moreover obtain m where "list_move h x (last (head # as)) = Some m" "dlist m head (as @ x # bs)" "dlist m other ys"
    using list_move_spec [OF assms(1,2) refl] keep by blast
  moreover obtain t where "list_move_tail h x (hd (bs @ [head])) = Some t" "dlist t head (as @ x # bs)" "dlist t other ys"
    using list_move_tail_spec [OF assms(1,2) refl] keep by blast
  ultimately show ?thesis by blast
qed

theorem list_del_move_refines_witness:
  "\<exists>d m. list_del sample_links 2 = Some d \<and> dlist d 1 [3, 4] \<and>
     list_move sample_links 2 4 = Some m \<and> dlist m 1 [3, 4, 2] \<and> dlist m 9 []"
  using list_del_move_refines [of sample_links 1 "[]" 2 "[3, 4]" "[3, 4]" "[]" 9 "[]"] sample_links_lists by auto

text \<open>
  \<open>list_splice_init\<close> moves all entries of one list to the front of another and leaves the first empty.
\<close>

theorem list_splice_refines:
  assumes "dlist h list xs" "dlist h head ys" "set (list # xs) \<inter> set (head # ys) = {}"
  shows "\<exists>h'. list_splice_init h list head = Some h' \<and> dlist h' head (xs @ ys) \<and> dlist h' list []"
  by (rule list_splice_init_spec [OF assms])

theorem list_splice_refines_witness:
  "\<exists>h'. list_splice_init sample_links 1 9 = Some h' \<and> dlist h' 9 [2, 3, 4] \<and> dlist h' 1 []"
  using list_splice_refines [OF sample_links_lists] by simp

end
