(* ===== verification/HashQueue.thy ===== *)
theory HashQueue
  imports Prelude
begin

text \<open>
  The hash queue of \<^verbatim>\<open>src/common/hashqueue.c\<close>: a queue of nodes that are also linked into hash buckets,
  with an optional fixed pool of nodes. A list of the source (\<open>queue\<close>, \<open>hash[i]\<close>) is the list of the
  addresses of its nodes; the theory on intrusive lists shows that the link operations act on these
  lists in this way. \<open>hq_node\<close> is the memory of the nodes: the key and the value behind an address.
  \<open>None\<close> as a result is a crash: a division by zero, an access outside the pool's stack or through a
  pointer to no node.
\<close>

record node_mem =
  mem_node_size :: u32
  node_total :: u32
  realloc_cnt :: u32
  unalloc_node :: u32
  realloc_stack :: "addr list"
  alloc_ptr :: addr

record ('k, 'v) hash_queue =
  bucket_size :: u32
  hq_key_size :: u32
  hq_data_size :: u32
  node_count :: u32
  hq_mem :: "node_mem option"
  hash_fn :: "'k \<Rightarrow> u32"
  hq_hash :: "addr list list"
  hq_queue :: "addr list"
  hq_node :: "addr \<Rightarrow> ('k \<times> 'v) option"

section \<open>The operations\<close>

text \<open>
  \<open>sizeof(queue_node_t)\<close> and \<open>sizeof(node_mem_t)\<close> are 32 and a pointer has 8 bytes. \<open>hash\<close> and \<open>pool\<close> are
  the results of the two calls of \<open>malloc\<close>; \<open>default_hash_fn\<close> is the FNV hash of the bytes of the key.
\<close>

definition queue_init ::
  "u32 \<Rightarrow> u32 \<Rightarrow> u32 \<Rightarrow> ('k \<Rightarrow> u32) option \<Rightarrow> ('k \<Rightarrow> u32) \<Rightarrow> u32 \<Rightarrow> pointer \<Rightarrow> pointer \<Rightarrow>
     ('k, 'v) hash_queue + int" where
  "queue_init buckets ksize dsize fn default_hash_fn fixed_size hash pool =
     (if hash = None then Inr (-1)
      else let nsize = 32 + ksize + dsize; list_size = 8 * fixed_size in
        if fixed_size > 0 \<and> pool = None then Inr (-1)
        else Inl \<lparr>bucket_size = buckets, hq_key_size = ksize, hq_data_size = dsize, node_count = 0,
          hq_mem = (if fixed_size > 0
            then Some \<lparr>mem_node_size = nsize, node_total = fixed_size, realloc_cnt = 0,
                   unalloc_node = fixed_size, realloc_stack = replicate (unat fixed_size) 0,
                   alloc_ptr = the pool + 32 + unat list_size\<rparr>
            else None),
          hash_fn = (case fn of None \<Rightarrow> default_hash_fn | Some f \<Rightarrow> f),
          hq_hash = replicate (unat buckets) [], hq_queue = [], hq_node = (\<lambda>_. None)\<rparr>)"

text \<open>\<open>mem\<close> is the result of \<open>malloc\<close>, used when there is no pool.\<close>

definition node_alloc ::
  "('k, 'v) hash_queue \<Rightarrow> pointer \<Rightarrow> (('k, 'v) hash_queue \<times> pointer) option" where
  "node_alloc hq mem =
     (case hq_mem hq of None \<Rightarrow> Some (hq, mem)
      | Some m \<Rightarrow>
          if realloc_cnt m > 0 then
            (let i = unat (realloc_cnt m - 1) in
             if i < length (realloc_stack m)
             then Some (hq\<lparr>hq_mem := Some (m\<lparr>realloc_cnt := realloc_cnt m - 1\<rparr>)\<rparr>, Some (realloc_stack m ! i))
             else None)
          else if unalloc_node m > 0 then
            Some (hq\<lparr>hq_mem := Some (m\<lparr>alloc_ptr := alloc_ptr m + unat (mem_node_size m),
                                   unalloc_node := unalloc_node m - 1\<rparr>)\<rparr>, Some (alloc_ptr m))
          else Some (hq, None))"

definition node_free :: "('k, 'v) hash_queue \<Rightarrow> addr \<Rightarrow> ('k, 'v) hash_queue option" where
  "node_free hq n =
     (let hq1 = hq\<lparr>hq_node := (hq_node hq)(n := None)\<rparr> in
      case hq_mem hq of None \<Rightarrow> Some hq1
      | Some m \<Rightarrow>
          (let pos = unat (realloc_cnt m) in
           if pos < length (realloc_stack m)
           then Some (hq1\<lparr>hq_mem := Some (m\<lparr>realloc_cnt := realloc_cnt m + 1,
                                    realloc_stack := (realloc_stack m)[pos := n]\<rparr>)\<rparr>)
           else None))"

definition hash_index :: "('k, 'v) hash_queue \<Rightarrow> 'k \<Rightarrow> nat option" where
  "hash_index hq key =
     (if bucket_size hq = 0 then None else Some (unat (hash_fn hq key mod bucket_size hq)))"

definition queue_prepend ::
  "('k, 'v) hash_queue \<Rightarrow> 'k \<Rightarrow> 'v \<Rightarrow> pointer \<Rightarrow> (('k, 'v) hash_queue \<times> int) option" where
  "queue_prepend hq key val mem = do {
     (hq1, node) \<leftarrow> node_alloc hq mem;
     case node of None \<Rightarrow> Some (hq1, -1)
     | Some n \<Rightarrow> do {
         hv \<leftarrow> hash_index hq1 key;
         Some (hq1\<lparr>hq_node := (hq_node hq1)(n \<mapsto> (key, val)),
                   hq_queue := n # hq_queue hq1,
                   hq_hash := (hq_hash hq1)[hv := n # hq_hash hq1 ! hv],
                   node_count := node_count hq1 + 1\<rparr>, 0)
       }
   }"

definition queue_append ::
  "('k, 'v) hash_queue \<Rightarrow> 'k \<Rightarrow> 'v \<Rightarrow> pointer \<Rightarrow> (('k, 'v) hash_queue \<times> int) option" where
  "queue_append hq key val mem = do {
     (hq1, node) \<leftarrow> node_alloc hq mem;
     case node of None \<Rightarrow> Some (hq1, -1)
     | Some n \<Rightarrow> do {
         hv \<leftarrow> hash_index hq1 key;
         Some (hq1\<lparr>hq_node := (hq_node hq1)(n \<mapsto> (key, val)),
                   hq_queue := hq_queue hq1 @ [n],
                   hq_hash := (hq_hash hq1)[hv := hq_hash hq1 ! hv @ [n]],
                   node_count := node_count hq1 + 1\<rparr>, 0)
       }
   }"

text \<open>\<open>list_del\<close> of both links of a node.\<close>

definition queue_unlink :: "('k, 'v) hash_queue \<Rightarrow> addr \<Rightarrow> ('k, 'v) hash_queue" where
  "queue_unlink hq n = hq\<lparr>hq_hash := map (remove1 n) (hq_hash hq), hq_queue := remove1 n (hq_queue hq)\<rparr>"

text \<open>The loop of \<open>queue_del\<close>; it has read the next entry before it removes one.\<close>

fun queue_del_loop ::
  "('k, 'v) hash_queue \<Rightarrow> 'k \<Rightarrow> addr list \<Rightarrow> int \<Rightarrow> (('k, 'v) hash_queue \<times> int) option" where
  "queue_del_loop hq key [] del_num = Some (hq, del_num)"
| "queue_del_loop hq key (n # ns) del_num =
     (case hq_node hq n of None \<Rightarrow> None
      | Some (nkey, nval) \<Rightarrow>
          if nkey = key then do {
            hq1 \<leftarrow> node_free ((queue_unlink hq n)\<lparr>node_count := node_count hq - 1\<rparr>) n;
            queue_del_loop hq1 key ns (del_num + 1)
          }
          else queue_del_loop hq key ns del_num)"

definition queue_del :: "('k, 'v) hash_queue \<Rightarrow> 'k \<Rightarrow> (('k, 'v) hash_queue \<times> int) option" where
  "queue_del hq key = do {
     hv \<leftarrow> hash_index hq key;
     queue_del_loop hq key (hq_hash hq ! hv) 0
   }"

fun queue_clear_loop :: "nat \<Rightarrow> ('k, 'v) hash_queue \<Rightarrow> ('k, 'v) hash_queue option" where
  "queue_clear_loop fuel hq =
     (case hq_queue hq of [] \<Rightarrow> Some hq
      | n # ns \<Rightarrow>
          (case fuel of 0 \<Rightarrow> None
           | Suc fuel' \<Rightarrow> do { hq1 \<leftarrow> node_free (queue_unlink hq n) n; queue_clear_loop fuel' hq1 }))"

definition queue_clear :: "('k, 'v) hash_queue \<Rightarrow> ('k, 'v) hash_queue option" where
  "queue_clear hq = do {
     hq1 \<leftarrow> queue_clear_loop (length (hq_queue hq)) hq;
     Some (hq1\<lparr>node_count := 0\<rparr>)
   }"

text \<open>\<open>queue_fini\<close> clears the queue before it frees the buckets and the pool.\<close>

definition queue_fini :: "('k, 'v) hash_queue \<Rightarrow> ('k, 'v) hash_queue option" where
  "queue_fini hq = do { hq1 \<leftarrow> queue_clear hq; Some (hq1\<lparr>hq_hash := [], hq_mem := None\<rparr>) }"

definition queue_first :: "('k, 'v) hash_queue \<Rightarrow> pointer" where
  "queue_first hq = (case hq_queue hq of [] \<Rightarrow> None | n # _ \<Rightarrow> Some n)"

definition queue_last :: "('k, 'v) hash_queue \<Rightarrow> pointer" where
  "queue_last hq = (if hq_queue hq = [] then None else Some (last (hq_queue hq)))"

text \<open>The node after and before a node of the queue.\<close>

fun next_in_list :: "addr list \<Rightarrow> addr \<Rightarrow> pointer option" where
  "next_in_list (a # b # xs) c = (if a = c then Some (Some b) else next_in_list (b # xs) c)"
| "next_in_list [a] c = (if a = c then Some None else None)"
| "next_in_list [] c = None"

definition queue_next :: "('k, 'v) hash_queue \<Rightarrow> addr \<Rightarrow> pointer option" where
  "queue_next hq node = next_in_list (hq_queue hq) node"

definition queue_prev :: "('k, 'v) hash_queue \<Rightarrow> addr \<Rightarrow> pointer option" where
  "queue_prev hq node = next_in_list (rev (hq_queue hq)) node"

definition queue_key :: "('k, 'v) hash_queue \<Rightarrow> addr \<Rightarrow> 'k option" where
  "queue_key hq n = map_option fst (hq_node hq n)"

definition queue_value :: "('k, 'v) hash_queue \<Rightarrow> addr \<Rightarrow> 'v option" where
  "queue_value hq n = map_option snd (hq_node hq n)"

fun queue_get_loop :: "('k, 'v) hash_queue \<Rightarrow> 'k \<Rightarrow> addr list \<Rightarrow> pointer option" where
  "queue_get_loop hq key [] = Some None"
| "queue_get_loop hq key (n # ns) =
     (case hq_node hq n of None \<Rightarrow> None
      | Some (nkey, nval) \<Rightarrow> if nkey = key then Some (Some n) else queue_get_loop hq key ns)"

text \<open>The node whose value the source returns a pointer to.\<close>

definition queue_get :: "('k, 'v) hash_queue \<Rightarrow> 'k \<Rightarrow> pointer option" where
  "queue_get hq key = do { hv \<leftarrow> hash_index hq key; queue_get_loop hq key (hq_hash hq ! hv) }"

definition queue_front :: "('k, 'v) hash_queue \<Rightarrow> ('k \<times> 'v) option" where
  "queue_front hq = do { n \<leftarrow> queue_first hq; hq_node hq n }"

definition queue_back :: "('k, 'v) hash_queue \<Rightarrow> ('k \<times> 'v) option" where
  "queue_back hq = do { n \<leftarrow> queue_last hq; hq_node hq n }"

text \<open>\<open>list_move\<close> and \<open>list_move_tail\<close> of the queue link of every node with the key.\<close>

fun queue_move_loop ::
  "bool \<Rightarrow> ('k, 'v) hash_queue \<Rightarrow> 'k \<Rightarrow> addr list \<Rightarrow> ('k, 'v) hash_queue option" where
  "queue_move_loop front hq key [] = Some hq"
| "queue_move_loop front hq key (n # ns) =
     (case hq_node hq n of None \<Rightarrow> None
      | Some (nkey, nval) \<Rightarrow>
          if nkey = key then
            queue_move_loop front
              (hq\<lparr>hq_queue := (if front then n # remove1 n (hq_queue hq) else remove1 n (hq_queue hq) @ [n])\<rparr>)
              key ns
          else queue_move_loop front hq key ns)"

definition queue_move_front :: "('k, 'v) hash_queue \<Rightarrow> 'k \<Rightarrow> ('k, 'v) hash_queue option" where
  "queue_move_front hq key = do { hv \<leftarrow> hash_index hq key; queue_move_loop True hq key (hq_hash hq ! hv) }"

definition queue_move_back :: "('k, 'v) hash_queue \<Rightarrow> 'k \<Rightarrow> ('k, 'v) hash_queue option" where
  "queue_move_back hq key = do { hv \<leftarrow> hash_index hq key; queue_move_loop False hq key (hq_hash hq ! hv) }"

text \<open>Move the node \<open>src\<close> behind the node \<open>dst\<close>.\<close>

fun insert_after :: "addr \<Rightarrow> addr \<Rightarrow> addr list \<Rightarrow> addr list" where
  "insert_after src dst [] = []"
| "insert_after src dst (x # xs) = (if x = dst then x # src # xs else x # insert_after src dst xs)"

definition queue_move_to :: "('k, 'v) hash_queue \<Rightarrow> addr \<Rightarrow> addr \<Rightarrow> ('k, 'v) hash_queue" where
  "queue_move_to hq src dst = hq\<lparr>hq_queue := insert_after src dst (remove1 src (hq_queue hq))\<rparr>"

definition queue_empty :: "('k, 'v) hash_queue \<Rightarrow> bool" where
  "queue_empty hq \<longleftrightarrow> hq_queue hq = []"

definition queue_size :: "('k, 'v) hash_queue \<Rightarrow> u32" where
  "queue_size hq = node_count hq"

text \<open>Writing the value through the pointer that \<open>queue_get\<close>, \<open>queue_front\<close> or \<open>queue_value\<close> returned.\<close>

definition queue_set_value :: "('k, 'v) hash_queue \<Rightarrow> addr \<Rightarrow> 'v \<Rightarrow> ('k, 'v) hash_queue" where
  "queue_set_value hq n w =
     hq\<lparr>hq_node := (hq_node hq)(n := map_option (\<lambda>(k, v). (k, w)) (hq_node hq n))\<rparr>"

end
