(* ===== verification/HashQueueCorrect.thy ===== *)
theory HashQueueCorrect
  imports HashQueue
begin

text \<open>
  The hash queue of \<^verbatim>\<open>src/common/hashqueue.c\<close> refines the list \<open>items\<close> of its keys and values. The
  invariant \<open>hq_inv\<close> says that every bucket holds exactly the queued nodes whose key hashes to it, that the
  count is right, and that the pool owns each of its slots exactly once.
\<close>

section \<open>The invariant\<close>

text \<open>The pool: the addresses handed out so far are the queued ones and the ones on the stack.\<close>

definition pool_slots :: "addr \<Rightarrow> node_mem \<Rightarrow> addr set" where
  "pool_slots base m = (\<lambda>i. base + i * unat (mem_node_size m)) ` {..< unat (node_total m) - unat (unalloc_node m)}"

definition free_stack :: "node_mem \<Rightarrow> addr list" where
  "free_stack m = take (unat (realloc_cnt m)) (realloc_stack m)"

definition pool_ok :: "addr \<Rightarrow> node_mem \<Rightarrow> addr list \<Rightarrow> bool" where
  "pool_ok base m q \<longleftrightarrow>
     mem_node_size m \<noteq> 0 \<and> unalloc_node m \<le> node_total m \<and> length (realloc_stack m) = unat (node_total m) \<and>
     realloc_cnt m \<le> node_total m \<and> distinct (free_stack m) \<and> set (free_stack m) \<inter> set q = {} \<and>
     set (free_stack m) \<union> set q = pool_slots base m \<and>
     alloc_ptr m = base + (unat (node_total m) - unat (unalloc_node m)) * unat (mem_node_size m)"

definition key_index :: "('k, 'v) hash_queue \<Rightarrow> addr \<Rightarrow> nat" where
  "key_index hq n = unat (hash_fn hq (fst (the (hq_node hq n))) mod bucket_size hq)"

definition hq_core :: "('k, 'v) hash_queue \<Rightarrow> bool" where
  "hq_core hq \<longleftrightarrow>
     bucket_size hq \<noteq> 0 \<and> length (hq_hash hq) = unat (bucket_size hq) \<and> distinct (hq_queue hq) \<and>
     (\<forall>n \<in> set (hq_queue hq). hq_node hq n \<noteq> None) \<and>
     (\<forall>i < length (hq_hash hq). distinct (hq_hash hq ! i) \<and>
        set (hq_hash hq ! i) = {n \<in> set (hq_queue hq). key_index hq n = i}) \<and>
     node_count hq = of_nat (length (hq_queue hq))"

definition hq_pool :: "('k, 'v) hash_queue \<Rightarrow> bool" where
  "hq_pool hq \<longleftrightarrow> (case hq_mem hq of None \<Rightarrow> True | Some m \<Rightarrow> \<exists>base. pool_ok base m (hq_queue hq))"

definition hq_inv :: "('k, 'v) hash_queue \<Rightarrow> bool" where
  "hq_inv hq \<longleftrightarrow> hq_core hq \<and> hq_pool hq"

text \<open>There is room for another node: \<open>mem\<close> is the result of \<open>malloc\<close> when there is no pool.\<close>

definition has_room :: "('k, 'v) hash_queue \<Rightarrow> pointer \<Rightarrow> bool" where
  "has_room hq mem = (case hq_mem hq of None \<Rightarrow> mem \<noteq> None
     | Some m \<Rightarrow> length (hq_queue hq) < unat (node_total m))"

text \<open>\<open>malloc\<close> does not return the address of a node in use.\<close>

definition fresh_mem :: "('k, 'v) hash_queue \<Rightarrow> pointer \<Rightarrow> bool" where
  "fresh_mem hq mem \<longleftrightarrow> (hq_mem hq = None \<longrightarrow> (\<forall>a. mem = Some a \<longrightarrow> a \<notin> set (hq_queue hq)))"

text \<open>The queue as the list of its keys and values.\<close>

definition items :: "('k, 'v) hash_queue \<Rightarrow> ('k \<times> 'v) list" where
  "items hq = map (\<lambda>n. the (hq_node hq n)) (hq_queue hq)"

section \<open>The pool\<close>

lemma free_stack_length: "pool_ok base m q \<Longrightarrow> length (free_stack m) = unat (realloc_cnt m)"
  by (simp add: pool_ok_def free_stack_def word_le_nat_alt)

lemma card_pool_slots:
  "mem_node_size m \<noteq> 0 \<Longrightarrow> card (pool_slots base m) = unat (node_total m) - unat (unalloc_node m)"
  unfolding pool_slots_def
  by (subst card_image) (auto simp: inj_on_def unat_eq_zero)

lemma pool_count:
  assumes "pool_ok base m q" "distinct q"
  shows "unat (realloc_cnt m) + length q + unat (unalloc_node m) = unat (node_total m)"
proof -
  have "card (set (free_stack m) \<union> set q) = length (free_stack m) + length q"
    using assms by (subst card_Un_disjoint) (simp_all add: distinct_card pool_ok_def)
  then show ?thesis
    using assms free_stack_length [OF assms(1)] card_pool_slots [of m base]
    by (auto simp: pool_ok_def word_le_nat_alt)
qed

lemma free_stack_push:
  assumes "unat (realloc_cnt m) < length (realloc_stack m)" "length (realloc_stack m) = unat (node_total m)"
  shows "free_stack (m\<lparr>realloc_cnt := realloc_cnt m + 1, realloc_stack := (realloc_stack m)[unat (realloc_cnt m) := n]\<rparr>)
    = free_stack m @ [n]" "unat (realloc_cnt m + 1) = Suc (unat (realloc_cnt m))"
proof -
  show u: "unat (realloc_cnt m + 1) = Suc (unat (realloc_cnt m))"
    using assms by (intro unat_inc [of _ "node_total m"]) simp
  then show "free_stack (m\<lparr>realloc_cnt := realloc_cnt m + 1, realloc_stack := (realloc_stack m)[unat (realloc_cnt m) := n]\<rparr>)
    = free_stack m @ [n]"
    using assms by (simp add: free_stack_def take_Suc_conv_app_nth)
qed

lemma pool_free:
  assumes "pool_ok base m (us @ n # vs)" "distinct (us @ n # vs)"
  shows "unat (realloc_cnt m) < length (realloc_stack m)"
    "pool_ok base (m\<lparr>realloc_cnt := realloc_cnt m + 1, realloc_stack := (realloc_stack m)[unat (realloc_cnt m) := n]\<rparr>) (us @ vs)"
proof -
  show lt: "unat (realloc_cnt m) < length (realloc_stack m)"
    using pool_count [OF assms] assms(1) by (simp add: pool_ok_def)
  have "length (realloc_stack m) = unat (node_total m)" using assms(1) by (simp add: pool_ok_def)
  note push = free_stack_push(1) [OF lt this, where n = n] free_stack_push(2) [OF lt this]
  show "pool_ok base (m\<lparr>realloc_cnt := realloc_cnt m + 1, realloc_stack := (realloc_stack m)[unat (realloc_cnt m) := n]\<rparr>) (us @ vs)"
    using assms lt push unfolding pool_ok_def pool_slots_def
    by (auto simp: word_le_nat_alt)
qed

text \<open>An allocation from the pool succeeds exactly when the pool is not exhausted, and returns a node not in use.\<close>

lemma pool_alloc:
  assumes ok: "pool_ok base m q" "distinct q" and m: "hq_mem hq = Some m" and q: "hq_queue hq = q"
  shows "\<exists>m' p. node_alloc hq mem = Some (hq\<lparr>hq_mem := Some m'\<rparr>, p) \<and> node_total m' = node_total m \<and>
    (if length q < unat (node_total m)
     then \<exists>n. p = Some n \<and> n \<notin> set q \<and> (\<forall>us vs. q = us @ vs \<longrightarrow> pool_ok base m' (us @ n # vs))
     else p = None \<and> m' = m)"
proof -
  note cnt = pool_count [OF ok]
  consider (stack) "0 < realloc_cnt m" | (fresh) "realloc_cnt m = 0" "0 < unalloc_node m"
    | (full) "realloc_cnt m = 0" "unalloc_node m = 0"
    by (cases "realloc_cnt m" rule: word_zero_cases; cases "unalloc_node m" rule: word_zero_cases)
  then show ?thesis
  proof cases
    case stack
    let ?i = "unat (realloc_cnt m - 1)"
    let ?m = "m\<lparr>realloc_cnt := realloc_cnt m - 1\<rparr>"
    have i: "?i = unat (realloc_cnt m) - 1" "0 < unat (realloc_cnt m)"
      using stack by (auto simp: unat_pred word_less_nat_alt)
    have lt: "?i < length (realloc_stack m)" using i ok cnt by (auto simp: pool_ok_def)
    have fs: "free_stack m = free_stack ?m @ [realloc_stack m ! ?i]"
      using take_Suc_conv_app_nth [OF lt] i by (simp add: free_stack_def)
    have "pool_ok base ?m (us @ realloc_stack m ! ?i # vs)" if "q = us @ vs" for us vs
      using ok(1) i fs that unfolding pool_ok_def pool_slots_def
      by (auto simp: word_le_nat_alt)
    moreover have "realloc_stack m ! ?i \<notin> set q" using ok(1) fs by (auto simp: pool_ok_def)
    moreover have "length q < unat (node_total m)" using cnt i by linarith
    moreover have "node_alloc hq mem = Some (hq\<lparr>hq_mem := Some ?m\<rparr>, Some (realloc_stack m ! ?i))"
      using stack m lt by (simp add: node_alloc_def Let_def)
    ultimately show ?thesis by (intro exI [of _ ?m] exI [of _ "Some (realloc_stack m ! ?i)"]) simp
  next
    case fresh
    let ?m = "m\<lparr>alloc_ptr := alloc_ptr m + unat (mem_node_size m), unalloc_node := unalloc_node m - 1\<rparr>"
    have u: "unat (unalloc_node m - 1) = unat (unalloc_node m) - 1" "0 < unat (unalloc_node m)"
      "unat (unalloc_node m) \<le> unat (node_total m)" "0 < unat (mem_node_size m)"
      using fresh(2) ok(1) by (auto simp: unat_pred word_less_nat_alt pool_ok_def word_le_nat_alt unat_gt_0)
    have ap0: "alloc_ptr m = base + (unat (node_total m) - unat (unalloc_node m)) * unat (mem_node_size m)"
      using ok(1) by (simp add: pool_ok_def)
    have rng: "{..< unat (node_total m) - unat (unalloc_node m - 1)}
        = insert (unat (node_total m) - unat (unalloc_node m)) {..< unat (node_total m) - unat (unalloc_node m)}"
      using u by auto
    have slots: "pool_slots base ?m = insert (alloc_ptr m) (pool_slots base m)"
      unfolding pool_slots_def ap0 using rng by simp
    have new: "alloc_ptr m \<notin> pool_slots base m"
      using ok(1) u by (auto simp: pool_slots_def pool_ok_def)
    have fs: "free_stack ?m = free_stack m" by (simp add: free_stack_def)
    have ap: "alloc_ptr m + unat (mem_node_size m) = base + (unat (node_total m) - (unat (unalloc_node m) - 1)) * unat (mem_node_size m)"
    proof -
      have "unat (node_total m) - (unat (unalloc_node m) - 1) = Suc (unat (node_total m) - unat (unalloc_node m))"
        using u by linarith
      then show ?thesis using ok(1) by (simp add: pool_ok_def)
    qed
    have "pool_ok base ?m (us @ alloc_ptr m # vs)" if "q = us @ vs" for us vs
      using ok(1) u fs slots new ap that unfolding pool_ok_def by (auto simp: word_le_nat_alt)
    moreover have "alloc_ptr m \<notin> set q" using ok(1) new by (auto simp: pool_ok_def)
    moreover have "length q < unat (node_total m)" using cnt u by linarith
    moreover have "node_alloc hq mem = Some (hq\<lparr>hq_mem := Some ?m\<rparr>, Some (alloc_ptr m))"
      using fresh m by (simp add: node_alloc_def)
    ultimately show ?thesis by (intro exI [of _ ?m] exI [of _ "Some (alloc_ptr m)"]) simp
  next
    case full
    then have "\<not> length q < unat (node_total m)" using cnt by simp
    moreover have "node_alloc hq mem = Some (hq\<lparr>hq_mem := Some m\<rparr>, None)"
      using full m by (cases hq) (simp add: node_alloc_def)
    ultimately show ?thesis by (intro exI [of _ m] exI [of _ None]) simp
  qed
qed


section \<open>Adding nodes\<close>

lemma hash_index_core: "hq_core hq \<Longrightarrow> \<exists>i. hash_index hq key = Some i \<and> i < length (hq_hash hq) \<and>
    i = unat (hash_fn hq key mod bucket_size hq)"
  by (auto simp: hash_index_def hq_core_def word_less_nat_alt [symmetric] word_mod_less_divisor word_neq_0_conv)

lemma hq_core_insert:
  assumes core: "hq_core hq" and n: "n \<notin> set (hq_queue hq)" and q: "hq_queue hq = us @ vs"
    and i: "hash_index hq key = Some i" and b: "hq_hash hq ! i = bs @ cs"
  shows "hq_core (hq\<lparr>hq_node := (hq_node hq)(n \<mapsto> (key, val)), hq_queue := us @ n # vs,
    hq_hash := (hq_hash hq)[i := bs @ n # cs], node_count := node_count hq + 1\<rparr>)"
proof -
  let ?hq = "hq\<lparr>hq_node := (hq_node hq)(n \<mapsto> (key, val)), hq_queue := us @ n # vs,
    hq_hash := (hq_hash hq)[i := bs @ n # cs], node_count := node_count hq + 1\<rparr>"
  have il: "i < length (hq_hash hq)" "key_index ?hq n = i"
    using hash_index_core [OF core, of key] i by (auto simp: key_index_def)
  define I where "I = key_index ?hq"
  have In: "I n = i" using il(2) by (simp add: I_def)
  have Ix: "I x = key_index hq x" if "x \<in> set us \<or> x \<in> set vs" for x
    using that n q by (auto simp: I_def key_index_def)
  have "set (hq_hash ?hq ! j) = {x \<in> set (hq_queue ?hq). key_index ?hq x = j} \<and> distinct (hq_hash ?hq ! j)"
    if "j < length (hq_hash hq)" for j
  proof -
    have old: "set (hq_hash hq ! j) = {x \<in> set (hq_queue hq). key_index hq x = j}" "distinct (hq_hash hq ! j)"
      using core that by (auto simp: hq_core_def)
    have "{x \<in> set (us @ n # vs). I x = j} =
        {x \<in> set (hq_queue hq). key_index hq x = j} \<union> (if j = i then {n} else {})"
      using In Ix n q by auto
    with old n b il(1) show ?thesis unfolding I_def by (cases "j = i") auto
  qed
  then show ?thesis using core q n il by (auto simp: hq_core_def)
qed

lemma node_alloc_spec:
  assumes inv: "hq_inv hq" and mem: "fresh_mem hq mem"
  shows "\<exists>m' p. node_alloc hq mem = Some (hq\<lparr>hq_mem := m'\<rparr>, p) \<and> map_option node_total m' = map_option node_total (hq_mem hq) \<and>
    (if has_room hq mem
     then \<exists>n. p = Some n \<and> n \<notin> set (hq_queue hq) \<and>
       (\<forall>us vs. hq_queue hq = us @ vs \<longrightarrow> hq_pool (hq\<lparr>hq_mem := m', hq_queue := us @ n # vs\<rparr>))
     else p = None \<and> m' = hq_mem hq)"
proof (cases "hq_mem hq")
  case None
  then show ?thesis using mem by (cases hq) (auto simp: fresh_mem_def node_alloc_def has_room_def hq_pool_def)
next
  case (Some m)
  then obtain base where base: "pool_ok base m (hq_queue hq)" using inv by (auto simp: hq_inv_def hq_pool_def)
  have "distinct (hq_queue hq)" using inv by (simp add: hq_inv_def hq_core_def)
  from pool_alloc [OF base this Some refl, of mem] obtain m' p where
    a: "node_alloc hq mem = Some (hq\<lparr>hq_mem := Some m'\<rparr>, p)" "node_total m' = node_total m" and
    b: "if length (hq_queue hq) < unat (node_total m)
     then \<exists>n. p = Some n \<and> n \<notin> set (hq_queue hq) \<and> (\<forall>us vs. hq_queue hq = us @ vs \<longrightarrow> pool_ok base m' (us @ n # vs))
     else p = None \<and> m' = m" by blast
  show ?thesis
    by (intro exI [of _ "Some m'"] exI [of _ p])
      (use a b Some in \<open>auto simp: has_room_def hq_pool_def split: if_splits\<close>)
qed

lemma items_insert:
  assumes "hq_queue hq = us @ vs" "n \<notin> set (hq_queue hq)"
  shows "items (hq\<lparr>hq_node := (hq_node hq)(n \<mapsto> (key, val)), hq_queue := us @ n # vs, hq_hash := h, node_count := c\<rparr>)
    = map (\<lambda>n. the (hq_node hq n)) us @ (key, val) # map (\<lambda>n. the (hq_node hq n)) vs"
  using assms by (auto simp: items_def)

text \<open>The two insertions put a node somewhere into the queue and into its bucket.\<close>

lemma queue_insert_spec:
  assumes inv: "hq_inv hq" and room: "has_room hq mem"
    and mem: "fresh_mem hq mem"
    and pos: "hq_queue hq = us @ vs"
  obtains m' n i where "node_alloc hq mem = Some (hq\<lparr>hq_mem := m'\<rparr>, Some n)" "hash_index (hq\<lparr>hq_mem := m'\<rparr>) key = Some i"
    "n \<notin> set (hq_queue hq)" "map_option node_total m' = map_option node_total (hq_mem hq)"
    "\<And>bs cs. hq_hash hq ! i = bs @ cs \<Longrightarrow>
      hq_inv (hq\<lparr>hq_mem := m', hq_node := (hq_node hq)(n \<mapsto> (key, val)), hq_queue := us @ n # vs,
        hq_hash := (hq_hash hq)[i := bs @ n # cs], node_count := node_count hq + 1\<rparr>)"
proof -
  obtain m' n where a: "node_alloc hq mem = Some (hq\<lparr>hq_mem := m'\<rparr>, Some n)" "n \<notin> set (hq_queue hq)"
      "map_option node_total m' = map_option node_total (hq_mem hq)"
      "hq_pool (hq\<lparr>hq_mem := m', hq_queue := us @ n # vs\<rparr>)"
    using node_alloc_spec [OF inv mem] room pos by auto
  let ?hq = "hq\<lparr>hq_mem := m'\<rparr>"
  have core: "hq_core ?hq" using inv by (auto simp: hq_inv_def hq_core_def key_index_def)
  obtain i where i: "hash_index ?hq key = Some i" using hash_index_core [OF core] by blast
  have "hq_inv (hq\<lparr>hq_mem := m', hq_node := (hq_node hq)(n \<mapsto> (key, val)), hq_queue := us @ n # vs,
        hq_hash := (hq_hash hq)[i := bs @ n # cs], node_count := node_count hq + 1\<rparr>)" if "hq_hash hq ! i = bs @ cs" for bs cs
    using hq_core_insert [OF core, of n us vs key i bs cs val] a(2,4) pos i that
    by (auto simp: hq_inv_def hq_pool_def split: option.splits)
  with a i show ?thesis using that by blast
qed

lemma queue_append_spec:
  assumes inv: "hq_inv hq" and mem: "fresh_mem hq mem"
  shows "if has_room hq mem
     then \<exists>hq' n. queue_append hq key val mem = Some (hq', 0) \<and> hq_inv hq' \<and> items hq' = items hq @ [(key, val)] \<and>
       hq_queue hq' = hq_queue hq @ [n] \<and> map_option node_total (hq_mem hq') = map_option node_total (hq_mem hq)
     else queue_append hq key val mem = Some (hq, -1)"
proof (cases "has_room hq mem")
  case True
  obtain m' n i where *: "node_alloc hq mem = Some (hq\<lparr>hq_mem := m'\<rparr>, Some n)" "hash_index (hq\<lparr>hq_mem := m'\<rparr>) key = Some i"
    "n \<notin> set (hq_queue hq)" "map_option node_total m' = map_option node_total (hq_mem hq)"
    "\<And>bs cs. hq_hash hq ! i = bs @ cs \<Longrightarrow>
      hq_inv (hq\<lparr>hq_mem := m', hq_node := (hq_node hq)(n \<mapsto> (key, val)), hq_queue := hq_queue hq @ n # [],
        hq_hash := (hq_hash hq)[i := bs @ n # cs], node_count := node_count hq + 1\<rparr>)"
    by (rule queue_insert_spec [OF inv True mem, of "hq_queue hq" "[]" key val]) auto
  then show ?thesis using True *(5) [of "hq_hash hq ! i" "[]"]
    by (auto simp: queue_append_def items_def)
next
  case False
  have "hq\<lparr>hq_mem := hq_mem hq\<rparr> = hq" by simp
  then show ?thesis using node_alloc_spec [OF inv mem] False by (auto simp: queue_append_def)
qed

lemma queue_prepend_spec:
  assumes inv: "hq_inv hq" and mem: "fresh_mem hq mem"
  shows "if has_room hq mem
     then \<exists>hq' n. queue_prepend hq key val mem = Some (hq', 0) \<and> hq_inv hq' \<and> items hq' = (key, val) # items hq \<and>
       hq_queue hq' = n # hq_queue hq \<and> map_option node_total (hq_mem hq') = map_option node_total (hq_mem hq)
     else queue_prepend hq key val mem = Some (hq, -1)"
proof (cases "has_room hq mem")
  case True
  obtain m' n i where *: "node_alloc hq mem = Some (hq\<lparr>hq_mem := m'\<rparr>, Some n)" "hash_index (hq\<lparr>hq_mem := m'\<rparr>) key = Some i"
    "n \<notin> set (hq_queue hq)" "map_option node_total m' = map_option node_total (hq_mem hq)"
    "\<And>bs cs. hq_hash hq ! i = bs @ cs \<Longrightarrow>
      hq_inv (hq\<lparr>hq_mem := m', hq_node := (hq_node hq)(n \<mapsto> (key, val)), hq_queue := [] @ n # hq_queue hq,
        hq_hash := (hq_hash hq)[i := bs @ n # cs], node_count := node_count hq + 1\<rparr>)"
    by (rule queue_insert_spec [OF inv True mem, of "[]" "hq_queue hq" key val]) auto
  then show ?thesis using True *(5) [of "[]" "hq_hash hq ! i"]
    by (auto simp: queue_prepend_def items_def)
next
  case False
  have "hq\<lparr>hq_mem := hq_mem hq\<rparr> = hq" by simp
  then show ?thesis using node_alloc_spec [OF inv mem] False by (auto simp: queue_prepend_def)
qed

section \<open>Removing nodes\<close>

text \<open>One step of \<open>queue_del\<close>: unlink, count, free.\<close>

lemma key_index_cong:
  "hash_fn hq' = hash_fn hq \<Longrightarrow> bucket_size hq' = bucket_size hq \<Longrightarrow> hq_node hq' n = hq_node hq n \<Longrightarrow>
     key_index hq' n = key_index hq n"
  by (simp add: key_index_def)

lemma queue_remove_core:
  assumes core: "hq_core hq" and n: "n \<in> set (hq_queue hq)"
  shows "hq_core ((queue_unlink hq n)\<lparr>node_count := node_count hq - 1, hq_node := (hq_node hq)(n := None), hq_mem := m\<rparr>)"
proof -
  let ?hq = "(queue_unlink hq n)\<lparr>node_count := node_count hq - 1, hq_node := (hq_node hq)(n := None), hq_mem := m\<rparr>"
  have d: "distinct (hq_queue hq)" using core by (simp add: hq_core_def)
  have q: "set (hq_queue ?hq) = set (hq_queue hq) - {n}" "length (hq_queue ?hq) = length (hq_queue hq) - 1"
    using n d by (simp_all add: queue_unlink_def length_remove1)
  have len: "0 < length (hq_queue hq)" using n by (cases "hq_queue hq") auto
  have "set (hq_hash ?hq ! i) = {x \<in> set (hq_queue ?hq). key_index ?hq x = i} \<and> distinct (hq_hash ?hq ! i)"
    if "i < length (hq_hash hq)" for i
  proof -
    have old: "set (hq_hash hq ! i) = {x \<in> set (hq_queue hq). key_index hq x = i}" "distinct (hq_hash hq ! i)"
      using core that by (auto simp: hq_core_def)
    have "{x \<in> set (hq_queue ?hq). key_index ?hq x = i} = {x \<in> set (hq_queue hq). key_index hq x = i} - {n}"
      unfolding q(1) by (auto simp: key_index_def queue_unlink_def)
    then show ?thesis using old that by (simp add: queue_unlink_def)
  qed
  moreover have "of_nat (length (hq_queue hq)) - (1 :: u32) = of_nat (length (hq_queue hq) - 1)"
    using len by (cases "length (hq_queue hq)") simp_all
  ultimately show ?thesis using core q d by (auto simp: hq_core_def queue_unlink_def)
qed

lemma queue_remove_spec:
  assumes inv: "hq_inv hq" and n: "n \<in> set (hq_queue hq)"
  shows "\<exists>m'. node_free ((queue_unlink hq n)\<lparr>node_count := node_count hq - 1\<rparr>) n
      = Some ((queue_unlink hq n)\<lparr>node_count := node_count hq - 1, hq_node := (hq_node hq)(n := None), hq_mem := m'\<rparr>) \<and>
    hq_inv ((queue_unlink hq n)\<lparr>node_count := node_count hq - 1, hq_node := (hq_node hq)(n := None), hq_mem := m'\<rparr>) \<and>
    map_option node_total m' = map_option node_total (hq_mem hq)"
proof (cases "hq_mem hq")
  case None
  then show ?thesis
    using queue_remove_core [of hq n None] inv n
    by (intro exI [of _ None]) (auto simp: node_free_def queue_unlink_def hq_inv_def hq_pool_def)
next
  case (Some m)
  then obtain base where base: "pool_ok base m (hq_queue hq)" using inv by (auto simp: hq_inv_def hq_pool_def)
  have d: "distinct (hq_queue hq)" using inv by (simp add: hq_inv_def hq_core_def)
  obtain us vs where q: "hq_queue hq = us @ n # vs" using split_list [OF n] by blast
  have r: "remove1 n (hq_queue hq) = us @ vs" using d unfolding q by (simp add: remove1_append)
  let ?m = "m\<lparr>realloc_cnt := realloc_cnt m + 1, realloc_stack := (realloc_stack m)[unat (realloc_cnt m) := n]\<rparr>"
  have p: "unat (realloc_cnt m) < length (realloc_stack m)" "pool_ok base ?m (us @ vs)"
    using pool_free [of base m us n vs] base d unfolding q by auto
  show ?thesis
    using queue_remove_core [of hq n "Some ?m"] inv n p Some r
    by (intro exI [of _ "Some ?m"])
      (auto simp: node_free_def queue_unlink_def hq_inv_def hq_pool_def Let_def)
qed

lemma queue_del_loop_spec:
  assumes "hq_inv hq" "distinct ns" "set ns \<subseteq> set (hq_queue hq)"
  shows "\<exists>hq'. queue_del_loop hq key ns c =
      Some (hq', c + int (length (filter (\<lambda>n. fst (the (hq_node hq n)) = key) ns))) \<and> hq_inv hq' \<and>
    hq_queue hq' = filter (\<lambda>n. \<not> (n \<in> set ns \<and> fst (the (hq_node hq n)) = key)) (hq_queue hq) \<and>
    (\<forall>n \<in> set (hq_queue hq'). hq_node hq' n = hq_node hq n) \<and>
    map_option node_total (hq_mem hq') = map_option node_total (hq_mem hq)"
  using assms
proof (induction ns arbitrary: hq c)
  case (Cons n ns)
  obtain k v where kv: "hq_node hq n = Some (k, v)"
    using Cons.prems(1,3) by (auto simp: hq_inv_def hq_core_def)
  show ?case
  proof (cases "k = key")
    case True
    let ?rem = "\<lambda>m. (queue_unlink hq n)\<lparr>node_count := node_count hq - 1, hq_node := (hq_node hq)(n := None), hq_mem := m\<rparr>"
    obtain m' where m': "node_free ((queue_unlink hq n)\<lparr>node_count := node_count hq - 1\<rparr>) n = Some (?rem m')"
      "hq_inv (?rem m')" "map_option node_total m' = map_option node_total (hq_mem hq)"
      using queue_remove_spec [OF Cons.prems(1), of n] Cons.prems(3) by auto
    let ?hq = "?rem m'"
    have d: "distinct (hq_queue hq)" using Cons.prems(1) by (simp add: hq_inv_def hq_core_def)
    have q: "hq_queue ?hq = filter (\<lambda>x. x \<noteq> n) (hq_queue hq)"
      using d by (simp add: queue_unlink_def distinct_remove1_filter)
    have sub: "set ns \<subseteq> set (hq_queue ?hq)" using Cons.prems(2,3) q by auto
    have nn: "hq_node ?hq x = hq_node hq x" if "x \<noteq> n" for x using that by simp
    have fl: "filter (\<lambda>x. fst (the (hq_node ?hq x)) = key) ns = filter (\<lambda>x. fst (the (hq_node hq x)) = key) ns"
      using Cons.prems(2) by (intro filter_cong) auto
    obtain hq' where hq': "queue_del_loop ?hq key ns (c + 1) =
        Some (hq', c + 1 + int (length (filter (\<lambda>x. fst (the (hq_node hq x)) = key) ns)))" "hq_inv hq'"
      "hq_queue hq' = filter (\<lambda>x. \<not> (x \<in> set ns \<and> fst (the (hq_node ?hq x)) = key)) (hq_queue ?hq)"
      "\<forall>x \<in> set (hq_queue hq'). hq_node hq' x = hq_node ?hq x"
      "map_option node_total (hq_mem hq') = map_option node_total (hq_mem ?hq)"
      using Cons.IH [OF m'(2) _ sub, of "c + 1"] Cons.prems(2) unfolding fl by auto
    have "hq_queue hq' = filter (\<lambda>x. \<not> (x \<in> set (n # ns) \<and> fst (the (hq_node hq x)) = key)) (hq_queue hq)"
      unfolding hq'(3) q filter_filter using True kv by (intro filter_cong) auto
    moreover have "\<forall>x \<in> set (hq_queue hq'). hq_node hq' x = hq_node hq x"
      using hq'(3,4) q nn by auto
    ultimately show ?thesis using hq' m' kv True by auto
  next
    case False
    obtain hq' where hq': "queue_del_loop hq key ns c =
        Some (hq', c + int (length (filter (\<lambda>x. fst (the (hq_node hq x)) = key) ns)))" "hq_inv hq'"
      "hq_queue hq' = filter (\<lambda>x. \<not> (x \<in> set ns \<and> fst (the (hq_node hq x)) = key)) (hq_queue hq)"
      "\<forall>x \<in> set (hq_queue hq'). hq_node hq' x = hq_node hq x"
      "map_option node_total (hq_mem hq') = map_option node_total (hq_mem hq)"
      using Cons.IH [OF Cons.prems(1), of c] Cons.prems(2,3) by auto
    have "hq_queue hq' = filter (\<lambda>x. \<not> (x \<in> set (n # ns) \<and> fst (the (hq_node hq x)) = key)) (hq_queue hq)"
      unfolding hq'(3) using False kv by (intro filter_cong) auto
    then show ?thesis using hq' kv False by auto
  qed
qed simp

text \<open>The nodes with a key are all in the bucket of the key.\<close>

lemma in_bucket:
  assumes "hq_core hq" "hash_index hq key = Some i" "n \<in> set (hq_queue hq)" "fst (the (hq_node hq n)) = key"
  shows "n \<in> set (hq_hash hq ! i)"
  using assms hash_index_core [OF assms(1), of key] by (auto simp: hq_core_def key_index_def)

lemma queue_del_spec:
  assumes inv: "hq_inv hq"
  shows "\<exists>hq'. queue_del hq key = Some (hq', int (length (filter (\<lambda>e. fst e = key) (items hq)))) \<and> hq_inv hq' \<and>
    items hq' = filter (\<lambda>e. fst e \<noteq> key) (items hq) \<and>
    hq_queue hq' = filter (\<lambda>n. fst (the (hq_node hq n)) \<noteq> key) (hq_queue hq) \<and>
    map_option node_total (hq_mem hq') = map_option node_total (hq_mem hq)"
proof -
  have core: "hq_core hq" using inv by (simp add: hq_inv_def)
  obtain i where i: "hash_index hq key = Some i" "i < length (hq_hash hq)" using hash_index_core [OF core] by blast
  let ?b = "hq_hash hq ! i"
  have b: "distinct ?b" "set ?b \<subseteq> set (hq_queue hq)" using core i(2) by (auto simp: hq_core_def)
  obtain hq' where hq': "queue_del_loop hq key ?b 0 = Some (hq', int (length (filter (\<lambda>x. fst (the (hq_node hq x)) = key) ?b)))"
      "hq_inv hq'" "hq_queue hq' = filter (\<lambda>x. \<not> (x \<in> set ?b \<and> fst (the (hq_node hq x)) = key)) (hq_queue hq)"
      "\<forall>x \<in> set (hq_queue hq'). hq_node hq' x = hq_node hq x"
      "map_option node_total (hq_mem hq') = map_option node_total (hq_mem hq)"
    using queue_del_loop_spec [OF inv b, of key 0] by auto
  have q: "hq_queue hq' = filter (\<lambda>n. fst (the (hq_node hq n)) \<noteq> key) (hq_queue hq)"
    unfolding hq'(3) using in_bucket [OF core i(1)] by (intro filter_cong) auto
  have "set (filter (\<lambda>x. fst (the (hq_node hq x)) = key) ?b) = set (filter (\<lambda>x. fst (the (hq_node hq x)) = key) (hq_queue hq))"
    using in_bucket [OF core i(1)] b(2) by auto
  then have len: "length (filter (\<lambda>x. fst (the (hq_node hq x)) = key) ?b)
      = length (filter (\<lambda>x. fst (the (hq_node hq x)) = key) (hq_queue hq))"
    using b(1) core by (intro distinct_same_length) (simp_all add: hq_core_def)
  have "items hq' = map (\<lambda>n. the (hq_node hq n)) (hq_queue hq')"
    unfolding items_def using hq'(4) by (intro map_cong) auto
  then have "items hq' = filter (\<lambda>e. fst e \<noteq> key) (items hq)"
    unfolding q items_def by (simp add: filter_map comp_def)
  moreover have "length (filter (\<lambda>e. fst e = key) (items hq)) = length (filter (\<lambda>x. fst (the (hq_node hq x)) = key) (hq_queue hq))"
    by (simp add: items_def filter_map comp_def)
  ultimately show ?thesis using hq' q len i(1) by (auto simp: queue_del_def)
qed

section \<open>Clearing\<close>

text \<open>The loop of \<open>queue_clear\<close> leaves the count alone; \<open>recount\<close> is the state with the right count.\<close>

abbreviation recount :: "('k, 'v) hash_queue \<Rightarrow> ('k, 'v) hash_queue" where
  "recount hq \<equiv> hq\<lparr>node_count := of_nat (length (hq_queue hq))\<rparr>"

lemma node_free_count: "node_free (hq\<lparr>node_count := c\<rparr>) n = map_option (\<lambda>h. h\<lparr>node_count := c\<rparr>) (node_free hq n)"
  by (auto simp: node_free_def Let_def split: option.splits)

lemma queue_clear_step:
  assumes inv: "hq_inv (recount hq)" and q: "hq_queue hq = n # ns"
  shows "\<exists>h. node_free (queue_unlink hq n) n = Some h \<and> hq_inv (recount h) \<and> hq_queue h = ns \<and>
    map_option node_total (hq_mem h) = map_option node_total (hq_mem hq)"
proof -
  have n: "n \<in> set (hq_queue (recount hq))" using q by simp
  let ?c = "of_nat (length ns) :: u32"
  have u: "(queue_unlink (recount hq) n)\<lparr>node_count := node_count (recount hq) - 1\<rparr> = (queue_unlink hq n)\<lparr>node_count := ?c\<rparr>"
    using q by (simp add: queue_unlink_def)
  obtain R where R: "node_free ((queue_unlink hq n)\<lparr>node_count := ?c\<rparr>) n = Some R" "hq_inv R" "hq_queue R = ns"
    "map_option node_total (hq_mem R) = map_option node_total (hq_mem hq)"
    using queue_remove_spec [OF inv n] q unfolding u by (auto simp: queue_unlink_def)
  then obtain h where h: "node_free (queue_unlink hq n) n = Some h" "R = h\<lparr>node_count := ?c\<rparr>"
    by (auto simp: node_free_count)
  then show ?thesis using R by (intro exI [of _ h]) auto
qed

lemma queue_clear_loop_spec:
  assumes "hq_inv (recount hq)"
  shows "\<exists>hq'. queue_clear_loop (length (hq_queue hq)) hq = Some hq' \<and> hq_inv (recount hq') \<and> hq_queue hq' = [] \<and>
    map_option node_total (hq_mem hq') = map_option node_total (hq_mem hq)"
  using assms
proof (induction "hq_queue hq" arbitrary: hq)
  case Nil
  then show ?case by simp
next
  case (Cons n ns)
  obtain h where h: "node_free (queue_unlink hq n) n = Some h" "hq_inv (recount h)" "hq_queue h = ns"
    "map_option node_total (hq_mem h) = map_option node_total (hq_mem hq)"
    using queue_clear_step [OF Cons.prems] Cons.hyps(2) by metis
  then obtain hq' where "queue_clear_loop (length ns) h = Some hq'" "hq_inv (recount hq')" "hq_queue hq' = []"
    "map_option node_total (hq_mem hq') = map_option node_total (hq_mem h)"
    using Cons.hyps(1) [of h] by auto
  then show ?case using h Cons.hyps(2) [symmetric] by (subst queue_clear_loop.simps) simp
qed

lemma queue_clear_spec:
  assumes inv: "hq_inv hq"
  shows "\<exists>hq'. queue_clear hq = Some hq' \<and> hq_inv hq' \<and> items hq' = [] \<and> hq_queue hq' = [] \<and>
    map_option node_total (hq_mem hq') = map_option node_total (hq_mem hq)"
proof -
  have "node_count hq = of_nat (length (hq_queue hq))" using inv by (simp add: hq_inv_def hq_core_def)
  then have "recount hq = hq" by (cases hq) simp
  then show ?thesis using queue_clear_loop_spec [of hq] inv by (auto simp: queue_clear_def items_def)
qed

section \<open>Lookup and reordering\<close>

lemma queue_get_loop_spec:
  assumes "\<forall>n \<in> set ns. hq_node hq n \<noteq> None"
  shows "queue_get_loop hq key ns = Some (find (\<lambda>n. fst (the (hq_node hq n)) = key) ns)"
  using assms by (induction ns) (auto split: option.splits)

lemma queue_get_spec:
  assumes inv: "hq_inv hq"
  shows "\<exists>p. queue_get hq key = Some p \<and>
    (case p of None \<Rightarrow> key \<notin> fst ` set (items hq)
     | Some n \<Rightarrow> n \<in> set (hq_queue hq) \<and> queue_key hq n = Some key \<and> (\<exists>v. queue_value hq n = Some v \<and> (key, v) \<in> set (items hq)))"
proof -
  have core: "hq_core hq" using inv by (simp add: hq_inv_def)
  obtain i where i: "hash_index hq key = Some i" "i < length (hq_hash hq)" using hash_index_core [OF core] by blast
  let ?b = "hq_hash hq ! i" let ?p = "find (\<lambda>n. fst (the (hq_node hq n)) = key) ?b"
  have b: "set ?b \<subseteq> set (hq_queue hq)" "\<forall>n \<in> set ?b. hq_node hq n \<noteq> None"
    using core i(2) by (auto simp: hq_core_def)
  have g: "queue_get hq key = Some ?p" using i(1) queue_get_loop_spec [OF b(2), of key] by (simp add: queue_get_def)
  show ?thesis
  proof (cases ?p)
    case None
    then have "\<forall>n \<in> set (hq_queue hq). fst (the (hq_node hq n)) \<noteq> key"
      using in_bucket [OF core i(1)] unfolding find_None_iff by blast
    then have "key \<notin> fst ` set (items hq)" by (simp add: items_def image_image image_iff) metis
    then show ?thesis using g None by auto
  next
    case (Some n)
    then have n: "n \<in> set ?b" "fst (the (hq_node hq n)) = key"
      by (auto simp: find_Some_iff)
    then obtain v where v: "hq_node hq n = Some (key, v)" using b(2) by fastforce
    then have "(key, v) \<in> set (items hq)" using n(1) b(1) by (force simp: items_def)
    then show ?thesis using g Some n b(1) v by (auto simp: queue_key_def queue_value_def)
  qed
qed

text \<open>With distinct keys the hash queue is a map.\<close>

lemma queue_get_map:
  assumes inv: "hq_inv hq" and d: "distinct (map fst (items hq))"
  shows "\<exists>p. queue_get hq key = Some p \<and> p \<bind> queue_value hq = map_of (items hq) key"
proof -
  obtain p where p: "queue_get hq key = Some p"
    "case p of None \<Rightarrow> key \<notin> fst ` set (items hq)
     | Some n \<Rightarrow> n \<in> set (hq_queue hq) \<and> queue_key hq n = Some key \<and> (\<exists>v. queue_value hq n = Some v \<and> (key, v) \<in> set (items hq))"
    using queue_get_spec [OF inv] by blast
  then show ?thesis
    using d map_of_eq_None_iff [of "items hq" key] by (cases p) auto
qed

lemma hq_inv_reorder:
  assumes "hq_inv hq" "distinct q" "set q = set (hq_queue hq)"
  shows "hq_inv (hq\<lparr>hq_queue := q\<rparr>)"
proof -
  have "length q = length (hq_queue hq)"
    using assms by (intro distinct_same_length) (auto simp: hq_inv_def hq_core_def)
  then show ?thesis
    using assms by (auto simp: hq_inv_def hq_core_def hq_pool_def pool_ok_def key_index_def split: option.splits)
qed

text \<open>The queue after the loop of \<open>queue_move_front\<close> or \<open>queue_move_back\<close> has moved the nodes \<open>ms\<close>.\<close>

fun moved :: "bool \<Rightarrow> addr list \<Rightarrow> addr list \<Rightarrow> addr list" where
  "moved front ms q = (if front then rev ms @ filter (\<lambda>x. x \<notin> set ms) q else filter (\<lambda>x. x \<notin> set ms) q @ ms)"

lemma queue_move_loop_spec:
  assumes "hq_inv hq" "set ns \<subseteq> set (hq_queue hq)" "distinct ns"
  shows "queue_move_loop front hq key ns =
      Some (hq\<lparr>hq_queue := moved front (filter (\<lambda>n. fst (the (hq_node hq n)) = key) ns) (hq_queue hq)\<rparr>)"
  using assms
proof (induction ns arbitrary: hq)
  case Nil
  then show ?case by (cases hq) simp
next
  case (Cons n ns)
  obtain k v where kv: "hq_node hq n = Some (k, v)"
    using Cons.prems by (auto simp: hq_inv_def hq_core_def)
  have d: "distinct (hq_queue hq)" using Cons.prems(1) by (simp add: hq_inv_def hq_core_def)
  show ?case
  proof (cases "k = key")
    case True
    let ?q = "if front then n # remove1 n (hq_queue hq) else remove1 n (hq_queue hq) @ [n]"
    let ?hq = "hq\<lparr>hq_queue := ?q\<rparr>" and ?m = "filter (\<lambda>n. fst (the (hq_node hq n)) = key) ns"
    have n: "n \<in> set (hq_queue hq)" using Cons.prems(2) by simp
    have q: "mset ?q = mset (hq_queue hq)" using n by simp
    then have q': "distinct ?q" "set ?q = set (hq_queue hq)"
      using d mset_eq_imp_distinct_iff [OF q] mset_eq_setD [OF q] by simp_all
    have "queue_move_loop front ?hq key ns = Some (?hq\<lparr>hq_queue := moved front ?m ?q\<rparr>)"
      using Cons.IH [OF hq_inv_reorder [OF Cons.prems(1) q']] Cons.prems(2,3) q'(2) by auto
    moreover have "moved front ?m ?q = moved front (n # ?m) (hq_queue hq)"
      using Cons.prems(3) d by (auto simp: distinct_remove1_filter intro!: filter_cong)
    ultimately show ?thesis using kv True by simp
  next
    case False
    then show ?thesis using Cons kv by simp
  qed
qed

lemma queue_move_spec:
  assumes inv: "hq_inv hq" and i: "hash_index hq key = Some i"
  shows "\<exists>hq' ms. queue_move_loop front hq key (hq_hash hq ! i) = Some hq' \<and> hq_inv hq' \<and>
    mset ms = mset (filter (\<lambda>e. fst e = key) (items hq)) \<and>
    items hq' = (if front then ms @ filter (\<lambda>e. fst e \<noteq> key) (items hq) else filter (\<lambda>e. fst e \<noteq> key) (items hq) @ ms)"
proof -
  have core: "hq_core hq" using inv by (simp add: hq_inv_def)
  have il: "i < length (hq_hash hq)" using hash_index_core [OF core, of key] i by simp
  define bk where "bk = filter (\<lambda>n. fst (the (hq_node hq n)) = key) (hq_hash hq ! i)"
  let ?match = "\<lambda>n. fst (the (hq_node hq n)) = key" and ?q = "hq_queue hq"
  have b: "distinct (hq_hash hq ! i)" "set (hq_hash hq ! i) \<subseteq> set ?q" and dq: "distinct ?q"
    using core il by (auto simp: hq_core_def)
  have sb: "set bk = set (filter ?match ?q)" using in_bucket [OF core i] b(2) by (auto simp: bk_def)
  have mb: "mset bk = mset (filter ?match ?q)"
    using b(1) dq sb by (simp add: set_eq_iff_mset_eq_distinct bk_def del: set_filter mset_filter)
  have fq: "filter (\<lambda>x. x \<notin> set bk) ?q = filter (\<lambda>x. \<not> ?match x) ?q"
    unfolding sb by (intro filter_cong) auto
  have mq: "moved front bk ?q = (if front then rev bk @ filter (\<lambda>x. \<not> ?match x) ?q else filter (\<lambda>x. \<not> ?match x) ?q @ bk)"
    using fq by simp
  have md: "mset (moved front bk ?q) = mset ?q"
    unfolding mq using mb by (simp add: multiset_partition [symmetric] union_commute)
  have inv': "hq_inv (hq\<lparr>hq_queue := moved front bk ?q\<rparr>)"
    using hq_inv_reorder [OF inv] mset_eq_imp_distinct_iff [OF md] mset_eq_setD [OF md] dq by blast
  let ?f = "\<lambda>n. the (hq_node hq n)"
  let ?ms = "map ?f (if front then rev bk else bk)"
  have "mset ?ms = mset (filter (\<lambda>e. fst e = key) (items hq))"
    using mb by (simp add: items_def filter_map comp_def)
  moreover have "items (hq\<lparr>hq_queue := moved front bk ?q\<rparr>) =
     (if front then ?ms @ filter (\<lambda>e. fst e \<noteq> key) (items hq) else filter (\<lambda>e. fst e \<noteq> key) (items hq) @ ?ms)"
    unfolding mq items_def by (simp add: filter_map comp_def)
  moreover have "queue_move_loop front hq key (hq_hash hq ! i) = Some (hq\<lparr>hq_queue := moved front bk ?q\<rparr>)"
    using queue_move_loop_spec [OF inv b(2,1)] by (simp add: bk_def)
  ultimately show ?thesis using inv' by blast
qed

section \<open>The interface\<close>

lemma map_of_snoc:
  "key \<notin> fst ` set xs \<Longrightarrow> map_of (xs @ [(key, v)]) key' = (if key' = key then Some v else map_of xs key')"
  by (induction xs) auto

text \<open>
  What a client relies on: a queue of keys and values in order, with lookup by key. \<open>room\<close> says that
  an insertion has memory.
\<close>

locale keyed_queue =
  fixes inv :: "'q \<Rightarrow> bool" and elems :: "'q \<Rightarrow> ('k \<times> 'v) list" and room :: "'q \<Rightarrow> 'm \<Rightarrow> bool"
    and ok :: "'q \<Rightarrow> 'm \<Rightarrow> bool"
    and app :: "'q \<Rightarrow> 'k \<Rightarrow> 'v \<Rightarrow> 'm \<Rightarrow> ('q \<times> int) option"
    and del :: "'q \<Rightarrow> 'k \<Rightarrow> ('q \<times> int) option"
    and look :: "'q \<Rightarrow> 'k \<Rightarrow> 'v option option"
  assumes app_room: "inv q \<Longrightarrow> ok q m \<Longrightarrow> room q m \<Longrightarrow>
      \<exists>q'. app q key v m = Some (q', 0) \<and> inv q' \<and> elems q' = elems q @ [(key, v)]"
    and app_full: "inv q \<Longrightarrow> ok q m \<Longrightarrow> \<not> room q m \<Longrightarrow> app q key v m = Some (q, -1)"
    and del_any: "inv q \<Longrightarrow> \<exists>q'. del q key = Some (q', int (length (filter (\<lambda>e. fst e = key) (elems q)))) \<and>
      inv q' \<and> elems q' = filter (\<lambda>e. fst e \<noteq> key) (elems q)"
    and look_any: "inv q \<Longrightarrow> distinct (map fst (elems q)) \<Longrightarrow> look q key = Some (map_of (elems q) key)"
begin

text \<open>Clients check that a key is not present before they add it.\<close>

definition unique :: "'q \<Rightarrow> bool" where
  "unique q \<longleftrightarrow> inv q \<and> distinct (map fst (elems q))"

lemma app_unique:
  assumes "unique q" "ok q m" "look q key = Some None" "app q key v m = Some (q', r)"
  shows "unique q' \<and> (if room q m then r = 0 \<and> look q' key' = (if key' = key then Some (Some v) else look q key')
    else r = -1 \<and> q' = q)"
proof (cases "room q m")
  case True
  have q': "r = 0" "inv q'" "elems q' = elems q @ [(key, v)]"
    using app_room [of q m key v] assms True by (auto simp: unique_def)
  have new: "key \<notin> fst ` set (elems q)"
    using look_any [of q key] assms(1,3) by (auto simp: unique_def map_of_eq_None_iff)
  then have d: "distinct (map fst (elems q'))" using assms(1) q'(3) by (auto simp: unique_def)
  have "look q' key' = Some (map_of (elems q @ [(key, v)]) key')" using look_any [OF q'(2) d] q'(3) by simp
  also have "map_of (elems q @ [(key, v)]) key' = (if key' = key then Some v else map_of (elems q) key')"
    by (rule map_of_snoc [OF new])
  also have "Some \<dots> = (if key' = key then Some (Some v) else look q key')"
    using look_any [of q key'] assms(1) by (simp add: unique_def)
  finally show ?thesis using True q' d by (simp add: unique_def)
next
  case False
  then show ?thesis using app_full [of q m key v] assms by (simp add: unique_def)
qed

lemma del_unique:
  assumes "unique q" "del q key = Some (q', r)"
  shows "unique q' \<and> look q' key' = (if key' = key then Some None else look q key')"
proof -
  have q': "inv q'" "elems q' = filter (\<lambda>e. fst e \<noteq> key) (elems q)"
    using del_any [of q key] assms by (auto simp: unique_def)
  have d: "distinct (map fst (elems q'))" using assms(1) by (simp add: q'(2) unique_def distinct_map_filter)
  have "map_of (filter (\<lambda>e. fst e \<noteq> key) xs) key' = (if key' = key then None else map_of xs key')" for xs :: "('k \<times> 'v) list"
    by (induction xs) auto
  then show ?thesis using look_any [OF q'(1) d] look_any [of q key'] assms(1) q' d by (simp add: unique_def)
qed

end

definition queue_lookup :: "('k, 'v) hash_queue \<Rightarrow> 'k \<Rightarrow> 'v option option" where
  "queue_lookup hq key = map_option (\<lambda>p. p \<bind> queue_value hq) (queue_get hq key)"

interpretation hq: keyed_queue hq_inv items has_room fresh_mem queue_append queue_del queue_lookup
proof (unfold_locales, goal_cases)
  case (1 q m key v)
  then show ?case using queue_append_spec [of q m key v] by auto
next
  case (2 q m key v)
  then show ?case using queue_append_spec [of q m key v] by auto
next
  case (3 q key)
  then show ?case using queue_del_spec [of q key] by auto
next
  case (4 q key)
  then show ?case using queue_get_map [of q key] by (auto simp: queue_lookup_def)
qed

section \<open>The properties of the hash queue\<close>

text \<open>A pool of two nodes of which one is queued, with keys that are their own hash values.\<close>

definition sample_hq :: "(u32, nat) hash_queue" where
  "sample_hq = \<lparr>bucket_size = 2, hq_key_size = 4, hq_data_size = 8, node_count = 1,
     hq_mem = Some \<lparr>mem_node_size = 44, node_total = 2, realloc_cnt = 1, unalloc_node = 0,
       realloc_stack = [144, 0], alloc_ptr = 188\<rparr>,
     hash_fn = id, hq_hash = [[], [100]], hq_queue = [100], hq_node = [100 \<mapsto> (5, 7)]\<rparr>"

lemma sample_hq_facts: "hq_inv sample_hq" "items sample_hq = [(5, 7)]" "has_room sample_hq None" "fresh_mem sample_hq None"
proof -
  have "pool_slots 100 \<lparr>mem_node_size = 44, node_total = 2, realloc_cnt = 1, unalloc_node = 0,
       realloc_stack = [144, 0], alloc_ptr = 188\<rparr> = {100, 144}"
    by (auto simp: pool_slots_def lessThan_nat_numeral)
  then have "hq_pool sample_hq"
    unfolding hq_pool_def by (auto simp: sample_hq_def pool_ok_def free_stack_def intro!: exI [of _ 100])
  moreover have "hq_core sample_hq"
    by (auto simp: hq_core_def sample_hq_def key_index_def less_Suc_eq nth_Cons split: nat.splits)
  ultimately show "hq_inv sample_hq" by (simp add: hq_inv_def)
qed (simp_all add: sample_hq_def items_def has_room_def fresh_mem_def)

text \<open>
  C28. \<open>queue_append\<close> and \<open>queue_prepend\<close> add the key and the value at the end and at the front of the
  queue and keep the invariant, exactly when there is memory; with a fixed pool that is exactly when
  fewer nodes are queued than the pool has. Otherwise they return -1 and change nothing.
\<close>

theorem queue_insert_correct:
  assumes "hq_inv hq" "fresh_mem hq mem"
  shows "if has_room hq mem
    then \<exists>a p. queue_append hq key val mem = Some (a, 0) \<and> hq_inv a \<and> items a = items hq @ [(key, val)] \<and>
      queue_prepend hq key val mem = Some (p, 0) \<and> hq_inv p \<and> items p = (key, val) # items hq
    else queue_append hq key val mem = Some (hq, -1) \<and> queue_prepend hq key val mem = Some (hq, -1)"
  using queue_append_spec [OF assms, of key val] queue_prepend_spec [OF assms, of key val]
  by (auto split: if_splits)

theorem queue_insert_correct_witness:
  "\<exists>a p. queue_append sample_hq 3 9 None = Some (a, 0) \<and> items a = [(5, 7), (3, 9)] \<and>
     queue_prepend sample_hq 3 9 None = Some (p, 0) \<and> items p = [(3, 9), (5, 7)]"
  using queue_insert_correct [OF sample_hq_facts(1,4), of 3 9] by (auto simp: sample_hq_facts)

text \<open>
  C29. \<open>queue_del\<close> removes exactly the entries with the key, returns their number, keeps the invariant
  (in particular every freed node goes back to the pool exactly once, without overflowing its stack)
  and follows no bad pointer.
\<close>

theorem queue_del_correct:
  assumes "hq_inv hq"
  shows "\<exists>hq'. queue_del hq key = Some (hq', int (length (filter (\<lambda>e. fst e = key) (items hq)))) \<and> hq_inv hq' \<and>
    items hq' = filter (\<lambda>e. fst e \<noteq> key) (items hq)"
  using queue_del_spec [OF assms, of key] by auto

theorem queue_del_correct_witness: "\<exists>hq'. queue_del sample_hq 5 = Some (hq', 1) \<and> items hq' = []"
  using queue_del_correct [OF sample_hq_facts(1), of 5] by (auto simp: sample_hq_facts)

text \<open>
  As long as clients add only keys that are absent, the hash queue is a map: after an insertion the
  lookup finds the new value under the new key and is unchanged elsewhere, and after a deletion it finds
  nothing under the key and is unchanged elsewhere.
\<close>

theorem queue_lookup_after_update:
  assumes "hq_inv hq" "distinct (map fst (items hq))" "fresh_mem hq mem"
    and "queue_lookup hq key = Some None" "has_room hq mem" "queue_append hq key val mem = Some (hq1, r1)"
    and "queue_del hq1 key2 = Some (hq2, r2)"
  shows "queue_lookup hq1 key' = (if key' = key then Some (Some val) else queue_lookup hq key') \<and>
    queue_lookup hq2 key' = (if key' = key2 then Some None else queue_lookup hq1 key')"
  using hq.app_unique [of hq mem key val hq1 r1 key'] hq.del_unique [of hq1 key2 hq2 r2 key'] assms
  by (simp add: hq.unique_def)

theorem queue_lookup_after_update_witness:
  "\<exists>hq1 hq2. queue_append sample_hq 3 9 None = Some (hq1, 0) \<and> queue_del hq1 5 = Some (hq2, 1) \<and>
     queue_lookup hq1 3 = Some (Some 9) \<and> queue_lookup hq2 5 = Some None \<and> queue_lookup hq2 3 = Some (Some 9)"
proof -
  obtain hq1 where 1: "queue_append sample_hq 3 9 None = Some (hq1, 0)" "hq_inv hq1" "items hq1 = [(5, 7), (3, 9)]"
    using queue_append_spec [OF sample_hq_facts(1,4), of 3 9] by (auto simp: sample_hq_facts)
  obtain hq2 where 2: "queue_del hq1 5 = Some (hq2, 1)" using queue_del_spec [OF 1(2), of 5] by (auto simp: 1(3))
  have "queue_lookup sample_hq 3 = Some None" using hq.look_any [OF sample_hq_facts(1)] by (simp add: sample_hq_facts)
  note * = queue_lookup_after_update [OF sample_hq_facts(1) _ sample_hq_facts(4) this sample_hq_facts(3) 1(1) 2]
  show ?thesis using 1(1) 2 * [of 3] * [of 5] by (simp add: sample_hq_facts)
qed

text \<open>
  \<open>queue_move_front\<close> and \<open>queue_move_back\<close> move exactly the entries with the key to the front or to the
  back, keep all others in order and keep the invariant.
\<close>

theorem queue_move_correct:
  assumes "hq_inv hq"
  shows "\<exists>f b ms ns. queue_move_front hq key = Some f \<and> hq_inv f \<and> items f = ms @ filter (\<lambda>e. fst e \<noteq> key) (items hq) \<and>
    queue_move_back hq key = Some b \<and> hq_inv b \<and> items b = filter (\<lambda>e. fst e \<noteq> key) (items hq) @ ns \<and>
    mset ms = mset (filter (\<lambda>e. fst e = key) (items hq)) \<and> mset ns = mset ms"
proof -
  obtain i where i: "hash_index hq key = Some i" using hash_index_core [of hq key] assms by (auto simp: hq_inv_def)
  obtain f ms where f: "queue_move_front hq key = Some f" "hq_inv f" "mset ms = mset (filter (\<lambda>e. fst e = key) (items hq))"
    "items f = ms @ filter (\<lambda>e. fst e \<noteq> key) (items hq)"
    using queue_move_spec [OF assms i, of True] i by (auto simp: queue_move_front_def)
  obtain b ns where b: "queue_move_back hq key = Some b" "hq_inv b" "mset ns = mset (filter (\<lambda>e. fst e = key) (items hq))"
    "items b = filter (\<lambda>e. fst e \<noteq> key) (items hq) @ ns"
    using queue_move_spec [OF assms i, of False] i by (auto simp: queue_move_back_def)
  show ?thesis using f b by (intro exI [of _ f] exI [of _ b] exI [of _ ms] exI [of _ ns]) simp
qed

theorem queue_move_correct_witness:
  "\<exists>f. queue_move_front sample_hq 5 = Some f \<and> hq_inv f \<and> items f = [(5, 7)]"
  using queue_move_correct [OF sample_hq_facts(1), of 5] by (auto simp: sample_hq_facts)

text \<open>
  C30. \<open>queue_clear\<close> ends and empties the queue; the pool has all its nodes again.
\<close>

theorem queue_clear_correct:
  assumes "hq_inv hq"
  shows "\<exists>hq'. queue_clear hq = Some hq' \<and> hq_inv hq' \<and> items hq' = [] \<and>
    (\<forall>m. hq_mem hq = Some m \<longrightarrow> has_room hq' None = (node_total m \<noteq> 0))"
proof -
  obtain hq' where "queue_clear hq = Some hq'" "hq_inv hq'" "items hq' = []" "hq_queue hq' = []"
    "map_option node_total (hq_mem hq') = map_option node_total (hq_mem hq)"
    using queue_clear_spec [OF assms] by blast
  then show ?thesis by (auto simp: has_room_def unat_gt_0)
qed

theorem queue_clear_correct_witness: "\<exists>hq'. queue_clear sample_hq = Some hq' \<and> items hq' = [] \<and> has_room hq' None"
  using queue_clear_correct [OF sample_hq_facts(1)] by (auto simp: sample_hq_def)

end
