(* ===== verification/TimerList.thy ===== *)
theory TimerList
  imports Prelude
begin

text \<open>
  The timer list of \<^verbatim>\<open>src/common/timerlist.c\<close>: a binary heap of timers ordered by time, whose nodes are
  also linked into hash buckets and know their position in the heap. The heap array is the list of
  the allocated entries, of which the first \<open>tl_count\<close> are in use. The count and the
  positions are below the capacity, which is a 32-bit number, and are natural numbers here; the
  arithmetic on the capacity and on the size of the array is 32 bits wide. \<open>None\<close> as a result is a
  crash: an access outside the array, through a pointer to no node, or a division by zero.
\<close>

record ('k, 'v) timer_node =
  heap_id :: nat
  tn_key :: 'k
  tn_val :: 'v

record ('k, 'v) timerlist =
  tl_bucket_size :: u32
  tl_key_size :: u32
  tl_data_size :: u32
  tl_count :: nat
  node_capacity :: u32
  tl_hash_fn :: "'k \<Rightarrow> u32"
  tl_hash :: "addr list list"
  tl_heap :: "(time \<times> addr) list"
  tl_node :: "addr \<Rightarrow> ('k, 'v) timer_node option"

section \<open>The heap\<close>

definition heap_at :: "('k, 'v) timerlist \<Rightarrow> nat \<Rightarrow> (time \<times> addr) option" where
  "heap_at tq i = (if i < length (tl_heap tq) then Some (tl_heap tq ! i) else None)"

definition HEAP_SWAP :: "('k, 'v) timerlist \<Rightarrow> nat \<Rightarrow> nat \<Rightarrow> ('k, 'v) timerlist option" where
  "HEAP_SWAP tq i j = do {
     a \<leftarrow> heap_at tq i;
     b \<leftarrow> heap_at tq j;
     na \<leftarrow> tl_node tq (snd a);
     nb \<leftarrow> tl_node tq (snd b);
     let nodes1 = (tl_node tq)(snd a \<mapsto> na\<lparr>heap_id := heap_id nb\<rparr>);
     nb1 \<leftarrow> nodes1 (snd b);
     Some (tq\<lparr>tl_node := nodes1(snd b \<mapsto> nb1\<lparr>heap_id := heap_id na\<rparr>),
              tl_heap := (tl_heap tq)[i := b, j := a]\<rparr>)
   }"

lemma HEAP_SWAP_count: "HEAP_SWAP tq i j = Some tq' \<Longrightarrow> tl_count tq' = tl_count tq"
  by (auto simp: HEAP_SWAP_def bind_eq_Some_conv Let_def)

text \<open>The smaller of the two children of \<open>s\<close>.\<close>

definition smaller_child :: "('k, 'v) timerlist \<Rightarrow> nat \<Rightarrow> nat option" where
  "smaller_child tq s =
     (let t = 2 * s + 1 in
      if t + 1 < tl_count tq then do {
        x \<leftarrow> heap_at tq (t + 1);
        y \<leftarrow> heap_at tq t;
        Some (if fst x < fst y then t + 1 else t)
      } else Some t)"

lemma smaller_child_greater: "smaller_child tq s = Some t \<Longrightarrow> s < t"
  by (auto simp: smaller_child_def Let_def bind_eq_Some_conv split: if_splits)

function adjust_down_loop :: "('k, 'v) timerlist \<Rightarrow> nat \<Rightarrow> ('k, 'v) timerlist option" where
  "adjust_down_loop tq s =
     (if s \<le> (tl_count tq - 2) div 2 then do {
        t \<leftarrow> smaller_child tq s;
        x \<leftarrow> heap_at tq t;
        y \<leftarrow> heap_at tq s;
        if fst x < fst y then do {
          tq1 \<leftarrow> HEAP_SWAP tq s t;
          adjust_down_loop tq1 t
        } else Some tq
      } else Some tq)"
  by pat_completeness auto
termination
  by (relation "measure (\<lambda>(tq, s). Suc (tl_count tq) - s)")
    (auto dest!: HEAP_SWAP_count smaller_child_greater)

definition adjust_down :: "('k, 'v) timerlist \<Rightarrow> nat \<Rightarrow> ('k, 'v) timerlist option" where
  "adjust_down tq s = (if tl_count tq < 2 then Some tq else adjust_down_loop tq s)"

function adjust_up :: "('k, 'v) timerlist \<Rightarrow> nat \<Rightarrow> ('k, 'v) timerlist option" where
  "adjust_up tq s =
     (if s > 0 then do {
        let t = (s - 1) div 2;
        x \<leftarrow> heap_at tq s;
        y \<leftarrow> heap_at tq t;
        if fst x < fst y then do {
          tq1 \<leftarrow> HEAP_SWAP tq s t;
          adjust_up tq1 t
        } else Some tq
      } else Some tq)"
  by pat_completeness auto
termination
  by (relation "measure snd") auto

declare adjust_down_loop.simps [simp del] adjust_up.simps [simp del]

section \<open>The operations\<close>

definition NODE_CAPACITY_INITIAL :: u32 where
  "NODE_CAPACITY_INITIAL = 32"

text \<open>
  \<open>hash\<close> and \<open>heap\<close> are the results of the two calls of \<open>malloc\<close>. A \<open>heap_node_t\<close> has 16 bytes; the
  contents of new memory are arbitrary, here zero.
\<close>

definition timerlist_init ::
  "u32 \<Rightarrow> u32 \<Rightarrow> u32 \<Rightarrow> ('k \<Rightarrow> u32) option \<Rightarrow> ('k \<Rightarrow> u32) \<Rightarrow> pointer \<Rightarrow> pointer \<Rightarrow> ('k, 'v) timerlist + int" where
  "timerlist_init buckets ksize dsize fn default_hash_fn hash heap =
     (if hash = None then Inr (-1)
      else if heap = None then Inr (-1)
      else Inl \<lparr>tl_bucket_size = buckets, tl_key_size = ksize, tl_data_size = dsize, tl_count = 0,
        node_capacity = NODE_CAPACITY_INITIAL,
        tl_hash_fn = (case fn of None \<Rightarrow> default_hash_fn | Some f \<Rightarrow> f),
        tl_hash = replicate (unat buckets) [],
        tl_heap = replicate (unat (16 * NODE_CAPACITY_INITIAL) div 16) (0, 0),
        tl_node = (\<lambda>_. None)\<rparr>)"

definition tl_index :: "('k, 'v) timerlist \<Rightarrow> 'k \<Rightarrow> nat option" where
  "tl_index tq key =
     (if tl_bucket_size tq = 0 then None else Some (unat (tl_hash_fn tq key mod tl_bucket_size tq)))"

text \<open>\<open>list_del\<close> of the hash link of a node, and \<open>free\<close>.\<close>

definition tl_drop :: "('k, 'v) timerlist \<Rightarrow> addr \<Rightarrow> ('k, 'v) timerlist" where
  "tl_drop tq n = tq\<lparr>tl_hash := map (remove1 n) (tl_hash tq), tl_node := (tl_node tq)(n := None)\<rparr>"

fun timerlist_clear_loop :: "('k, 'v) timerlist \<Rightarrow> nat \<Rightarrow> ('k, 'v) timerlist option" where
  "timerlist_clear_loop tq 0 = Some tq"
| "timerlist_clear_loop tq (Suc left) = do {
     e \<leftarrow> heap_at tq (tl_count tq - Suc left);
     timerlist_clear_loop (tl_drop tq (snd e)) left
   }"

definition timerlist_clear :: "('k, 'v) timerlist \<Rightarrow> ('k, 'v) timerlist option" where
  "timerlist_clear tq = do {
     tq1 \<leftarrow> timerlist_clear_loop tq (tl_count tq);
     Some (tq1\<lparr>tl_count := 0\<rparr>)
   }"

definition timerlist_fini :: "('k, 'v) timerlist \<Rightarrow> ('k, 'v) timerlist option" where
  "timerlist_fini tq = do { tq1 \<leftarrow> timerlist_clear tq; Some (tq1\<lparr>tl_hash := [], tl_heap := []\<rparr>) }"

text \<open>Doubling the array; \<open>ok\<close> is whether \<open>realloc\<close> has memory. \<open>None\<close> is the return of -1.\<close>

definition heap_expand :: "('k, 'v) timerlist \<Rightarrow> bool \<Rightarrow> ('k, 'v) timerlist option" where
  "heap_expand tq ok =
     (if tl_count tq \<ge> unat (node_capacity tq) then
        (let new_capacity = push_bit 1 (node_capacity tq);
             new_size = 16 * new_capacity;
             entries = unat new_size div 16
         in if ok then Some (tq\<lparr>node_capacity := new_capacity,
               tl_heap := take entries (tl_heap tq @ replicate (entries - length (tl_heap tq)) (0, 0))\<rparr>)
            else None)
      else Some tq)"

definition timerlist_push ::
  "('k, 'v) timerlist \<Rightarrow> time \<Rightarrow> 'k \<Rightarrow> 'v \<Rightarrow> bool \<Rightarrow> pointer \<Rightarrow> (('k, 'v) timerlist \<times> int) option" where
  "timerlist_push tq time key val ok mem =
     (case heap_expand tq ok of None \<Rightarrow> Some (tq, -1)
      | Some tq1 \<Rightarrow>
          (case mem of None \<Rightarrow> Some (tq1, -1)
           | Some n \<Rightarrow> do {
               hv \<leftarrow> tl_index tq1 key;
               heap_at tq1 (tl_count tq1);
               tq2 \<leftarrow> adjust_up
                 (tq1\<lparr>tl_hash := (tl_hash tq1)[hv := tl_hash tq1 ! hv @ [n]],
                      tl_node := (tl_node tq1)(n \<mapsto> \<lparr>heap_id = tl_count tq1, tn_key = key, tn_val = val\<rparr>),
                      tl_heap := (tl_heap tq1)[tl_count tq1 := (time, n)],
                      tl_count := tl_count tq1 + 1\<rparr>)
                 (tl_count tq1);
               Some (tq2, 0)
             }))"

definition timerlist_pop :: "('k, 'v) timerlist \<Rightarrow> ('k, 'v) timerlist option" where
  "timerlist_pop tq =
     (if tl_count tq = 0 then Some tq
      else do {
        let tq1 = tq\<lparr>tl_count := tl_count tq - 1\<rparr>;
        tq3 \<leftarrow> (if tl_count tq1 \<noteq> 0 then do {
                 tq2 \<leftarrow> HEAP_SWAP tq1 0 (tl_count tq1);
                 adjust_down tq2 0
               } else Some tq1);
        e \<leftarrow> heap_at tq3 (tl_count tq3);
        Some (tl_drop tq3 (snd e))
      })"

definition set_time :: "('k, 'v) timerlist \<Rightarrow> nat \<Rightarrow> time \<Rightarrow> ('k, 'v) timerlist" where
  "set_time tq i time = tq\<lparr>tl_heap := (tl_heap tq)[i := (time, snd (tl_heap tq ! i))]\<rparr>"

fun moveup_loop ::
  "('k, 'v) timerlist \<Rightarrow> time \<Rightarrow> 'k \<Rightarrow> addr list \<Rightarrow> int \<Rightarrow> (('k, 'v) timerlist \<times> int) option" where
  "moveup_loop tq time key [] resched_num = Some (tq, resched_num)"
| "moveup_loop tq time key (n # ns) resched_num = do {
     nd \<leftarrow> tl_node tq n;
     if tn_key nd = key then do {
       e \<leftarrow> heap_at tq (heap_id nd);
       if fst e \<le> time then moveup_loop tq time key ns resched_num
       else do {
         tq1 \<leftarrow> adjust_up (set_time tq (heap_id nd) time) (heap_id nd);
         moveup_loop tq1 time key ns (resched_num + 1)
       }
     }
     else moveup_loop tq time key ns resched_num
   }"

definition timerlist_moveup ::
  "('k, 'v) timerlist \<Rightarrow> time \<Rightarrow> 'k \<Rightarrow> (('k, 'v) timerlist \<times> int) option" where
  "timerlist_moveup tq time key = do {
     hv \<leftarrow> tl_index tq key;
     moveup_loop tq time key (tl_hash tq ! hv) 0
   }"

text \<open>
  \<open>orig_time > time\<close> compares a \<open>uint64_t\<close> with an \<open>int64_t\<close>: both sides are taken modulo
  \<open>2\<^sup>6\<^sup>4\<close>.
\<close>

definition time_greater :: "time \<Rightarrow> time \<Rightarrow> bool" where
  "time_greater orig time \<longleftrightarrow> orig mod 2 ^ 64 > time mod 2 ^ 64"

fun resched_loop ::
  "('k, 'v) timerlist \<Rightarrow> time \<Rightarrow> 'k \<Rightarrow> addr list \<Rightarrow> int \<Rightarrow> (('k, 'v) timerlist \<times> int) option" where
  "resched_loop tq time key [] resched_num = Some (tq, resched_num)"
| "resched_loop tq time key (n # ns) resched_num = do {
     nd \<leftarrow> tl_node tq n;
     if tn_key nd = key then do {
       e \<leftarrow> heap_at tq (heap_id nd);
       let tq1 = set_time tq (heap_id nd) time;
       tq2 \<leftarrow> (if time_greater (fst e) time then adjust_up tq1 (heap_id nd)
              else adjust_down tq1 (heap_id nd));
       resched_loop tq2 time key ns (resched_num + 1)
     }
     else resched_loop tq time key ns resched_num
   }"

definition timerlist_resched ::
  "('k, 'v) timerlist \<Rightarrow> time \<Rightarrow> 'k \<Rightarrow> (('k, 'v) timerlist \<times> int) option" where
  "timerlist_resched tq time key = do {
     hv \<leftarrow> tl_index tq key;
     resched_loop tq time key (tl_hash tq ! hv) 0
   }"

definition timerlist_resched_top ::
  "('k, 'v) timerlist \<Rightarrow> time \<Rightarrow> (('k, 'v) timerlist \<times> int) option" where
  "timerlist_resched_top tq time =
     (if tl_count tq = 0 then Some (tq, 0)
      else do {
        heap_at tq 0;
        tq1 \<leftarrow> adjust_down (set_time tq 0 time) 0;
        Some (tq1, 1)
      })"

text \<open>The removal of one node in the loop of \<open>timerlist_del\<close>.\<close>

definition del_node :: "('k, 'v) timerlist \<Rightarrow> addr \<Rightarrow> nat \<Rightarrow> ('k, 'v) timerlist option" where
  "del_node tq n hid = do {
     let tq1 = tq\<lparr>tl_count := tl_count tq - 1\<rparr>;
     tq4 \<leftarrow> (if hid \<noteq> tl_count tq1 then do {
              tq2 \<leftarrow> HEAP_SWAP tq1 hid (tl_count tq1);
              tq3 \<leftarrow> adjust_up tq2 hid;
              adjust_down tq3 hid
            } else Some tq1);
     Some (tl_drop tq4 n)
   }"

fun tl_del_loop ::
  "('k, 'v) timerlist \<Rightarrow> 'k \<Rightarrow> addr list \<Rightarrow> int \<Rightarrow> (('k, 'v) timerlist \<times> int) option" where
  "tl_del_loop tq key [] del_num = Some (tq, del_num)"
| "tl_del_loop tq key (n # ns) del_num = do {
     nd \<leftarrow> tl_node tq n;
     if tn_key nd = key then do {
       tq1 \<leftarrow> del_node tq n (heap_id nd);
       tl_del_loop tq1 key ns (del_num + 1)
     }
     else tl_del_loop tq key ns del_num
   }"

definition timerlist_del :: "('k, 'v) timerlist \<Rightarrow> 'k \<Rightarrow> (('k, 'v) timerlist \<times> int) option" where
  "timerlist_del tq key = do {
     hv \<leftarrow> tl_index tq key;
     tl_del_loop tq key (tl_hash tq ! hv) 0
   }"

text \<open>The outer option is a crash, the inner one the null pointer.\<close>

definition timerlist_top :: "('k, 'v) timerlist \<Rightarrow> (addr \<times> time \<times> 'k \<times> 'v) option option" where
  "timerlist_top tq =
     (if tl_count tq = 0 then Some None
      else do {
        e \<leftarrow> heap_at tq 0;
        nd \<leftarrow> tl_node tq (snd e);
        Some (Some (snd e, fst e, tn_key nd, tn_val nd))
      })"

fun tl_find_loop :: "('k, 'v) timerlist \<Rightarrow> 'k \<Rightarrow> addr list \<Rightarrow> pointer option" where
  "tl_find_loop tq key [] = Some None"
| "tl_find_loop tq key (n # ns) = do {
     nd \<leftarrow> tl_node tq n;
     if tn_key nd = key then Some (Some n) else tl_find_loop tq key ns
   }"

definition timerlist_find_first :: "('k, 'v) timerlist \<Rightarrow> 'k \<Rightarrow> pointer option" where
  "timerlist_find_first tq key = do { hv \<leftarrow> tl_index tq key; tl_find_loop tq key (tl_hash tq ! hv) }"

definition timerlist_find_next :: "('k, 'v) timerlist \<Rightarrow> addr \<Rightarrow> pointer option" where
  "timerlist_find_next tq n = do {
     nd \<leftarrow> tl_node tq n;
     hv \<leftarrow> tl_index tq (tn_key nd);
     tl_find_loop tq (tn_key nd) (tl (dropWhile (\<lambda>x. x \<noteq> n) (tl_hash tq ! hv)))
   }"

definition timerlist_time :: "('k, 'v) timerlist \<Rightarrow> addr \<Rightarrow> time option" where
  "timerlist_time tq n = do { nd \<leftarrow> tl_node tq n; e \<leftarrow> heap_at tq (heap_id nd); Some (fst e) }"

definition timerlist_key :: "('k, 'v) timerlist \<Rightarrow> addr \<Rightarrow> 'k option" where
  "timerlist_key tq n = map_option tn_key (tl_node tq n)"

definition timerlist_value :: "('k, 'v) timerlist \<Rightarrow> addr \<Rightarrow> 'v option" where
  "timerlist_value tq n = map_option tn_val (tl_node tq n)"

definition timerlist_get :: "('k, 'v) timerlist \<Rightarrow> 'k \<Rightarrow> (addr \<times> time) option option" where
  "timerlist_get tq key = do {
     p \<leftarrow> timerlist_find_first tq key;
     case p of None \<Rightarrow> Some None
     | Some n \<Rightarrow> do { t \<leftarrow> timerlist_time tq n; Some (Some (n, t)) }
   }"

definition timerlist_empty :: "('k, 'v) timerlist \<Rightarrow> bool" where
  "timerlist_empty tq \<longleftrightarrow> tl_count tq = 0"

definition timerlist_size :: "('k, 'v) timerlist \<Rightarrow> nat" where
  "timerlist_size tq = tl_count tq"

end
