(* ===== verification/TimerListCorrect.thy ===== *)
theory TimerListCorrect
  imports TimerList
begin

text \<open>
  Correctness of the timer list. The abstract view \<open>timers\<close> maps the address of each node to its time,
  key and value; the invariant \<open>tl_inv\<close> says that the array is a binary heap ordered by time, that
  every node knows its position, that the buckets hold exactly the nodes of their keys, and that the
  array has the capacity recorded. The sifts are proved on a predicate of heaps with one misplaced
  entry (\<open>hp_up\<close>, \<open>hp_down\<close>); the operations are proved from them, and the interface that the event
  loops use is the locale \<open>timer_queue\<close>.
\<close>

section \<open>Heap order\<close>

abbreviation parent :: "nat \<Rightarrow> nat" where
  "parent i \<equiv> (i - 1) div 2"

definition hp_ok :: "(nat \<Rightarrow> time) \<Rightarrow> nat \<Rightarrow> bool" where
  "hp_ok T n \<longleftrightarrow> (\<forall>i. 0 < i \<and> i < n \<longrightarrow> T (parent i) \<le> T i)"

text \<open>Heap order except that the entry at \<open>s\<close> may be too small, or too large.\<close>

definition hp_up :: "(nat \<Rightarrow> time) \<Rightarrow> nat \<Rightarrow> nat \<Rightarrow> bool" where
  "hp_up T n s \<longleftrightarrow> (\<forall>i. 0 < i \<and> i < n \<longrightarrow>
     (i \<noteq> s \<longrightarrow> T (parent i) \<le> T i) \<and> (0 < s \<and> parent i = s \<longrightarrow> T (parent s) \<le> T i))"

definition hp_down :: "(nat \<Rightarrow> time) \<Rightarrow> nat \<Rightarrow> nat \<Rightarrow> bool" where
  "hp_down T n s \<longleftrightarrow> (\<forall>i. 0 < i \<and> i < n \<longrightarrow>
     (parent i \<noteq> s \<longrightarrow> T (parent i) \<le> T i) \<and> (0 < s \<and> parent i = s \<longrightarrow> T (parent s) \<le> T i))"

lemma parent_less: "0 < i \<Longrightarrow> parent i < i"
  by auto

lemma parent_child: "0 < i \<Longrightarrow> parent i = s \<longleftrightarrow> i = 2 * s + 1 \<or> i = 2 * s + 2"
  by arith

lemma hp_min: "hp_ok T n \<Longrightarrow> i < n \<Longrightarrow> T 0 \<le> T i"
proof (induction i rule: less_induct)
  case (less i)
  show ?case
  proof (cases "i = 0")
    case False
    then have "T 0 \<le> T (parent i)" "T (parent i) \<le> T i"
      using less parent_less [of i] by (auto simp: hp_ok_def)
    then show ?thesis by simp
  qed simp
qed

lemma hp_up_stop: "hp_up T n s \<Longrightarrow> s = 0 \<or> T (parent s) \<le> T s \<Longrightarrow> hp_ok T n"
  unfolding hp_up_def hp_ok_def by (metis less_numeral_extra(3))

lemma hp_up_step:
  assumes "hp_up T n s" "0 < s" "s < n" "T s < T (parent s)"
  shows "hp_up (T(s := T (parent s), parent s := T s)) n (parent s)"
proof -
  let ?t = "parent s"
  have t: "?t < s" using assms(2) by (rule parent_less)
  have up: "i \<noteq> s \<Longrightarrow> T (parent i) \<le> T i" "parent i = s \<Longrightarrow> T ?t \<le> T i" if "0 < i" "i < n" for i
    using assms(1,2) that by (auto simp: hp_up_def)
  have tt: "0 < ?t \<Longrightarrow> T (parent ?t) \<le> T ?t" using up(1) [of ?t] t assms(3) by simp
  show ?thesis
    unfolding hp_up_def
  proof (intro allI impI conjI)
    fix i assume i: "0 < i \<and> i < n"
    have pi: "parent i < i" using i by (intro parent_less) simp
    show "(T(s := T ?t, ?t := T s)) (parent i) \<le> (T(s := T ?t, ?t := T s)) i" if "i \<noteq> ?t"
      using up [of i] i that t assms(4) by (auto; fastforce)
    show "(T(s := T ?t, ?t := T s)) (parent ?t) \<le> (T(s := T ?t, ?t := T s)) i" if c: "0 < ?t \<and> parent i = ?t"
      using up(1) [of i] i c t tt pi parent_less [of ?t] by (auto; fastforce)
  qed
qed

lemma hp_down_step:
  assumes "hp_down T n s" "t < n" "0 < t" "parent t = s" "T t < T s"
    and small: "\<And>i. 0 < i \<Longrightarrow> i < n \<Longrightarrow> parent i = s \<Longrightarrow> T t \<le> T i"
  shows "hp_down (T(s := T t, t := T s)) n t"
proof -
  have st: "s < t" using assms(3,4) parent_less by blast
  have dn: "parent i \<noteq> s \<Longrightarrow> T (parent i) \<le> T i" "0 < s \<Longrightarrow> parent i = s \<Longrightarrow> T (parent s) \<le> T i"
    if "0 < i" "i < n" for i using assms(1) that by (auto simp: hp_down_def)
  show ?thesis
    unfolding hp_down_def
  proof (intro allI impI conjI)
    fix i assume i: "0 < i \<and> i < n"
    have pi: "parent i < i" using i by (intro parent_less) simp
    have ps: "0 < s \<Longrightarrow> parent s < s" by (rule parent_less)
    show "(T(s := T t, t := T s)) (parent i) \<le> (T(s := T t, t := T s)) i" if "parent i \<noteq> t"
    proof (cases "i = s")
      case True
      then show ?thesis using dn(2) [of t] assms i st ps that by simp
    next
      case False
      then show ?thesis using dn(1) [of i] small [of i] assms i that pi by auto
    qed
    show "(T(s := T t, t := T s)) (parent t) \<le> (T(s := T t, t := T s)) i" if c: "0 < t \<and> parent i = t"
      using dn(1) [of i] assms i c st pi by auto
  qed
qed

lemma hp_down_stop:
  "hp_down T n s \<Longrightarrow> (\<And>i. 0 < i \<Longrightarrow> i < n \<Longrightarrow> parent i = s \<Longrightarrow> T s \<le> T i) \<Longrightarrow> hp_ok T n"
  unfolding hp_down_def hp_ok_def by blast

text \<open>A new value at \<open>s\<close> in a heap: too small or too large, never both.\<close>

lemma hp_change:
  assumes "hp_ok T n" "s < n"
  shows "v \<le> T s \<Longrightarrow> hp_up (T(s := v)) n s" "T s \<le> v \<Longrightarrow> hp_down (T(s := v)) n s"
    "s = 0 \<or> T (parent s) \<le> v \<Longrightarrow> hp_down (T(s := v)) n s"
    "0 < s \<Longrightarrow> v \<le> T (parent s) \<Longrightarrow> hp_up (T(s := v)) n s"
proof -
  have ok: "T (parent i) \<le> T i" if "0 < i" "i < n" for i using assms(1) that by (simp add: hp_ok_def)
  have gp: "T (parent s) \<le> T i" if "0 < s" "0 < i" "i < n" "parent i = s" for i
    using ok [of s] ok [of i] that assms(2) by auto
  have ne: "parent i \<noteq> i" if "0 < i" for i using parent_less [OF that] by simp
  have up: "hp_up (T(s := v)) n s" if "\<And>i. 0 < i \<Longrightarrow> i < n \<Longrightarrow> parent i = s \<Longrightarrow> v \<le> T i"
    unfolding hp_up_def using ok gp ne that by (metis fun_upd_apply less_numeral_extra(3))
  have down: "hp_down (T(s := v)) n s" if "s = 0 \<or> T (parent s) \<le> v"
    unfolding hp_down_def using ok gp ne that by (metis fun_upd_apply less_numeral_extra(3))
  show "hp_up (T(s := v)) n s" if "v \<le> T s"
  proof (rule up)
    fix i assume "0 < i" "i < n" "parent i = s"
    then show "v \<le> T i" using ok [of i] that by simp
  qed
  show "hp_down (T(s := v)) n s" if "T s \<le> v"
    using down ok [of s] assms(2) that by (cases "s = 0") auto
  show "s = 0 \<or> T (parent s) \<le> v \<Longrightarrow> hp_down (T(s := v)) n s" by (rule down)
  show "hp_up (T(s := v)) n s" if "0 < s" "v \<le> T (parent s)"
  proof (rule up)
    fix i assume "0 < i" "i < n" "parent i = s"
    then show "v \<le> T i" using gp [of i] that by simp
  qed
qed

section \<open>Heap positions and back pointers\<close>

abbreviation times :: "('k, 'v) timerlist \<Rightarrow> nat \<Rightarrow> time" where
  "times tq \<equiv> \<lambda>i. fst (tl_heap tq ! i)"

definition kv :: "('k, 'v) timerlist \<Rightarrow> addr \<Rightarrow> ('k \<times> 'v) option" where
  "kv tq a = map_option (\<lambda>nd. (tn_key nd, tn_val nd)) (tl_node tq a)"

text \<open>The first \<open>n\<close> entries of the array have nodes that know their position.\<close>

definition linked :: "nat \<Rightarrow> ('k, 'v) timerlist \<Rightarrow> bool" where
  "linked n tq \<longleftrightarrow> n \<le> length (tl_heap tq) \<and>
     (\<forall>i < n. \<exists>nd. tl_node tq (snd (tl_heap tq ! i)) = Some nd \<and> heap_id nd = i)"

text \<open>The state after some swaps among the entries in use.\<close>

definition permuted :: "nat \<Rightarrow> ('k, 'v) timerlist \<Rightarrow> ('k, 'v) timerlist \<Rightarrow> bool" where
  "permuted n tq tq' \<longleftrightarrow> (\<exists>h nds. tq' = tq\<lparr>tl_node := nds, tl_heap := h\<rparr> \<and> length h = length (tl_heap tq) \<and>
     mset (take n h) = mset (take n (tl_heap tq)) \<and> (\<forall>i. tl_count tq \<le> i \<longrightarrow> h ! i = tl_heap tq ! i) \<and> kv tq' = kv tq)"

lemma permuted_refl: "permuted n tq tq"
  unfolding permuted_def by (intro exI [of _ "tl_heap tq"] exI [of _ "tl_node tq"]) simp

lemma permuted_trans:
  assumes "permuted n tq tq1" "permuted n tq1 tq2" shows "permuted n tq tq2"
proof -
  obtain h nds where 1: "tq1 = tq\<lparr>tl_node := nds, tl_heap := h\<rparr>" "length h = length (tl_heap tq)"
    "mset (take n h) = mset (take n (tl_heap tq))" "\<forall>i. tl_count tq \<le> i \<longrightarrow> h ! i = tl_heap tq ! i" "kv tq1 = kv tq"
    using assms(1) unfolding permuted_def by blast
  obtain h' nds' where 2: "tq2 = tq1\<lparr>tl_node := nds', tl_heap := h'\<rparr>" "length h' = length (tl_heap tq1)"
    "mset (take n h') = mset (take n (tl_heap tq1))" "\<forall>i. tl_count tq1 \<le> i \<longrightarrow> h' ! i = tl_heap tq1 ! i" "kv tq2 = kv tq1"
    using assms(2) unfolding permuted_def by blast
  show ?thesis unfolding permuted_def
    by (intro exI [of _ h'] exI [of _ nds']) (use 1 2 in simp)
qed

lemma linked_node:
  "linked n tq \<Longrightarrow> i < n \<Longrightarrow> tl_node tq (snd (tl_heap tq ! i)) = Some nd \<Longrightarrow> heap_id nd = i"
  unfolding linked_def by fastforce

lemma linked_distinct:
  assumes "linked n tq" shows "distinct (map snd (take n (tl_heap tq)))"
proof -
  have "i = j" if "i < n" "j < n" "snd (tl_heap tq ! i) = snd (tl_heap tq ! j)" for i j
    using assms that unfolding linked_def by (metis option.inject)
  then show ?thesis using assms by (auto simp: distinct_conv_nth linked_def)
qed

lemma mset_take_swap:
  assumes "i < n" "j < n" "n \<le> length xs"
  shows "mset (take n (xs[i := xs ! j, j := xs ! i])) = mset (take n xs)"
proof -
  have "take n (xs[i := xs ! j, j := xs ! i]) = (take n xs)[i := take n xs ! j, j := take n xs ! i]"
    using assms by (simp add: take_update_swap)
  also have "mset \<dots> = mset (take n xs)" using assms by (intro mset_swap) simp_all
  finally show ?thesis .
qed

lemma HEAP_SWAP_spec:
  assumes l: "linked n tq" and ij: "i < n" "j < n" "i \<noteq> j"
  shows "\<exists>nds. HEAP_SWAP tq i j = Some (tq\<lparr>tl_node := nds, tl_heap := (tl_heap tq)[i := tl_heap tq ! j, j := tl_heap tq ! i]\<rparr>) \<and>
    linked n (tq\<lparr>tl_node := nds, tl_heap := (tl_heap tq)[i := tl_heap tq ! j, j := tl_heap tq ! i]\<rparr>) \<and>
    kv (tq\<lparr>tl_node := nds, tl_heap := (tl_heap tq)[i := tl_heap tq ! j, j := tl_heap tq ! i]\<rparr>) = kv tq"
proof -
  let ?h = "tl_heap tq" let ?a = "snd (?h ! i)" and ?b = "snd (?h ! j)"
  have len: "n \<le> length ?h" using l by (simp add: linked_def)
  obtain na where na: "tl_node tq ?a = Some na" "heap_id na = i" using l ij(1) by (auto simp: linked_def)
  obtain nb where nb: "tl_node tq ?b = Some nb" "heap_id nb = j" using l ij(2) by (auto simp: linked_def)
  have ab: "?a \<noteq> ?b" using na nb ij(3) by (metis option.inject)
  let ?nds = "(tl_node tq)(?a \<mapsto> na\<lparr>heap_id := j\<rparr>, ?b \<mapsto> nb\<lparr>heap_id := i\<rparr>)"
  let ?tq = "tq\<lparr>tl_node := ?nds, tl_heap := ?h[i := ?h ! j, j := ?h ! i]\<rparr>"
  have "HEAP_SWAP tq i j = Some ?tq"
    using na nb ab ij(1,2) len by (simp add: HEAP_SWAP_def heap_at_def)
  moreover have "kv ?tq = kv tq" using na(1) nb(1) by (auto simp: kv_def)
  moreover have "linked n ?tq"
    unfolding linked_def
  proof (intro conjI allI impI)
    show "n \<le> length (tl_heap ?tq)" using len by simp
    fix k assume k: "k < n"
    obtain nk where nk: "tl_node tq (snd (?h ! k)) = Some nk" "heap_id nk = k" using l k by (auto simp: linked_def)
    have "snd (?h ! k) \<noteq> ?a" "snd (?h ! k) \<noteq> ?b" if "k \<noteq> i" "k \<noteq> j"
      using that nk na nb by (metis option.inject)+
    then show "\<exists>nd. tl_node ?tq (snd (tl_heap ?tq ! k)) = Some nd \<and> heap_id nd = k"
      using k ij len ab nk by (cases "k = i"; cases "k = j") simp_all
  qed
  ultimately show ?thesis by blast
qed

lemma swap_times:
  "i < length h \<Longrightarrow> j < length h \<Longrightarrow>
     (\<lambda>k. fst (h[i := h ! j, j := h ! i] ! k)) = (\<lambda>k. fst (h ! k))(i := fst (h ! j), j := fst (h ! i))"
  by (auto simp: nth_list_update)

lemma swap_permuted:
  assumes "linked n tq" "tl_count tq \<le> n" "i < tl_count tq" "j < tl_count tq" "i \<noteq> j"
  shows "\<exists>tq'. HEAP_SWAP tq i j = Some tq' \<and> permuted n tq tq' \<and> linked n tq' \<and> tl_count tq' = tl_count tq \<and>
    times tq' = (times tq)(i := times tq j, j := times tq i)"
proof -
  have n: "i < n" "j < n" "n \<le> length (tl_heap tq)" using assms by (auto simp: linked_def)
  let ?h = "(tl_heap tq)[i := tl_heap tq ! j, j := tl_heap tq ! i]"
  obtain nds where s: "HEAP_SWAP tq i j = Some (tq\<lparr>tl_node := nds, tl_heap := ?h\<rparr>)"
    "linked n (tq\<lparr>tl_node := nds, tl_heap := ?h\<rparr>)" "kv (tq\<lparr>tl_node := nds, tl_heap := ?h\<rparr>) = kv tq"
    using HEAP_SWAP_spec [OF assms(1) n(1,2) assms(5)] by blast
  have "permuted n tq (tq\<lparr>tl_node := nds, tl_heap := ?h\<rparr>)"
    unfolding permuted_def using s(3) mset_take_swap [OF n] assms(3,4)
    by (intro exI [of _ ?h] exI [of _ nds]) auto
  then show ?thesis using s swap_times [of i "tl_heap tq" j] n by auto
qed

text \<open>Sifting up and down restores the heap order.\<close>

lemma adjust_up_noop:
  assumes "s = 0 \<or> times tq (parent s) \<le> times tq s" "s < length (tl_heap tq)"
  shows "adjust_up tq s = Some tq"
proof -
  have "parent s < length (tl_heap tq)" using assms(2) by linarith
  then show ?thesis using assms by (subst adjust_up.simps) (auto simp: heap_at_def Let_def)
qed

lemma adjust_up_spec:
  assumes "linked n tq" "tl_count tq \<le> n" "s < tl_count tq" "hp_up (times tq) (tl_count tq) s"
  shows "\<exists>tq'. adjust_up tq s = Some tq' \<and> permuted n tq tq' \<and> linked n tq' \<and> hp_ok (times tq') (tl_count tq')"
  using assms
proof (induction s arbitrary: tq rule: less_induct)
  case (less s)
  have len: "s < length (tl_heap tq)" using less.prems by (simp add: linked_def)
  show ?case
  proof (cases "s = 0 \<or> times tq (parent s) \<le> times tq s")
    case True
    then have "adjust_up tq s = Some tq" using len by (intro adjust_up_noop)
    then show ?thesis using hp_up_stop [OF less.prems(4)] True less.prems(1) permuted_refl by auto
  next
    case False
    then have s: "0 < s" "times tq s < times tq (parent s)" by auto
    have p: "parent s < s" using parent_less [OF s(1)] .
    obtain tq1 where tq1: "HEAP_SWAP tq s (parent s) = Some tq1" "permuted n tq tq1" "linked n tq1"
      "tl_count tq1 = tl_count tq" "times tq1 = (times tq)(s := times tq (parent s), parent s := times tq s)"
      using swap_permuted [OF less.prems(1-3), of "parent s"] p less.prems(3) by auto
    have "hp_up (times tq1) (tl_count tq1) (parent s)"
      unfolding tq1(4,5) using hp_up_step [OF less.prems(4) s(1) less.prems(3)] s(2) by simp
    then obtain tq' where "adjust_up tq1 (parent s) = Some tq'" "permuted n tq1 tq'" "linked n tq'" "hp_ok (times tq') (tl_count tq')"
      using less.IH [OF p tq1(3)] less.prems(2,3) p tq1(4) by auto
    moreover from this have "adjust_up tq s = Some tq'"
      using s tq1(1) len p by (subst adjust_up.simps) (auto simp: heap_at_def Let_def)
    ultimately show ?thesis using permuted_trans [OF tq1(2)] by blast
  qed
qed

lemma smaller_child_spec:
  assumes "2 * s + 1 < tl_count tq" "tl_count tq \<le> length (tl_heap tq)"
  shows "\<exists>t. smaller_child tq s = Some t \<and> t < tl_count tq \<and> 0 < t \<and> parent t = s \<and>
    (\<forall>i. 0 < i \<and> i < tl_count tq \<and> parent i = s \<longrightarrow> times tq t \<le> times tq i)"
proof -
  have ch: "i = 2 * s + 1 \<or> i = 2 * s + 2" if "0 < i" "parent i = s" for i using parent_child [OF that(1)] that(2) by simp
  show ?thesis
  proof (cases "2 * s + 2 < tl_count tq \<and> times tq (2 * s + 2) < times tq (2 * s + 1)")
    case True
    then have "smaller_child tq s = Some (2 * s + 2)" using assms by (simp add: smaller_child_def heap_at_def)
    then show ?thesis using True ch by fastforce
  next
    case False
    then have "smaller_child tq s = Some (2 * s + 1)"
      using assms by (auto simp: smaller_child_def heap_at_def)
    moreover have "times tq (2 * s + 1) \<le> times tq i" if "0 < i \<and> i < tl_count tq \<and> parent i = s" for i
      using False ch [of i] that by auto
    ultimately show ?thesis using assms(1) by auto
  qed
qed

lemma adjust_down_loop_spec:
  assumes "linked n tq" "tl_count tq \<le> n" "2 \<le> tl_count tq" "s < tl_count tq" "hp_down (times tq) (tl_count tq) s"
  shows "\<exists>tq'. adjust_down_loop tq s = Some tq' \<and> permuted n tq tq' \<and> linked n tq' \<and> hp_ok (times tq') (tl_count tq')"
  using assms
proof (induction "tl_count tq - s" arbitrary: s tq rule: less_induct)
  case less
  have len: "tl_count tq \<le> length (tl_heap tq)" using less.prems by (simp add: linked_def)
  show ?case
  proof (cases "2 * s + 1 < tl_count tq")
    case True
    then have g: "s \<le> (tl_count tq - 2) div 2" by linarith
    obtain t where t: "smaller_child tq s = Some t" "t < tl_count tq" "0 < t" "parent t = s"
      "\<And>i. 0 < i \<Longrightarrow> i < tl_count tq \<Longrightarrow> parent i = s \<Longrightarrow> times tq t \<le> times tq i"
      using smaller_child_spec [OF True len] by blast
    have st: "s < t" using parent_less [OF t(3)] t(4) by simp
    show ?thesis
    proof (cases "times tq t < times tq s")
      case lt: True
      obtain tq1 where tq1: "HEAP_SWAP tq s t = Some tq1" "permuted n tq tq1" "linked n tq1"
        "tl_count tq1 = tl_count tq" "times tq1 = (times tq)(s := times tq t, t := times tq s)"
        using swap_permuted [OF less.prems(1,2,4) t(2)] st by auto
      have "hp_down (times tq1) (tl_count tq1) t"
        unfolding tq1(4,5) by (rule hp_down_step [OF less.prems(5) t(2-4) lt t(5)])
      then obtain tq' where "adjust_down_loop tq1 t = Some tq'" "permuted n tq1 tq'" "linked n tq'" "hp_ok (times tq') (tl_count tq')"
        using less.hyps [of tq1 t] tq1(3) less.prems(2,3) t(2) st tq1(4) diff_less_mono2 [OF st, of "tl_count tq"]
        by auto
      moreover from this have "adjust_down_loop tq s = Some tq'"
        using g t(1,2) lt tq1(1) len less.prems(4) by (subst adjust_down_loop.simps) (auto simp: heap_at_def)
      ultimately show ?thesis using permuted_trans [OF tq1(2)] by blast
    next
      case ge: False
      then have "adjust_down_loop tq s = Some tq"
        using g t(1,2) len less.prems(4) by (subst adjust_down_loop.simps) (auto simp: heap_at_def)
      moreover have "hp_ok (times tq) (tl_count tq)"
      proof (rule hp_down_stop [OF less.prems(5)])
        fix i assume "0 < i" "i < tl_count tq" "parent i = s"
        then show "times tq s \<le> times tq i" using t(5) [of i] ge by simp
      qed
      ultimately show ?thesis using permuted_refl less.prems(1) by blast
    qed
  next
    case False
    then have "\<not> s \<le> (tl_count tq - 2) div 2" using less.prems(3) by linarith
    then have "adjust_down_loop tq s = Some tq" by (subst adjust_down_loop.simps) simp
    moreover have "hp_ok (times tq) (tl_count tq)"
    proof (rule hp_down_stop [OF less.prems(5)])
      fix i assume "0 < i" "i < tl_count tq" "parent i = s"
      then show "times tq s \<le> times tq i" using False parent_child [of i s] by auto
    qed
    ultimately show ?thesis using permuted_refl less.prems(1) by blast
  qed
qed

lemma adjust_down_spec:
  assumes "linked n tq" "tl_count tq \<le> n" "s < tl_count tq" "hp_down (times tq) (tl_count tq) s"
  shows "\<exists>tq'. adjust_down tq s = Some tq' \<and> permuted n tq tq' \<and> linked n tq' \<and> hp_ok (times tq') (tl_count tq')"
proof (cases "tl_count tq < 2")
  case True
  then have "hp_ok (times tq) (tl_count tq)" by (auto simp: hp_ok_def)
  then show ?thesis using True assms(1) permuted_refl by (auto simp: adjust_down_def)
next
  case False
  then show ?thesis using adjust_down_loop_spec [OF assms(1,2) _ assms(3,4)] by (simp add: adjust_down_def)
qed

lemma hp_ok_down: "hp_ok T n \<Longrightarrow> s < n \<Longrightarrow> hp_down T n s"
  using hp_change(2) [of T n s "T s"] by simp

section \<open>The timers and the invariant\<close>

text \<open>The timers in the first \<open>n\<close> entries: the time, the key and the value of each node.\<close>

definition timers_upto :: "nat \<Rightarrow> ('k, 'v) timerlist \<Rightarrow> addr \<Rightarrow> (time \<times> 'k \<times> 'v) option" where
  "timers_upto n tq a =
     (case map_of (map prod.swap (take n (tl_heap tq))) a of None \<Rightarrow> None
      | Some t \<Rightarrow> map_option (Pair t) (kv tq a))"

definition nodes_upto :: "nat \<Rightarrow> ('k, 'v) timerlist \<Rightarrow> addr set" where
  "nodes_upto n tq = snd ` set (take n (tl_heap tq))"

definition node_index :: "('k, 'v) timerlist \<Rightarrow> addr \<Rightarrow> nat" where
  "node_index tq a = unat (tl_hash_fn tq (fst (the (kv tq a))) mod tl_bucket_size tq)"

definition buckets_ok :: "nat \<Rightarrow> ('k, 'v) timerlist \<Rightarrow> bool" where
  "buckets_ok n tq \<longleftrightarrow> tl_bucket_size tq \<noteq> 0 \<and> length (tl_hash tq) = unat (tl_bucket_size tq) \<and>
     (\<forall>i < length (tl_hash tq). distinct (tl_hash tq ! i) \<and>
        set (tl_hash tq ! i) = {a \<in> nodes_upto n tq. node_index tq a = i})"

definition capacity_ok :: "('k, 'v) timerlist \<Rightarrow> bool" where
  "capacity_ok tq \<longleftrightarrow> length (tl_heap tq) = unat (node_capacity tq) \<and> 0 < node_capacity tq \<and> node_capacity tq < 2 ^ 28"

abbreviation timers :: "('k, 'v) timerlist \<Rightarrow> addr \<Rightarrow> (time \<times> 'k \<times> 'v) option" where
  "timers tq \<equiv> timers_upto (tl_count tq) tq"

definition tl_inv :: "('k, 'v) timerlist \<Rightarrow> bool" where
  "tl_inv tq \<longleftrightarrow> linked (tl_count tq) tq \<and> hp_ok (times tq) (tl_count tq) \<and> buckets_ok (tl_count tq) tq \<and> capacity_ok tq"

lemma linked_kv: "linked n tq \<Longrightarrow> i < n \<Longrightarrow> kv tq (snd (tl_heap tq ! i)) \<noteq> None"
  by (fastforce simp: linked_def kv_def)

lemma map_of_swap:
  "distinct (map snd xs) \<Longrightarrow> map_of (map prod.swap xs) a = Some t \<longleftrightarrow> (t, a) \<in> set xs"
  by (induction xs) (auto simp: image_iff)

lemma timers_upto_Some:
  assumes "linked n tq"
  shows "timers_upto n tq a = Some (t, k, v) \<longleftrightarrow> (t, a) \<in> set (take n (tl_heap tq)) \<and> kv tq a = Some (k, v)"
proof -
  note m = map_of_swap [OF linked_distinct [OF assms], of a]
  show ?thesis
  proof (cases "map_of (map prod.swap (take n (tl_heap tq))) a")
    case None
    then show ?thesis using m by (simp add: timers_upto_def)
  next
    case (Some t')
    then show ?thesis using m [of t] by (auto simp: timers_upto_def)
  qed
qed

lemma in_take_nth: "x \<in> set (take n xs) \<longleftrightarrow> (\<exists>i. i < n \<and> i < length xs \<and> xs ! i = x)"
  by (auto simp: in_set_conv_nth)

lemma nodes_dom:
  assumes "linked n tq" shows "nodes_upto n tq = dom (timers_upto n tq)"
proof -
  have "kv tq a \<noteq> None" if m: "(t, a) \<in> set (take n (tl_heap tq))" for t a
  proof -
    obtain i where "i < n" "i < length (tl_heap tq)" "tl_heap tq ! i = (t, a)"
      using m unfolding in_take_nth by blast
    then show ?thesis using linked_kv [OF assms, of i] by simp
  qed
  then have "(\<exists>t. (t, a) \<in> set (take n (tl_heap tq))) \<longleftrightarrow> (\<exists>t k v. timers_upto n tq a = Some (t, k, v))" for a
    unfolding timers_upto_Some [OF assms] by fastforce
  moreover have "a \<in> nodes_upto n tq \<longleftrightarrow> (\<exists>t. (t, a) \<in> set (take n (tl_heap tq)))" for a
    by (force simp: nodes_upto_def)
  moreover have "a \<in> dom (timers_upto n tq) \<longleftrightarrow> (\<exists>t k v. timers_upto n tq a = Some (t, k, v))" for a
    by auto
  ultimately show ?thesis by blast
qed

lemma timers_upto_eqI:
  assumes "linked n tq" "linked n tq'" "set (take n (tl_heap tq')) = set (take n (tl_heap tq))" "kv tq' = kv tq"
  shows "timers_upto n tq' = timers_upto n tq"
proof
  fix a
  show "timers_upto n tq' a = timers_upto n tq a"
    using timers_upto_Some [OF assms(1), of a] timers_upto_Some [OF assms(2), of a] assms(3,4)
    by (metis (no_types, lifting) not_None_eq surj_pair)
qed

lemma permuted_keeps:
  assumes p: "permuted n tq tq'" and l: "linked n tq" "linked n tq'"
  shows "timers_upto n tq' = timers_upto n tq" "buckets_ok n tq' = buckets_ok n tq" "capacity_ok tq' = capacity_ok tq"
    "tl_count tq' = tl_count tq" "nodes_upto n tq' = nodes_upto n tq" "kv tq' = kv tq" "tl_hash tq' = tl_hash tq"
    "tl_hash_fn tq' = tl_hash_fn tq" "tl_bucket_size tq' = tl_bucket_size tq"
    "tl_count tq \<le> i \<Longrightarrow> tl_heap tq' ! i = tl_heap tq ! i"
proof -
  obtain h nds where tq': "tq' = tq\<lparr>tl_node := nds, tl_heap := h\<rparr>" "length h = length (tl_heap tq)"
    "mset (take n h) = mset (take n (tl_heap tq))" "\<forall>i. tl_count tq \<le> i \<longrightarrow> h ! i = tl_heap tq ! i" "kv tq' = kv tq"
    using p unfolding permuted_def by blast
  have s: "set (take n (tl_heap tq')) = set (take n (tl_heap tq))"
    using mset_eq_setD [OF tq'(3)] tq'(1) by simp
  show "timers_upto n tq' = timers_upto n tq" by (rule timers_upto_eqI [OF l s tq'(5)])
  show nodes: "nodes_upto n tq' = nodes_upto n tq" using s by (simp add: nodes_upto_def)
  have idx: "node_index tq' = node_index tq" using tq'(1,5) by (simp add: node_index_def fun_eq_iff)
  show "buckets_ok n tq' = buckets_ok n tq" using nodes idx tq'(1) by (simp add: buckets_ok_def)
  show "capacity_ok tq' = capacity_ok tq" "tl_count tq' = tl_count tq" "kv tq' = kv tq" "tl_hash tq' = tl_hash tq"
    "tl_hash_fn tq' = tl_hash_fn tq" "tl_bucket_size tq' = tl_bucket_size tq"
    "tl_count tq \<le> i \<Longrightarrow> tl_heap tq' ! i = tl_heap tq ! i"
    using tq' by (simp_all add: capacity_ok_def)
qed

lemma tl_index_ok: "buckets_ok n tq \<Longrightarrow> \<exists>i. tl_index tq key = Some i \<and> i < length (tl_hash tq) \<and>
    i = unat (tl_hash_fn tq key mod tl_bucket_size tq)"
  by (auto simp: tl_index_def buckets_ok_def word_less_nat_alt [symmetric] word_mod_less_divisor word_neq_0_conv)

lemma in_tl_bucket:
  assumes "buckets_ok n tq" "tl_index tq key = Some i" "timers_upto n tq a = Some (t, key, v)" "linked n tq"
  shows "a \<in> set (tl_hash tq ! i)"
proof -
  have "kv tq a = Some (key, v)" "a \<in> nodes_upto n tq"
    using assms(3) timers_upto_Some [OF assms(4)] nodes_dom [OF assms(4)] by auto
  then show ?thesis using assms(1) tl_index_ok [OF assms(1), of key] assms(2)
    by (auto simp: buckets_ok_def node_index_def)
qed

section \<open>The top of the heap\<close>

lemma timerlist_top_spec:
  assumes inv: "tl_inv tq"
  shows "timerlist_top tq = Some None \<and> timers tq = Map.empty \<or>
    (\<exists>a t k v. timerlist_top tq = Some (Some (a, t, k, v)) \<and> timers tq a = Some (t, k, v) \<and>
      a = snd (tl_heap tq ! 0) \<and> 0 < tl_count tq \<and>
      (\<forall>b t' k' v'. timers tq b = Some (t', k', v') \<longrightarrow> t \<le> t'))"
proof (cases "tl_count tq = 0")
  case True
  then show ?thesis by (auto simp: timerlist_top_def timers_upto_def)
next
  case False
  have l: "linked (tl_count tq) tq" and h: "hp_ok (times tq) (tl_count tq)" using inv by (auto simp: tl_inv_def)
  have len: "tl_count tq \<le> length (tl_heap tq)" using l by (simp add: linked_def)
  let ?a = "snd (tl_heap tq ! 0)" and ?t = "times tq 0"
  obtain nd where nd: "tl_node tq ?a = Some nd" using l False by (auto simp: linked_def)
  have "(?t, ?a) \<in> set (take (tl_count tq) (tl_heap tq))"
    unfolding in_take_nth using False len by (intro exI [of _ 0]) auto
  then have "timers tq ?a = Some (?t, tn_key nd, tn_val nd)"
    using timers_upto_Some [OF l] nd by (simp add: kv_def)
  moreover have "timerlist_top tq = Some (Some (?a, ?t, tn_key nd, tn_val nd))"
    using False len nd by (auto simp: timerlist_top_def heap_at_def)
  moreover have "?t \<le> t'" if "timers tq b = Some (t', k', v')" for b t' k' v'
  proof -
    have "(t', b) \<in> set (take (tl_count tq) (tl_heap tq))" using that timers_upto_Some [OF l] by blast
    then obtain i where "i < tl_count tq" "tl_heap tq ! i = (t', b)" unfolding in_take_nth by blast
    then show ?thesis using hp_min [OF h, of i] by simp
  qed
  ultimately show ?thesis using False by blast
qed

section \<open>Removing the last entry\<close>

lemma tl_drop_fields:
  "tl_hash_fn (tl_drop tq a) = tl_hash_fn tq" "tl_bucket_size (tl_drop tq a) = tl_bucket_size tq"
  by (simp_all add: tl_drop_def)

lemma kv_count [simp]: "kv (tq\<lparr>tl_count := m\<rparr>) = kv tq"
  by (simp add: kv_def fun_eq_iff)

lemma drop_last:
  assumes l: "linked (Suc m) tq" and c: "tl_count tq = m" and h: "hp_ok (times tq) m" and b: "buckets_ok (Suc m) tq"
    and cap: "capacity_ok tq" and a: "a = snd (tl_heap tq ! m)"
  shows "tl_inv (tl_drop tq a)" "timers (tl_drop tq a) = (timers_upto (Suc m) tq)(a := None)"
proof -
  let ?tq = "tl_drop tq a" let ?h = "tl_heap tq"
  have len: "m < length ?h" using l by (simp add: linked_def)
  have tk: "take (Suc m) ?h = take m ?h @ [(times tq m, a)]" using len a by (simp add: take_Suc_conv_app_nth)
  have d: "distinct (map snd (take (Suc m) ?h))" using linked_distinct [OF l] .
  have na: "a \<notin> snd ` set (take m ?h)" using d unfolding tk by auto
  have sub: "snd (?h ! i) \<noteq> a" if "i < m" for i
    using na that len by (metis image_eqI in_take_nth less_trans)
  have l': "linked m ?tq"
    using l sub unfolding linked_def by (auto simp: tl_drop_def)
  have kv': "kv ?tq x = (if x = a then None else kv tq x)" for x by (simp add: kv_def tl_drop_def)
  have nodes: "nodes_upto m ?tq = nodes_upto (Suc m) tq - {a}"
    using na tk by (auto simp: nodes_upto_def tl_drop_def)
  have idx: "node_index ?tq x = node_index tq x" if "x \<noteq> a" for x
    using that by (simp add: node_index_def kv' tl_drop_fields)
  have "buckets_ok m ?tq"
    unfolding buckets_ok_def
  proof (intro conjI allI impI)
    fix i assume i: "i < length (tl_hash ?tq)"
    then have old: "distinct (tl_hash tq ! i)" "set (tl_hash tq ! i) = {x \<in> nodes_upto (Suc m) tq. node_index tq x = i}"
      using b by (auto simp: buckets_ok_def tl_drop_def)
    have eq: "tl_hash ?tq ! i = remove1 a (tl_hash tq ! i)" using i by (simp add: tl_drop_def)
    show "distinct (tl_hash ?tq ! i)" using old(1) eq by simp
    show "set (tl_hash ?tq ! i) = {x \<in> nodes_upto m ?tq. node_index ?tq x = i}"
      unfolding eq nodes using old idx by auto
  qed (use b in \<open>auto simp: buckets_ok_def tl_drop_def\<close>)
  moreover have "hp_ok (times ?tq) m" using h by (simp add: tl_drop_def)
  ultimately show "tl_inv ?tq"
    using l' c cap by (simp add: tl_inv_def tl_drop_def capacity_ok_def)
  show "timers ?tq = (timers_upto (Suc m) tq)(a := None)"
  proof
    fix x
    have tm: "timers ?tq x = Some (t, k, v) \<longleftrightarrow> (t, x) \<in> set (take m ?h) \<and> kv ?tq x = Some (k, v)" for t k v
      using timers_upto_Some [OF l'] c by (simp add: tl_drop_def)
    have "timers ?tq x = Some (t, k, v) \<longleftrightarrow> ((timers_upto (Suc m) tq)(a := None)) x = Some (t, k, v)" for t k v
      unfolding tm using timers_upto_Some [OF l, of x t k v] tk kv' by auto
    then show "timers ?tq x = ((timers_upto (Suc m) tq)(a := None)) x"
      by (metis (no_types, lifting) not_None_eq surj_pair)
  qed
qed

text \<open>The state that \<open>timerlist_pop\<close> and \<open>timerlist_del\<close> work on: the count is one less already.\<close>

lemma less_count:
  assumes inv: "tl_inv tq" and c: "tl_count tq = Suc m"
  shows "linked (Suc m) (tq\<lparr>tl_count := m\<rparr>)" "buckets_ok (Suc m) (tq\<lparr>tl_count := m\<rparr>)" "capacity_ok (tq\<lparr>tl_count := m\<rparr>)"
    "timers_upto (Suc m) (tq\<lparr>tl_count := m\<rparr>) = timers tq" "hp_ok (times (tq\<lparr>tl_count := m\<rparr>)) (Suc m)"
  using inv c by (simp_all add: tl_inv_def linked_def buckets_ok_def capacity_ok_def nodes_upto_def node_index_def
      timers_upto_def fun_eq_iff cong: option.case_cong)

lemma hp_ok_mono: "hp_ok T n \<Longrightarrow> m \<le> n \<Longrightarrow> hp_ok T m"
  by (simp add: hp_ok_def)

lemma hp_up_cong:
  assumes "hp_up T n s" "\<And>i. i < n \<Longrightarrow> T' i = T i" "s < n" shows "hp_up T' n s"
  unfolding hp_up_def
proof (intro allI impI)
  fix i assume i: "0 < i \<and> i < n"
  have "parent i < n" "parent s < n" using i assms(3) by linarith+
  then show "(i \<noteq> s \<longrightarrow> T' (parent i) \<le> T' i) \<and> (0 < s \<and> parent i = s \<longrightarrow> T' (parent s) \<le> T' i)"
    using assms(1) i by (simp add: assms(2) hp_up_def)
qed

lemma hp_down_cong:
  assumes "hp_down T n s" "\<And>i. i < n \<Longrightarrow> T' i = T i" "s < n" shows "hp_down T' n s"
  unfolding hp_down_def
proof (intro allI impI)
  fix i assume i: "0 < i \<and> i < n"
  have "parent i < n" "parent s < n" using i assms(3) by linarith+
  then show "(parent i \<noteq> s \<longrightarrow> T' (parent i) \<le> T' i) \<and> (0 < s \<and> parent i = s \<longrightarrow> T' (parent s) \<le> T' i)"
    using assms(1) i by (simp add: assms(2) hp_down_def)
qed

text \<open>The last entry has replaced the entry at \<open>i\<close>; sifting it repairs the heap.\<close>

lemma replace_by_last:
  assumes l: "linked (Suc m) tq" and c: "tl_count tq = m" and h: "hp_ok (times tq) (Suc m)" and i: "i < m"
  shows "\<exists>tq1. HEAP_SWAP tq i m = Some tq1 \<and> linked (Suc m) tq1 \<and> tl_count tq1 = m \<and>
    snd (tl_heap tq1 ! m) = snd (tl_heap tq ! i) \<and> mset (take (Suc m) (tl_heap tq1)) = mset (take (Suc m) (tl_heap tq)) \<and>
    length (tl_heap tq1) = length (tl_heap tq) \<and>
    kv tq1 = kv tq \<and> (\<forall>j < m. times tq1 j = ((times tq)(i := times tq m)) j) \<and>
    tq1 = tq\<lparr>tl_node := tl_node tq1, tl_heap := tl_heap tq1\<rparr>"
proof -
  let ?h = "(tl_heap tq)[i := tl_heap tq ! m, m := tl_heap tq ! i]"
  have len: "m < length (tl_heap tq)" using l by (simp add: linked_def)
  obtain nds where s: "HEAP_SWAP tq i m = Some (tq\<lparr>tl_node := nds, tl_heap := ?h\<rparr>)"
    "linked (Suc m) (tq\<lparr>tl_node := nds, tl_heap := ?h\<rparr>)" "kv (tq\<lparr>tl_node := nds, tl_heap := ?h\<rparr>) = kv tq"
    using HEAP_SWAP_spec [OF l, of i m] i by auto
  have "mset (take (Suc m) ?h) = mset (take (Suc m) (tl_heap tq))" using i len by (intro mset_take_swap) auto
  then show ?thesis
    using s c len i by (intro exI [of _ "tq\<lparr>tl_node := nds, tl_heap := ?h\<rparr>"]) (auto simp: nth_list_update)
qed

lemma sift_any:
  assumes l: "linked n tq" and c: "tl_count tq \<le> n" "i < tl_count tq" and T: "hp_ok T (tl_count tq)"
    and t: "\<And>j. j < tl_count tq \<Longrightarrow> times tq j = (T(i := v)) j"
  shows "\<exists>tq1 tq2. adjust_up tq i = Some tq1 \<and> adjust_down tq1 i = Some tq2 \<and> permuted n tq tq2 \<and> linked n tq2 \<and>
    hp_ok (times tq2) (tl_count tq2)"
proof (cases "i = 0 \<or> T (parent i) \<le> v")
  case True
  have "hp_down (times tq) (tl_count tq) i"
    by (rule hp_down_cong [OF hp_change(3) [OF T c(2) True] t c(2)])
  moreover have "adjust_up tq i = Some tq"
  proof (rule adjust_up_noop)
    show "i = 0 \<or> times tq (parent i) \<le> times tq i"
    proof (cases "i = 0")
      case False
      then have "parent i < i" by (intro parent_less) simp
      then show ?thesis using t [of "parent i"] t [of i] c(2) True by auto
    qed simp
    show "i < length (tl_heap tq)" using l c by (simp add: linked_def)
  qed
  ultimately show ?thesis using adjust_down_spec [OF l c] by auto
next
  case False
  then have "hp_up (times tq) (tl_count tq) i"
    by (intro hp_up_cong [OF hp_change(4) [OF T c(2)] t c(2)]) auto
  then obtain tq1 where 1: "adjust_up tq i = Some tq1" "permuted n tq tq1" "linked n tq1" "hp_ok (times tq1) (tl_count tq1)"
    using adjust_up_spec [OF l c] by blast
  have c1: "tl_count tq1 = tl_count tq" using permuted_keeps(4) [OF 1(2) l 1(3)] .
  then obtain tq2 where "adjust_down tq1 i = Some tq2" "permuted n tq1 tq2" "linked n tq2" "hp_ok (times tq2) (tl_count tq2)"
    using adjust_down_spec [OF 1(3), of i] c hp_ok_down [OF 1(4)] by auto
  then show ?thesis using 1(1) permuted_trans [OF 1(2)] by blast
qed

section \<open>Removal\<close>

text \<open>After sifting, the removed node is behind the entries in use.\<close>

lemma removal_end:
  assumes p: "permuted (Suc m) tq1 tq2" and l: "linked (Suc m) tq1" "linked (Suc m) tq2" and c: "tl_count tq1 = m"
    and h: "hp_ok (times tq2) (tl_count tq2)" and b: "buckets_ok (Suc m) tq1" and cap: "capacity_ok tq1"
  shows "tl_inv (tl_drop tq2 (snd (tl_heap tq1 ! m)))"
    "timers (tl_drop tq2 (snd (tl_heap tq1 ! m))) = (timers_upto (Suc m) tq1)(snd (tl_heap tq1 ! m) := None)"
    "tl_heap tq2 ! m = tl_heap tq1 ! m" "tl_count tq2 = m"
proof -
  note k = permuted_keeps [OF p l]
  show m: "tl_heap tq2 ! m = tl_heap tq1 ! m" "tl_count tq2 = m" using k(10) [of m] k(4) c by auto
  show "tl_inv (tl_drop tq2 (snd (tl_heap tq1 ! m)))"
    using drop_last(1) [OF l(2) m(2) _ _ _ refl] h b cap k(2,3) m by simp
  show "timers (tl_drop tq2 (snd (tl_heap tq1 ! m))) = (timers_upto (Suc m) tq1)(snd (tl_heap tq1 ! m) := None)"
    using drop_last(2) [OF l(2) m(2) _ _ _ refl] h b cap k(1,2,3) m by simp
qed

lemma swapped_keeps:
  assumes "tq1 = tq\<lparr>tl_node := nds, tl_heap := h\<rparr>" "kv tq1 = kv tq" "mset (take n h) = mset (take n (tl_heap tq))"
    "length h = length (tl_heap tq)" "linked n tq" "linked n tq1"
  shows "buckets_ok n tq1 = buckets_ok n tq" "capacity_ok tq1 = capacity_ok tq" "timers_upto n tq1 = timers_upto n tq"
proof -
  have s: "set (take n (tl_heap tq1)) = set (take n (tl_heap tq))" using mset_eq_setD [OF assms(3)] assms(1) by simp
  show "timers_upto n tq1 = timers_upto n tq" by (rule timers_upto_eqI [OF assms(5,6) s assms(2)])
  have idx: "node_index tq1 = node_index tq" using assms(1,2) by (simp add: node_index_def fun_eq_iff)
  show "buckets_ok n tq1 = buckets_ok n tq" using s idx assms(1) by (simp add: buckets_ok_def nodes_upto_def)
  show "capacity_ok tq1 = capacity_ok tq" using assms(1,4) by (simp add: capacity_ok_def)
qed

lemma del_node_spec:
  assumes inv: "tl_inv tq" and c: "tl_count tq = Suc m" and i: "i \<le> m" and n: "n = snd (tl_heap tq ! i)"
  shows "\<exists>tq'. del_node tq n i = Some tq' \<and> tl_inv tq' \<and> timers tq' = (timers tq)(n := None)"
proof -
  let ?tq = "tq\<lparr>tl_count := m\<rparr>"
  note lc = less_count [OF inv c]
  show ?thesis
  proof (cases "i = m")
    case True
    then have "del_node tq n i = Some (tl_drop ?tq n)" using c by (simp add: del_node_def)
    moreover have "hp_ok (times ?tq) m" using lc(5) by (rule hp_ok_mono) simp
    ultimately show ?thesis using drop_last [OF lc(1) _ _ lc(2,3), of n] lc(4) n True by simp
  next
    case False
    then have im: "i < m" using i by simp
    obtain tq1 where 1: "HEAP_SWAP ?tq i m = Some tq1" "linked (Suc m) tq1" "tl_count tq1 = m"
      "snd (tl_heap tq1 ! m) = snd (tl_heap ?tq ! i)" "mset (take (Suc m) (tl_heap tq1)) = mset (take (Suc m) (tl_heap ?tq))"
      "length (tl_heap tq1) = length (tl_heap ?tq)" "kv tq1 = kv ?tq"
      "\<And>j. j < m \<Longrightarrow> times tq1 j = ((times ?tq)(i := times ?tq m)) j"
      "tq1 = ?tq\<lparr>tl_node := tl_node tq1, tl_heap := tl_heap tq1\<rparr>"
      using replace_by_last [OF lc(1) _ lc(5) im] by auto
    note sk = swapped_keeps [OF 1(9,7,5,6) lc(1) 1(2)]
    have T: "hp_ok (times ?tq) (tl_count tq1)" using lc(5) 1(3) by (intro hp_ok_mono [OF lc(5)]) simp
    obtain tq2 tq3 where 2: "adjust_up tq1 i = Some tq2" "adjust_down tq2 i = Some tq3" "permuted (Suc m) tq1 tq3"
      "linked (Suc m) tq3" "hp_ok (times tq3) (tl_count tq3)"
      using sift_any [OF 1(2) _ _ T, of i "times ?tq m"] 1(3,8) im by auto
    have nm: "snd (tl_heap tq1 ! m) = n" using 1(4) n by simp
    have "del_node tq n i = Some (tl_drop tq3 n)" using False c 1(1) 2(1,2) by (simp add: del_node_def)
    moreover have "buckets_ok (Suc m) tq1" "capacity_ok tq1" "timers_upto (Suc m) tq1 = timers tq"
      using sk lc by simp_all
    ultimately show ?thesis
      using removal_end [OF 2(3) 1(2) 2(4) 1(3) 2(5)] nm by auto
  qed
qed

lemma timerlist_pop_spec:
  assumes inv: "tl_inv tq"
  shows "\<exists>tq'. timerlist_pop tq = Some tq' \<and> tl_inv tq' \<and>
    timers tq' = (if tl_count tq = 0 then timers tq else (timers tq)(snd (tl_heap tq ! 0) := None))"
proof (cases "tl_count tq")
  case 0
  then show ?thesis using inv by (simp add: timerlist_pop_def)
next
  case (Suc m)
  let ?tq = "tq\<lparr>tl_count := m\<rparr>"
  note lc = less_count [OF inv Suc]
  have len: "m < length (tl_heap tq)" using lc(1) by (simp add: linked_def)
  show ?thesis
  proof (cases "m = 0")
    case True
    then have "timerlist_pop tq = Some (tl_drop ?tq (snd (tl_heap ?tq ! m)))"
      using Suc len by (simp add: timerlist_pop_def heap_at_def)
    moreover have "hp_ok (times ?tq) m" using True by (simp add: hp_ok_def)
    ultimately show ?thesis using drop_last [OF lc(1) _ _ lc(2,3) refl] lc(4) True Suc by simp
  next
    case False
    then have im: "0 < m" by simp
    obtain tq1 where 1: "HEAP_SWAP ?tq 0 m = Some tq1" "linked (Suc m) tq1" "tl_count tq1 = m"
      "snd (tl_heap tq1 ! m) = snd (tl_heap ?tq ! 0)" "mset (take (Suc m) (tl_heap tq1)) = mset (take (Suc m) (tl_heap ?tq))"
      "length (tl_heap tq1) = length (tl_heap ?tq)" "kv tq1 = kv ?tq"
      "\<And>j. j < m \<Longrightarrow> times tq1 j = ((times ?tq)(0 := times ?tq m)) j"
      "tq1 = ?tq\<lparr>tl_node := tl_node tq1, tl_heap := tl_heap tq1\<rparr>"
      using replace_by_last [OF lc(1) _ lc(5) im] by auto
    note sk = swapped_keeps [OF 1(9,7,5,6) lc(1) 1(2)]
    have T: "hp_ok (times ?tq) m" using lc(5) by (rule hp_ok_mono) simp
    have "hp_down (times tq1) (tl_count tq1) 0"
      unfolding 1(3) by (rule hp_down_cong [OF hp_change(3) [OF T im] 1(8) im]) simp
    then obtain tq3 where 2: "adjust_down tq1 0 = Some tq3" "permuted (Suc m) tq1 tq3"
      "linked (Suc m) tq3" "hp_ok (times tq3) (tl_count tq3)"
      using adjust_down_spec [OF 1(2), of 0] 1(3) im by auto
    have e: "buckets_ok (Suc m) tq1" "capacity_ok tq1" "timers_upto (Suc m) tq1 = timers tq" using sk lc by simp_all
    note re = removal_end [OF 2(2) 1(2) 2(3) 1(3) 2(4) e(1,2)]
    have "m < length (tl_heap tq3)" using 2(3) by (simp add: linked_def)
    then have "timerlist_pop tq = Some (tl_drop tq3 (snd (tl_heap tq1 ! m)))"
      using Suc False 1(1) 2(1) re(3,4) by (simp add: timerlist_pop_def heap_at_def)
    then show ?thesis using re(1,2) e(3) 1(4) Suc by simp
  qed
qed

section \<open>Changing the time of a node\<close>

lemma set_time_spec:
  assumes inv: "tl_inv tq" and i: "i < tl_count tq" and n: "n = snd (tl_heap tq ! i)" and kv: "kv tq n = Some (k, v)"
  shows "linked (tl_count tq) (set_time tq i t)" "buckets_ok (tl_count tq) (set_time tq i t)" "capacity_ok (set_time tq i t)"
    "timers_upto (tl_count tq) (set_time tq i t) = (timers tq)(n \<mapsto> (t, k, v))"
    "times (set_time tq i t) = (times tq)(i := t)" "tl_count (set_time tq i t) = tl_count tq"
proof -
  let ?tq = "set_time tq i t" let ?c = "tl_count tq" let ?h = "tl_heap tq"
  have l: "linked ?c tq" and b: "buckets_ok ?c tq" and cap: "capacity_ok tq" using inv by (auto simp: tl_inv_def)
  have len: "?c \<le> length ?h" "i < length ?h" using l i by (auto simp: linked_def)
  have h: "tl_heap ?tq = ?h[i := (t, n)]" using n by (simp add: set_time_def)
  have kv': "kv ?tq = kv tq" by (simp add: kv_def set_time_def fun_eq_iff)
  have sn: "map snd (take ?c (tl_heap ?tq)) = map snd (take ?c ?h)"
    unfolding h using n len i by (intro nth_equalityI) (auto simp: nth_list_update)
  show l': "linked ?c ?tq" unfolding linked_def
    using l i len n by (auto simp: linked_def h nth_list_update set_time_def)
  have nodes: "nodes_upto ?c ?tq = nodes_upto ?c tq"
    using arg_cong [OF sn, of set] by (simp add: nodes_upto_def)
  have idx: "node_index ?tq = node_index tq" by (simp add: node_index_def kv' fun_eq_iff) (simp add: set_time_def)
  show "buckets_ok ?c ?tq" using b unfolding buckets_ok_def nodes idx by (simp add: set_time_def)
  show "capacity_ok ?tq" using cap by (simp add: capacity_ok_def h) (simp add: set_time_def)
  show "times ?tq = (times tq)(i := t)" using len by (auto simp: h nth_list_update)
  show "tl_count ?tq = ?c" by (simp add: set_time_def)
  have d: "distinct (map snd (take ?c ?h))" using linked_distinct [OF l] .
  have mem: "(s, a) \<in> set (take ?c (tl_heap ?tq)) \<longleftrightarrow> (if a = n then s = t else (s, a) \<in> set (take ?c ?h))" for s a
  proof -
    have nn: "snd (?h ! j) \<noteq> n" if "j < ?c" "j \<noteq> i" for j
      using d that len i n by (simp add: distinct_conv_nth)
    show ?thesis
    proof (cases "a = n")
      case True
      then show ?thesis unfolding in_take_nth h using nn i len n
        by (auto simp: nth_list_update) (metis nn nth_list_update_neq snd_conv)+
    next
      case False
      then have "(?h[i := (t, n)] ! j = (s, a)) = (?h ! j = (s, a))" for j
        using n len(2) by (auto simp: nth_list_update)
      then show ?thesis unfolding in_take_nth h using False by simp
    qed
  qed
  show "timers_upto ?c ?tq = (timers tq)(n \<mapsto> (t, k, v))"
  proof
    fix a
    have "timers_upto ?c ?tq a = Some (s, k', v') \<longleftrightarrow> ((timers tq)(n \<mapsto> (t, k, v))) a = Some (s, k', v')" for s k' v'
      unfolding timers_upto_Some [OF l'] mem kv' using timers_upto_Some [OF l, of a s k' v'] kv by auto
    then show "timers_upto ?c ?tq a = ((timers tq)(n \<mapsto> (t, k, v))) a"
      by (metis (no_types, lifting) not_None_eq surj_pair)
  qed
qed

text \<open>One step of \<open>timerlist_resched\<close> or \<open>timerlist_moveup\<close>: a new time, and the matching sift.\<close>

lemma set_time_sift:
  assumes inv: "tl_inv tq" and i: "i < tl_count tq" and n: "n = snd (tl_heap tq ! i)" and kv: "kv tq n = Some (k, v)"
  shows "t \<le> times tq i \<Longrightarrow> \<exists>tq'. adjust_up (set_time tq i t) i = Some tq' \<and> tl_inv tq' \<and>
      timers tq' = (timers tq)(n \<mapsto> (t, k, v)) \<and> tl_count tq' = tl_count tq \<and> kv tq' = kv tq"
    "i = 0 \<or> times tq i \<le> t \<Longrightarrow> \<exists>tq'. adjust_down (set_time tq i t) i = Some tq' \<and> tl_inv tq' \<and>
      timers tq' = (timers tq)(n \<mapsto> (t, k, v)) \<and> tl_count tq' = tl_count tq \<and> kv tq' = kv tq"
proof -
  let ?tq = "set_time tq i t"
  note st = set_time_spec [OF assms, of t]
  have h: "hp_ok (times tq) (tl_count tq)" using inv by (simp add: tl_inv_def)
  have fin: "tl_inv tq'" "timers tq' = (timers tq)(n \<mapsto> (t, k, v))" "tl_count tq' = tl_count tq" "kv tq' = kv tq"
    if p: "permuted (tl_count tq) ?tq tq'" "linked (tl_count tq) tq'" "hp_ok (times tq') (tl_count tq')" for tq'
  proof -
    note k = permuted_keeps [OF p(1) st(1) p(2)]
    have kv': "kv ?tq = kv tq" by (simp add: kv_def set_time_def fun_eq_iff)
    show "tl_inv tq'" "timers tq' = (timers tq)(n \<mapsto> (t, k, v))" "tl_count tq' = tl_count tq" "kv tq' = kv tq"
      using k st p kv' by (simp_all add: tl_inv_def)
  qed
  show "\<exists>tq'. adjust_up ?tq i = Some tq' \<and> tl_inv tq' \<and> timers tq' = (timers tq)(n \<mapsto> (t, k, v)) \<and>
      tl_count tq' = tl_count tq \<and> kv tq' = kv tq" if "t \<le> times tq i"
  proof -
    have "hp_up (times ?tq) (tl_count ?tq) i" using hp_change(1) [OF h i that] st(5,6) by simp
    then obtain tq' where "adjust_up ?tq i = Some tq'" "permuted (tl_count tq) ?tq tq'" "linked (tl_count tq) tq'"
      "hp_ok (times tq') (tl_count tq')" using adjust_up_spec [OF st(1), of i] i st(6) by auto
    then show ?thesis using fin by blast
  qed
  show "\<exists>tq'. adjust_down ?tq i = Some tq' \<and> tl_inv tq' \<and> timers tq' = (timers tq)(n \<mapsto> (t, k, v)) \<and>
      tl_count tq' = tl_count tq \<and> kv tq' = kv tq" if "i = 0 \<or> times tq i \<le> t"
  proof -
    have "hp_down (times ?tq) (tl_count ?tq) i" using hp_change(2) [OF h i, of t] hp_change(3) [OF h i, of t] that st(5,6) by auto
    then obtain tq' where "adjust_down ?tq i = Some tq'" "permuted (tl_count tq) ?tq tq'" "linked (tl_count tq) tq'"
      "hp_ok (times tq') (tl_count tq')" using adjust_down_spec [OF st(1), of i] i st(6) by auto
    then show ?thesis using fin by blast
  qed
qed

section \<open>The loops over a bucket\<close>

lemma live_node:
  assumes inv: "tl_inv tq" and a: "timers tq n = Some (t, k, v)"
  shows "\<exists>nd. tl_node tq n = Some nd \<and> tn_key nd = k \<and> tn_val nd = v \<and> heap_id nd < tl_count tq \<and>
    heap_at tq (heap_id nd) = Some (t, n) \<and> tl_heap tq ! heap_id nd = (t, n) \<and> kv tq n = Some (k, v)"
proof -
  have l: "linked (tl_count tq) tq" using inv by (simp add: tl_inv_def)
  have m: "(t, n) \<in> set (take (tl_count tq) (tl_heap tq))" "kv tq n = Some (k, v)" using a timers_upto_Some [OF l] by auto
  obtain i where i: "i < tl_count tq" "i < length (tl_heap tq)" "tl_heap tq ! i = (t, n)"
    using m(1) unfolding in_take_nth by blast
  obtain nd where "tl_node tq n = Some nd" "heap_id nd = i" using l i by (force simp: linked_def)
  then show ?thesis using i m(2) by (auto simp: heap_at_def kv_def)
qed

definition keyed :: "('k, 'v) timerlist \<Rightarrow> 'k \<Rightarrow> addr \<Rightarrow> bool" where
  "keyed tq key a \<longleftrightarrow> (\<exists>t v. timers tq a = Some (t, key, v))"

text \<open>Times as the protocol uses them: a comparison as unsigned numbers is the comparison.\<close>

definition time_ok :: "time \<Rightarrow> bool" where
  "time_ok t \<longleftrightarrow> 0 \<le> t \<and> t < 2 ^ 63"

lemma time_greater_ok: "time_ok a \<Longrightarrow> time_ok b \<Longrightarrow> time_greater a b \<longleftrightarrow> a > b"
  by (simp add: time_ok_def time_greater_def)

definition retime :: "(time \<Rightarrow> time) \<Rightarrow> 'k \<Rightarrow> time \<times> 'k \<times> 'v \<Rightarrow> time \<times> 'k \<times> 'v" where
  "retime f key = (\<lambda>(t, k, v). (if k = key then f t else t, k, v))"

definition times_ok :: "('k, 'v) timerlist \<Rightarrow> bool" where
  "times_ok tq \<longleftrightarrow> (\<forall>a t k v. timers tq a = Some (t, k, v) \<longrightarrow> time_ok t)"

lemma resched_loop_spec:
  assumes "tl_inv tq" "times_ok tq" "time_ok time" "distinct ns" "set ns \<subseteq> dom (timers tq)"
  shows "\<exists>tq'. resched_loop tq time key ns c = Some (tq', c + int (length (filter (keyed tq key) ns))) \<and> tl_inv tq' \<and> times_ok tq' \<and>
    timers tq' = (\<lambda>a. if a \<in> set ns then map_option (retime (\<lambda>_. time) key) (timers tq a) else timers tq a)"
  using assms
proof (induction ns arbitrary: tq c)
  case Nil
  then show ?case by simp
next
  case (Cons n ns)
  obtain t k v where n: "timers tq n = Some (t, k, v)" using Cons.prems(5) by (metis domD insert_subset list.simps(15) surj_pair)
  obtain nd where nd: "tl_node tq n = Some nd" "tn_key nd = k" "heap_id nd < tl_count tq"
    "heap_at tq (heap_id nd) = Some (t, n)" "tl_heap tq ! heap_id nd = (t, n)" "kv tq n = Some (k, v)"
    using live_node [OF Cons.prems(1) n] by blast
  show ?case
  proof (cases "k = key")
    case True
    have tk: "time_ok t" using Cons.prems(2) n by (auto simp: times_ok_def)
    obtain tq1 where 1: "(if time_greater t time then adjust_up (set_time tq (heap_id nd) time) (heap_id nd)
         else adjust_down (set_time tq (heap_id nd) time) (heap_id nd)) = Some tq1"
      "tl_inv tq1" "timers tq1 = (timers tq)(n \<mapsto> (time, k, v))"
      using set_time_sift [OF Cons.prems(1) nd(3) _ nd(6), of time] nd(5) time_greater_ok [OF tk Cons.prems(3)]
      by (cases "time_greater t time") auto
    have ok1: "times_ok tq1" using Cons.prems(2,3) 1(3) by (auto simp: times_ok_def)
    have nn: "n \<notin> set ns" using Cons.prems(4) by simp
    have "filter (keyed tq1 key) ns = filter (keyed tq key) ns"
      using nn by (intro filter_cong) (auto simp: keyed_def 1(3))
    moreover have "set ns \<subseteq> dom (timers tq1)" using Cons.prems(5) unfolding 1(3) by auto
    ultimately obtain tq' where tq': "resched_loop tq1 time key ns (c + 1) = Some (tq', c + 1 + int (length (filter (keyed tq key) ns)))"
      "tl_inv tq'" "times_ok tq'"
      "timers tq' = (\<lambda>a. if a \<in> set ns then map_option (retime (\<lambda>_. time) key) (timers tq1 a) else timers tq1 a)"
      using Cons.IH [OF 1(2) ok1 Cons.prems(3), of "c + 1"] Cons.prems(4) by auto
    have "timers tq' = (\<lambda>a. if a \<in> set (n # ns) then map_option (retime (\<lambda>_. time) key) (timers tq a) else timers tq a)"
      unfolding tq'(4) 1(3) using nn n True by (auto simp: retime_def fun_eq_iff)
    moreover have "keyed tq key n" using n True by (simp add: keyed_def)
    ultimately show ?thesis using tq'(1-3) nd 1(1) True by auto
  next
    case False
    obtain tq' where tq': "resched_loop tq time key ns c = Some (tq', c + int (length (filter (keyed tq key) ns)))"
      "tl_inv tq'" "times_ok tq'"
      "timers tq' = (\<lambda>a. if a \<in> set ns then map_option (retime (\<lambda>_. time) key) (timers tq a) else timers tq a)"
      using Cons.IH [OF Cons.prems(1-3), of c] Cons.prems(4,5) by auto
    have "timers tq' = (\<lambda>a. if a \<in> set (n # ns) then map_option (retime (\<lambda>_. time) key) (timers tq a) else timers tq a)"
      unfolding tq'(4) using n False by (auto simp: retime_def fun_eq_iff)
    moreover have "\<not> keyed tq key n" using n False by (simp add: keyed_def)
    ultimately show ?thesis using tq'(1-3) nd(1,2) False by auto
  qed
qed

lemma moveup_loop_spec:
  assumes "tl_inv tq" "distinct ns" "set ns \<subseteq> dom (timers tq)"
  shows "\<exists>tq' r. moveup_loop tq time key ns c = Some (tq', r) \<and> tl_inv tq' \<and>
    timers tq' = (\<lambda>a. if a \<in> set ns then map_option (retime (min time) key) (timers tq a) else timers tq a)"
  using assms
proof (induction ns arbitrary: tq c)
  case Nil
  then show ?case by simp
next
  case (Cons n ns)
  obtain t k v where n: "timers tq n = Some (t, k, v)" using Cons.prems(3) by (metis domD insert_subset list.simps(15) surj_pair)
  obtain nd where nd: "tl_node tq n = Some nd" "tn_key nd = k" "heap_id nd < tl_count tq"
    "heap_at tq (heap_id nd) = Some (t, n)" "tl_heap tq ! heap_id nd = (t, n)" "kv tq n = Some (k, v)"
    using live_node [OF Cons.prems(1) n] by blast
  show ?case
  proof (cases "k = key \<and> time < t")
    case True
    obtain tq1 where 1: "adjust_up (set_time tq (heap_id nd) time) (heap_id nd) = Some tq1"
      "tl_inv tq1" "timers tq1 = (timers tq)(n \<mapsto> (time, k, v))"
      using set_time_sift(1) [OF Cons.prems(1) nd(3) _ nd(6), of time] nd(5) True by auto
    have nn: "n \<notin> set ns" using Cons.prems(2) by simp
    have "set ns \<subseteq> dom (timers tq1)" using Cons.prems(3) unfolding 1(3) by auto
    then obtain tq' r where tq': "moveup_loop tq1 time key ns (c + 1) = Some (tq', r)" "tl_inv tq'"
      "timers tq' = (\<lambda>a. if a \<in> set ns then map_option (retime (min time) key) (timers tq1 a) else timers tq1 a)"
      using Cons.IH [OF 1(2), of "c + 1"] Cons.prems(2) by auto
    have "timers tq' = (\<lambda>a. if a \<in> set (n # ns) then map_option (retime (min time) key) (timers tq a) else timers tq a)"
      unfolding tq'(3) 1(3) using nn n True by (auto simp: retime_def fun_eq_iff)
    then show ?thesis using tq'(1,2) nd 1(1) True by auto
  next
    case False
    obtain tq' r where tq': "moveup_loop tq time key ns c = Some (tq', r)" "tl_inv tq'"
      "timers tq' = (\<lambda>a. if a \<in> set ns then map_option (retime (min time) key) (timers tq a) else timers tq a)"
      using Cons.IH [OF Cons.prems(1), of c] Cons.prems(2,3) by auto
    have "timers tq' = (\<lambda>a. if a \<in> set (n # ns) then map_option (retime (min time) key) (timers tq a) else timers tq a)"
      unfolding tq'(3) using n False by (auto simp: retime_def fun_eq_iff)
    then show ?thesis using tq'(1,2) nd False by auto
  qed
qed

lemma tl_del_loop_spec:
  assumes "tl_inv tq" "distinct ns" "set ns \<subseteq> dom (timers tq)"
  shows "\<exists>tq'. tl_del_loop tq key ns c = Some (tq', c + int (length (filter (keyed tq key) ns))) \<and> tl_inv tq' \<and>
    timers tq' = (\<lambda>a. if a \<in> set ns \<and> keyed tq key a then None else timers tq a)"
  using assms
proof (induction ns arbitrary: tq c)
  case Nil
  then show ?case by simp
next
  case (Cons n ns)
  obtain t k v where n: "timers tq n = Some (t, k, v)" using Cons.prems(3) by (metis domD insert_subset list.simps(15) surj_pair)
  obtain nd where nd: "tl_node tq n = Some nd" "tn_key nd = k" "heap_id nd < tl_count tq"
    "heap_at tq (heap_id nd) = Some (t, n)" "tl_heap tq ! heap_id nd = (t, n)" "kv tq n = Some (k, v)"
    using live_node [OF Cons.prems(1) n] by blast
  have nn: "n \<notin> set ns" using Cons.prems(2) by simp
  show ?case
  proof (cases "k = key")
    case True
    obtain m where m: "tl_count tq = Suc m" using nd(3) by (cases "tl_count tq") auto
    obtain tq1 where 1: "del_node tq n (heap_id nd) = Some tq1" "tl_inv tq1" "timers tq1 = (timers tq)(n := None)"
      using del_node_spec [OF Cons.prems(1) m, of "heap_id nd" n] nd(3,5) m by auto
    have keyed1: "keyed tq1 key a = keyed tq key a" if "a \<noteq> n" for a using that by (simp add: keyed_def 1(3))
    have "filter (keyed tq1 key) ns = filter (keyed tq key) ns"
      using nn keyed1 by (intro filter_cong refl) metis
    moreover have "set ns \<subseteq> dom (timers tq1)" using Cons.prems(3) nn unfolding 1(3) by auto
    ultimately obtain tq' where tq': "tl_del_loop tq1 key ns (c + 1) = Some (tq', c + 1 + int (length (filter (keyed tq key) ns)))"
      "tl_inv tq'" "timers tq' = (\<lambda>a. if a \<in> set ns \<and> keyed tq1 key a then None else timers tq1 a)"
      using Cons.IH [OF 1(2), of "c + 1"] Cons.prems(2) by auto
    have kn: "keyed tq key n" using n True by (simp add: keyed_def)
    have "timers tq' = (\<lambda>a. if a \<in> set (n # ns) \<and> keyed tq key a then None else timers tq a)"
      unfolding tq'(3) using nn kn keyed1 1(3) by (auto simp: fun_eq_iff)
    then show ?thesis using tq'(1,2) nd(1,2) 1(1) True kn by auto
  next
    case False
    then have kn: "\<not> keyed tq key n" using n by (simp add: keyed_def)
    obtain tq' where tq': "tl_del_loop tq key ns c = Some (tq', c + int (length (filter (keyed tq key) ns)))"
      "tl_inv tq'" "timers tq' = (\<lambda>a. if a \<in> set ns \<and> keyed tq key a then None else timers tq a)"
      using Cons.IH [OF Cons.prems(1), of c] Cons.prems(2,3) by auto
    have "timers tq' = (\<lambda>a. if a \<in> set (n # ns) \<and> keyed tq key a then None else timers tq a)"
      unfolding tq'(3) using kn by auto
    then show ?thesis using tq'(1,2) nd(1,2) False kn by auto
  qed
qed

text \<open>The bucket of a key holds every timer with the key.\<close>

lemma bucket_of_key:
  assumes inv: "tl_inv tq"
  obtains i where "tl_index tq key = Some i" "distinct (tl_hash tq ! i)" "set (tl_hash tq ! i) \<subseteq> dom (timers tq)"
    "\<And>a. keyed tq key a \<Longrightarrow> a \<in> set (tl_hash tq ! i)"
    "length (filter (keyed tq key) (tl_hash tq ! i)) = card {a. keyed tq key a}"
proof -
  have b: "buckets_ok (tl_count tq) tq" and l: "linked (tl_count tq) tq" using inv by (auto simp: tl_inv_def)
  obtain i where i: "tl_index tq key = Some i" "i < length (tl_hash tq)" using tl_index_ok [OF b] by blast
  have d: "distinct (tl_hash tq ! i)" "set (tl_hash tq ! i) \<subseteq> dom (timers tq)"
    using b i(2) nodes_dom [OF l] by (auto simp: buckets_ok_def)
  have k: "keyed tq key a \<Longrightarrow> a \<in> set (tl_hash tq ! i)" for a
    using in_tl_bucket [OF b i(1) _ l] by (auto simp: keyed_def)
  have "set (filter (keyed tq key) (tl_hash tq ! i)) = {a. keyed tq key a}" using k by auto
  then have "length (filter (keyed tq key) (tl_hash tq ! i)) = card {a. keyed tq key a}"
    using d(1) by (metis distinct_card distinct_filter)
  then show ?thesis using that i(1) d k by blast
qed

lemma timerlist_del_spec:
  assumes inv: "tl_inv tq"
  shows "\<exists>tq'. timerlist_del tq key = Some (tq', int (card {a. keyed tq key a})) \<and> tl_inv tq' \<and>
    timers tq' = (\<lambda>a. if keyed tq key a then None else timers tq a)"
proof -
  obtain i where i: "tl_index tq key = Some i" "distinct (tl_hash tq ! i)" "set (tl_hash tq ! i) \<subseteq> dom (timers tq)"
    "\<And>a. keyed tq key a \<Longrightarrow> a \<in> set (tl_hash tq ! i)" "length (filter (keyed tq key) (tl_hash tq ! i)) = card {a. keyed tq key a}"
    using bucket_of_key [OF inv] by metis
  show ?thesis using tl_del_loop_spec [OF inv i(2,3), of key 0] i(1,4,5) by (auto simp: timerlist_del_def fun_eq_iff)
qed

lemma map_option_retime: "\<not> keyed tq key a \<Longrightarrow> map_option (retime f key) (timers tq a) = timers tq a"
  by (cases "timers tq a") (auto simp: keyed_def retime_def)

lemma timerlist_resched_spec:
  assumes inv: "tl_inv tq" and t: "times_ok tq" "time_ok time"
  shows "\<exists>tq'. timerlist_resched tq time key = Some (tq', int (card {a. keyed tq key a})) \<and> tl_inv tq' \<and> times_ok tq' \<and>
    timers tq' = map_option (retime (\<lambda>_. time) key) \<circ> timers tq"
proof -
  obtain i where i: "tl_index tq key = Some i" "distinct (tl_hash tq ! i)" "set (tl_hash tq ! i) \<subseteq> dom (timers tq)"
    "\<And>a. keyed tq key a \<Longrightarrow> a \<in> set (tl_hash tq ! i)" "length (filter (keyed tq key) (tl_hash tq ! i)) = card {a. keyed tq key a}"
    using bucket_of_key [OF inv] by metis
  show ?thesis using resched_loop_spec [OF inv t i(2,3), of key 0] i(1,4,5) map_option_retime [of tq key]
    by (fastforce simp: timerlist_resched_def fun_eq_iff)
qed

lemma timerlist_moveup_spec:
  assumes inv: "tl_inv tq"
  shows "\<exists>tq' r. timerlist_moveup tq time key = Some (tq', r) \<and> tl_inv tq' \<and>
    timers tq' = map_option (retime (min time) key) \<circ> timers tq"
proof -
  obtain i where i: "tl_index tq key = Some i" "distinct (tl_hash tq ! i)" "set (tl_hash tq ! i) \<subseteq> dom (timers tq)"
    "\<And>a. keyed tq key a \<Longrightarrow> a \<in> set (tl_hash tq ! i)" "length (filter (keyed tq key) (tl_hash tq ! i)) = card {a. keyed tq key a}"
    using bucket_of_key [OF inv] by metis
  show ?thesis using moveup_loop_spec [OF inv i(2,3), of time key 0] i(1,4) map_option_retime [of tq key]
    by (fastforce simp: timerlist_moveup_def fun_eq_iff)
qed

section \<open>Adding a timer\<close>

text \<open>
  The array has room for one more timer, or can be doubled without its size in bytes passing 32
  bits.
\<close>

definition tl_has_room :: "('k, 'v) timerlist \<Rightarrow> bool" where
  "tl_has_room tq \<longleftrightarrow> tl_count tq < unat (node_capacity tq) \<or> node_capacity tq < 2 ^ 27"

lemma times_ok_upto:
  assumes "tl_heap tq' = h" "take n h = take n (tl_heap tq)" "tl_node tq' = tl_node tq"
  shows "timers_upto n tq' = timers_upto n tq" "nodes_upto n tq' = nodes_upto n tq" "kv tq' = kv tq"
proof -
  show kv: "kv tq' = kv tq" using assms(3) by (simp add: kv_def fun_eq_iff)
  show "timers_upto n tq' = timers_upto n tq" unfolding timers_upto_def kv using assms by simp
  show "nodes_upto n tq' = nodes_upto n tq" unfolding nodes_upto_def using assms by simp
qed

lemma double_words:
  assumes "0 < c" "c < (2 ^ 27 :: u32)"
  shows "unat (push_bit 1 c) = 2 * unat c" "unat (16 * push_bit 1 c) div 16 = 2 * unat c" "push_bit 1 c < 2 ^ 28" "0 < push_bit 1 c"
proof -
  have c: "unat c < 2 ^ 27" "0 < unat c" using assms by (auto simp: word_less_nat_alt)
  have p: "push_bit 1 c = 2 * c" by (simp add: push_bit_eq_mult)
  show 1: "unat (push_bit 1 c) = 2 * unat c"
    unfolding p using c by (simp add: unat_word_ariths)
  show "unat (16 * push_bit 1 c) div 16 = 2 * unat c"
    using c 1 by (simp add: unat_word_ariths(2))
  show "push_bit 1 c < 2 ^ 28" "0 < push_bit 1 c" using c 1 by (simp_all add: word_less_nat_alt)
qed

lemma heap_expand_spec:
  assumes inv: "tl_inv tq" and room: "tl_has_room tq" and e: "heap_expand tq ok = Some tq1"
  shows "tl_inv tq1" "timers tq1 = timers tq" "tl_count tq1 < length (tl_heap tq1)" "tl_count tq1 = tl_count tq"
    "tl_hash_fn tq1 = tl_hash_fn tq"
proof -
  have cap: "capacity_ok tq" and l: "linked (tl_count tq) tq" using inv by (auto simp: tl_inv_def)
  have "tl_inv tq1 \<and> timers tq1 = timers tq \<and> tl_count tq1 < length (tl_heap tq1) \<and> tl_count tq1 = tl_count tq \<and>
    tl_hash_fn tq1 = tl_hash_fn tq"
  proof (cases "tl_count tq \<ge> unat (node_capacity tq)")
    case False
    then show ?thesis using e inv cap by (auto simp: heap_expand_def capacity_ok_def)
  next
    case True
    have c: "0 < node_capacity tq" "node_capacity tq < 2 ^ 27" using True room cap by (auto simp: tl_has_room_def capacity_ok_def)
    note w = double_words [OF c]
    have len: "length (tl_heap tq) = unat (node_capacity tq)" "tl_count tq \<le> length (tl_heap tq)" "0 < unat (node_capacity tq)"
      using cap l c(1) by (auto simp: capacity_ok_def linked_def word_less_nat_alt)
    let ?h = "tl_heap tq @ replicate (unat (node_capacity tq)) (0, 0)"
    have tq1: "tq1 = tq\<lparr>node_capacity := push_bit 1 (node_capacity tq), tl_heap := ?h\<rparr>"
      using e True w(2) len by (auto simp: heap_expand_def Let_def split: if_splits)
    have keep: "timers_upto (tl_count tq) tq1 = timers_upto (tl_count tq) tq" "nodes_upto (tl_count tq) tq1 = nodes_upto (tl_count tq) tq"
      "kv tq1 = kv tq"
      using times_ok_upto [of tq1 ?h "tl_count tq" tq] tq1 len by simp_all
    have nth: "?h ! i = tl_heap tq ! i" if "i < tl_count tq" for i using that len by (simp add: nth_append)
    have "linked (tl_count tq) tq1" using l nth len unfolding linked_def tq1 by simp
    moreover have "hp_ok (times tq1) (tl_count tq)"
      using inv nth unfolding tl_inv_def hp_ok_def tq1 by auto
    moreover have "buckets_ok (tl_count tq) tq1"
      using inv keep(2,3) unfolding tl_inv_def buckets_ok_def by (auto simp: tq1 node_index_def)
    moreover have "capacity_ok tq1" using w len unfolding capacity_ok_def tq1 by simp
    ultimately show ?thesis using keep(1) len unfolding tl_inv_def tq1 by simp
  qed
  then show "tl_inv tq1" "timers tq1 = timers tq" "tl_count tq1 < length (tl_heap tq1)" "tl_count tq1 = tl_count tq"
    "tl_hash_fn tq1 = tl_hash_fn tq" by blast+
qed

text \<open>The state in which the new node is linked and stands at the end of the heap.\<close>

definition append_node :: "('k, 'v) timerlist \<Rightarrow> time \<Rightarrow> 'k \<Rightarrow> 'v \<Rightarrow> addr \<Rightarrow> nat \<Rightarrow> ('k, 'v) timerlist" where
  "append_node tq time key val n hv = tq\<lparr>tl_hash := (tl_hash tq)[hv := tl_hash tq ! hv @ [n]],
     tl_node := (tl_node tq)(n \<mapsto> \<lparr>heap_id = tl_count tq, tn_key = key, tn_val = val\<rparr>),
     tl_heap := (tl_heap tq)[tl_count tq := (time, n)],
     tl_count := tl_count tq + 1\<rparr>"

lemma append_node_spec:
  assumes inv: "tl_inv tq" and len: "tl_count tq < length (tl_heap tq)" and new: "n \<notin> dom (timers tq)"
    and hv: "tl_index tq key = Some hv"
    and tq': "tq' = append_node tq time key val n hv"
  shows "linked (tl_count tq') tq'" "hp_up (times tq') (tl_count tq') (tl_count tq)" "buckets_ok (tl_count tq') tq'"
    "capacity_ok tq'" "timers tq' = (timers tq)(n \<mapsto> (time, key, val))"
proof -
  let ?c = "tl_count tq"
  have l: "linked ?c tq" and h: "hp_ok (times tq) ?c" and b: "buckets_ok ?c tq" and cap: "capacity_ok tq"
    using inv by (auto simp: tl_inv_def)
  have c': "tl_count tq' = Suc ?c" by (simp add: tq' append_node_def)
  have fresh: "n \<notin> nodes_upto ?c tq" using new nodes_dom [OF l] by auto
  have other: "snd (tl_heap tq ! i) \<noteq> n" if "i < ?c" for i
    using fresh that len unfolding nodes_upto_def by (metis image_eqI in_take_nth less_trans)
  have tk: "take (Suc ?c) (tl_heap tq') = take ?c (tl_heap tq) @ [(time, n)]"
    using len by (simp add: tq' append_node_def take_Suc_conv_app_nth)
  have kv': "kv tq' x = (if x = n then Some (key, val) else kv tq x)" for x by (simp add: kv_def tq' append_node_def)
  show l': "linked (tl_count tq') tq'"
    unfolding c' linked_def
  proof (intro conjI allI impI)
    fix i assume i: "i < Suc ?c"
    show "\<exists>nd. tl_node tq' (snd (tl_heap tq' ! i)) = Some nd \<and> heap_id nd = i"
      using i l other [of i] len by (cases "i = ?c") (auto simp: tq' append_node_def linked_def)
  qed (use len in \<open>simp add: tq' append_node_def\<close>)
  show "hp_up (times tq') (tl_count tq') ?c"
    using h len unfolding c' hp_up_def hp_ok_def
    by (auto simp: tq' append_node_def nth_list_update less_Suc_eq)
  have nodes: "nodes_upto (Suc ?c) tq' = insert n (nodes_upto ?c tq)" unfolding nodes_upto_def tk by simp
  have idx: "node_index tq' x = (if x = n then hv else node_index tq x)" for x
  proof -
    have "tl_hash_fn tq' = tl_hash_fn tq" "tl_bucket_size tq' = tl_bucket_size tq" by (simp_all add: tq' append_node_def)
    then show ?thesis using hv tl_index_ok [OF b, of key] by (simp add: node_index_def kv')
  qed
  have hvlen: "hv < length (tl_hash tq)" using hv tl_index_ok [OF b, of key] by auto
  show "buckets_ok (tl_count tq') tq'"
    unfolding c' buckets_ok_def
  proof (intro conjI allI impI)
    fix i assume i: "i < length (tl_hash tq')"
    then have i': "i < length (tl_hash tq)" by (simp add: tq' append_node_def)
    then have old: "distinct (tl_hash tq ! i)" "set (tl_hash tq ! i) = {x \<in> nodes_upto ?c tq. node_index tq x = i}"
      using b by (auto simp: buckets_ok_def)
    have eq: "tl_hash tq' ! i = (if i = hv then tl_hash tq ! hv @ [n] else tl_hash tq ! i)"
      using i' by (simp add: tq' append_node_def nth_list_update)
    show "distinct (tl_hash tq' ! i)" using old fresh eq by auto
    show "set (tl_hash tq' ! i) = {x \<in> nodes_upto (Suc ?c) tq'. node_index tq' x = i}"
      unfolding eq nodes idx using old fresh by auto
  qed (use b in \<open>auto simp: buckets_ok_def tq' append_node_def\<close>)
  show "capacity_ok tq'" using cap by (simp add: capacity_ok_def tq' append_node_def)
  show "timers tq' = (timers tq)(n \<mapsto> (time, key, val))"
  proof
    fix a
    show "timers tq' a = ((timers tq)(n \<mapsto> (time, key, val))) a"
    proof (cases "a = n")
      case True
      have "timers tq' n = Some (time, key, val)"
        unfolding timers_upto_Some [OF l'] using tk c' kv' by simp
      then show ?thesis using True by simp
    next
      case False
      have "timers tq' a = Some (t, k, v) \<longleftrightarrow> timers tq a = Some (t, k, v)" for t k v
        unfolding timers_upto_Some [OF l'] timers_upto_Some [OF l] using tk c' kv' False by simp
      then show ?thesis using False by (metis fun_upd_other not_Some_eq prod_cases3)
    qed
  qed
qed

lemma timerlist_push_spec:
  assumes inv: "tl_inv tq" and room: "tl_has_room tq" and new: "\<And>n. mem = Some n \<Longrightarrow> n \<notin> dom (timers tq)"
  shows "\<exists>tq' r. timerlist_push tq time key val ok mem = Some (tq', r) \<and> tl_inv tq' \<and>
    (if r = 0 then mem \<noteq> None \<and> timers tq' = (timers tq)(the mem \<mapsto> (time, key, val))
     else r = -1 \<and> timers tq' = timers tq) \<and> (ok \<and> mem \<noteq> None \<longrightarrow> r = 0)"
proof (cases "heap_expand tq ok")
  case None
  then have "\<not> ok" by (auto simp: heap_expand_def Let_def split: if_splits)
  then show ?thesis using None inv by (auto simp: timerlist_push_def)
next
  case (Some tq1)
  note 1 = heap_expand_spec [OF inv room Some]
  show ?thesis
  proof (cases mem)
    case None
    then show ?thesis using Some 1 by (auto simp: timerlist_push_def)
  next
    case (Some n)
    have b: "buckets_ok (tl_count tq1) tq1" using 1(1) by (simp add: tl_inv_def)
    obtain hv where hv: "tl_index tq1 key = Some hv" using tl_index_ok [OF b] by blast
    have n: "n \<notin> dom (timers tq1)" using new [OF Some] 1(2) by simp
    let ?tq = "append_node tq1 time key val n hv"
    note a = append_node_spec [OF 1(1,3) n hv refl, of time val]
    have c: "tl_count ?tq = Suc (tl_count tq1)" by (simp add: append_node_def)
    obtain tq' where tq': "adjust_up ?tq (tl_count tq1) = Some tq'" "permuted (tl_count ?tq) ?tq tq'" "linked (tl_count ?tq) tq'"
      "hp_ok (times tq') (tl_count tq')"
      using adjust_up_spec [OF a(1) order.refl _ a(2)] c by auto
    note k = permuted_keeps [OF tq'(2) a(1) tq'(3)]
    have "tl_inv tq'" using tq'(3,4) k a by (simp add: tl_inv_def)
    moreover have "timers tq' = (timers tq)(n \<mapsto> (time, key, val))" using k a(5) 1(2) by simp
    moreover have "timerlist_push tq time key val ok mem = Some (tq', 0)"
      using \<open>heap_expand tq ok = Some tq1\<close> Some hv tq'(1) 1(3)
      by (simp add: timerlist_push_def heap_at_def append_node_def)
    ultimately show ?thesis using Some by auto
  qed
qed

lemma timerlist_resched_top_spec:
  assumes inv: "tl_inv tq" and top: "timerlist_top tq = Some (Some (a, t, k, v))"
  shows "\<exists>tq'. timerlist_resched_top tq time = Some (tq', 1) \<and> tl_inv tq' \<and> timers tq' = (timers tq)(a \<mapsto> (time, k, v))"
proof -
  have c: "0 < tl_count tq" and e: "heap_at tq 0 = Some (t, a)" and kv: "kv tq a = Some (k, v)"
    using top by (auto simp: timerlist_top_def bind_eq_Some_conv kv_def split: if_splits)
  then have h: "tl_heap tq ! 0 = (t, a)" by (auto simp: heap_at_def split: if_splits)
  show ?thesis using set_time_sift(2) [OF inv c _ kv, of time] c e h by (auto simp: timerlist_resched_top_def)
qed

section \<open>The queue of timers as its users see it\<close>

text \<open>
  Taking the first timer until none is left, as the event loops do with the timers that are due. The
  outer option of \<open>peek\<close> and the option of \<open>rmv\<close> are crashes.
\<close>

fun drain :: "('q \<Rightarrow> (addr \<times> time \<times> 'k \<times> 'v) option option) \<Rightarrow> ('q \<Rightarrow> 'q option) \<Rightarrow> nat \<Rightarrow> 'q \<Rightarrow> (addr \<times> time \<times> 'k \<times> 'v) list option" where
  "drain peek rmv 0 q = (case peek q of Some None \<Rightarrow> Some [] | _ \<Rightarrow> None)"
| "drain peek rmv (Suc n) q = (case peek q of None \<Rightarrow> None | Some None \<Rightarrow> Some []
     | Some (Some e) \<Rightarrow> do { q' \<leftarrow> rmv q; es \<leftarrow> drain peek rmv n q'; Some (e # es) })"

locale timer_queue =
  fixes inv :: "'q \<Rightarrow> bool" and view :: "'q \<Rightarrow> addr \<Rightarrow> (time \<times> 'k \<times> 'v) option"
    and peek :: "'q \<Rightarrow> (addr \<times> time \<times> 'k \<times> 'v) option option" and rmv :: "'q \<Rightarrow> 'q option"
  assumes view_finite: "inv q \<Longrightarrow> finite (dom (view q))"
    and top_none: "inv q \<Longrightarrow> view q = Map.empty \<Longrightarrow> peek q = Some None"
    and top_least: "inv q \<Longrightarrow> view q \<noteq> Map.empty \<Longrightarrow> \<exists>a t k v. peek q = Some (Some (a, t, k, v)) \<and> view q a = Some (t, k, v) \<and>
      (\<forall>b t' k' v'. view q b = Some (t', k', v') \<longrightarrow> t \<le> t')"
    and pop_top: "inv q \<Longrightarrow> peek q = Some (Some (a, e)) \<Longrightarrow> \<exists>q'. rmv q = Some q' \<and> inv q' \<and> view q' = (view q)(a := None)"
begin

lemma drain_sorted:
  assumes "inv q" "card (dom (view q)) = n"
  shows "\<exists>es. drain peek rmv n q = Some es \<and> sorted (map (\<lambda>e. fst (snd e)) es) \<and> map_of es = view q \<and> length es = n"
  using assms
proof (induction n arbitrary: q)
  case 0
  then have "view q = Map.empty" using view_finite [OF 0(1)] by simp
  then show ?case using top_none [OF 0(1)] by simp
next
  case (Suc n)
  then have ne: "view q \<noteq> Map.empty" by auto
  obtain a t k v where top: "peek q = Some (Some (a, t, k, v))" "view q a = Some (t, k, v)"
    and least: "\<forall>b t' k' v'. view q b = Some (t', k', v') \<longrightarrow> t \<le> t'"
    using top_least [OF Suc.prems(1) ne] by blast
  obtain q' where q': "rmv q = Some q'" "inv q'" "view q' = (view q)(a := None)"
    using pop_top [OF Suc.prems(1) top(1)] by blast
  have "a \<in> dom (view q)" using top(2) by blast
  then have "card (dom (view q')) = n"
    using Suc.prems(2) view_finite [OF Suc.prems(1)] by (simp add: q'(3))
  then obtain es where es: "drain peek rmv n q' = Some es" "sorted (map (\<lambda>e. fst (snd e)) es)" "map_of es = view q'" "length es = n"
    using Suc.IH [OF q'(2)] by blast
  have d: "distinct (map fst es)"
  proof (rule card_distinct)
    have "set (map fst es) = dom (view q')" using es(3) by (metis dom_map_of_conv_image_fst list.set_map)
    then show "card (set (map fst es)) = length (map fst es)" using \<open>card (dom (view q')) = n\<close> es(4) by simp
  qed
  have "t \<le> t'" if "(b, t', k', v') \<in> set es" for b t' k' v'
  proof -
    have "view q' b = Some (t', k', v')" using map_of_is_SomeI [OF d that] es(3) by simp
    then have "view q b = Some (t', k', v')" using q'(3) by (simp split: if_splits)
    then show ?thesis using least by blast
  qed
  then have "sorted (map (\<lambda>e. fst (snd e)) ((a, t, k, v) # es))" using es(2) by auto
  moreover have "map_of ((a, t, k, v) # es) = view q" using es(3) q'(3) top(2) by auto
  ultimately show ?case using top(1) q'(1) es(1,4) by (intro exI [of _ "(a, t, k, v) # es"]) simp
qed

end

lemma card_timers: "tl_inv tq \<Longrightarrow> finite (dom (timers tq)) \<and> card (dom (timers tq)) = tl_count tq"
proof -
  assume inv: "tl_inv tq"
  then have l: "linked (tl_count tq) tq" by (simp add: tl_inv_def)
  have "dom (timers tq) = set (map snd (take (tl_count tq) (tl_heap tq)))"
    using nodes_dom [OF l] by (simp add: nodes_upto_def)
  moreover have "length (map snd (take (tl_count tq) (tl_heap tq))) = tl_count tq" using l by (simp add: linked_def)
  ultimately show ?thesis using distinct_card [OF linked_distinct [OF l]] by simp
qed

interpretation tlq: timer_queue tl_inv "\<lambda>tq. timers tq" timerlist_top timerlist_pop
proof
  fix q :: "('a, 'b) timerlist" assume inv: "tl_inv q"
  note t = timerlist_top_spec [OF inv] and p = timerlist_pop_spec [OF inv]
  show "finite (dom (timers q))" using card_timers [OF inv] by simp
  show "timerlist_top q = Some None" if "timers q = Map.empty"
    using t that by (metis option.distinct(1))
  show "\<exists>a ta k v. timerlist_top q = Some (Some (a, ta, k, v)) \<and> timers q a = Some (ta, k, v) \<and>
      (\<forall>b t' k' v'. timers q b = Some (t', k', v') \<longrightarrow> ta \<le> t')" if "timers q \<noteq> Map.empty"
    using t that by blast
  show "\<exists>q'. timerlist_pop q = Some q' \<and> tl_inv q' \<and> timers q' = (timers q)(a := None)"
    if "timerlist_top q = Some (Some (a, e))" for a e
  proof -
    have "a = snd (tl_heap q ! 0)" "tl_count q \<noteq> 0"
      using that by (auto simp: timerlist_top_def heap_at_def bind_eq_Some_conv split: if_splits)
    then show ?thesis using p by simp
  qed
qed

lemma timerlist_init_inv:
  assumes "buckets \<noteq> 0" "timerlist_init buckets ksize dsize fn dflt hash heap = Inl tq"
  shows "tl_inv tq" "timers tq = Map.empty" "times_ok tq" "tl_has_room tq"
proof -
  have tq: "tl_count tq = 0" "tl_bucket_size tq = buckets" "tl_hash tq = replicate (unat buckets) []" "node_capacity tq = 32"
    "length (tl_heap tq) = 32"
    using assms(2) by (auto simp: timerlist_init_def NODE_CAPACITY_INITIAL_def split: if_splits)
  show "tl_inv tq" using tq assms(1)
    by (simp add: tl_inv_def linked_def hp_ok_def buckets_ok_def capacity_ok_def nodes_upto_def)
  show "timers tq = Map.empty" using tq by (simp add: timers_upto_def fun_eq_iff)
  then show "times_ok tq" by (simp add: times_ok_def)
  show "tl_has_room tq" using tq by (simp add: tl_has_room_def)
qed

section \<open>Properties of the timer list\<close>

definition sample_tl0 :: "(u32, nat) timerlist" where
  "sample_tl0 = (case timerlist_init 4 4 8 None (\<lambda>k. k) (Some 1) (Some 2) of Inl tq \<Rightarrow> tq)"

definition sample_tl :: "(u32, nat) timerlist" where
  "sample_tl = fst (the (timerlist_push (fst (the (timerlist_push sample_tl0 50 7 70 True (Some 100)))) 20 9 90 True (Some 101)))"

lemma sample_tl0_facts: "tl_inv sample_tl0" "timers sample_tl0 = Map.empty" "tl_has_room sample_tl0"
proof -
  have "timerlist_init 4 4 8 None (\<lambda>k. k) (Some 1) (Some 2) = (Inl sample_tl0 :: _ + int)"
    by (simp add: sample_tl0_def timerlist_init_def)
  from timerlist_init_inv [OF _ this] show "tl_inv sample_tl0" "timers sample_tl0 = Map.empty" "tl_has_room sample_tl0" by simp_all
qed

lemma sample_tl_facts:
  "tl_inv sample_tl" "timers sample_tl = [100 \<mapsto> (50, 7, 70), 101 \<mapsto> (20, 9, 90)]" "times_ok sample_tl"
proof -
  obtain tq1 where 1: "timerlist_push sample_tl0 50 7 70 True (Some 100) = Some (tq1, 0)" "tl_inv tq1"
    "timers tq1 = [100 \<mapsto> (50, 7, 70)]"
    using timerlist_push_spec [OF sample_tl0_facts(1,3), of "Some 100" 50 7 70 True] sample_tl0_facts(2) by auto
  have "tl_count tq1 = 1" using card_timers [OF 1(2)] 1(3) by simp
  then have room: "tl_has_room tq1" by (cases "1 < unat (node_capacity tq1)") (simp_all add: tl_has_room_def word_less_nat_alt)
  obtain tq2 where 2: "timerlist_push tq1 20 9 90 True (Some 101) = Some (tq2, 0)" "tl_inv tq2"
    "timers tq2 = [100 \<mapsto> (50, 7, 70), 101 \<mapsto> (20, 9, 90)]"
    using timerlist_push_spec [OF 1(2) room, of "Some 101" 20 9 90 True] 1(3) by auto
  have "sample_tl = tq2" using 1(1) 2(1) by (simp add: sample_tl_def)
  then show "tl_inv sample_tl" "timers sample_tl = [100 \<mapsto> (50, 7, 70), 101 \<mapsto> (20, 9, 90)]" "times_ok sample_tl"
    using 2(2,3) by (auto simp: times_ok_def time_ok_def)
qed

text \<open>
  C13. \<open>timerlist_push\<close> never crashes while the array can grow. With memory it returns 0, and the
  timers of the list are those it had and the new one; without memory it returns -1 and the timers are
  the same. The invariant is kept: the array is a heap ordered by time, every node knows its position,
  and the buckets hold the nodes of their keys.
\<close>

theorem timerlist_push_correct:
  assumes "tl_inv tq" "tl_has_room tq" "case mem of None \<Rightarrow> True | Some n \<Rightarrow> timers tq n = None"
  shows "\<exists>tq' r. timerlist_push tq time key val ok mem = Some (tq', r) \<and> tl_inv tq' \<and>
    (if r = 0 then mem \<noteq> None \<and> timers tq' = (timers tq)(the mem \<mapsto> (time, key, val))
     else r = -1 \<and> timers tq' = timers tq) \<and> (ok \<and> mem \<noteq> None \<longrightarrow> r = 0)"
proof (rule timerlist_push_spec [OF assms(1,2)])
  show "n \<notin> dom (timers tq)" if "mem = Some n" for n using assms(3) that by auto
qed

theorem timerlist_push_correct_witness:
  "\<exists>tq'. timerlist_push sample_tl0 50 7 70 True (Some 100) = Some (tq', 0) \<and> tl_inv tq' \<and> timers tq' = [100 \<mapsto> (50, 7, 70)]"
  using timerlist_push_correct [OF sample_tl0_facts(1,3), of "Some 100" 50 7 70 True] sample_tl0_facts(2) by auto

text \<open>
  C15. Taking the first timer with \<open>timerlist_top\<close> and \<open>timerlist_pop\<close> as often as the list has timers
  never crashes and gives every timer exactly once, with its time, key and value, in the order of the
  times; then the list is empty.
\<close>

theorem timerlist_expires_in_order:
  assumes "tl_inv tq"
  shows "\<exists>es. drain timerlist_top timerlist_pop (tl_count tq) tq = Some es \<and> sorted (map (\<lambda>e. fst (snd e)) es) \<and>
    map_of es = timers tq \<and> length es = tl_count tq"
  using tlq.drain_sorted [OF assms] card_timers [OF assms] by blast

theorem timerlist_expires_in_order_witness:
  "\<exists>es. drain timerlist_top timerlist_pop (tl_count sample_tl) sample_tl = Some es \<and>
    sorted (map (\<lambda>e. fst (snd e)) es) \<and> map_of es = [100 \<mapsto> (50, 7, 70), 101 \<mapsto> (20, 9, 90)]"
  using timerlist_expires_in_order [OF sample_tl_facts(1)] sample_tl_facts(2) by auto

text \<open>
  C14. \<open>timerlist_del\<close> never crashes, removes exactly the timers with the key, returns how many these
  were, and keeps the invariant.
\<close>

theorem timerlist_del_correct:
  assumes "tl_inv tq"
  shows "\<exists>tq'. timerlist_del tq key = Some (tq', int (card {a. keyed tq key a})) \<and> tl_inv tq' \<and>
    timers tq' = (\<lambda>a. if keyed tq key a then None else timers tq a)"
  by (rule timerlist_del_spec [OF assms])

theorem timerlist_del_correct_witness:
  "\<exists>tq'. timerlist_del sample_tl 7 = Some (tq', 1) \<and> tl_inv tq' \<and> timers tq' = [101 \<mapsto> (20, 9, 90)]"
proof -
  have k: "keyed sample_tl 7 a \<longleftrightarrow> a = 100" for a by (auto simp: keyed_def sample_tl_facts(2))
  show ?thesis using timerlist_del_correct [OF sample_tl_facts(1), of 7] by (auto simp: k sample_tl_facts(2) fun_eq_iff)
qed

text \<open>
  C32. For times that are not negative, \<open>timerlist_resched\<close> never crashes, gives exactly the timers
  with the key the new time, returns how many these are, and keeps the invariant; \<open>timerlist_moveup\<close>
  does the same for the timers that would expire later.
\<close>

theorem timerlist_resched_correct:
  assumes "tl_inv tq" "times_ok tq" "time_ok time"
  shows "(\<exists>tq'. timerlist_resched tq time key = Some (tq', int (card {a. keyed tq key a})) \<and> tl_inv tq' \<and> times_ok tq' \<and>
      timers tq' = map_option (retime (\<lambda>_. time) key) \<circ> timers tq) \<and>
    (\<exists>tq' r. timerlist_moveup tq time key = Some (tq', r) \<and> tl_inv tq' \<and>
      timers tq' = map_option (retime (min time) key) \<circ> timers tq)"
  using timerlist_resched_spec [OF assms] timerlist_moveup_spec [OF assms(1)] by blast

theorem timerlist_resched_correct_witness:
  "\<exists>tq'. timerlist_resched sample_tl 10 7 = Some (tq', 1) \<and> tl_inv tq' \<and> timers tq' 100 = Some (10, 7, 70)"
proof -
  have "keyed sample_tl 7 a \<longleftrightarrow> a = 100" for a by (auto simp: keyed_def sample_tl_facts(2))
  then show ?thesis using timerlist_resched_correct [OF sample_tl_facts(1,3), of 10 7]
    by (auto simp: sample_tl_facts(2) retime_def time_ok_def)
qed

end
