(* ===== verification/Fnv.thy ===== *)
theory Fnv
  imports Prelude
begin

text \<open>
  The hash of \<^verbatim>\<open>src/common/hash_32.c\<close>, the default hash function of the hash queue and of the timer list.
  The build does not define \<^verbatim>\<open>NO_FNV_GCC_OPTIMIZATION\<close>, so the loops multiply by shifting and adding.
  A string is the memory from the pointer on; reading past it is a crash, \<open>None\<close>.
\<close>

unbundle bit_operations_syntax

definition FNV_32_PRIME :: u32 where
  "FNV_32_PRIME = 0x01000193"

definition FNV1_32_INIT :: u32 where
  "FNV1_32_INIT = 0x811c9dc5"

definition fnv_step :: "u32 \<Rightarrow> u8 \<Rightarrow> u32" where
  "fnv_step hval b =
     (let hval = hval + (push_bit 1 hval + push_bit 4 hval + push_bit 7 hval + push_bit 8 hval + push_bit 24 hval)
      in hval XOR ucast b)"

fun fnv_32_buf :: "u8 list \<Rightarrow> u32 \<Rightarrow> u32" where
  "fnv_32_buf [] hval = hval"
| "fnv_32_buf (b # bs) hval = fnv_32_buf bs (fnv_step hval b)"

fun fnv_32_str :: "u8 list \<Rightarrow> u32 \<Rightarrow> u32 option" where
  "fnv_32_str [] hval = None"
| "fnv_32_str (b # bs) hval = (if b = 0 then Some hval else fnv_32_str bs (fnv_step hval b))"

text \<open>The FNV-1 hash as it is specified: multiply by the prime modulo \<open>2\<^sup>3\<^sup>2\<close>, then xor the octet.\<close>

definition fnv1 :: "u8 list \<Rightarrow> u32 \<Rightarrow> u32" where
  "fnv1 bs hval = foldl (\<lambda>h b. (h * FNV_32_PRIME) XOR ucast b) hval bs"

lemma fnv_step_mult: "fnv_step h b = (h * FNV_32_PRIME) XOR ucast b"
proof -
  have "h + (push_bit 1 h + push_bit 4 h + push_bit 7 h + push_bit 8 h + push_bit 24 h) = h * FNV_32_PRIME"
    by (simp add: push_bit_eq_mult FNV_32_PRIME_def algebra_simps)
  then show ?thesis by (simp add: fnv_step_def)
qed

lemma fnv_32_buf_fnv1: "fnv_32_buf bs h = fnv1 bs h"
  by (induction bs arbitrary: h) (simp_all add: fnv1_def fnv_step_mult)

lemma fnv_32_str_fnv1: "0 \<notin> set bs \<Longrightarrow> fnv_32_str (bs @ 0 # rest) h = Some (fnv1 bs h)"
  by (induction bs arbitrary: h) (auto simp: fnv1_def fnv_step_mult)

lemma fnv_32_str_unterminated: "0 \<notin> set bs \<Longrightarrow> fnv_32_str bs h = None"
  by (induction bs arbitrary: h) auto

text \<open>
  The shift-and-add loops of \<open>fnv_32_buf\<close> and \<open>fnv_32_str\<close> compute the FNV-1 hash, multiplication
  by the 32-bit prime included; the string version reads up to the first zero octet and never past it.
  A buffer may be hashed in two parts.
\<close>

theorem fnv_equivalence:
  assumes "0 \<notin> set str"
  shows "fnv_32_buf bs h = fnv1 bs h \<and> fnv_32_buf (bs @ cs) h = fnv_32_buf cs (fnv_32_buf bs h) \<and>
    fnv_32_str (str @ 0 # rest) h = Some (fnv1 str h)"
  using fnv_32_str_fnv1 [OF assms] by (simp add: fnv_32_buf_fnv1) (simp add: fnv1_def)

theorem fnv_equivalence_witness:
  "fnv_32_buf [0x61, 0x62] FNV1_32_INIT = 0x70772d38 \<and> fnv_32_str [0x61, 0x62, 0, 7] FNV1_32_INIT = Some 0x70772d38"
proof -
  have "fnv1 [0x61, 0x62] FNV1_32_INIT = 0x70772d38"
    by (simp add: fnv1_def FNV1_32_INIT_def FNV_32_PRIME_def)
  then show ?thesis using fnv_equivalence [of "[0x61, 0x62]" "[0x61, 0x62]" FNV1_32_INIT "[]" "[7]"] by simp
qed

end
