(* ===== verification/WindowedFilter.thy ===== *)
theory WindowedFilter
  imports Prelude
begin

text \<open>
  The windowed filters of \<^verbatim>\<open>src/common/windowed_filter.c\<close>, which estimate the largest bandwidth and the
  smallest round trip time of a recent window from three samples. Times and values are 32-bit
  numbers; ages are differences of times and wrap around.
\<close>

record filter_sample =
  fs_t :: u32
  fs_v :: u32

record windowed_filter =
  fs0 :: filter_sample
  fs1 :: filter_sample
  fs2 :: filter_sample
  win :: u32

definition filter_init :: "u32 \<Rightarrow> windowed_filter" where
  "filter_init w = (let z = \<lparr>fs_t = 0, fs_v = 0\<rparr> in \<lparr>fs0 = z, fs1 = z, fs2 = z, win = w\<rparr>)"

definition filter_get :: "windowed_filter \<Rightarrow> u32" where
  "filter_get f = fs_v (fs0 f)"

definition filter_reset :: "windowed_filter \<Rightarrow> u32 \<Rightarrow> u32 \<Rightarrow> windowed_filter \<times> u32" where
  "filter_reset f t meas =
     (let val = \<lparr>fs_t = t, fs_v = meas\<rparr>; f1 = f\<lparr>fs2 := val, fs1 := val, fs0 := val\<rparr>
      in (f1, fs_v (fs0 f1)))"

text \<open>The step \<open>s[0] = s[1]; s[1] = s[2]; s[2] = *val\<close>.\<close>

definition filter_shift :: "windowed_filter \<Rightarrow> filter_sample \<Rightarrow> windowed_filter" where
  "filter_shift f val = f\<lparr>fs0 := fs1 f, fs1 := fs2 f, fs2 := val\<rparr>"

definition filter_update :: "windowed_filter \<Rightarrow> filter_sample \<Rightarrow> windowed_filter \<times> u32" where
  "filter_update f val =
     (let dt = fs_t val - fs_t (fs0 f);
          f1 = (if dt > win f then
                  (let f1 = filter_shift f val
                   in if fs_t val - fs_t (fs0 f1) > win f1 then filter_shift f1 val else f1)
                else if fs_t (fs1 f) = fs_t (fs0 f) \<and> dt > drop_bit 2 (win f) then f\<lparr>fs1 := val, fs2 := val\<rparr>
                else if fs_t (fs2 f) = fs_t (fs1 f) \<and> dt > drop_bit 1 (win f) then f\<lparr>fs2 := val\<rparr>
                else f)
      in (f1, fs_v (fs0 f1)))"

definition filter_update_max :: "windowed_filter \<Rightarrow> u32 \<Rightarrow> u32 \<Rightarrow> windowed_filter \<times> u32" where
  "filter_update_max f t meas =
     (let val = \<lparr>fs_t = t, fs_v = meas\<rparr> in
      if fs_v val \<ge> fs_v (fs0 f) \<or> fs_t val - fs_t (fs2 f) > win f then filter_reset f t meas
      else filter_update
        (if fs_v val \<ge> fs_v (fs1 f) then f\<lparr>fs1 := val, fs2 := val\<rparr>
         else if fs_v val \<ge> fs_v (fs2 f) then f\<lparr>fs2 := val\<rparr>
         else f) val)"

definition filter_update_min :: "windowed_filter \<Rightarrow> u32 \<Rightarrow> u32 \<Rightarrow> windowed_filter \<times> u32" where
  "filter_update_min f t meas =
     (let val = \<lparr>fs_t = t, fs_v = meas\<rparr> in
      if fs_v val \<le> fs_v (fs0 f) \<or> fs_t val - fs_t (fs2 f) > win f then filter_reset f t meas
      else filter_update
        (if fs_v val \<le> fs_v (fs1 f) then f\<lparr>fs1 := val, fs2 := val\<rparr>
         else if fs_v val \<le> fs_v (fs2 f) then f\<lparr>fs2 := val\<rparr>
         else f) val)"

section \<open>Correctness\<close>

text \<open>
  Both filters are one algorithm over an order of the values; \<open>better a b\<close> says that \<open>a\<close> is at least
  as good as \<open>b\<close>.
\<close>

definition ordered_samples :: "(u32 \<Rightarrow> u32 \<Rightarrow> bool) \<Rightarrow> windowed_filter \<Rightarrow> bool" where
  "ordered_samples better f \<longleftrightarrow> better (fs_v (fs0 f)) (fs_v (fs1 f)) \<and> better (fs_v (fs1 f)) (fs_v (fs2 f))"

definition samples :: "windowed_filter \<Rightarrow> filter_sample set" where
  "samples f = {fs0 f, fs1 f, fs2 f}"

definition sample :: "u32 \<times> u32 \<Rightarrow> filter_sample" where
  "sample m = \<lparr>fs_t = fst m, fs_v = snd m\<rparr>"

fun filter_run :: "(windowed_filter \<Rightarrow> u32 \<Rightarrow> u32 \<Rightarrow> windowed_filter \<times> u32) \<Rightarrow> windowed_filter \<Rightarrow> (u32 \<times> u32) list \<Rightarrow> windowed_filter" where
  "filter_run upd f [] = f"
| "filter_run upd f ((t, v) # ms) = filter_run upd (fst (upd f t v)) ms"

locale sample_filter =
  fixes better :: "u32 \<Rightarrow> u32 \<Rightarrow> bool" and upd :: "windowed_filter \<Rightarrow> u32 \<Rightarrow> u32 \<Rightarrow> windowed_filter \<times> u32"
  assumes better_refl: "better a a" and better_total: "better a b \<or> better b a"
    and upd_eq: "upd f t meas =
     (let val = \<lparr>fs_t = t, fs_v = meas\<rparr> in
      if better (fs_v val) (fs_v (fs0 f)) \<or> fs_t val - fs_t (fs2 f) > win f then filter_reset f t meas
      else filter_update
        (if better (fs_v val) (fs_v (fs1 f)) then f\<lparr>fs1 := val, fs2 := val\<rparr>
         else if better (fs_v val) (fs_v (fs2 f)) then f\<lparr>fs2 := val\<rparr>
         else f) val)"
begin

lemma update_result: "snd (upd f t v) = filter_get (fst (upd f t v))"
  by (simp add: upd_eq Let_def filter_reset_def filter_update_def filter_get_def)

lemma update_win: "win (fst (upd f t v)) = win f"
  by (simp add: upd_eq Let_def filter_reset_def filter_update_def filter_shift_def)

lemma filter_update_samples: "samples (fst (filter_update f val)) \<subseteq> insert val (samples f)"
  by (simp add: filter_update_def filter_shift_def samples_def Let_def)

lemma update_samples: "samples (fst (upd f t v)) \<subseteq> insert (sample (t, v)) (samples f)"
proof -
  have "samples (fst (filter_reset f t v)) \<subseteq> insert (sample (t, v)) (samples f)"
    by (simp add: filter_reset_def samples_def sample_def Let_def)
  moreover have "samples (fst (filter_update g (sample (t, v)))) \<subseteq> insert (sample (t, v)) (samples f)"
    if "samples g \<subseteq> insert (sample (t, v)) (samples f)" for g
    using filter_update_samples [of g "sample (t, v)"] that by blast
  moreover have "samples (f\<lparr>fs2 := sample (t, v)\<rparr>) \<subseteq> insert (sample (t, v)) (samples f)"
    "samples (f\<lparr>fs1 := sample (t, v), fs2 := sample (t, v)\<rparr>) \<subseteq> insert (sample (t, v)) (samples f)"
    "samples f \<subseteq> insert (sample (t, v)) (samples f)"
    by (auto simp: samples_def)
  ultimately show ?thesis by (simp add: upd_eq Let_def sample_def)
qed

lemma filter_update_best:
  assumes "ordered_samples better f" "better (fs_v (fs0 f)) v" "better (fs_v (fs1 f)) v" "better (fs_v (fs2 f)) v"
  shows "ordered_samples better (fst (filter_update f \<lparr>fs_t = t, fs_v = v\<rparr>))"
    "better (fs_v (fs0 (fst (filter_update f \<lparr>fs_t = t, fs_v = v\<rparr>)))) v"
  using assms by (simp_all add: filter_update_def filter_shift_def Let_def ordered_samples_def better_refl)

lemma update_best:
  assumes "ordered_samples better f"
  shows "ordered_samples better (fst (upd f t v)) \<and> better (fs_v (fs0 (fst (upd f t v)))) v"
proof (cases "better v (fs_v (fs0 f)) \<or> t - fs_t (fs2 f) > win f")
  case True
  then show ?thesis by (auto simp: upd_eq Let_def filter_reset_def ordered_samples_def better_refl)
next
  case False
  let ?f = "if better v (fs_v (fs1 f)) then f\<lparr>fs1 := \<lparr>fs_t = t, fs_v = v\<rparr>, fs2 := \<lparr>fs_t = t, fs_v = v\<rparr>\<rparr>
         else if better v (fs_v (fs2 f)) then f\<lparr>fs2 := \<lparr>fs_t = t, fs_v = v\<rparr>\<rparr> else f"
  have "upd f t v = filter_update ?f \<lparr>fs_t = t, fs_v = v\<rparr>" using False by (simp add: upd_eq Let_def)
  moreover have "ordered_samples better ?f" "better (fs_v (fs0 ?f)) v" "better (fs_v (fs1 ?f)) v" "better (fs_v (fs2 ?f)) v"
    using assms False better_total [of v "fs_v (fs0 f)"] better_total [of v "fs_v (fs1 f)"] better_total [of v "fs_v (fs2 f)"]
    by (auto simp: ordered_samples_def better_refl)
  ultimately show ?thesis using filter_update_best [of ?f v t] by simp
qed

lemmas update_ordered = update_best [THEN conjunct1]

lemma update_newest: "ordered_samples better f \<Longrightarrow> better (snd (upd f t v)) v"
  using update_best update_result by (simp add: filter_get_def)

lemma update_fresh: "t - fs_t (fs0 (fst (upd f t v))) \<le> win f"
  by (auto simp: upd_eq Let_def filter_reset_def filter_update_def filter_shift_def not_less)

lemma run_invariant:
  "ordered_samples better f \<Longrightarrow> ordered_samples better (filter_run upd f ms) \<and> win (filter_run upd f ms) = win f \<and>
    samples (filter_run upd f ms) \<subseteq> samples f \<union> sample ` set ms"
proof (induction ms arbitrary: f)
  case (Cons m ms)
  obtain t v where m: "m = (t, v)" by force
  note IH = Cons.IH [OF update_ordered [OF Cons.prems, of t v]]
  show ?case using IH update_samples [of f t v] update_win [of f t v] unfolding m by auto
qed simp

lemma run_append: "filter_run upd f (ms @ ns) = filter_run upd (filter_run upd f ms) ns"
  by (induction upd f ms rule: filter_run.induct) simp_all

lemma run_estimate:
  assumes "ordered_samples better f" "samples f = {sample m}" "win f = w"
  shows "let g = filter_run upd f (ms @ [(t, v)]) in
    better (filter_get g) v \<and> ordered_samples better g \<and>
    (\<exists>t' v'. (t', v') \<in> set (m # ms @ [(t, v)]) \<and> filter_get g = v' \<and> t - t' \<le> w)"
proof -
  let ?h = "filter_run upd f ms" and ?g = "filter_run upd f (ms @ [(t, v)])"
  have g: "?g = fst (upd ?h t v)" by (simp add: run_append)
  have h: "ordered_samples better ?h" "win ?h = win f" using run_invariant [OF assms(1)] by auto
  have b: "better (filter_get ?g) v" using update_newest [OF h(1), of t v] update_result g by simp
  have "samples ?g \<subseteq> sample ` set (m # ms @ [(t, v)])"
    using run_invariant [OF assms(1), of "ms @ [(t, v)]"] assms(2) by auto
  then have "fs0 ?g \<in> sample ` set (m # ms @ [(t, v)])" by (rule subsetD) (simp add: samples_def)
  then obtain m' where m': "m' \<in> set (m # ms @ [(t, v)])" "fs0 ?g = sample m'" by (rule imageE)
  have f: "t - fs_t (fs0 ?g) \<le> win f" using update_fresh [of t ?h v] h(2) g by simp
  have o: "ordered_samples better ?g" using run_invariant [OF assms(1), of "ms @ [(t, v)]"] by simp
  show ?thesis using b f m' o assms(3)
    unfolding Let_def filter_get_def by (intro conjI exI [of _ "fst m'"] exI [of _ "snd m'"]) (simp_all add: sample_def)
qed

end

interpretation max_filter: sample_filter "\<lambda>a b. b \<le> a" filter_update_max
  by unfold_locales (auto simp: filter_update_max_def)

interpretation min_filter: sample_filter "\<lambda>a b. a \<le> b" filter_update_min
  by unfold_locales (auto simp: filter_update_min_def)

text \<open>
  C22. After any measurements, \<open>filter_update_max\<close> returns at least the newest one; what it returns is
  the value of a measurement (or of the zero sample of \<open>filter_init\<close>) that is no older than the
  window, and the three samples stay in descending order. \<open>filter_update_min\<close> is the same with the order
  reversed, once the filter holds a first measurement.
\<close>

theorem filter_estimates:
  "(let g = filter_run filter_update_max (filter_init w) (ms @ [(t, v)]) in
      filter_get g \<ge> v \<and> ordered_samples (\<lambda>a b. b \<le> a) g \<and>
      (\<exists>t' v'. (t', v') \<in> set ((0, 0) # ms @ [(t, v)]) \<and> filter_get g = v' \<and> t - t' \<le> w)) \<and>
   (let g = filter_run filter_update_min (fst (filter_reset (filter_init w) t0 v0)) (ms @ [(t, v)]) in
      filter_get g \<le> v \<and> ordered_samples (\<lambda>a b. a \<le> b) g \<and>
      (\<exists>t' v'. (t', v') \<in> set ((t0, v0) # ms @ [(t, v)]) \<and> filter_get g = v' \<and> t - t' \<le> w))"
proof -
  have o1: "ordered_samples (\<lambda>a b. b \<le> a) (filter_init w)" by (simp add: filter_init_def ordered_samples_def Let_def)
  have o2: "ordered_samples (\<lambda>a b. a \<le> b) (fst (filter_reset (filter_init w) t0 v0))"
    by (simp add: filter_reset_def ordered_samples_def Let_def)
  have s: "samples (filter_init w) = {sample (0, 0)}" "win (filter_init w) = w"
    "samples (fst (filter_reset (filter_init w) t0 v0)) = {sample (t0, v0)}" "win (fst (filter_reset (filter_init w) t0 v0)) = w"
    by (simp_all add: filter_init_def filter_reset_def samples_def sample_def Let_def)
  show ?thesis
    using max_filter.run_estimate [OF o1 s(1,2), of ms t v] min_filter.run_estimate [OF o2 s(3,4), of ms t v] by (rule conjI)
qed

end
