(* ===== verification/Sha256.thy ===== *)
theory Sha256
  imports Prelude
begin

text \<open>
  SHA-256 of \<^verbatim>\<open>src/common/sha256.c\<close>, with which \<open>litedt.c\<close> computes and checks the tokens of packets. The
  context holds a buffer of 64 bytes, the number of bytes in it, the number of bits already
  compressed and the eight words of the state. \<open>None\<close> is an access outside the buffer, or a loop whose
  32-bit counter never reaches a length of \<open>2\<^sup>3\<^sup>2\<close> or more.
\<close>

unbundle bit_operations_syntax

record SHA256_CTX =
  sc_data :: "u8 list"
  sc_datalen :: u32
  sc_bitlen :: u64
  sc_state :: "u32 list"

definition ROTRIGHT :: "u32 \<Rightarrow> nat \<Rightarrow> u32" where
  "ROTRIGHT a b = (drop_bit b a OR push_bit (32 - b) a)"

definition CH :: "u32 \<Rightarrow> u32 \<Rightarrow> u32 \<Rightarrow> u32" where
  "CH x y z = ((x AND y) XOR (NOT x AND z))"

definition MAJ :: "u32 \<Rightarrow> u32 \<Rightarrow> u32 \<Rightarrow> u32" where
  "MAJ x y z = ((x AND y) XOR (x AND z) XOR (y AND z))"

definition EP0 :: "u32 \<Rightarrow> u32" where
  "EP0 x = (ROTRIGHT x 2 XOR ROTRIGHT x 13 XOR ROTRIGHT x 22)"

definition EP1 :: "u32 \<Rightarrow> u32" where
  "EP1 x = (ROTRIGHT x 6 XOR ROTRIGHT x 11 XOR ROTRIGHT x 25)"

definition SIG0 :: "u32 \<Rightarrow> u32" where
  "SIG0 x = (ROTRIGHT x 7 XOR ROTRIGHT x 18 XOR drop_bit 3 x)"

definition SIG1 :: "u32 \<Rightarrow> u32" where
  "SIG1 x = (ROTRIGHT x 17 XOR ROTRIGHT x 19 XOR drop_bit 10 x)"

definition sha256_k :: "u32 list" where
  "sha256_k = concat [
    [0x428a2f98, 0x71374491, 0xb5c0fbcf, 0xe9b5dba5, 0x3956c25b, 0x59f111f1, 0x923f82a4, 0xab1c5ed5],
    [0xd807aa98, 0x12835b01, 0x243185be, 0x550c7dc3, 0x72be5d74, 0x80deb1fe, 0x9bdc06a7, 0xc19bf174],
    [0xe49b69c1, 0xefbe4786, 0x0fc19dc6, 0x240ca1cc, 0x2de92c6f, 0x4a7484aa, 0x5cb0a9dc, 0x76f988da],
    [0x983e5152, 0xa831c66d, 0xb00327c8, 0xbf597fc7, 0xc6e00bf3, 0xd5a79147, 0x06ca6351, 0x14292967],
    [0x27b70a85, 0x2e1b2138, 0x4d2c6dfc, 0x53380d13, 0x650a7354, 0x766a0abb, 0x81c2c92e, 0x92722c85],
    [0xa2bfe8a1, 0xa81a664b, 0xc24b8b70, 0xc76c51a3, 0xd192e819, 0xd6990624, 0xf40e3585, 0x106aa070],
    [0x19a4c116, 0x1e376c08, 0x2748774c, 0x34b0bcb5, 0x391c0cb3, 0x4ed8aa4a, 0x5b9cca4f, 0x682e6ff3],
    [0x748f82ee, 0x78a5636f, 0x84c87814, 0x8cc70208, 0x90befffa, 0xa4506ceb, 0xbef9a3f7, 0xc67178f2]]"

text \<open>The message schedule: sixteen big-endian words of the block, then 48 derived ones.\<close>

definition sha256_load :: "u8 list \<Rightarrow> nat \<Rightarrow> u32" where
  "sha256_load data j =
     (push_bit 24 (ucast (data ! j)) OR push_bit 16 (ucast (data ! (j + 1))) OR
      push_bit 8 (ucast (data ! (j + 2))) OR ucast (data ! (j + 3)))"

fun sha256_extend :: "nat \<Rightarrow> nat \<Rightarrow> u32 list \<Rightarrow> u32 list" where
  "sha256_extend 0 i m = m"
| "sha256_extend (Suc left) i m =
     sha256_extend left (i + 1) (m @ [SIG1 (m ! (i - 2)) + m ! (i - 7) + SIG0 (m ! (i - 15)) + m ! (i - 16)])"

definition sha256_schedule :: "u8 list \<Rightarrow> u32 list" where
  "sha256_schedule data = sha256_extend 48 16 (map (\<lambda>i. sha256_load data (4 * i)) [0..<16])"

type_synonym sha_vars = "u32 \<times> u32 \<times> u32 \<times> u32 \<times> u32 \<times> u32 \<times> u32 \<times> u32"

definition sha256_round :: "u32 list \<Rightarrow> nat \<Rightarrow> sha_vars \<Rightarrow> sha_vars" where
  "sha256_round m i = (\<lambda>(a, b, c, d, e, f, g, h).
     let t1 = h + EP1 e + CH e f g + sha256_k ! i + m ! i; t2 = EP0 a + MAJ a b c
     in (t1 + t2, a, b, c, d + t1, e, f, g))"

fun sha256_rounds :: "u32 list \<Rightarrow> nat \<Rightarrow> nat \<Rightarrow> sha_vars \<Rightarrow> sha_vars" where
  "sha256_rounds m 0 i v = v"
| "sha256_rounds m (Suc left) i v = sha256_rounds m left (i + 1) (sha256_round m i v)"

definition sha256_compress :: "u32 list \<Rightarrow> u8 list \<Rightarrow> u32 list" where
  "sha256_compress st data =
     (case sha256_rounds (sha256_schedule data) 64 0
        (st ! 0, st ! 1, st ! 2, st ! 3, st ! 4, st ! 5, st ! 6, st ! 7) of
      (a, b, c, d, e, f, g, h) \<Rightarrow>
        [st ! 0 + a, st ! 1 + b, st ! 2 + c, st ! 3 + d, st ! 4 + e, st ! 5 + f, st ! 6 + g, st ! 7 + h])"

definition sha256_transform :: "SHA256_CTX \<Rightarrow> SHA256_CTX" where
  "sha256_transform ctx = ctx\<lparr>sc_state := sha256_compress (sc_state ctx) (sc_data ctx)\<rparr>"

definition sha256_iv :: "u32 list" where
  "sha256_iv = [0x6a09e667, 0xbb67ae85, 0x3c6ef372, 0xa54ff53a, 0x510e527f, 0x9b05688c, 0x1f83d9ab, 0x5be0cd19]"

text \<open>\<open>sha256_init\<close> leaves the buffer as it is.\<close>

definition sha256_init :: "SHA256_CTX \<Rightarrow> SHA256_CTX" where
  "sha256_init ctx = ctx\<lparr>sc_datalen := 0, sc_bitlen := 0, sc_state := sha256_iv\<rparr>"

definition sha256_put :: "SHA256_CTX \<Rightarrow> u32 \<Rightarrow> u8 \<Rightarrow> SHA256_CTX option" where
  "sha256_put ctx i b =
     (if unat i < length (sc_data ctx) then Some (ctx\<lparr>sc_data := (sc_data ctx)[unat i := b]\<rparr>) else None)"

definition sha256_update_byte :: "SHA256_CTX \<Rightarrow> u8 \<Rightarrow> SHA256_CTX option" where
  "sha256_update_byte ctx b = do {
     ctx1 \<leftarrow> sha256_put ctx (sc_datalen ctx) b;
     let ctx2 = ctx1\<lparr>sc_datalen := sc_datalen ctx1 + 1\<rparr>;
     Some (if sc_datalen ctx2 = 64 then
             (let ctx3 = sha256_transform ctx2
              in ctx3\<lparr>sc_bitlen := sc_bitlen ctx3 + 512, sc_datalen := 0\<rparr>)
           else ctx2)
   }"

fun sha256_update_loop :: "SHA256_CTX \<Rightarrow> u8 list \<Rightarrow> SHA256_CTX option" where
  "sha256_update_loop ctx [] = Some ctx"
| "sha256_update_loop ctx (b # bs) = do { ctx1 \<leftarrow> sha256_update_byte ctx b; sha256_update_loop ctx1 bs }"

definition sha256_update :: "SHA256_CTX \<Rightarrow> u8 list \<Rightarrow> SHA256_CTX option" where
  "sha256_update ctx data = (if length data < 2 ^ 32 then sha256_update_loop ctx data else None)"

text \<open>\<open>while (i < limit) ctx->data[i++] = 0x00\<close>, \<open>left\<close> steps of it.\<close>

fun sha256_zero :: "SHA256_CTX \<Rightarrow> nat \<Rightarrow> u32 \<Rightarrow> SHA256_CTX option" where
  "sha256_zero ctx 0 i = Some ctx"
| "sha256_zero ctx (Suc left) i = do { ctx1 \<leftarrow> sha256_put ctx i 0; sha256_zero ctx1 left (i + 1) }"

definition sha256_pad :: "SHA256_CTX \<Rightarrow> SHA256_CTX option" where
  "sha256_pad ctx =
     (let i = sc_datalen ctx in
      if sc_datalen ctx < 56 then do {
        ctx1 \<leftarrow> sha256_put ctx i 0x80;
        sha256_zero ctx1 (56 - unat (i + 1)) (i + 1)
      } else do {
        ctx1 \<leftarrow> sha256_put ctx i 0x80;
        ctx2 \<leftarrow> sha256_zero ctx1 (64 - unat (i + 1)) (i + 1);
        let ctx3 = sha256_transform ctx2;
        Some (ctx3\<lparr>sc_data := replicate 56 0 @ drop 56 (sc_data ctx3)\<rparr>)
      })"

definition sha256_store_len :: "SHA256_CTX \<Rightarrow> SHA256_CTX option" where
  "sha256_store_len ctx = do {
     let n = sc_bitlen ctx;
     ctx \<leftarrow> sha256_put ctx 63 (ucast n);
     ctx \<leftarrow> sha256_put ctx 62 (ucast (drop_bit 8 n));
     ctx \<leftarrow> sha256_put ctx 61 (ucast (drop_bit 16 n));
     ctx \<leftarrow> sha256_put ctx 60 (ucast (drop_bit 24 n));
     ctx \<leftarrow> sha256_put ctx 59 (ucast (drop_bit 32 n));
     ctx \<leftarrow> sha256_put ctx 58 (ucast (drop_bit 40 n));
     ctx \<leftarrow> sha256_put ctx 57 (ucast (drop_bit 48 n));
     sha256_put ctx 56 (ucast (drop_bit 56 n))
   }"

text \<open>The bytes of a word, the most significant first: the loop over \<open>hash[i + 4 * n]\<close>.\<close>

definition sha256_word_bytes :: "u32 \<Rightarrow> u8 list" where
  "sha256_word_bytes w = map (\<lambda>i. ucast (drop_bit (24 - i * 8) w AND 0xff)) [0..<4]"

definition sha256_final :: "SHA256_CTX \<Rightarrow> (SHA256_CTX \<times> u8 list) option" where
  "sha256_final ctx = do {
     ctx1 \<leftarrow> sha256_pad ctx;
     let ctx2 = ctx1\<lparr>sc_bitlen := sc_bitlen ctx1 + ucast (sc_datalen ctx1 * 8)\<rparr>;
     ctx3 \<leftarrow> sha256_store_len ctx2;
     let ctx4 = sha256_transform ctx3;
     Some (ctx4, concat (map sha256_word_bytes (take 8 (sc_state ctx4))))
   }"

section \<open>The hash of a whole message\<close>

text \<open>
  The reference: pad the message with a one bit, zeros and its length in bits to whole blocks, and
  compress the blocks in order.
\<close>

definition be64 :: "u64 \<Rightarrow> u8 list" where
  "be64 n = [ucast (drop_bit 56 n), ucast (drop_bit 48 n), ucast (drop_bit 40 n), ucast (drop_bit 32 n),
     ucast (drop_bit 24 n), ucast (drop_bit 16 n), ucast (drop_bit 8 n), ucast n]"

definition padded :: "u8 list \<Rightarrow> u8 list" where
  "padded msg = msg @ 0x80 # replicate ((119 - length msg mod 64) mod 64) 0 @ be64 (of_nat (8 * length msg))"

function absorb :: "u32 list \<Rightarrow> u8 list \<Rightarrow> u32 list" where
  "absorb st bs = (if length bs < 64 then st else absorb (sha256_compress st (take 64 bs)) (drop 64 bs))"
  by auto
termination by (relation "measure (\<lambda>(st, bs). length bs)") auto

declare absorb.simps [simp del]

definition sha256_ref :: "u8 list \<Rightarrow> u8 list" where
  "sha256_ref msg = concat (map sha256_word_bytes (absorb sha256_iv (padded msg)))"

lemma absorb_short [simp]: "length bs < 64 \<Longrightarrow> absorb st bs = st"
  by (simp add: absorb.simps)

lemma absorb_block: "length b = 64 \<Longrightarrow> absorb st (b @ bs) = absorb (sha256_compress st b) bs"
  by (subst absorb.simps) simp

lemma absorb_append: "64 dvd length xs \<Longrightarrow> absorb st (xs @ ys) = absorb (absorb st xs) ys"
proof (induction st xs rule: absorb.induct)
  case (1 st xs)
  show ?case
  proof (cases "length xs < 64")
    case True
    then have "xs = []" using 1(2) by (auto dest: dvd_imp_le)
    then show ?thesis by simp
  next
    case False
    have xs: "xs = take 64 xs @ drop 64 xs" by simp
    have "64 dvd length (drop 64 xs)" using 1(2) False by (simp add: dvd_diff_nat)
    then have "absorb (sha256_compress st (take 64 xs)) (drop 64 xs @ ys) =
      absorb (absorb (sha256_compress st (take 64 xs)) (drop 64 xs)) ys" using 1(1) False by simp
    then show ?thesis using False absorb_block [of "take 64 xs" st "drop 64 xs @ ys"] absorb_block [of "take 64 xs" st "drop 64 xs"]
      by (metis append.assoc length_take min.absorb2 not_less xs)
  qed
qed

text \<open>The context after the bytes of \<open>msg\<close>.\<close>

definition holds :: "u8 list \<Rightarrow> SHA256_CTX \<Rightarrow> bool" where
  "holds msg ctx \<longleftrightarrow> length (sc_data ctx) = 64 \<and> (\<exists>pre rest. msg = pre @ rest \<and> 64 dvd length pre \<and>
     length rest < 64 \<and> sc_datalen ctx = of_nat (length rest) \<and> take (length rest) (sc_data ctx) = rest \<and>
     sc_bitlen ctx = of_nat (8 * length pre) \<and> sc_state ctx = absorb sha256_iv pre)"

lemma unat_of_nat_small: "n < 2 ^ 32 \<Longrightarrow> unat (of_nat n :: u32) = n"
  by (simp add: unat_of_nat take_bit_eq_mod)

lemma of_nat_inj32: "a < 2 ^ 32 \<Longrightarrow> b < 2 ^ 32 \<Longrightarrow> (of_nat a :: u32) = of_nat b \<longleftrightarrow> a = b"
  by (metis unat_of_nat_small)

lemma holds_init: "length (sc_data ctx) = 64 \<Longrightarrow> holds [] (sha256_init ctx)"
  by (simp add: holds_def sha256_init_def)

lemma update_byte_holds:
  assumes "holds msg ctx"
  shows "\<exists>ctx'. sha256_update_byte ctx b = Some ctx' \<and> holds (msg @ [b]) ctx'"
proof -
  obtain pre rest where h: "length (sc_data ctx) = 64" "msg = pre @ rest" "64 dvd length pre"
     "length rest < 64" "sc_datalen ctx = of_nat (length rest)" "take (length rest) (sc_data ctx) = rest"
     "sc_bitlen ctx = of_nat (8 * length pre)" "sc_state ctx = absorb sha256_iv pre"
    using assms by (auto simp: holds_def)
  have i: "unat (sc_datalen ctx) = length rest" using h(4,5) by (simp add: unat_of_nat_small)
  let ?d = "(sc_data ctx)[length rest := b]"
  have d: "take (Suc (length rest)) ?d = rest @ [b]"
    using h(1,4,6) by (simp add: take_Suc_conv_app_nth)
  have n: "sc_datalen ctx + 1 = of_nat (Suc (length rest))" using h(5) by simp
  have n64: "sc_datalen ctx + 1 = 64 \<longleftrightarrow> Suc (length rest) = 64"
    unfolding n using of_nat_inj32 [of "Suc (length rest)" 64] h(4) by simp
  show ?thesis
  proof (cases "Suc (length rest) = 64")
    case False
    have "holds (msg @ [b]) (ctx\<lparr>sc_data := ?d, sc_datalen := sc_datalen ctx + 1\<rparr>)"
      unfolding holds_def using h d n False by (intro conjI exI [of _ pre] exI [of _ "rest @ [b]"]) simp_all
    then show ?thesis using False n64 h(1,4) i by (simp add: sha256_update_byte_def sha256_put_def Let_def)
  next
    case True
    have "?d = rest @ [b]" using d True h(1) by simp
    then have "absorb sha256_iv (pre @ rest @ [b]) = sha256_compress (sc_state ctx) ?d"
      using absorb_append [OF h(3), of sha256_iv "rest @ [b]"] absorb_block [of "rest @ [b]" _ "[]"] True h(8) by simp
    then have "holds (msg @ [b]) (ctx\<lparr>sc_data := ?d, sc_state := sha256_compress (sc_state ctx) ?d,
       sc_bitlen := sc_bitlen ctx + 512, sc_datalen := 0\<rparr>)"
      unfolding holds_def using h True by (intro conjI exI [of _ "pre @ rest @ [b]"] exI [of _ "[]"]) (simp_all add: algebra_simps)
    then show ?thesis using True n64 h(1,4) i
      by (simp add: sha256_update_byte_def sha256_put_def sha256_transform_def Let_def)
  qed
qed

lemma update_loop_holds:
  "holds msg ctx \<Longrightarrow> \<exists>ctx'. sha256_update_loop ctx bs = Some ctx' \<and> holds (msg @ bs) ctx'"
proof (induction bs arbitrary: msg ctx)
  case (Cons b bs)
  obtain ctx1 where 1: "sha256_update_byte ctx b = Some ctx1" "holds (msg @ [b]) ctx1"
    using update_byte_holds [OF Cons.prems] by blast
  show ?case using Cons.IH [OF 1(2)] 1(1) by simp
qed simp

lemma zero_spec:
  "unat i + n \<le> length (sc_data ctx) \<Longrightarrow> length (sc_data ctx) < 2 ^ 32 \<Longrightarrow> sha256_zero ctx n i =
    Some (ctx\<lparr>sc_data := take (unat i) (sc_data ctx) @ replicate n 0 @ drop (unat i + n) (sc_data ctx)\<rparr>)"
proof (induction n arbitrary: ctx i)
  case (Suc n)
  let ?ctx = "ctx\<lparr>sc_data := (sc_data ctx)[unat i := 0]\<rparr>"
  have i: "unat i < length (sc_data ctx)" using Suc.prems(1) by simp
  have i1: "unat (i + 1) = Suc (unat i)" using Suc.prems by (simp add: unat_word_ariths)
  have "sha256_zero ?ctx n (i + 1) = Some (?ctx\<lparr>sc_data := take (unat (i + 1)) (sc_data ?ctx) @ replicate n 0 @
      drop (unat (i + 1) + n) (sc_data ?ctx)\<rparr>)"
    using Suc.prems by (intro Suc.IH) (simp_all add: i1)
  moreover have "take (Suc (unat i)) ((sc_data ctx)[unat i := 0]) = take (unat i) (sc_data ctx) @ [0]"
    using i by (simp add: take_Suc_conv_app_nth)
  ultimately show ?case using i by (simp add: sha256_put_def i1)
qed simp

lemma store_len_spec:
  assumes "length (sc_data ctx) = 64"
  shows "sha256_store_len ctx = Some (ctx\<lparr>sc_data := take 56 (sc_data ctx) @ be64 (sc_bitlen ctx)\<rparr>)"
proof -
  have "(xs[63 := a, 62 := b, 61 := c, 60 := d, 59 := e, 58 := f, 57 := g, 56 := h]) = take 56 xs @ [h, g, f, e, d, c, b, a]"
    if "length xs = 64" for xs :: "u8 list" and a b c d e f g h
    using that by (intro nth_equalityI) (auto simp: nth_list_update nth_append nth_Cons split: nat.splits)
  then show ?thesis using assms by (simp add: sha256_store_len_def sha256_put_def be64_def Let_def)
qed

text \<open>The buffer with the last block, after the padding.\<close>

lemma pad_holds:
  assumes "holds msg ctx"
  shows "\<exists>pre last ctx'. sha256_pad ctx = Some ctx' \<and> length (sc_data ctx') = 64 \<and> 64 dvd length pre \<and> length last = 56 \<and>
    take 56 (sc_data ctx') = last \<and> padded msg = pre @ last @ be64 (of_nat (8 * length msg)) \<and>
    sc_state ctx' = absorb sha256_iv pre \<and> sc_bitlen ctx' + ucast (sc_datalen ctx' * 8) = of_nat (8 * length msg)"
proof -
  obtain pre rest where h: "length (sc_data ctx) = 64" "msg = pre @ rest" "64 dvd length pre"
     "length rest < 64" "sc_datalen ctx = of_nat (length rest)" "take (length rest) (sc_data ctx) = rest"
     "sc_bitlen ctx = of_nat (8 * length pre)" "sc_state ctx = absorb sha256_iv pre"
    using assms by (auto simp: holds_def)
  let ?n = "length rest"
  have i: "unat (sc_datalen ctx) = ?n" using h(4,5) by (simp add: unat_of_nat_small)
  have i1: "unat (sc_datalen ctx + 1) = Suc ?n" using i h(4) by (simp add: unat_word_ariths)
  have lm: "length msg mod 64 = ?n" using h(2,3,4) by (auto elim!: dvdE)
  have len: "sc_bitlen ctx + ucast (sc_datalen ctx * 8) = of_nat (8 * length msg)"
  proof -
    have "sc_datalen ctx * 8 = of_nat (8 * ?n)" using h(5) by simp
    then have "unat (sc_datalen ctx * 8) = 8 * ?n" using h(4) unat_of_nat_small [of "8 * ?n"] by simp
    then have "(ucast (sc_datalen ctx * 8) :: u64) = of_nat (8 * ?n)" by (metis of_nat_unat)
    then show ?thesis using h(2,7) by (simp add: algebra_simps)
  qed
  have put: "sha256_put ctx (sc_datalen ctx) 0x80 = Some (ctx\<lparr>sc_data := (sc_data ctx)[?n := 0x80]\<rparr>)"
    using i h(1,4) by (simp add: sha256_put_def)
  have tk: "take (Suc ?n) ((sc_data ctx)[?n := 0x80]) = rest @ [0x80]" using h(1,4,6) by (simp add: take_Suc_conv_app_nth)
  show ?thesis
  proof (cases "?n < 56")
    case True
    then have lt: "sc_datalen ctx < 56" using i by (simp add: word_less_nat_alt)
    let ?last = "rest @ 0x80 # replicate (55 - ?n) 0"
    have z: "sha256_pad ctx = Some (ctx\<lparr>sc_data := ?last @ drop 56 (sc_data ctx)\<rparr>)"
      using lt put True h(1) by (simp add: sha256_pad_def zero_spec i1 tk Let_def)
    have m: "(119 - ?n) mod 64 = 55 - ?n" using True by (simp add: le_mod_geq)
    have "padded msg = pre @ ?last @ be64 (of_nat (8 * length msg))" unfolding padded_def lm m using h(2) by simp
    moreover have l56: "length ?last = 56" using True by simp
    moreover have "take 56 (?last @ drop 56 (sc_data ctx)) = ?last"
      using l56 by (metis append_eq_conv_conj)
    ultimately show ?thesis using z h(1,3,8) len
      by (intro exI [of _ pre] exI [of _ ?last] exI conjI) (assumption | simp)+
  next
    case False
    then have lt: "\<not> sc_datalen ctx < 56" using i by (simp add: word_less_nat_alt)
    let ?blk = "rest @ 0x80 # replicate (63 - ?n) 0"
    have z: "sha256_pad ctx = Some (ctx\<lparr>sc_data := replicate 56 0 @ drop 56 ?blk, sc_state := sha256_compress (sc_state ctx) ?blk\<rparr>)"
      using lt put False h(1,4) by (simp add: sha256_pad_def zero_spec i1 tk sha256_transform_def Let_def)
    have m: "(119 - ?n) mod 64 = (63 - ?n) + 56" using False h(4) by (simp add: le_mod_geq)
    have "padded msg = (pre @ ?blk) @ replicate 56 0 @ be64 (of_nat (8 * length msg))"
      unfolding padded_def lm m replicate_add using h(2) by simp
    moreover have "absorb sha256_iv (pre @ ?blk) = sha256_compress (sc_state ctx) ?blk"
      using absorb_append [OF h(3), of sha256_iv ?blk] absorb_block [of ?blk _ "[]"] h(4,8) by simp
    moreover have "64 dvd length (pre @ ?blk)" using h(3,4) by simp
    ultimately show ?thesis using z h(1,4) len
      by (intro exI [of _ "pre @ ?blk"] exI [of _ "replicate 56 0"] exI conjI) (assumption | simp)+
  qed
qed

lemma final_holds:
  assumes "holds msg ctx" shows "\<exists>ctx'. sha256_final ctx = Some (ctx', sha256_ref msg)"
proof -
  obtain ctx1 pre lst where p: "sha256_pad ctx = Some ctx1" "length (sc_data ctx1) = 64" "64 dvd length pre" "length lst = 56"
    "take 56 (sc_data ctx1) = lst" "padded msg = pre @ lst @ be64 (of_nat (8 * length msg))"
    "sc_state ctx1 = absorb sha256_iv pre" "sc_bitlen ctx1 + ucast (sc_datalen ctx1 * 8) = of_nat (8 * length msg)"
    using pad_holds [OF assms] by blast
  let ?b = "lst @ be64 (of_nat (8 * length msg))"
  have "absorb sha256_iv (padded msg) = sha256_compress (sc_state ctx1) ?b"
    unfolding p(6) using absorb_append [OF p(3), of sha256_iv ?b] absorb_block [of ?b _ "[]"] p(4,7) by (simp add: be64_def)
  moreover have "length (sha256_compress st b) = 8" for st b by (simp add: sha256_compress_def split: prod.splits)
  ultimately show ?thesis
    using p(1,2,5) store_len_spec [of "ctx1\<lparr>sc_bitlen := sc_bitlen ctx1 + ucast (sc_datalen ctx1 * 8)\<rparr>"] p(8)
    by (simp add: sha256_final_def sha256_transform_def sha256_ref_def Let_def)
qed

fun sha256_updates :: "SHA256_CTX \<Rightarrow> u8 list list \<Rightarrow> SHA256_CTX option" where
  "sha256_updates ctx [] = Some ctx"
| "sha256_updates ctx (d # ds) = do { ctx1 \<leftarrow> sha256_update ctx d; sha256_updates ctx1 ds }"

lemma updates_holds:
  "holds msg ctx \<Longrightarrow> \<forall>d \<in> set ds. length d < 2 ^ 32 \<Longrightarrow> \<exists>ctx'. sha256_updates ctx ds = Some ctx' \<and> holds (msg @ concat ds) ctx'"
proof (induction ds arbitrary: msg ctx)
  case (Cons d ds)
  obtain ctx1 where 1: "sha256_update ctx d = Some ctx1" "holds (msg @ d) ctx1"
    using update_loop_holds [OF Cons.prems(1), of d] Cons.prems(2) by (auto simp: sha256_update_def)
  show ?case using Cons.IH [OF 1(2)] 1(1) Cons.prems(2) by simp
qed simp

text \<open>
  C16. Feeding a message to SHA-256 in any pieces, each shorter than \<open>2\<^sup>3\<^sup>2\<close> bytes, and
  finishing never leaves the buffer and gives the hash of the whole message: its blocks, padded with a one bit,
  zeros and the length in bits modulo \<open>2\<^sup>6\<^sup>4\<close>, compressed in order.
\<close>

theorem sha256_streaming:
  assumes "length (sc_data ctx) = 64" "\<forall>d \<in> set ds. length d < 2 ^ 32"
  shows "\<exists>ctx1 ctx2. sha256_updates (sha256_init ctx) ds = Some ctx1 \<and> sha256_final ctx1 = Some (ctx2, sha256_ref (concat ds))"
  using updates_holds [OF holds_init [OF assms(1)] assms(2)] final_holds by fastforce

definition sample_ctx :: SHA256_CTX where
  "sample_ctx = \<lparr>sc_data = replicate 64 7, sc_datalen = 9, sc_bitlen = 3, sc_state = []\<rparr>"

text \<open>The test vector of the standard, for the message \<open>abc\<close>.\<close>

lemma sha256_abc: "sha256_ref [0x61, 0x62, 0x63] =
  [0xba, 0x78, 0x16, 0xbf, 0x8f, 0x01, 0xcf, 0xea, 0x41, 0x41, 0x40, 0xde, 0x5d, 0xae, 0x22, 0x23,
   0xb0, 0x03, 0x61, 0xa3, 0x96, 0x17, 0x7a, 0x9c, 0xb4, 0x10, 0xff, 0x61, 0xf2, 0x00, 0x15, 0xad]"
  by code_simp

theorem sha256_streaming_witness:
  "\<exists>ctx1 ctx2. sha256_updates (sha256_init sample_ctx) [[0x61], [], [0x62, 0x63]] = Some ctx1 \<and>
     sha256_final ctx1 = Some (ctx2,
       [0xba, 0x78, 0x16, 0xbf, 0x8f, 0x01, 0xcf, 0xea, 0x41, 0x41, 0x40, 0xde, 0x5d, 0xae, 0x22, 0x23,
        0xb0, 0x03, 0x61, 0xa3, 0x96, 0x17, 0x7a, 0x9c, 0xb4, 0x10, 0xff, 0x61, 0xf2, 0x00, 0x15, 0xad])"
proof -
  have "concat [[0x61], [], [0x62, 0x63]] = [0x61, 0x62, 0x63 :: u8]" by simp
  then show ?thesis
    using sha256_streaming [of sample_ctx "[[0x61], [], [0x62, 0x63]]"] unfolding sha256_abc [symmetric] by (simp add: sample_ctx_def)
qed

end
