(* ===== verification/RBuffer.thy ===== *)
theory RBuffer
  imports Seq TreeMap
begin

text \<open>
  The receive and send buffer of \<^verbatim>\<open>src/common/rbuffer.c\<close>: a ring of blocks of 128 KiB that holds the bytes of a
  window of stream positions, and a tree map from the start to the end of every range of positions
  that has been written. Positions are 32-bit numbers and wrap around. The memory for a new node of
  the tree map is the argument \<open>mem\<close>; \<open>balloc\<close> gives the memory of a new block by its number, with
  arbitrary contents, or \<open>None\<close>. A result \<open>None\<close> is a crash: a null block, an access outside an
  array, or a failed \<open>assert\<close>.
\<close>

unbundle bit_operations_syntax

definition RBUF_BLOCK_BIT :: nat where
  "RBUF_BLOCK_BIT = 17"

definition RBUF_BLOCK_SIZE :: u32 where
  "RBUF_BLOCK_SIZE = push_bit RBUF_BLOCK_BIT 1"

definition RBUF_BLOCK_MASK :: u32 where
  "RBUF_BLOCK_MASK = RBUF_BLOCK_SIZE - 1"

definition RBUF_OUT_OF_RANGE :: int where
  "RBUF_OUT_OF_RANGE = -100"

record rbuf =
  start_pos :: u32
  rb_write_pos :: u32
  start_block :: u32
  blocks_count :: u32
  range_map :: "(u32, u32) treemap"
  blocks :: "u8 list option list"

definition get_block_id :: "rbuf \<Rightarrow> u32 \<Rightarrow> u32" where
  "get_block_id rb pos =
     (let block_dist = (pos AND NOT RBUF_BLOCK_MASK) - (start_pos rb AND NOT RBUF_BLOCK_MASK);
          bid = start_block rb + drop_bit RBUF_BLOCK_BIT block_dist
      in if bid \<ge> blocks_count rb then bid - blocks_count rb else bid)"

text \<open>\<open>ok\<close> is whether the array of block pointers could be allocated.\<close>

definition rbuf_init :: "u32 \<Rightarrow> bool \<Rightarrow> rbuf \<times> int" where
  "rbuf_init blk_cnt ok =
     (\<lparr>start_pos = 0, rb_write_pos = 0, start_block = 0, blocks_count = blk_cnt,
       range_map = treemap_init 4 4 seq_cmp, blocks = (if ok then replicate (unat blk_cnt) None else [])\<rparr>,
      if ok then 0 else -1)"

definition window_size :: "rbuf \<Rightarrow> u32" where
  "window_size rb = RBUF_BLOCK_SIZE * blocks_count rb - (start_pos rb AND RBUF_BLOCK_MASK)"

text \<open>
  The merge of the ranges after the one at \<open>it\<close> that it now reaches, and the copy of the data into the
  blocks. The second test of \<open>block_id\<close> against \<open>blocks_count\<close> is the source's.
\<close>

partial_function (option) merge_ranges :: "(u32, u32) treemap \<Rightarrow> addr \<Rightarrow> (u32, u32) treemap option" where
  "merge_ranges tm it = do {
     pend \<leftarrow> treemap_value tm it;
     nx \<leftarrow> treemap_next tm it;
     case nx of None \<Rightarrow> Some tm
     | Some nxt \<Rightarrow> do {
         nstart \<leftarrow> treemap_key tm nxt;
         nend \<leftarrow> treemap_value tm nxt;
         if LESS_EQUAL nstart pend then do {
           let tm1 = (if LESS_EQUAL pend nend then treemap_set_value tm it nend else tm);
           (tm2, ret) \<leftarrow> treemap_delete tm1 nstart;
           merge_ranges tm2 it
         } else Some tm
       }
   }"

definition block_of :: "rbuf \<Rightarrow> u32 \<Rightarrow> u32" where
  "block_of rb pos =
     (let block_id = get_block_id rb pos
      in if block_id \<ge> blocks_count rb then block_id - blocks_count rb else block_id)"

definition chunk_size :: "u32 \<Rightarrow> u32 \<Rightarrow> u32" where
  "chunk_size pos data_len =
     (let offset = pos AND RBUF_BLOCK_MASK
      in if data_len \<ge> RBUF_BLOCK_SIZE - offset then RBUF_BLOCK_SIZE - offset else data_len)"

definition overwrite :: "'a list \<Rightarrow> nat \<Rightarrow> 'a list \<Rightarrow> 'a list option" where
  "overwrite xs i ys =
     (if i + length ys \<le> length xs then Some (take i xs @ ys @ drop (i + length ys) xs) else None)"

definition slice :: "'a list \<Rightarrow> nat \<Rightarrow> nat \<Rightarrow> 'a list option" where
  "slice xs i n = (if i + n \<le> length xs then Some (take n (drop i xs)) else None)"

lemma block_mask_less: "unat (pos AND RBUF_BLOCK_MASK) < 2 ^ 17"
proof -
  have "pos AND RBUF_BLOCK_MASK = take_bit 17 pos"
    by (simp add: RBUF_BLOCK_MASK_def RBUF_BLOCK_SIZE_def RBUF_BLOCK_BIT_def take_bit_eq_mask mask_eq_exp_minus_1 push_bit_eq_mult)
  then show ?thesis by (simp only: unsigned_take_bit_eq) (simp add: take_bit_eq_mod)
qed

lemma block_size_unat: "unat RBUF_BLOCK_SIZE = 2 ^ 17"
  by (simp add: RBUF_BLOCK_SIZE_def RBUF_BLOCK_BIT_def push_bit_eq_mult)

lemma block_rest_unat: "unat (RBUF_BLOCK_SIZE - (pos AND RBUF_BLOCK_MASK)) = 2 ^ 17 - unat (pos AND RBUF_BLOCK_MASK)"
  using block_mask_less [of pos] block_size_unat by (simp add: unat_sub_if')

lemma chunk_size_unat: "unat (chunk_size pos n) = min (unat n) (2 ^ 17 - unat (pos AND RBUF_BLOCK_MASK))"
  using block_rest_unat [of pos] by (auto simp: chunk_size_def Let_def word_le_nat_alt)

lemma chunk_decreases: "0 < data_len \<Longrightarrow> unat (data_len - chunk_size pos data_len) < unat data_len"
  using chunk_size_unat [of pos data_len] block_mask_less [of pos] by (simp add: unat_sub_if' word_less_nat_alt)

function copy_to_blocks :: "rbuf \<Rightarrow> (u32 \<Rightarrow> u8 list option) \<Rightarrow> u32 \<Rightarrow> u8 list \<Rightarrow> u32 \<Rightarrow> (rbuf \<times> bool) option" where
  "copy_to_blocks rb balloc pos data data_len =
     (if data_len > 0 then do {
        let copy_size = chunk_size pos data_len;
        let offset = pos AND RBUF_BLOCK_MASK;
        let block_id = block_of rb pos;
        (if unat block_id < length (blocks rb) then Some () else None);
        (case (case blocks rb ! unat block_id of None \<Rightarrow> balloc block_id | Some b \<Rightarrow> Some b) of
           None \<Rightarrow> Some (rb, False)
         | Some block \<Rightarrow> do {
             src \<leftarrow> slice data 0 (unat copy_size);
             block1 \<leftarrow> overwrite block (unat offset) src;
             copy_to_blocks (rb\<lparr>blocks := (blocks rb)[unat block_id := Some block1]\<rparr>) balloc (pos + copy_size)
               (drop (unat copy_size) data) (data_len - copy_size)
           })
      } else Some (rb, True))"
  by pat_completeness auto
termination by (relation "measure (\<lambda>(rb, balloc, pos, data, data_len). unat data_len)") (auto simp: chunk_decreases)

declare copy_to_blocks.simps [simp del]

text \<open>
  The entry of the range map that takes the new range: \<open>Inl\<close> when the data is a duplicate, else the
  map, the return code and the address of the entry.
\<close>

definition rbuf_enter_range ::
  "(u32, u32) treemap \<Rightarrow> u32 \<Rightarrow> u32 \<Rightarrow> pointer \<Rightarrow> (unit + (u32, u32) treemap \<times> int \<times> pointer) option" where
  "rbuf_enter_range tm pos end mem = do {
     let ub = treemap_upper_bound tm pos;
     it \<leftarrow> (case ub of None \<Rightarrow> Some (treemap_last tm) | Some a \<Rightarrow> treemap_prev tm a);
     let insert = do { (tm1, ret, at) \<leftarrow> treemap_insert2 tm pos end mem;
                       Some (Inr (tm1, ret, case at of None \<Rightarrow> it | Some p \<Rightarrow> p)) };
     case it of
       Some i \<Rightarrow> do {
         rstart \<leftarrow> treemap_key tm i;
         rend \<leftarrow> treemap_value tm i;
         if LESS_EQUAL end rend then Some (Inl ())
         else if LESS_EQUAL rstart pos \<and> LESS_EQUAL pos rend
         then Some (Inr (treemap_set_value tm i end, 0, it))
         else insert
       }
     | None \<Rightarrow> insert
   }"

definition rbuf_write ::
  "rbuf \<Rightarrow> u32 \<Rightarrow> u8 list \<Rightarrow> u32 \<Rightarrow> pointer \<Rightarrow> (u32 \<Rightarrow> u8 list option) \<Rightarrow> (rbuf \<times> int) option" where
  "rbuf_write rb pos data data_len mem balloc =
     (let end = pos + data_len; max_size = window_size rb in
      if data_len > max_size then Some (rb, RBUF_OUT_OF_RANGE)
      else if pos - start_pos rb > max_size \<or> end - start_pos rb > max_size then Some (rb, RBUF_OUT_OF_RANGE)
      else do {
        r \<leftarrow> rbuf_enter_range (range_map rb) pos end mem;
        case r of
          Inl _ \<Rightarrow> Some (rb, 1)
        | Inr (tm, ret, it) \<Rightarrow>
            if ret = -1 then Some (rb\<lparr>range_map := tm\<rparr>, -1)
            else do {
              i \<leftarrow> it;
              tm1 \<leftarrow> merge_ranges tm i;
              (rb1, ok) \<leftarrow> copy_to_blocks (rb\<lparr>range_map := tm1\<rparr>) balloc pos data data_len;
              Some (rb1, if ok then ret else -1)
            }
      })"

function rbuf_read :: "rbuf \<Rightarrow> u32 \<Rightarrow> u32 \<Rightarrow> u8 list option" where
  "rbuf_read rb pos data_len =
     (if data_len > 0 then do {
        let copy_size = chunk_size pos data_len;
        let offset = pos AND RBUF_BLOCK_MASK;
        let block_id = block_of rb pos;
        (if unat block_id < length (blocks rb) then Some () else None);
        block \<leftarrow> blocks rb ! unat block_id;
        part \<leftarrow> slice block (unat offset) (unat copy_size);
        rest \<leftarrow> rbuf_read rb (pos + copy_size) (data_len - copy_size);
        Some (part @ rest)
      } else Some [])"
  by pat_completeness auto
termination by (relation "measure (\<lambda>(rb, pos, data_len). unat data_len)") (auto simp: chunk_decreases)

declare rbuf_read.simps [simp del]

definition rbuf_window_info :: "rbuf \<Rightarrow> u32 \<times> u32" where
  "rbuf_window_info rb = (start_pos rb, window_size rb)"

text \<open>\<open>treemap_first\<close> may store the first node in the map.\<close>

definition rbuf_readable_bytes :: "rbuf \<Rightarrow> (rbuf \<times> u32) option" where
  "rbuf_readable_bytes rb =
     (case treemap_first (range_map rb) of
        (tm, None) \<Rightarrow> Some (rb\<lparr>range_map := tm\<rparr>, 0)
      | (tm, Some a) \<Rightarrow> do {
          fstart \<leftarrow> treemap_key tm a;
          if start_pos rb \<noteq> fstart then Some (rb\<lparr>range_map := tm\<rparr>, 0)
          else do { fend \<leftarrow> treemap_value tm a; Some (rb\<lparr>range_map := tm\<rparr>, fend - fstart) }
        })"

definition rbuf_writable_bytes :: "rbuf \<Rightarrow> u32" where
  "rbuf_writable_bytes rb = window_size rb - (rb_write_pos rb - start_pos rb)"

definition rbuf_write_front ::
  "rbuf \<Rightarrow> u8 list \<Rightarrow> u32 \<Rightarrow> pointer \<Rightarrow> (u32 \<Rightarrow> u8 list option) \<Rightarrow> (rbuf \<times> int) option" where
  "rbuf_write_front rb data data_size mem balloc =
     (if rbuf_writable_bytes rb < data_size then Some (rb, -1)
      else do {
        (rb1, ret) \<leftarrow> rbuf_write rb (rb_write_pos rb) data data_size mem balloc;
        Some (if ret \<ge> 0 then rb1\<lparr>rb_write_pos := rb_write_pos rb1 + data_size\<rparr> else rb1, ret)
      })"

definition rbuf_read_front :: "rbuf \<Rightarrow> u32 \<Rightarrow> (rbuf \<times> u8 list) option" where
  "rbuf_read_front rb data_size = do {
     (rb1, readable) \<leftarrow> rbuf_readable_bytes rb;
     let read_len = (if data_size > readable then readable else data_size);
     data \<leftarrow> rbuf_read rb1 (start_pos rb1) read_len;
     Some (rb1, data)
   }"

definition rbuf_write_pos :: "rbuf \<Rightarrow> u32" where
  "rbuf_write_pos rb = rb_write_pos rb"

definition rbuf_range_map :: "rbuf \<Rightarrow> (u32, u32) treemap" where
  "rbuf_range_map rb = range_map rb"

function release_blocks :: "rbuf \<Rightarrow> u32 \<Rightarrow> rbuf option" where
  "release_blocks rb r_size =
     (if r_size > 0 then
        (if unat (start_block rb) < length (blocks rb) then
           (let rest = RBUF_BLOCK_SIZE - (start_pos rb AND RBUF_BLOCK_MASK) in
            if rest \<le> r_size then
              release_blocks (rb\<lparr>blocks := (blocks rb)[unat (start_block rb) := None],
                start_block := (if start_block rb + 1 < blocks_count rb then start_block rb + 1 else 0),
                start_pos := start_pos rb + rest\<rparr>) (r_size - rest)
            else Some (rb\<lparr>start_pos := start_pos rb + r_size\<rparr>))
         else None)
      else Some rb)"
  by pat_completeness auto
termination
  using block_rest_unat block_mask_less
  by (relation "measure (\<lambda>(rb, r_size). unat r_size)") (auto simp: word_le_nat_alt unat_sub_if' word_less_nat_alt)

declare release_blocks.simps [simp del]

definition rbuf_release :: "rbuf \<Rightarrow> u32 \<Rightarrow> pointer \<Rightarrow> rbuf option" where
  "rbuf_release rb r_size mem = do {
     (rb1, readable) \<leftarrow> rbuf_readable_bytes rb;
     (if r_size \<le> readable then Some () else None);
     tm \<leftarrow> (if r_size = readable then do {
              (tm1, ret) \<leftarrow> treemap_delete (range_map rb1) (start_pos rb1);
              Some tm1
            } else do {
              let (tm1, first) = treemap_first (range_map rb1);
              a \<leftarrow> first;
              end \<leftarrow> treemap_value tm1 a;
              (tm2, ret) \<leftarrow> treemap_delete tm1 (start_pos rb1);
              (tm3, ret) \<leftarrow> treemap_insert tm2 (start_pos rb1 + r_size) end mem;
              (if ret = 0 then Some () else None);
              Some tm3
            });
     release_blocks (rb1\<lparr>range_map := tm\<rparr>) r_size
   }"

text \<open>The blocks that \<open>rbuf_fini\<close> frees, by number, and the nodes of the range map that it frees.\<close>

definition rbuf_fini :: "rbuf \<Rightarrow> rbuf \<times> nat list \<times> addr list" where
  "rbuf_fini rb =
     (let freed = filter (\<lambda>i. blocks rb ! i \<noteq> None) [0..<unat (blocks_count rb)];
          (tm, nodes) = treemap_fini (range_map rb)
      in (rb\<lparr>blocks := [], range_map := tm\<rparr>, freed, nodes))"

end
