(* ===== verification/RBufferCorrect.thy ===== *)
theory RBufferCorrect
  imports RBuffer TreeMapProps
begin

text \<open>
  The bytes of a receive buffer: where a position of the window lies in the ring of blocks, and that
  what is written is what is read.
\<close>

section \<open>Positions\<close>

text \<open>The number of the byte of a position, counted from the beginning of the first block of the window.\<close>

definition lin :: "rbuf \<Rightarrow> u32 \<Rightarrow> nat" where
  "lin rb p = unat (start_pos rb) mod 131072 + unat (p - start_pos rb)"

definition rb_size :: "rbuf \<Rightarrow> nat" where
  "rb_size rb = unat (blocks_count rb) * 131072"

definition rbuf_ok :: "rbuf \<Rightarrow> bool" where
  "rbuf_ok rb \<longleftrightarrow> 0 < unat (blocks_count rb) \<and> unat (blocks_count rb) \<le> 16383 \<and> start_block rb < blocks_count rb \<and>
     length (blocks rb) = unat (blocks_count rb) \<and> (\<forall>b. Some b \<in> set (blocks rb) \<longrightarrow> length b = 131072)"

definition wrap :: "rbuf \<Rightarrow> nat \<Rightarrow> nat" where
  "wrap rb k = (if unat (blocks_count rb) \<le> unat (start_block rb) + k
     then unat (start_block rb) + k - unat (blocks_count rb) else unat (start_block rb) + k)"

definition get_byte :: "rbuf \<Rightarrow> u32 \<Rightarrow> u8 option" where
  "get_byte rb p = (case blocks rb ! wrap rb (lin rb p div 131072) of
     None \<Rightarrow> None | Some b \<Rightarrow> Some (b ! (lin rb p mod 131072)))"

lemma mask_unat: "unat (p AND RBUF_BLOCK_MASK) = unat p mod 131072"
proof -
  have "p AND RBUF_BLOCK_MASK = take_bit 17 p"
    by (simp add: RBUF_BLOCK_MASK_def RBUF_BLOCK_SIZE_def RBUF_BLOCK_BIT_def take_bit_eq_mask mask_eq_exp_minus_1 push_bit_eq_mult)
  then show ?thesis by (simp only: unsigned_take_bit_eq) (simp add: take_bit_eq_mod)
qed

lemma offset_lin: "unat (p AND RBUF_BLOCK_MASK) = lin rb p mod 131072"
proof -
  have "unat p = unat (start_pos rb + (p - start_pos rb))" by simp
  also have "\<dots> = (unat (start_pos rb) + unat (p - start_pos rb)) mod 4294967296" by (simp only: unat_word_ariths) simp
  finally have "unat p = (unat (start_pos rb) + unat (p - start_pos rb)) mod 4294967296" .
  then have "unat p mod 131072 = (unat (start_pos rb) + unat (p - start_pos rb)) mod 131072"
    by (simp add: mod_mod_cancel)
  then show ?thesis by (simp add: mask_unat lin_def mod_simps)
qed

lemma round_down: "p AND NOT RBUF_BLOCK_MASK = p - (p AND RBUF_BLOCK_MASK)"
proof -
  have "p = (p AND RBUF_BLOCK_MASK) + (p AND NOT RBUF_BLOCK_MASK)"
    by (subst disjunctive_add_eq_or) (auto simp: bit_eq_iff bit_simps)
  then show ?thesis by (metis add_diff_cancel_left')
qed

lemma dist_lin:
  assumes "lin rb p < 2147483648"
  shows "unat ((p AND NOT RBUF_BLOCK_MASK) - (start_pos rb AND NOT RBUF_BLOCK_MASK)) = lin rb p - lin rb p mod 131072"
proof -
  let ?s = "start_pos rb"
  have e: "(p AND NOT RBUF_BLOCK_MASK) - (?s AND NOT RBUF_BLOCK_MASK) = (p - ?s) + (?s AND RBUF_BLOCK_MASK) - (p AND RBUF_BLOCK_MASK)"
    by (simp add: round_down)
  have o: "unat (?s AND RBUF_BLOCK_MASK) = unat ?s mod 131072" "unat (p AND RBUF_BLOCK_MASK) = lin rb p mod 131072"
    by (simp_all only: mask_unat offset_lin [symmetric])
  have sum: "unat ((p - ?s) + (?s AND RBUF_BLOCK_MASK)) = lin rb p"
    using assms o(1) by (subst unat_add_lem [THEN iffD1]) (simp_all add: lin_def)
  have "(p AND RBUF_BLOCK_MASK) \<le> (p - ?s) + (?s AND RBUF_BLOCK_MASK)"
    unfolding word_le_nat_alt sum o(2) by simp
  then show ?thesis unfolding e using sum o(2) by (simp add: unat_sub)
qed

lemma block_of_lin:
  assumes "rbuf_ok rb" "lin rb p < rb_size rb"
  shows "unat (block_of rb p) = wrap rb (lin rb p div 131072)" "wrap rb (lin rb p div 131072) < length (blocks rb)"
proof -
  let ?k = "lin rb p div 131072" and ?n = "unat (blocks_count rb)"
  have n: "0 < ?n" "?n \<le> 16383" "unat (start_block rb) < ?n" "length (blocks rb) = ?n"
    using assms(1) by (simp_all add: rbuf_ok_def word_less_nat_alt)
  have k: "?k < ?n" using assms(2) by (simp add: rb_size_def div_less_iff_less_mult)
  have l: "lin rb p < 2147483648" using assms(2) n(2) by (simp add: rb_size_def)
  note d = dist_lin [OF l]
  define x where "x = drop_bit 17 ((p AND NOT RBUF_BLOCK_MASK) - (start_pos rb AND NOT RBUF_BLOCK_MASK))"
  have "unat x = (lin rb p - lin rb p mod 131072) div 131072"
    unfolding x_def unsigned_drop_bit_eq d
    using l by (simp add: drop_bit_eq_div take_bit_eq_mod)
  then have x: "unat x = ?k" by (simp add: minus_mod_eq_mult_div)
  define b where "b = start_block rb + x"
  have b: "unat b = unat (start_block rb) + ?k" unfolding b_def using n k x by (subst unat_add_lem [THEN iffD1]) simp_all
  have g: "get_block_id rb p = (if blocks_count rb \<le> b then b - blocks_count rb else b)"
    by (simp add: get_block_id_def Let_def b_def x_def RBUF_BLOCK_BIT_def)
  have u: "unat (get_block_id rb p) = wrap rb ?k"
    unfolding g wrap_def using b by (simp add: word_le_nat_alt unat_sub_if')
  have w: "wrap rb ?k < ?n" using n(3) k by (auto simp: wrap_def)
  then show "unat (block_of rb p) = wrap rb ?k" using u by (simp add: block_of_def Let_def word_le_nat_alt)
  show "wrap rb ?k < length (blocks rb)" using w n(4) by simp
qed

lemma wrap_inject:
  "rbuf_ok rb \<Longrightarrow> k < unat (blocks_count rb) \<Longrightarrow> k' < unat (blocks_count rb) \<Longrightarrow> wrap rb k = wrap rb k' \<longleftrightarrow> k = k'"
  by (auto simp: rbuf_ok_def wrap_def word_less_nat_alt split: if_splits)

lemma lin_add:
  assumes "lin rb p + i < 4294967296"
  shows "lin rb (p + of_nat i) = lin rb p + i"
proof -
  have i: "unat (of_nat i :: u32) = i" using assms by (simp add: unat_of_nat)
  have "unat ((p - start_pos rb) + of_nat i) = unat (p - start_pos rb) + i"
    using assms i by (subst unat_add_lem [THEN iffD1]) (simp_all add: lin_def)
  moreover have e: "p + of_nat i - start_pos rb = (p - start_pos rb) + of_nat i" by simp
  ultimately show ?thesis unfolding lin_def e by (simp only: add.assoc)
qed

lemma lin_inject: "lin rb p = lin rb q \<longleftrightarrow> p = q"
proof
  assume "lin rb p = lin rb q"
  then have "unat (p - start_pos rb) = unat (q - start_pos rb)" by (simp add: lin_def)
  then have "p - start_pos rb = q - start_pos rb" by (rule unsigned_word_eqI)
  then show "p = q" by simp
qed simp

section \<open>Reading\<close>

lemma in_block:
  assumes "i < 131072 - m mod (131072 :: nat)"
  shows "(m + i) div 131072 = m div 131072" "(m + i) mod 131072 = m mod 131072 + i"
proof -
  define q r where "q = m div 131072" and "r = m mod 131072"
  have m: "m + i = (r + i) + q * 131072" by (simp add: q_def r_def)
  have l: "r + i < 131072" using assms by (simp add: r_def)
  show "(m + i) div 131072 = m div 131072" unfolding q_def [symmetric] m using l by simp
  show "(m + i) mod 131072 = m mod 131072 + i" unfolding r_def [symmetric] m using l by simp
qed

lemma chunk_lin: "unat (chunk_size p n) = min (unat n) (131072 - lin rb p mod 131072)"
  using chunk_size_unat [of p n] offset_lin [of p rb] by simp

lemma get_byte_chunk:
  assumes "rbuf_ok rb" "lin rb p + i < rb_size rb" "i < 131072 - lin rb p mod 131072"
  shows "get_byte rb (p + of_nat i) =
    map_option (\<lambda>b. b ! (lin rb p mod 131072 + i)) (blocks rb ! wrap rb (lin rb p div 131072))"
proof -
  have "lin rb p + i < 2147483648" using assms(1,2) by (simp add: rbuf_ok_def rb_size_def)
  then show ?thesis by (simp add: get_byte_def lin_add in_block [OF assms(3)] split: option.split)
qed

lemma block_length: "rbuf_ok rb \<Longrightarrow> i < length (blocks rb) \<Longrightarrow> blocks rb ! i = Some b \<Longrightarrow> length b = 131072"
  unfolding rbuf_ok_def by (metis nth_mem)

lemma chunk_positive: "0 < n \<Longrightarrow> 0 < unat (chunk_size p n) \<and> unat (chunk_size p n) \<le> unat n \<and> unat (n - chunk_size p n) = unat n - unat (chunk_size p n)"
  using chunk_size_unat [of p n] block_mask_less [of p] by (simp add: unat_sub_if' word_less_nat_alt)

lemma rbuf_read_bytes:
  assumes "rbuf_ok rb" "lin rb p + unat n \<le> rb_size rb" "length xs = unat n"
    and "\<And>i. i < unat n \<Longrightarrow> get_byte rb (p + of_nat i) = Some (xs ! i)"
  shows "rbuf_read rb p n = Some xs"
  using assms
proof (induction rb p n arbitrary: xs rule: rbuf_read.induct)
  case (1 rb p n)
  show ?case
  proof (cases "0 < n")
    case True
    let ?c = "chunk_size p n" and ?L = "lin rb p"
    let ?w = "wrap rb (?L div 131072)"
    have c: "0 < unat ?c" "unat ?c \<le> unat n" "unat (n - ?c) = unat n - unat ?c" using chunk_positive [OF True, of p] by auto
    have cm: "unat ?c \<le> 131072 - ?L mod 131072" using chunk_lin [of p n rb] by simp
    have L: "?L < rb_size rb" "rb_size rb \<le> 2147483648" using 1(3) c "1.prems"(1) by (simp_all add: rb_size_def rbuf_ok_def)
    note b = block_of_lin [OF "1.prems"(1) L(1)]
    have byte: "map_option (\<lambda>b. b ! (?L mod 131072 + i)) (blocks rb ! ?w) = Some (xs ! i)" if "i < unat ?c" for i
      using "1.prems"(4) [of i] get_byte_chunk [OF "1.prems"(1), of p i] that c cm "1.prems"(2) by simp
    obtain blk where blk: "blocks rb ! ?w = Some blk" using byte [of 0] c(1) by auto
    have len: "length blk = 131072" by (rule block_length [OF "1.prems"(1) b(2) blk])
    have part: "slice blk (unat (p AND RBUF_BLOCK_MASK)) (unat ?c) = Some (take (unat ?c) xs)"
      using byte blk len cm c(2) "1.prems"(3) by (auto simp: slice_def offset_lin [of p rb] intro!: nth_equalityI)
    have nx: "p + of_nat (unat ?c) = p + ?c" by simp
    have lc: "lin rb (p + ?c) = ?L + unat ?c" using lin_add [of rb p "unat ?c"] L(2) "1.prems"(2) c(2) by simp
    have rest: "rbuf_read rb (p + ?c) (n - ?c) = Some (drop (unat ?c) xs)"
    proof (rule "1.IH" [OF True refl refl refl])
      show "(if unat (block_of rb p) < length (blocks rb) then Some () else None) = Some ()" using b by simp
      show "blocks rb ! unat (block_of rb p) = Some blk" using b blk by simp
      show "slice blk (unat (p AND RBUF_BLOCK_MASK)) (unat ?c) = Some (take (unat ?c) xs)" by (rule part)
      show "lin rb (p + ?c) + unat (n - ?c) \<le> rb_size rb" using lc c "1.prems"(2) by simp
      show "length (drop (unat ?c) xs) = unat (n - ?c)" using c "1.prems"(3) by simp
      fix i assume "i < unat (n - ?c)"
      then show "get_byte rb (p + ?c + of_nat i) = Some (drop (unat ?c) xs ! i)"
        using "1.prems"(4) [of "unat ?c + i"] c "1.prems"(3) by (simp add: add.assoc)
    qed (rule "1.prems"(1))
    show ?thesis using True b blk part rest
      by (subst rbuf_read.simps) (simp add: Let_def)
  next
    case False
    then show ?thesis using "1.prems"(3) by (subst rbuf_read.simps) (simp add: word_gt_0)
  qed
qed

section \<open>Writing\<close>

definition put_block :: "rbuf \<Rightarrow> nat \<Rightarrow> u8 list \<Rightarrow> rbuf" where
  "put_block rb w block = rb\<lparr>blocks := (blocks rb)[w := Some block]\<rparr>"

lemma put_block_simps [simp]:
  "lin (put_block rb w b) p = lin rb p" "rb_size (put_block rb w b) = rb_size rb" "wrap (put_block rb w b) k = wrap rb k"
  "start_pos (put_block rb w b) = start_pos rb" "range_map (put_block rb w b) = range_map rb"
  "blocks (put_block rb w b) = (blocks rb)[w := Some b]"
  "put_block rb w b\<lparr>blocks := bs\<rparr> = rb\<lparr>blocks := bs\<rparr>"
  by (simp_all add: put_block_def lin_def rb_size_def wrap_def)

lemma put_block_ok: "rbuf_ok rb \<Longrightarrow> length b = 131072 \<Longrightarrow> rbuf_ok (put_block rb w b)"
  using set_update_subset_insert [of "blocks rb" w "Some b"] by (auto simp: rbuf_ok_def put_block_def)

lemma get_byte_put:
  assumes "rbuf_ok rb" "lin rb p < rb_size rb" "lin rb q < rb_size rb"
  shows "get_byte (put_block rb (wrap rb (lin rb p div 131072)) b) q =
    (if lin rb q div 131072 = lin rb p div 131072 then Some (b ! (lin rb q mod 131072)) else get_byte rb q)"
proof -
  have k: "lin rb p div 131072 < unat (blocks_count rb)" "lin rb q div 131072 < unat (blocks_count rb)"
    using assms by (simp_all add: rb_size_def div_less_iff_less_mult)
  show ?thesis using wrap_inject [OF assms(1) k] block_of_lin(2) [OF assms(1,2)]
    by (simp add: get_byte_def nth_list_update split: option.split)
qed

definition patched :: "u8 list \<Rightarrow> nat \<Rightarrow> u8 list \<Rightarrow> u8 list" where
  "patched block o' src = take o' block @ src @ drop (o' + length src) block"

lemma patched_nth:
  "o' + length src \<le> length block \<Longrightarrow> m < length block \<Longrightarrow>
     patched block o' src ! m = (if o' \<le> m \<and> m < o' + length src then src ! (m - o') else block ! m)"
  by (auto simp: patched_def nth_append)

lemma put_chunk:
  fixes rb p block src
  defines "L \<equiv> lin rb p"
  defines "rb1 \<equiv> put_block rb (wrap rb (L div 131072)) (patched block (L mod 131072) src)"
  assumes "rbuf_ok rb" "L < rb_size rb" "length block = 131072" "length src \<le> 131072 - L mod 131072"
    and "blocks rb ! wrap rb (L div 131072) = None \<or> blocks rb ! wrap rb (L div 131072) = Some block"
    and "lin rb q < rb_size rb"
  shows "L \<le> lin rb q \<Longrightarrow> lin rb q < L + length src \<Longrightarrow> get_byte rb1 q = Some (src ! (lin rb q - L))"
    and "lin rb q < L \<or> L + length src \<le> lin rb q \<Longrightarrow> get_byte rb q = Some b \<Longrightarrow> get_byte rb1 q = Some b"
proof -
  let ?Q = "lin rb q"
  have o: "L mod 131072 + length src \<le> length block" using assms(5,6) mod_less_divisor [of 131072 L] by linarith
  have g: "get_byte rb1 q = (if ?Q div 131072 = L div 131072 then Some (patched block (L mod 131072) src ! (?Q mod 131072)) else get_byte rb q)"
    unfolding rb1_def L_def by (rule get_byte_put) (use assms in simp_all)
  have pn: "patched block (L mod 131072) src ! (?Q mod 131072) = (if L mod 131072 \<le> ?Q mod 131072 \<and> ?Q mod 131072 < L mod 131072 + length src
      then src ! (?Q mod 131072 - L mod 131072) else block ! (?Q mod 131072))"
    by (rule patched_nth [OF o]) (simp add: assms(5))
  show "get_byte rb1 q = Some (src ! (?Q - L))" if "L \<le> ?Q" "?Q < L + length src"
  proof -
    define i where "i = ?Q - L"
    have i: "?Q = L + i" "i < length src" using that by (auto simp: i_def)
    have ib: "i < 131072 - L mod 131072" using i(2) assms(6) by linarith
    have "?Q div 131072 = L div 131072" "?Q mod 131072 = L mod 131072 + i" unfolding i(1) by (rule in_block [OF ib])+
    then show ?thesis using g pn i by (simp add: i_def [symmetric])
  qed
  show "get_byte rb1 q = Some b" if out: "?Q < L \<or> L + length src \<le> ?Q" and b: "get_byte rb q = Some b"
  proof (cases "?Q div 131072 = L div 131072")
    case True
    have m: "?Q = L div 131072 * 131072 + ?Q mod 131072" "L = L div 131072 * 131072 + L mod 131072"
      using True div_mult_mod_eq [of ?Q 131072] by simp_all
    have n: "\<not> (L mod 131072 \<le> ?Q mod 131072 \<and> ?Q mod 131072 < L mod 131072 + length src)" using m out by linarith
    have "blocks rb ! wrap rb (L div 131072) = Some block" "b = block ! (?Q mod 131072)"
      using b assms(7) True by (auto simp: get_byte_def split: option.splits)
    then show ?thesis using g pn n True by auto
  qed (use g b in simp)
qed

definition written :: "rbuf \<Rightarrow> u32 \<Rightarrow> u8 list \<Rightarrow> rbuf \<Rightarrow> bool" where
  "written rb p xs rb' \<longleftrightarrow> rbuf_ok rb' \<and> rb' = rb\<lparr>blocks := blocks rb'\<rparr> \<and>
     (\<forall>q b. lin rb q < rb_size rb \<longrightarrow> lin rb q < lin rb p \<or> lin rb p + length xs \<le> lin rb q \<longrightarrow>
        get_byte rb q = Some b \<longrightarrow> get_byte rb' q = Some b)"

definition holds_bytes :: "rbuf \<Rightarrow> u32 \<Rightarrow> u8 list \<Rightarrow> bool" where
  "holds_bytes rb p xs \<longleftrightarrow> (\<forall>i < length xs. get_byte rb (p + of_nat i) = Some (xs ! i))"

lemma written_refl: "rbuf_ok rb \<Longrightarrow> written rb p xs rb"
  by (simp add: written_def)

lemma writtenD:
  "written rb p xs rb' \<Longrightarrow> lin rb q < rb_size rb \<Longrightarrow> lin rb q < lin rb p \<or> lin rb p + length xs \<le> lin rb q \<Longrightarrow>
     get_byte rb q = Some b \<Longrightarrow> get_byte rb' q = Some b"
  unfolding written_def by blast

lemma written_trans:
  assumes "written rb1 p1 ys rb'" "rb1 = rb\<lparr>blocks := bs\<rparr>" "lin rb p \<le> lin rb p1" "lin rb p1 + length ys \<le> lin rb p + length xs"
    and "\<And>q b. lin rb q < rb_size rb \<Longrightarrow> lin rb q < lin rb p \<or> lin rb p + length xs \<le> lin rb q \<Longrightarrow>
      get_byte rb q = Some b \<Longrightarrow> get_byte rb1 q = Some b"
  shows "written rb p xs rb'"
  unfolding written_def
proof (intro conjI allI impI)
  have l: "lin rb1 q = lin rb q" "rb_size rb1 = rb_size rb" for q by (simp_all add: assms(2) lin_def rb_size_def)
  show "rbuf_ok rb'" using assms(1) by (simp add: written_def)
  have "rb' = rb1\<lparr>blocks := blocks rb'\<rparr>" using assms(1) by (simp add: written_def)
  then show "rb' = rb\<lparr>blocks := blocks rb'\<rparr>" by (simp add: assms(2))
  fix q b assume q: "lin rb q < rb_size rb" "lin rb q < lin rb p \<or> lin rb p + length xs \<le> lin rb q" "get_byte rb q = Some b"
  show "get_byte rb' q = Some b"
    by (rule writtenD [OF assms(1)]) (use q assms(3-5) l in auto)
qed

lemma copy_step:
  assumes "rbuf_ok rb" "0 < n" "lin rb p + unat n \<le> rb_size rb" "length xs = unat n"
    and "(case blocks rb ! wrap rb (lin rb p div 131072) of None \<Rightarrow> balloc (block_of rb p) | Some b \<Rightarrow> Some b) = Some block"
    and "length block = 131072"
  shows "copy_to_blocks rb balloc p xs n = copy_to_blocks
    (put_block rb (wrap rb (lin rb p div 131072)) (patched block (lin rb p mod 131072) (take (unat (chunk_size p n)) xs)))
    balloc (p + chunk_size p n) (drop (unat (chunk_size p n)) xs) (n - chunk_size p n)"
proof -
  have L: "lin rb p < rb_size rb" using assms(2,3) by (simp add: word_less_nat_alt)
  note b = block_of_lin [OF assms(1) L]
  have c: "unat (chunk_size p n) \<le> length xs" using chunk_positive [OF assms(2), of p] assms(4) by simp
  have "lin rb p mod 131072 + unat (chunk_size p n) \<le> 131072"
    using chunk_lin [of p n rb] mod_less_divisor [of 131072 "lin rb p"] by linarith
  then show ?thesis using assms(2,5,6) b c
    by (subst copy_to_blocks.simps)
      (simp add: Let_def slice_def overwrite_def patched_def put_block_def offset_lin [of p rb] min_absorb2)
qed

lemma copy_to_blocks_written:
  assumes "rbuf_ok rb" "lin rb p + unat n \<le> rb_size rb" "length xs = unat n"
    and al: "\<And>i b. balloc i = Some b \<Longrightarrow> length b = 131072"
  shows "\<exists>rb' ok. copy_to_blocks rb balloc p xs n = Some (rb', ok) \<and> written rb p xs rb' \<and>
    (ok \<longrightarrow> holds_bytes rb' p xs) \<and> ((\<forall>i. balloc i \<noteq> None) \<longrightarrow> ok)"
  using assms(1-3)
proof (induction "unat n" arbitrary: rb p xs n rule: less_induct)
  case less
  show ?case
  proof (cases "0 < n")
    case True
    let ?c = "chunk_size p n" and ?L = "lin rb p"
    let ?w = "wrap rb (?L div 131072)" and ?src = "take (unat ?c) xs"
    have c: "0 < unat ?c" "unat ?c \<le> unat n" "unat (n - ?c) = unat n - unat ?c" using chunk_positive [OF True, of p] by auto
    have L: "?L < rb_size rb" "rb_size rb \<le> 2147483648" using less.prems(2) c less.prems(1) by (simp_all add: rb_size_def rbuf_ok_def)
    note b = block_of_lin [OF less.prems(1) L(1)]
    show ?thesis
    proof (cases "case blocks rb ! ?w of None \<Rightarrow> balloc (block_of rb p) | Some b \<Rightarrow> Some b")
      case None
      then have "balloc (block_of rb p) = None" by (simp split: option.splits)
      moreover have "copy_to_blocks rb balloc p xs n = Some (rb, False)"
        using True b None by (subst copy_to_blocks.simps) (simp add: Let_def)
      ultimately have "copy_to_blocks rb balloc p xs n = Some (rb, False)" "balloc (block_of rb p) = None" by simp_all
      then show ?thesis using written_refl [OF less.prems(1), of p xs] by (intro exI [of _ rb] exI [of _ False]) blast
    next
      case (Some block)
      have len: "length block = 131072"
        using Some al block_length [OF less.prems(1) b(2)] by (auto split: option.splits)
      define rb1 where "rb1 = put_block rb ?w (patched block (?L mod 131072) ?src)"
      have src: "length ?src = unat ?c" "unat ?c \<le> 131072 - ?L mod 131072" using c less.prems(3) chunk_lin [of p n rb] by simp_all
      have pl: "length (patched block (?L mod 131072) ?src) = 131072"
        using src len mod_less_divisor [of 131072 ?L] by (simp add: patched_def)
      have ok1: "rbuf_ok rb1" unfolding rb1_def by (rule put_block_ok [OF less.prems(1) pl])
      have keep: "blocks rb ! ?w = None \<or> blocks rb ! ?w = Some block" using Some by (auto split: option.splits)
      note put = put_chunk [OF less.prems(1) L(1) len _ keep, of ?src, folded rb1_def]
      have l1: "lin rb1 q = lin rb q" "rb_size rb1 = rb_size rb" "rb1\<lparr>blocks := bs\<rparr> = rb\<lparr>blocks := bs\<rparr>" for q bs
        by (simp_all add: rb1_def)
      have lc: "lin rb (p + ?c) = ?L + unat ?c" using lin_add [of rb p "unat ?c"] L(2) less.prems(2) c(2) by simp
      obtain rb' ok where r: "copy_to_blocks rb1 balloc (p + ?c) (drop (unat ?c) xs) (n - ?c) = Some (rb', ok)"
        "written rb1 (p + ?c) (drop (unat ?c) xs) rb'" "ok \<longrightarrow> holds_bytes rb' (p + ?c) (drop (unat ?c) xs)" "(\<forall>i. balloc i \<noteq> None) \<longrightarrow> ok"
        using less.hyps [of "n - ?c" rb1 "p + ?c" "drop (unat ?c) xs"] c ok1 l1 lc less.prems by auto
      have w: "written rb p xs rb'"
      proof (rule written_trans [OF r(2)])
        show "rb1 = rb\<lparr>blocks := blocks rb1\<rparr>" using l1(3) [of "blocks rb1"] by simp
        fix q b assume "lin rb q < rb_size rb" "lin rb q < ?L \<or> ?L + length xs \<le> lin rb q" "get_byte rb q = Some b"
        then show "get_byte rb1 q = Some b" using put(2) [of q b] src c(2) less.prems(3) by linarith
      qed (use lc less.prems(3) c in simp_all)
      have "get_byte rb' (p + of_nat i) = Some (xs ! i)" if k: "ok" and i: "i < length xs" for i
      proof (cases "i < unat ?c")
        case True
        have li: "lin rb (p + of_nat i) = ?L + i" using lin_add [of rb p i] L(2) less.prems(2,3) i by simp
        have "get_byte rb1 (p + of_nat i) = Some (xs ! i)" using put(1) [of "p + of_nat i"] li src True less.prems(2,3) i by simp
        then show ?thesis using writtenD [OF r(2), of "p + of_nat i"] li l1 lc True less.prems(2,3) i by simp
      next
        case False
        have e: "p + of_nat i = p + ?c + of_nat (i - unat ?c)" using False by (simp add: of_nat_diff)
        have d: "i - unat ?c < length (drop (unat ?c) xs)" using False i by simp
        have "get_byte rb' (p + ?c + of_nat (i - unat ?c)) = Some (drop (unat ?c) xs ! (i - unat ?c))"
          using r(3) [rule_format, OF k] d unfolding holds_bytes_def by blast
        then show ?thesis unfolding e using False i by simp
      qed
      then show ?thesis using r w copy_step [where balloc = balloc, OF less.prems(1) True less.prems(2,3) Some len, folded rb1_def]
        unfolding holds_bytes_def by auto
    qed
  next
    case False
    then have "copy_to_blocks rb balloc p xs n = Some (rb, True)" by (subst copy_to_blocks.simps) simp
    moreover have "holds_bytes rb p xs" using less.prems(3) False by (simp add: holds_bytes_def word_gt_0)
    ultimately show ?thesis using written_refl [OF less.prems(1), of p xs] by blast
  qed
qed

section \<open>The window\<close>

lemma window_unat:
  assumes "rbuf_ok rb"
  shows "unat (start_pos rb) mod 131072 + unat (window_size rb) = rb_size rb"
proof -
  have n: "0 < unat (blocks_count rb)" "unat (blocks_count rb) \<le> 16383" using assms by (simp_all add: rbuf_ok_def)
  have m: "unat (RBUF_BLOCK_SIZE * blocks_count rb) = rb_size rb"
    using block_size_unat n by (subst unat_mult_lem [THEN iffD1]) (simp_all add: rb_size_def)
  have o: "unat (start_pos rb AND RBUF_BLOCK_MASK) = unat (start_pos rb) mod 131072" by (rule mask_unat)
  have "131072 \<le> rb_size rb" using n(1) by (simp add: rb_size_def)
  then have "unat (start_pos rb) mod 131072 \<le> rb_size rb" using mod_less_divisor [of 131072 "unat (start_pos rb)"] by linarith
  then show ?thesis unfolding window_size_def using m o by (simp add: unat_sub_if')
qed

lemma write_in_window:
  assumes "rbuf_ok rb" "\<not> pos - start_pos rb > window_size rb" "\<not> pos + n - start_pos rb > window_size rb" "\<not> n > window_size rb"
  shows "lin rb pos + unat n \<le> rb_size rb"
proof -
  note w = window_unat [OF assms(1)]
  have b: "unat (window_size rb) < 2147483648" using w assms(1) by (simp add: rb_size_def rbuf_ok_def)
  have "unat (pos - start_pos rb) + unat n < 4294967296" using assms(2,4) b by (simp add: word_le_nat_alt not_less)
  then have "unat (pos - start_pos rb + n) = unat (pos - start_pos rb) + unat n"
    by (subst unat_add_lem [THEN iffD1]) simp_all
  moreover have e: "pos + n - start_pos rb = pos - start_pos rb + n" by simp
  have "unat (pos - start_pos rb + n) \<le> unat (window_size rb)"
    using assms(3) unfolding e not_less word_le_nat_alt .
  ultimately have "unat (pos - start_pos rb) + unat n \<le> unat (window_size rb)" by linarith
  then show ?thesis using w by (simp add: lin_def)
qed

lemma range_map_irrelevant [simp]:
  "rbuf_ok (rb\<lparr>range_map := m\<rparr>) = rbuf_ok rb" "lin (rb\<lparr>range_map := m\<rparr>) p = lin rb p" "rb_size (rb\<lparr>range_map := m\<rparr>) = rb_size rb"
  "get_byte (rb\<lparr>range_map := m\<rparr>) p = get_byte rb p"
  by (simp_all add: rbuf_ok_def lin_def rb_size_def get_byte_def wrap_def split: option.split)

lemma holds_read: "rbuf_ok rb \<Longrightarrow> lin rb p + unat n \<le> rb_size rb \<Longrightarrow> length xs = unat n \<Longrightarrow> holds_bytes rb p xs \<Longrightarrow> rbuf_read rb p n = Some xs"
  by (rule rbuf_read_bytes) (simp_all add: holds_bytes_def)

lemma write_accepted:
  assumes "rbuf_write rb pos data n mem balloc = Some (rb', 0)"
  shows "\<not> pos - start_pos rb > window_size rb \<and> \<not> pos + n - start_pos rb > window_size rb \<and> \<not> n > window_size rb \<and>
    (\<exists>tm. copy_to_blocks (rb\<lparr>range_map := tm\<rparr>) balloc pos data n = Some (rb', True))"
proof -
  have g: "\<not> n > window_size rb" "\<not> pos - start_pos rb > window_size rb" "\<not> pos + n - start_pos rb > window_size rb"
    using assms by (auto simp: rbuf_write_def Let_def RBUF_OUT_OF_RANGE_def split: if_splits)
  from assms g obtain r where r: "rbuf_enter_range (range_map rb) pos (pos + n) mem = Some r"
    by (auto simp: rbuf_write_def Let_def bind_eq_Some_conv)
  show ?thesis
  proof (cases r)
    case (Inl u)
    then show ?thesis using assms g r by (simp add: rbuf_write_def)
  next
    case (Inr x)
    obtain tm ret it where x: "x = (tm, ret, it)" by (cases x)
    from assms g r Inr x have "ret \<noteq> -1" "(do { i \<leftarrow> it; tm1 \<leftarrow> merge_ranges tm i;
        (rb1, ok) \<leftarrow> copy_to_blocks (rb\<lparr>range_map := tm1\<rparr>) balloc pos data n; Some (rb1, if ok then ret else -1) }) = Some (rb', 0)"
      by (auto simp: rbuf_write_def Let_def split: if_splits)
    then have "\<exists>tm. copy_to_blocks (rb\<lparr>range_map := tm\<rparr>) balloc pos data n = Some (rb', True)"
      by (auto simp: bind_eq_Some_conv split: if_splits)
    then show ?thesis using g by blast
  qed
qed

text \<open>
  Bytes written are the bytes read: when \<open>rbuf_write\<close> accepts data at a position, \<open>rbuf_read\<close> of that
  position and length returns the data, across block boundaries and the end of the ring, and every other
  byte of the window that was stored before is unchanged.
\<close>

theorem rbuf_write_read:
  assumes "rbuf_ok rb" "length data = unat n" "\<forall>i b. balloc i = Some b \<longrightarrow> length b = 131072"
    and "rbuf_write rb pos data n mem balloc = Some (rb', 0)"
  shows "rbuf_read rb' pos n = Some data \<and> rbuf_ok rb' \<and>
    (\<forall>q b. lin rb q < rb_size rb \<and> (lin rb q < lin rb pos \<or> lin rb pos + unat n \<le> lin rb q) \<and> get_byte rb q = Some b \<longrightarrow>
       get_byte rb' q = Some b)"
proof -
  note a = write_accepted [OF assms(4)]
  have w: "lin rb pos + unat n \<le> rb_size rb" using write_in_window [OF assms(1), of pos n] a by blast
  obtain tm where c: "copy_to_blocks (rb\<lparr>range_map := tm\<rparr>) balloc pos data n = Some (rb', True)" using a by blast
  let ?rb = "rb\<lparr>range_map := tm\<rparr>"
  have r: "written ?rb pos data rb'" "holds_bytes rb' pos data"
    using copy_to_blocks_written [of ?rb pos n data balloc] assms(1-3) w c by auto
  then have ok: "rbuf_ok rb'" "rb' = ?rb\<lparr>blocks := blocks rb'\<rparr>" by (simp_all add: written_def)
  have "lin rb' pos = lin rb pos" "rb_size rb' = rb_size rb" by (subst ok(2), simp add: lin_def rb_size_def)+
  then have "rbuf_read rb' pos n = Some data" using holds_read [OF ok(1) _ assms(2) r(2)] w by simp
  moreover have "get_byte rb' q = Some b"
    if "lin rb q < rb_size rb" "lin rb q < lin rb pos \<or> lin rb pos + unat n \<le> lin rb q" "get_byte rb q = Some b" for q b
    using writtenD [OF r(1), of q b] that assms(2) by simp
  ultimately show ?thesis using ok(1) by blast
qed

definition sample_rb :: rbuf where
  "sample_rb = fst (rbuf_init 2 True)"

definition sample_alloc :: "u32 \<Rightarrow> u8 list option" where
  "sample_alloc i = Some (replicate 131072 0)"



lemma sample_write: "\<exists>rb'. rbuf_write sample_rb 131071 [7, 8, 9] 3 (Some 1) sample_alloc = Some (rb', 0)"
proof -
  let ?m = "treemap_init 4 4 seq_cmp :: (u32, u32) treemap"
  have m: "range_map sample_rb = ?m" "start_pos sample_rb = 0" "blocks_count sample_rb = 2"
    by (simp_all add: sample_rb_def rbuf_init_def)
  have ok: "rbuf_ok sample_rb" by (simp add: sample_rb_def rbuf_init_def rbuf_ok_def)
  have i: "treemap_inv seq_cmp (seq_window 0) ?m" "contents ?m = []" by (rule treemap_init_inv)+
  have k: "131071 \<in> seq_window 0" by (simp add: seq_window_def)
  obtain tm where tm: "treemap_insert2 ?m 131071 131074 (Some 1) = Some (tm, 0, Some (Some 1))"
    "treemap_inv seq_cmp (seq_window 0) tm" "contents tm = [(1, 131071, 131074)]"
    using seq.tm.ins_new [OF i(1) k, of 1 131074] i(2) by auto
  have "rbuf_enter_range ?m 131071 131074 (Some 1) = Some (Inr (tm, 0, Some 1))"
    using tm(1) by (simp add: rbuf_enter_range_def treemap_init_def treemap_upper_bound_def treemap_last_def)
  moreover have "merge_ranges tm 1 = Some tm"
    using treemap_access [OF tm(2), of 1 131071 131074] tm(3) seq.tm.next_any [OF tm(2), of "[]" 1 "(131071, 131074)" "[]"]
    by (subst merge_ranges.simps) simp
  moreover obtain rb' ok where "copy_to_blocks (sample_rb\<lparr>range_map := tm\<rparr>) sample_alloc 131071 [7, 8, 9] 3 = Some (rb', ok)" "ok"
    using copy_to_blocks_written [of "sample_rb\<lparr>range_map := tm\<rparr>" 131071 3 "[7, 8, 9]" sample_alloc] ok m
    by (auto simp: lin_def rb_size_def sample_alloc_def)
  moreover have "window_size sample_rb = 262144" using m by (simp add: window_size_def RBUF_BLOCK_SIZE_def RBUF_BLOCK_BIT_def push_bit_eq_mult)
  ultimately show ?thesis using m by (simp add: rbuf_write_def)
qed

theorem rbuf_write_read_witness:
  "\<exists>rb'. rbuf_write sample_rb 131071 [7, 8, 9] 3 (Some 1) sample_alloc = Some (rb', 0) \<and> rbuf_read rb' 131071 3 = Some [7, 8, 9]"
proof -
  obtain rb' where w: "rbuf_write sample_rb 131071 [7, 8, 9] 3 (Some 1) sample_alloc = Some (rb', 0)" using sample_write by blast
  have "rbuf_read rb' 131071 3 = Some [7, 8, 9]"
    using rbuf_write_read [OF _ _ _ w] by (simp add: sample_rb_def rbuf_init_def rbuf_ok_def sample_alloc_def)
  then show ?thesis using w by blast
qed

end
