(* ===== verification/RBufferRanges.thy ===== *)
theory RBufferRanges
  imports RBufferCorrect
begin

text \<open>
  The range map of a receive buffer: it holds disjoint ranges with gaps between them, and a write adds
  exactly the written positions to them.
\<close>

section \<open>Ranges\<close>

definition off :: "u32 \<Rightarrow> u32 \<Rightarrow> nat" where
  "off s p = unat (p - s)"

type_synonym range_entry = "addr \<times> u32 \<times> u32"

definition gapped :: "u32 \<Rightarrow> range_entry list \<Rightarrow> bool" where
  "gapped s es \<longleftrightarrow> (\<forall>x \<in> set es. off s (fst (snd x)) < off s (snd (snd x)) \<and> off s (snd (snd x)) < 2147483648) \<and>
     sorted_wrt (\<lambda>x y. off s (snd (snd x)) < off s (fst (snd y))) es"

definition cover :: "u32 \<Rightarrow> range_entry list \<Rightarrow> nat set" where
  "cover s es = (\<Union>x \<in> set es. {off s (fst (snd x)) ..< off s (snd (snd x))})"

definition fits :: "u32 \<Rightarrow> nat \<Rightarrow> range_entry list \<Rightarrow> bool" where
  "fits s w es \<longleftrightarrow> (\<forall>x \<in> set es. off s (snd (snd x)) \<le> w)"

lemma fits_simps [simp]:
  "fits s w []" "fits s w (x # ys) \<longleftrightarrow> off s (snd (snd x)) \<le> w \<and> fits s w ys" "fits s w (xs @ ys) \<longleftrightarrow> fits s w xs \<and> fits s w ys"
  by (auto simp: fits_def)

lemma gapped_simps [simp]:
  "gapped s []"
  "gapped s (x # ys) \<longleftrightarrow> off s (fst (snd x)) < off s (snd (snd x)) \<and> off s (snd (snd x)) < 2147483648 \<and> gapped s ys \<and>
     (\<forall>y \<in> set ys. off s (snd (snd x)) < off s (fst (snd y)))"
  "gapped s (xs @ ys) \<longleftrightarrow> gapped s xs \<and> gapped s ys \<and> (\<forall>x \<in> set xs. \<forall>y \<in> set ys. off s (snd (snd x)) < off s (fst (snd y)))"
  by (auto simp: gapped_def sorted_wrt_append)

lemma cover_simps [simp]:
  "cover s [] = {}" "cover s (x # ys) = {off s (fst (snd x)) ..< off s (snd (snd x))} \<union> cover s ys"
  "cover s (xs @ ys) = cover s xs \<union> cover s ys"
  by (auto simp: cover_def)

lemma LESS_EQUAL_off: "off s a < 2147483648 \<Longrightarrow> off s b < 2147483648 \<Longrightarrow> LESS_EQUAL a b \<longleftrightarrow> off s a \<le> off s b"
  using LESS_EQUAL_offset [of a s b] by (simp add: off_def word_less_nat_alt word_le_nat_alt)

lemma seq_window_off: "p \<in> seq_window s \<longleftrightarrow> off s p < 2147483648"
  by (simp add: seq_window_def off_def word_less_nat_alt)

lemma seq_cmp_off:
  "off s a < 2147483648 \<Longrightarrow> off s b < 2147483648 \<Longrightarrow> seq_cmp a b < 0 \<longleftrightarrow> off s a < off s b"
  using LESS_EQUAL_off [of s a b] by (auto simp: seq_cmp_def off_def le_less dest: unsigned_word_eqI)

abbreviation seq_inv :: "u32 \<Rightarrow> (u32, 'v) treemap \<Rightarrow> bool" where
  "seq_inv s \<equiv> treemap_inv seq_cmp (seq_window s)"

lemma ascending_off:
  assumes "ascending seq_cmp (seq_window s) (xs @ (i, k, e) # ys)" "y \<in> set ys"
  shows "off s k < off s (fst (snd y))"
proof -
  have y: "fst (snd y) \<in> set (keys_of ys)" using assms(2) by (simp add: keys_of_set)
  have "fst (snd y) \<in> seq_window s" by (rule ascending_keys [of seq_cmp, OF _ y]) (use assms(1) in simp)
  moreover have "k \<in> seq_window s" "seq_cmp k (fst (snd y)) < 0" using assms(1) y by simp_all
  ultimately show ?thesis using seq_cmp_off [of s k "fst (snd y)"] by (simp add: seq_window_off)
qed

lemma del_key_at:
  "ascending seq_cmp (seq_window s) (xs @ (i, k, e) # ys) \<Longrightarrow> del_key k (xs @ (i, k, e) # ys) = xs @ ys"
  using seq.key_at [of s xs "(i, k, e)" ys] by simp

lemma set_entry_at:
  "distinct (map fst (xs @ (i, k, e) # ys)) \<Longrightarrow> set_entry i w (xs @ (i, k, e) # ys) = xs @ (i, k, w) # ys"
  by (force simp: set_entry_def intro!: map_idI)

section \<open>Merging\<close>

lemma merge_step:
  assumes "seq_inv s tm" "contents tm = xs @ (i, k, e) # (j, ns, ne) # ys" "off s e < 2147483648" "off s ne < 2147483648"
  shows "off s ns \<le> off s e \<Longrightarrow> \<exists>tm'. merge_ranges tm i = merge_ranges tm' i \<and> seq_inv s tm' \<and>
      contents tm' = xs @ (i, k, if off s e \<le> off s ne then ne else e) # ys"
    and "\<not> off s ns \<le> off s e \<Longrightarrow> merge_ranges tm i = Some tm"
proof -
  have asc: "ascending seq_cmp (seq_window s) (contents tm)" "distinct (map fst (contents tm))"
    using assms(1) by (simp_all add: treemap_inv_def)
  have ns: "off s ns < 2147483648" using asc(1) by (simp add: assms(2) seq_window_off)
  have acc: "treemap_value tm i = Some e" "treemap_key tm j = Some ns" "treemap_value tm j = Some ne"
    using treemap_access [OF assms(1), of i k e] treemap_access [OF assms(1), of j ns ne] by (simp_all add: assms(2))
  have nx: "treemap_next tm i = Some (Some j)" using seq.tm.next_any [OF assms(1,2)] by simp
  have le: "LESS_EQUAL ns e \<longleftrightarrow> off s ns \<le> off s e" "LESS_EQUAL e ne \<longleftrightarrow> off s e \<le> off s ne"
    using LESS_EQUAL_off assms(3,4) ns by blast+
  show "merge_ranges tm i = Some tm" if "\<not> off s ns \<le> off s e"
    using that acc nx le by (subst merge_ranges.simps) simp
  define tm1 where "tm1 = (if off s e \<le> off s ne then treemap_set_value tm i ne else tm)"
  let ?e = "if off s e \<le> off s ne then ne else e"
  have tm1: "seq_inv s tm1" "contents tm1 = xs @ (i, k, ?e) # (j, ns, ne) # ys"
    using treemap_set_value_spec [OF assms(1), of i ne] assms(1,2) asc(2) set_entry_at [of xs i k e "(j, ns, ne) # ys" ne]
    unfolding tm1_def by simp_all
  have "ns \<in> seq_window s" using ns by (simp add: seq_window_off)
  then obtain tm2 ret where tm2: "treemap_delete tm1 ns = Some (tm2, ret)" "seq_inv s tm2" "contents tm2 = del_key ns (contents tm1)"
    using seq.tm.del_any [OF tm1(1), of ns] by blast
  have "ascending seq_cmp (seq_window s) ((xs @ [(i, k, ?e)]) @ (j, ns, ne) # ys)" using tm1 by (simp add: treemap_inv_def)
  from del_key_at [OF this] have c: "contents tm2 = xs @ (i, k, ?e) # ys" using tm2(3) tm1(2) by simp
  show "\<exists>tm'. merge_ranges tm i = merge_ranges tm' i \<and> seq_inv s tm' \<and> contents tm' = xs @ (i, k, ?e) # ys"
    if "off s ns \<le> off s e"
  proof (intro exI conjI)
    show "merge_ranges tm i = merge_ranges tm2 i"
      using that acc nx le tm2(1) by (subst merge_ranges.simps) (simp add: tm1_def)
  qed (use tm2 c in simp_all)
qed

lemma merge_ranges_spec:
  assumes "seq_inv s tm" "contents tm = xs @ (i, k, e) # ys" "gapped s (xs @ [(i, k, e)])" "gapped s ys" "fits s w (contents tm)"
  shows "\<exists>tm'. merge_ranges tm i = Some tm' \<and> seq_inv s tm' \<and> gapped s (contents tm') \<and> fits s w (contents tm') \<and>
    cover s (contents tm') = cover s (contents tm) \<and> fst ` set (contents tm') \<subseteq> fst ` set (contents tm)"
  using assms
proof (induction ys arbitrary: tm e)
  case Nil
  have "treemap_value tm i = Some e" using treemap_access [OF Nil(1), of i k e] by (simp add: Nil(2))
  moreover have "treemap_next tm i = Some None" using seq.tm.next_any [OF Nil(1,2)] by simp
  ultimately have "merge_ranges tm i = Some tm" by (subst merge_ranges.simps) simp
  then show ?case using Nil(1-3,5) by simp
next
  case (Cons y ys)
  obtain j ns ne where y: "y = (j, ns, ne)" by (cases y)
  have b: "off s e < 2147483648" "off s ne < 2147483648" "off s k < off s e" "off s ns < off s ne" using Cons.prems y by simp_all
  have kn: "off s k < off s ns" using ascending_off [of s xs i k e "y # ys" y] Cons.prems(1,2) y by (simp add: treemap_inv_def)
  show ?case
  proof (cases "off s ns \<le> off s e")
    case True
    let ?e = "if off s e \<le> off s ne then ne else e"
    obtain tm1 where tm1: "merge_ranges tm i = merge_ranges tm1 i" "seq_inv s tm1" "contents tm1 = xs @ (i, k, ?e) # ys"
      using merge_step(1) [OF Cons.prems(1) Cons.prems(2) [unfolded y] b(1,2) True] by blast
    have "gapped s (xs @ [(i, k, ?e)])" using Cons.prems(3) b by simp
    moreover have "gapped s ys" using Cons.prems(4) by simp
    moreover have "fits s w (contents tm1)" using Cons.prems(2,5) y by (simp add: tm1(3))
    ultimately obtain tm' where r: "merge_ranges tm1 i = Some tm'" "seq_inv s tm'" "gapped s (contents tm')" "fits s w (contents tm')"
      "cover s (contents tm') = cover s (contents tm1)" "fst ` set (contents tm') \<subseteq> fst ` set (contents tm1)"
      using Cons.IH [OF tm1(2,3)] by blast
    have u: "{off s k ..< off s ?e} = {off s k ..< off s e} \<union> {off s ns ..< off s ne}" using True kn b by auto
    have "cover s (contents tm1) = cover s (contents tm)" unfolding tm1(3) Cons.prems(2) y using u by auto
    moreover have "fst ` set (contents tm1) \<subseteq> fst ` set (contents tm)" unfolding tm1(3) Cons.prems(2) by auto
    ultimately show ?thesis using r unfolding tm1(1) by (intro exI [of _ tm']) (simp add: subset_trans)
  next
    case False
    have "merge_ranges tm i = Some tm" by (rule merge_step(2) [OF Cons.prems(1) Cons.prems(2) [unfolded y] b(1,2) False])
    moreover have "off s e < off s (fst (snd z))" if "z \<in> set (y # ys)" for z
      using that Cons.prems(4) False b(4) y by (auto dest: less_trans)
    then have "gapped s (contents tm)" using Cons.prems(3,4) kn y unfolding Cons.prems(2)
      by (simp add: y) (meson less_trans)
    ultimately show ?thesis using Cons.prems(1,5) by simp
  qed
qed

section \<open>Entering a range\<close>

definition split_at :: "u32 \<Rightarrow> u32 \<Rightarrow> (addr \<times> u32 \<times> 'v) list \<Rightarrow> (addr \<times> u32 \<times> 'v) list \<Rightarrow> bool" where
  "split_at s pos xs ys \<longleftrightarrow> (\<forall>x \<in> set xs. off s (fst (snd x)) \<le> off s pos) \<and> (\<forall>y \<in> set ys. off s pos < off s (fst (snd y)))"

lemma split_exists:
  assumes "gapped s es"
  shows "\<exists>xs ys. es = xs @ ys \<and> split_at s pos xs ys"
  using assms
proof (induction es)
  case (Cons e es)
  then obtain xs ys where es: "es = xs @ ys" "split_at s pos xs ys" by auto
  show ?case
  proof (cases "off s (fst (snd e)) \<le> off s pos")
    case True
    then show ?thesis using es by (intro exI [of _ "e # xs"] exI [of _ ys]) (simp add: split_at_def)
  next
    case False
    have "off s pos < off s (fst (snd y))" if "y \<in> set es" for y
    proof -
      have "off s (fst (snd e)) < off s (snd (snd e))" "off s (snd (snd e)) < off s (fst (snd y))" using Cons.prems that by simp_all
      then show ?thesis using False by linarith
    qed
    then show ?thesis using False by (intro exI [of _ "[]"] exI [of _ "e # es"]) (simp add: split_at_def)
  qed
qed (auto simp: split_at_def)

lemma predecessor:
  assumes "seq_inv s tm" "contents tm = xs @ ys" "split_at s pos xs ys" "off s pos < 2147483648"
  shows "(case treemap_upper_bound tm pos of None \<Rightarrow> Some (treemap_last tm) | Some a \<Rightarrow> treemap_prev tm a) = Some (last_addr xs)"
proof -
  have asc: "ascending seq_cmp (seq_window s) (xs @ ys)" using assms(1,2) by (simp add: treemap_inv_def)
  have key: "off s (fst (snd x)) < 2147483648" if "x \<in> set (xs @ ys)" for x
    using ascending_keys [OF asc, of "fst (snd x)"] that unfolding keys_of_set seq_window_off by auto
  have cx: "\<not> seq_cmp pos (fst (snd x)) < 0" if "x \<in> set xs" for x
    using seq_cmp_off [OF assms(4) key [of x]] that assms(3) by (auto simp: split_at_def not_less)
  have cy: "seq_cmp pos (fst (snd y)) < 0" if "y \<in> set ys" for y
    using seq_cmp_off [OF assms(4) key [of y]] that assms(3) by (auto simp: split_at_def)
  have "find (\<lambda>e. seq_cmp pos (fst (snd e)) < 0) xs = None" using cx unfolding find_None_iff by blast
  then have f: "treemap_upper_bound tm pos = head_addr ys"
    using seq.treemap_searches(3) [OF assms(1), of pos] assms(2,4) cy
    by (cases ys) (simp_all add: seq_window_off first_greater_def find_append)
  show ?thesis
  proof (cases ys)
    case Nil
    then show ?thesis using f treemap_last_spec [of tm] assms(2) by simp
  next
    case (Cons y zs)
    obtain a e where "y = (a, e)" by (cases y)
    then show ?thesis using f Cons treemap_prev_spec [OF assms(1), of xs a e zs] assms(2) by simp
  qed
qed

lemma insert_between:
  assumes "seq_inv s tm" "contents tm = xs @ ys" "split_at s pos xs ys" "off s pos < 2147483648"
    and "\<forall>x \<in> set xs. off s (fst (snd x)) < off s pos" "a \<notin> fst ` set (contents tm)"
  shows "\<exists>tm'. treemap_insert2 tm pos end (Some a) = Some (tm', 0, Some (Some a)) \<and> seq_inv s tm' \<and> contents tm' = xs @ (a, pos, end) # ys"
proof -
  have asc: "ascending seq_cmp (seq_window s) (xs @ ys)" using assms(1,2) by (simp add: treemap_inv_def)
  have key: "off s (fst (snd x)) < 2147483648" if "x \<in> set (xs @ ys)" for x
    using ascending_keys [OF asc, of "fst (snd x)"] that unfolding keys_of_set seq_window_off by auto
  have p: "pos \<in> seq_window s" using assms(4) by (simp add: seq_window_off)
  have "pos \<notin> set (keys_of (contents tm))"
    using assms(3,5) unfolding assms(2) keys_of_set split_at_def by auto
  then obtain tm' where tm': "treemap_insert2 tm pos end (Some a) = Some (tm', 0, Some (Some a))" "seq_inv s tm'"
    "contents tm' = ins_key seq_cmp (a, pos, end) (xs @ ys)"
    using seq.tm.ins_new [OF assms(1) p _ assms(6), of "end"] assms(2) by auto
  have "\<not> seq_cmp pos k < 0" if "k \<in> set (keys_of xs)" for k
  proof -
    obtain x where x: "x \<in> set xs" "k = fst (snd x)" using \<open>k \<in> set (keys_of xs)\<close> by (auto simp: keys_of_set)
    show ?thesis using seq_cmp_off [OF assms(4) key [of x]] x assms(5) by auto
  qed
  then have "ins_key seq_cmp (a, pos, end) (xs @ ys) = xs @ ins_key seq_cmp (a, pos, end) ys" by (intro ins_key_right) simp
  moreover have "ins_key seq_cmp (a, pos, end) ys = (a, pos, end) # ys"
  proof (cases ys)
    case (Cons y zs)
    then show ?thesis using seq_cmp_off [OF assms(4) key [of y]] assms(3) by (simp add: split_at_def)
  qed simp
  ultimately show ?thesis using tm' by simp
qed

definition entered :: "u32 \<Rightarrow> nat \<Rightarrow> nat set \<Rightarrow> (u32, u32) treemap \<Rightarrow> addr \<Rightarrow> bool" where
  "entered s w c tm i \<longleftrightarrow> seq_inv s tm \<and> fits s w (contents tm) \<and> cover s (contents tm) = c \<and>
     (\<exists>xs k e ys. contents tm = xs @ (i, k, e) # ys \<and> gapped s (xs @ [(i, k, e)]) \<and> gapped s ys)"

lemma enter_new:
  assumes "seq_inv s tm" "contents tm = xs @ ys" "split_at s pos xs ys" "gapped s (contents tm)" "fits s w (contents tm)"
    and "off s pos < off s end" "off s end \<le> w" "w < 2147483648" "a \<notin> fst ` set (contents tm)"
    and "\<forall>x \<in> set xs. off s (snd (snd x)) < off s pos"
  shows "\<exists>tm'. treemap_insert2 tm pos end (Some a) = Some (tm', 0, Some (Some a)) \<and>
    entered s w (cover s (contents tm) \<union> {off s pos ..< off s end}) tm' a \<and>
    \<not> {off s pos ..< off s end} \<subseteq> cover s (contents tm)"
proof -
  have p: "off s pos < 2147483648" using assms(6-8) by linarith
  have "off s (fst (snd x)) < off s pos" if "x \<in> set xs" for x
  proof -
    have "off s (fst (snd x)) < off s (snd (snd x))" using assms(2,4) that by (simp add: gapped_def)
    then show ?thesis using assms(10) that by (auto dest: less_trans)
  qed
  then have k: "\<forall>x \<in> set xs. off s (fst (snd x)) < off s pos" by blast
  obtain tm' where tm': "treemap_insert2 tm pos end (Some a) = Some (tm', 0, Some (Some a))" "seq_inv s tm'"
    "contents tm' = xs @ (a, pos, end) # ys" using insert_between [OF assms(1-3) p k assms(9)] by blast
  have g: "gapped s xs" "gapped s ys" "fits s w xs" "fits s w ys" using assms(2,4,5) by simp_all
  have "gapped s (xs @ [(a, pos, end)])" using g(1) assms(6-8,10) by simp
  moreover have "fits s w (contents tm')" using g assms(7) by (simp add: tm'(3))
  moreover have "cover s (contents tm') = cover s (contents tm) \<union> {off s pos ..< off s end}"
    unfolding tm'(3) assms(2) by auto
  ultimately have "entered s w (cover s (contents tm) \<union> {off s pos ..< off s end}) tm' a"
    unfolding entered_def using g(2) tm'(2,3) by blast
  moreover have "off s pos \<notin> cover s (contents tm)"
    unfolding assms(2) using assms(3,10) by (auto simp: cover_def split_at_def not_le)
  then have "\<not> {off s pos ..< off s end} \<subseteq> cover s (contents tm)" using assms(6) by auto
  ultimately show ?thesis using tm'(1) by blast
qed

lemma rbuf_enter_range_spec:
  assumes "seq_inv s tm" "gapped s (contents tm)" "fits s w (contents tm)"
    and "off s pos < off s end" "off s end \<le> w" "w < 2147483648" "a \<notin> fst ` set (contents tm)"
  shows "rbuf_enter_range tm pos end (Some a) = Some (Inl ()) \<and> {off s pos ..< off s end} \<subseteq> cover s (contents tm) \<or>
    (\<exists>tm' i. rbuf_enter_range tm pos end (Some a) = Some (Inr (tm', 0, Some i)) \<and>
      entered s w (cover s (contents tm) \<union> {off s pos ..< off s end}) tm' i \<and> \<not> {off s pos ..< off s end} \<subseteq> cover s (contents tm))"
proof -
  have p: "off s pos < 2147483648" "off s end < 2147483648" using assms(4-6) by linarith+
  obtain xs ys where sp: "contents tm = xs @ ys" "split_at s pos xs ys" using split_exists [OF assms(2)] by blast
  note it = predecessor [OF assms(1) sp p(1)]
  note new = enter_new [OF assms(1) sp assms(2-7)]
  show ?thesis
  proof (cases xs rule: rev_cases)
    case Nil
    then obtain tm' where n: "treemap_insert2 tm pos end (Some a) = Some (tm', 0, Some (Some a))"
      "entered s w (cover s (contents tm) \<union> {off s pos ..< off s end}) tm' a" "\<not> {off s pos ..< off s end} \<subseteq> cover s (contents tm)"
      using new by auto
    have "rbuf_enter_range tm pos end (Some a) = Some (Inr (tm', 0, Some a))" using it n(1) Nil by (simp add: rbuf_enter_range_def)
    then show ?thesis using n by blast
  next
    case (snoc zs z)
    obtain i rs re where z: "z = (i, rs, re)" by (cases z)
    have acc: "treemap_key tm i = Some rs" "treemap_value tm i = Some re"
      using treemap_access [OF assms(1), of i rs re] by (simp_all add: sp(1) snoc z)
    have b: "off s rs \<le> off s pos" "off s rs < off s re" "off s re < 2147483648" "off s rs < 2147483648"
      using sp snoc z assms(2) by (auto simp: split_at_def)
    have le: "LESS_EQUAL end re \<longleftrightarrow> off s end \<le> off s re" "LESS_EQUAL rs pos" "LESS_EQUAL pos re \<longleftrightarrow> off s pos \<le> off s re"
      using LESS_EQUAL_off [OF p(2) b(3)] LESS_EQUAL_off [OF b(4) p(1)] LESS_EQUAL_off [OF p(1) b(3)] b(1) by simp_all
    have l: "last_addr xs = Some i" by (simp add: snoc z)
    consider (dup) "off s end \<le> off s re" | (grow) "off s re < off s end" "off s pos \<le> off s re" | (new) "off s re < off s pos"
      using assms(4) by linarith
    then show ?thesis
    proof cases
      case dup
      then have "rbuf_enter_range tm pos end (Some a) = Some (Inl ())" using it l acc le by (simp add: rbuf_enter_range_def)
      moreover have "{off s pos ..< off s end} \<subseteq> cover s (contents tm)" using dup b(1) unfolding sp(1) snoc z by auto
      ultimately show ?thesis by blast
    next
      case grow
      let ?tm = "treemap_set_value tm i end"
      have e: "rbuf_enter_range tm pos end (Some a) = Some (Inr (?tm, 0, Some i))"
        using it l acc le grow by (simp add: rbuf_enter_range_def)
      have d: "distinct (map fst (zs @ (i, rs, re) # ys))" using assms(1) sp(1) snoc z by (simp add: treemap_inv_def)
      have c: "seq_inv s ?tm" "contents ?tm = zs @ (i, rs, end) # ys"
        using treemap_set_value_spec [OF assms(1), of i "end"] set_entry_at [OF d, of "end"] sp(1) snoc z by simp_all
      have "{off s rs ..< off s end} = {off s rs ..< off s re} \<union> {off s pos ..< off s end}" using grow b assms(4) by auto
      then have cv: "cover s (contents ?tm) = cover s (contents tm) \<union> {off s pos ..< off s end}"
        unfolding c(2) sp(1) snoc z by auto
      have g: "gapped s (zs @ [(i, rs, end)])" "gapped s ys" "fits s w (contents ?tm)"
        using assms(2,3,5) sp(1) snoc z grow b p by (simp_all add: c(2))
      have "entered s w (cover s (contents tm) \<union> {off s pos ..< off s end}) ?tm i"
        unfolding entered_def cv using c g by blast
      moreover have "off s re \<notin> cover s (contents tm)"
        using assms(2) b unfolding sp(1) snoc z by (fastforce simp: cover_def)
      then have "\<not> {off s pos ..< off s end} \<subseteq> cover s (contents tm)" using grow by auto
      ultimately show ?thesis using e by blast
    next
      case new
      have "off s (snd (snd x)) < off s pos" if "x \<in> set xs" for x
      proof (cases "x = z")
        case False
        then have "off s (snd (snd x)) < off s rs" using that assms(2) sp(1) snoc z by simp
        then show ?thesis using b(1) by linarith
      qed (use new z in simp)
      then obtain tm' where n: "treemap_insert2 tm pos end (Some a) = Some (tm', 0, Some (Some a))"
        "entered s w (cover s (contents tm) \<union> {off s pos ..< off s end}) tm' a" "\<not> {off s pos ..< off s end} \<subseteq> cover s (contents tm)"
        using enter_new [OF assms(1) sp assms(2-7)] by blast
      have "rbuf_enter_range tm pos end (Some a) = Some (Inr (tm', 0, Some a))"
        using it l acc le new assms(4) n(1) by (simp add: rbuf_enter_range_def)
      then show ?thesis using n by blast
    qed
  qed
qed

section \<open>Writing\<close>

definition ranges_ok :: "rbuf \<Rightarrow> bool" where
  "ranges_ok rb \<longleftrightarrow> seq_inv (start_pos rb) (range_map rb) \<and> gapped (start_pos rb) (contents (range_map rb)) \<and>
     fits (start_pos rb) (unat (window_size rb)) (contents (range_map rb))"

definition stored :: "rbuf \<Rightarrow> nat set" where
  "stored rb = cover (start_pos rb) (contents (range_map rb))"

lemma window_bound: "rbuf_ok rb \<Longrightarrow> unat (window_size rb) < 2147483648"
  using window_unat [of rb] by (simp add: rb_size_def rbuf_ok_def)

lemma off_end:
  assumes "rbuf_ok rb" "off (start_pos rb) pos + unat n \<le> unat (window_size rb)"
  shows "off (start_pos rb) (pos + n) = off (start_pos rb) pos + unat n"
proof -
  have "pos + n - start_pos rb = (pos - start_pos rb) + n" by simp
  moreover have "unat ((pos - start_pos rb) + n) = unat (pos - start_pos rb) + unat n"
    using assms(2) window_bound [OF assms(1)] by (subst unat_add_lem [THEN iffD1]) (simp_all add: off_def)
  ultimately show ?thesis unfolding off_def by metis
qed

lemma write_ranges:
  assumes "rbuf_ok rb" "ranges_ok rb" "0 < n" "off (start_pos rb) pos + unat n \<le> unat (window_size rb)"
    and "a \<notin> fst ` set (contents (range_map rb))"
  shows "rbuf_enter_range (range_map rb) pos (pos + n) (Some a) = Some (Inl ()) \<and>
      {off (start_pos rb) pos ..< off (start_pos rb) pos + unat n} \<subseteq> stored rb \<or>
    (\<exists>tm1 i tm. rbuf_enter_range (range_map rb) pos (pos + n) (Some a) = Some (Inr (tm1, 0, Some i)) \<and> merge_ranges tm1 i = Some tm \<and>
      ranges_ok (rb\<lparr>range_map := tm\<rparr>) \<and>
      \<not> {off (start_pos rb) pos ..< off (start_pos rb) pos + unat n} \<subseteq> stored rb \<and>
      stored (rb\<lparr>range_map := tm\<rparr>) = stored rb \<union> {off (start_pos rb) pos ..< off (start_pos rb) pos + unat n})"
proof -
  let ?s = "start_pos rb" and ?w = "unat (window_size rb)"
  have r: "seq_inv ?s (range_map rb)" "gapped ?s (contents (range_map rb))" "fits ?s ?w (contents (range_map rb))"
    using assms(2) by (simp_all add: ranges_ok_def)
  note e = off_end [OF assms(1,4)]
  have b: "off ?s pos < off ?s (pos + n)" "off ?s (pos + n) \<le> ?w" using assms(3,4) e by (simp_all add: word_less_nat_alt)
  have ws: "window_size (rb\<lparr>range_map := tm\<rparr>) = window_size rb" for tm by (simp add: window_size_def)
  from rbuf_enter_range_spec [OF r b window_bound [OF assms(1)] assms(5)] show ?thesis
  proof (elim disjE exE conjE)
    fix tm1 i
    assume en: "rbuf_enter_range (range_map rb) pos (pos + n) (Some a) = Some (Inr (tm1, 0, Some i))"
      and "entered ?s ?w (cover ?s (contents (range_map rb)) \<union> {off ?s pos ..< off ?s (pos + n)}) tm1 i"
      and ns: "\<not> {off ?s pos ..< off ?s (pos + n)} \<subseteq> cover ?s (contents (range_map rb))"
    then obtain xs k f ys where t: "seq_inv ?s tm1" "fits ?s ?w (contents tm1)"
      "cover ?s (contents tm1) = cover ?s (contents (range_map rb)) \<union> {off ?s pos ..< off ?s (pos + n)}"
      "contents tm1 = xs @ (i, k, f) # ys" "gapped ?s (xs @ [(i, k, f)])" "gapped ?s ys" unfolding entered_def by blast
    obtain tm where "merge_ranges tm1 i = Some tm" "seq_inv ?s tm" "gapped ?s (contents tm)" "fits ?s ?w (contents tm)"
      "cover ?s (contents tm) = cover ?s (contents tm1)"
      using merge_ranges_spec [OF t(1,4,5,6,2)] by blast
    then show ?thesis using en t(3) e ns by (simp add: ranges_ok_def stored_def ws)
  qed (use e in \<open>simp add: stored_def\<close>)
qed

lemma rbuf_write_spec:
  assumes "rbuf_ok rb" "ranges_ok rb" "0 < n" "length data = unat n"
    and "off (start_pos rb) pos + unat n \<le> unat (window_size rb)"
    and "a \<notin> fst ` set (contents (range_map rb))" "\<forall>i. \<exists>b. balloc i = Some b \<and> length b = 131072"
  defines "new \<equiv> {off (start_pos rb) pos ..< off (start_pos rb) pos + unat n}"
  shows "\<exists>rb' ret. rbuf_write rb pos data n (Some a) balloc = Some (rb', ret) \<and> ret = (if new \<subseteq> stored rb then 1 else 0) \<and>
    rbuf_ok rb' \<and> ranges_ok rb' \<and> start_pos rb' = start_pos rb \<and> stored rb' = stored rb \<union> new \<and>
    (if ret = 1 then rb' = rb else holds_bytes rb' pos data \<and> (\<exists>tm. written (rb\<lparr>range_map := tm\<rparr>) pos data rb'))"
proof -
  let ?s = "start_pos rb"
  have fit: "\<not> n > window_size rb" "\<not> pos - ?s > window_size rb" "\<not> pos + n - ?s > window_size rb"
    using assms(5) off_end [OF assms(1,5)] by (simp_all add: word_less_nat_alt off_def)
  have L: "lin rb pos + unat n \<le> rb_size rb" by (rule write_in_window [OF assms(1) fit(2,3,1)])
  from write_ranges [OF assms(1,2,3,5,6)] show ?thesis unfolding new_def [symmetric]
  proof (elim disjE exE conjE)
    assume "rbuf_enter_range (range_map rb) pos (pos + n) (Some a) = Some (Inl ())" "new \<subseteq> stored rb"
    then show ?thesis using fit assms(1,2) by (intro exI [of _ rb] exI [of _ 1]) (auto simp: rbuf_write_def)
  next
    fix tm1 i tm
    assume t: "rbuf_enter_range (range_map rb) pos (pos + n) (Some a) = Some (Inr (tm1, 0, Some i))" "merge_ranges tm1 i = Some tm"
      "ranges_ok (rb\<lparr>range_map := tm\<rparr>)" "\<not> new \<subseteq> stored rb" "stored (rb\<lparr>range_map := tm\<rparr>) = stored rb \<union> new"
    let ?rb = "rb\<lparr>range_map := tm\<rparr>"
    have "length b = 131072" if "balloc i = Some b" for i b using assms(7) that by (metis option.inject)
    then obtain rb' ok where c: "copy_to_blocks ?rb balloc pos data n = Some (rb', ok)" "written ?rb pos data rb'" "ok \<longrightarrow> holds_bytes rb' pos data"
      "(\<forall>i. balloc i \<noteq> None) \<longrightarrow> ok"
      using copy_to_blocks_written [of ?rb pos n data balloc] assms(1,4) L by auto
    have ok: "ok" using c(4) assms(7) by (metis option.distinct(1))
    have f: "rbuf_ok rb'" "rb' = ?rb\<lparr>blocks := blocks rb'\<rparr>" using c(2) by (simp_all add: written_def)
    have g: "start_pos rb' = ?s" "range_map rb' = tm" "window_size rb' = window_size ?rb" by (subst f(2), simp add: window_size_def)+
    have "ranges_ok rb'" "stored rb' = stored ?rb" using t(3) g by (simp_all add: ranges_ok_def stored_def)
    then show ?thesis using fit t c ok f(1) g(1)
      by (intro exI [of _ rb'] exI [of _ 0]) (auto simp: rbuf_write_def)
  qed
qed

text \<open>
  C9. A write of data that fits into the window, with memory at hand, always returns: 1 when all of the
  positions were written before, else 0. It adds exactly the written positions to the set of stored
  positions, and the ranges stay disjoint with gaps between them, inside the window.
\<close>

theorem rbuf_write_refines:
  assumes "rbuf_ok rb" "ranges_ok rb" "0 < n" "length data = unat n"
    and "off (start_pos rb) pos + unat n \<le> unat (window_size rb)"
    and "a \<notin> fst ` set (contents (range_map rb))" "\<forall>i. \<exists>b. balloc i = Some b \<and> length b = 131072"
  shows "\<exists>rb' ret. rbuf_write rb pos data n (Some a) balloc = Some (rb', ret) \<and>
    ret = (if {off (start_pos rb) pos ..< off (start_pos rb) pos + unat n} \<subseteq> stored rb then 1 else 0) \<and>
    rbuf_ok rb' \<and> ranges_ok rb' \<and> start_pos rb' = start_pos rb \<and>
    stored rb' = stored rb \<union> {off (start_pos rb) pos ..< off (start_pos rb) pos + unat n}"
  using rbuf_write_spec [OF assms] by (auto split: if_splits)

lemma sample_ranges:
  "rbuf_ok sample_rb" "ranges_ok sample_rb" "stored sample_rb = {}" "start_pos sample_rb = 0" "contents (range_map sample_rb) = []"
  "unat (window_size sample_rb) = 262144"
proof -
  have m: "range_map sample_rb = treemap_init 4 4 seq_cmp" "start_pos sample_rb = 0" "blocks_count sample_rb = 2"
    by (simp_all add: sample_rb_def rbuf_init_def)
  then show c: "contents (range_map sample_rb) = []" using treemap_init_inv(2) [of 4 4 seq_cmp] by simp
  have "seq_inv 0 (range_map sample_rb)" unfolding m(1) by (rule treemap_init_inv)
  then show "ranges_ok sample_rb" using m c by (simp add: ranges_ok_def)
  show "stored sample_rb = {}" using c by (simp add: stored_def)
  show "rbuf_ok sample_rb" by (simp add: sample_rb_def rbuf_init_def rbuf_ok_def)
  show "start_pos sample_rb = 0" by (rule m(2))
  show "unat (window_size sample_rb) = 262144"
    using m by (simp add: window_size_def RBUF_BLOCK_SIZE_def RBUF_BLOCK_BIT_def push_bit_eq_mult)
qed

theorem rbuf_write_refines_witness:
  "\<exists>rb'. rbuf_write sample_rb 131071 [7, 8, 9] 3 (Some 1) sample_alloc = Some (rb', 0) \<and> stored rb' = {131071 ..< 131074}"
  using rbuf_write_refines [of sample_rb 3 "[7, 8, 9]" 131071 1 sample_alloc]
  by (auto simp: sample_ranges sample_alloc_def off_def)

end
