(* ===== verification/RBufferStream.thy ===== *)
theory RBufferStream
  imports RBufferRanges
begin

text \<open>
  A stream of bytes through a receive buffer: segments arrive in any order, more than once, or behind the
  window, the readable bytes are taken from the front, and what is taken is the stream.
\<close>

section \<open>The front of the window\<close>

lemma off_shift: "unat r \<le> off s p \<Longrightarrow> off (s + r) p = off s p - unat r"
proof -
  assume a: "unat r \<le> off s p"
  have "p - (s + r) = (p - s) - r" by simp
  moreover have "unat ((p - s) - r) = unat (p - s) - unat r" by (rule unat_sub) (use a in \<open>simp add: off_def word_le_nat_alt\<close>)
  ultimately show ?thesis unfolding off_def by metis
qed

lemma seq_window_shift: "unat r \<le> off s p \<Longrightarrow> p \<in> seq_window s \<Longrightarrow> p \<in> seq_window (s + r)"
  by (simp add: seq_window_off off_shift)

lemma seq_inv_shift:
  assumes "seq_inv s tm" "\<forall>x \<in> set (contents tm). unat r \<le> off s (fst (snd x))"
  shows "seq_inv (s + r) tm"
  using assms seq_window_shift [of r s] by (fastforce simp: treemap_inv_def ascending_def keys_of_set)

lemma gapped_shift:
  assumes "gapped s es" "\<forall>x \<in> set es. unat r \<le> off s (fst (snd x))"
  shows "gapped (s + r) es"
proof -
  have e: "unat r \<le> off s (snd (snd x))" if "x \<in> set es" for x using assms that by (fastforce simp: gapped_def)
  have "sorted_wrt (\<lambda>x y. off (s + r) (snd (snd x)) < off (s + r) (fst (snd y))) es"
    by (rule sorted_wrt_mono_rel [of es "\<lambda>x y. off s (snd (snd x)) < off s (fst (snd y))"])
      (use assms e in \<open>auto simp: gapped_def off_shift intro!: diff_less_mono\<close>)
  then show ?thesis using assms e by (auto simp: gapped_def off_shift intro!: diff_less_mono)
qed

lemma cover_shift:
  assumes "gapped s es" "\<forall>x \<in> set es. unat r \<le> off s (fst (snd x))"
  shows "cover (s + r) es = {i. i + unat r \<in> cover s es}"
proof -
  have e: "unat r \<le> off s (snd (snd x))" if "x \<in> set es" for x using assms that by (fastforce simp: gapped_def)
  have "i \<in> {off (s + r) (fst (snd x))..<off (s + r) (snd (snd x))} \<longleftrightarrow> i + unat r \<in> {off s (fst (snd x))..<off s (snd (snd x))}"
    if "x \<in> set es" for i x
    using e [OF that] assms(2) that by (auto simp: off_shift)
  then show ?thesis unfolding cover_def by blast
qed

text \<open>The entries are the ranges of a buffer that start at the beginning of the window, and those behind a gap.\<close>

lemma front_cases:
  assumes "gapped s es"
  obtains (front) a e ys where "es = (a, s, e) # ys" "0 < off s e" "\<forall>y \<in> set ys. off s e < off s (fst (snd y))"
    | (gap) "\<forall>x \<in> set es. 0 < off s (fst (snd x))"
proof (cases es)
  case (Cons x ys)
  obtain a k e where x: "x = (a, k, e)" by (cases x)
  have g: "off s k < off s e" "\<forall>y \<in> set ys. off s e < off s (fst (snd y))" using assms by (simp_all add: Cons x)
  show thesis
  proof (cases "k = s")
    case True
    then show thesis using front [of a e ys] g by (simp add: Cons x off_def)
  next
    case False
    then have "0 < off s k" by (simp add: off_def unat_gt_0)
    then show thesis using gap g by (fastforce simp: Cons x)
  qed
qed (use gap in simp)

definition first_map :: "rbuf \<Rightarrow> rbuf" where
  "first_map rb = rb\<lparr>range_map := fst (treemap_first (range_map rb))\<rparr>"

lemma first_map_same:
  assumes "ranges_ok rb"
  shows "ranges_ok (first_map rb)" "stored (first_map rb) = stored rb" "rbuf_ok (first_map rb) = rbuf_ok rb" "get_byte (first_map rb) p = get_byte rb p"
    "contents (range_map (first_map rb)) = contents (range_map rb)" "start_pos (first_map rb) = start_pos rb" "lin (first_map rb) p = lin rb p"
    "rb_size (first_map rb) = rb_size rb" "window_size (first_map rb) = window_size rb"
  using treemap_first_spec [of seq_cmp "seq_window (start_pos rb)" "range_map rb"] assms
  by (simp_all add: first_map_def ranges_ok_def stored_def window_size_def)

lemma readable_bytes:
  assumes "ranges_ok rb" "start_pos rb = s"
  shows "contents (range_map rb) = (a, s, e) # ys \<Longrightarrow> rbuf_readable_bytes rb = Some (first_map rb, e - s)"
    and "\<forall>x \<in> set (contents (range_map rb)). 0 < off s (fst (snd x)) \<Longrightarrow> rbuf_readable_bytes rb = Some (first_map rb, 0)"
proof -
  let ?m = "range_map rb"
  have inv: "seq_inv s ?m" using assms by (simp add: ranges_ok_def)
  obtain tm h where f: "treemap_first ?m = (tm, h)" by (cases "treemap_first ?m")
  have t: "h = head_addr (contents ?m)" "seq_inv s tm" "contents tm = contents ?m" using treemap_first_spec [OF inv] f by simp_all
  note acc = treemap_access [OF t(2)]
  show "rbuf_readable_bytes rb = Some (first_map rb, e - s)" if "contents ?m = (a, s, e) # ys"
    using that f t(1) acc [of a s e] t(3) assms(2) by (simp add: rbuf_readable_bytes_def first_map_def)
  show "rbuf_readable_bytes rb = Some (first_map rb, 0)" if g: "\<forall>x \<in> set (contents ?m). 0 < off s (fst (snd x))"
  proof (cases "contents ?m")
    case Nil
    then show ?thesis using f t(1) by (simp add: rbuf_readable_bytes_def first_map_def)
  next
    case (Cons x ys)
    obtain b k e where x: "x = (b, k, e)" by (cases x)
    have "k \<noteq> s" using g by (auto simp: Cons x off_def)
    then show ?thesis using f t(1) acc [of b k e] t(3) Cons x assms(2) by (simp add: rbuf_readable_bytes_def first_map_def)
  qed
qed

section \<open>Releasing\<close>

text \<open>The bytes behind the released ones stay where they are found.\<close>

definition shifted :: "rbuf \<Rightarrow> nat \<Rightarrow> rbuf \<Rightarrow> bool" where
  "shifted rb r rb' \<longleftrightarrow> rbuf_ok rb' \<and> start_pos rb' = start_pos rb + of_nat r \<and> range_map rb' = range_map rb \<and>
     blocks_count rb' = blocks_count rb \<and> rb_write_pos rb' = rb_write_pos rb \<and>
     (\<forall>p. r \<le> off (start_pos rb) p \<longrightarrow> lin rb p < rb_size rb \<longrightarrow> lin rb' p < rb_size rb' \<and> get_byte rb' p = get_byte rb p)"

lemma shifted_trans:
  assumes "shifted rb r1 rb1" "shifted rb1 r2 rb2" "r1 + r2 < 4294967296"
  shows "shifted rb (r1 + r2) rb2"
proof -
  have u: "unat (of_nat r1 :: u32) = r1" using assms(3) by (simp add: unat_of_nat)
  have "r2 \<le> off (start_pos rb1) p" if "r1 + r2 \<le> off (start_pos rb) p" for p
    using off_shift [of "of_nat r1" "start_pos rb" p] that u assms(1) by (simp add: shifted_def)
  then show ?thesis using assms(1,2) unfolding shifted_def by (auto simp: add.assoc)
qed

lemma get_byte_cong:
  "blocks rb' ! wrap rb' (lin rb' p div 131072) = blocks rb ! wrap rb (lin rb p div 131072) \<Longrightarrow> lin rb' p mod 131072 = lin rb p mod 131072 \<Longrightarrow>
     get_byte rb' p = get_byte rb p"
  by (simp add: get_byte_def cong: option.case_cong)

definition next_block :: "rbuf \<Rightarrow> rbuf" where
  "next_block rb = rb\<lparr>blocks := (blocks rb)[unat (start_block rb) := None],
     start_block := (if start_block rb + 1 < blocks_count rb then start_block rb + 1 else 0),
     start_pos := start_pos rb + (RBUF_BLOCK_SIZE - (start_pos rb AND RBUF_BLOCK_MASK))\<rparr>"

lemma block_rest: "unat (RBUF_BLOCK_SIZE - (p AND RBUF_BLOCK_MASK)) = 131072 - unat p mod 131072"
  using block_rest_unat [of p] mask_unat [of p] by simp

lemma unat_add_mod: "unat (a + b :: u32) mod 131072 = (unat a mod 131072 + unat b) mod 131072"
  by (simp add: unat_word_ariths mod_mod_cancel mod_simps)

lemma next_block_lin:
  assumes "131072 - unat (start_pos rb) mod 131072 \<le> off (start_pos rb) p"
  shows "lin (next_block rb) p + 131072 = lin rb p"
proof -
  let ?r = "RBUF_BLOCK_SIZE - (start_pos rb AND RBUF_BLOCK_MASK)"
  have r: "unat ?r = 131072 - unat (start_pos rb) mod 131072" by (rule block_rest)
  have "unat (start_pos rb + ?r) mod 131072 = 0" unfolding unat_add_mod r by simp
  moreover have "off (start_pos rb + ?r) p = off (start_pos rb) p - unat ?r" using assms r by (intro off_shift) simp
  moreover have "unat (start_pos rb) mod 131072 < 131072" by simp
  ultimately show ?thesis using assms r by (simp add: lin_def next_block_def off_def)
qed

lemma next_block_wrap:
  assumes "rbuf_ok rb" "0 < k" "k < unat (blocks_count rb)"
  shows "wrap (next_block rb) (k - 1) = wrap rb k" "wrap rb k \<noteq> unat (start_block rb)"
proof -
  have b: "unat (start_block rb) < unat (blocks_count rb)" "unat (blocks_count rb) \<le> 16383"
    using assms(1) by (simp_all add: rbuf_ok_def word_less_nat_alt)
  then have "unat (start_block rb + 1) = unat (start_block rb) + 1" by (simp add: unat_word_ariths)
  then show "wrap (next_block rb) (k - 1) = wrap rb k" using assms(2,3) b by (auto simp: wrap_def next_block_def word_less_nat_alt)
  show "wrap rb k \<noteq> unat (start_block rb)" using assms(2,3) b by (auto simp: wrap_def)
qed

lemma next_block_shifted:
  assumes "rbuf_ok rb" "r = 131072 - unat (start_pos rb) mod 131072"
  shows "shifted rb r (next_block rb)"
proof -
  have b: "unat (start_block rb) < unat (blocks_count rb)" "unat (blocks_count rb) \<le> 16383" "length (blocks rb) = unat (blocks_count rb)"
    using assms(1) by (simp_all add: rbuf_ok_def word_less_nat_alt)
  have "set ((blocks rb)[unat (start_block rb) := None]) \<subseteq> insert None (set (blocks rb))" by (rule set_update_subset_insert)
  then have ok: "rbuf_ok (next_block rb)" using assms(1) by (auto simp: rbuf_ok_def next_block_def word_less_nat_alt)
  have s: "RBUF_BLOCK_SIZE - (start_pos rb AND RBUF_BLOCK_MASK) = of_nat r" unfolding assms(2) block_rest [symmetric] by simp
  have nb: "blocks (next_block rb) = (blocks rb)[unat (start_block rb) := None]" by (simp add: next_block_def)
  have "lin (next_block rb) p < rb_size (next_block rb) \<and> get_byte (next_block rb) p = get_byte rb p"
    if "r \<le> off (start_pos rb) p" "lin rb p < rb_size rb" for p
  proof -
    have l: "lin (next_block rb) p + 131072 = lin rb p" using next_block_lin [of rb p] that(1) assms(2) by simp
    define k where "k = lin rb p div 131072"
    have k: "0 < k" "k < unat (blocks_count rb)" using l that(2) by (auto simp: k_def rb_size_def div_less_iff_less_mult)
    have "lin rb p = lin (next_block rb) p + 131072" using l by simp
    then have d: "lin (next_block rb) p div 131072 = k - 1" "lin (next_block rb) p mod 131072 = lin rb p mod 131072" by (simp_all add: k_def)
    have "get_byte (next_block rb) p = get_byte rb p"
      using next_block_wrap [OF assms(1) k] d by (intro get_byte_cong) (simp_all add: k_def [symmetric] nb)
    then show ?thesis using l that(2) by (simp add: rb_size_def next_block_def)
  qed
  then show ?thesis using ok s by (simp add: shifted_def) (simp add: next_block_def)
qed

lemma inside_block_shifted:
  assumes "rbuf_ok rb" "r < 131072 - unat (start_pos rb) mod 131072"
  shows "shifted rb r (rb\<lparr>start_pos := start_pos rb + of_nat r\<rparr>)"
proof -
  let ?rb = "rb\<lparr>start_pos := start_pos rb + of_nat r\<rparr>"
  have u: "unat (of_nat r :: u32) = r" using assms(2) by (simp add: unat_of_nat)
  have m: "unat (start_pos rb + of_nat r) mod 131072 = unat (start_pos rb) mod 131072 + r"
    unfolding unat_add_mod u using assms(2) by simp
  have "lin ?rb p = lin rb p" if "r \<le> off (start_pos rb) p" for p
    using off_shift [of "of_nat r" "start_pos rb" p] that m u by (simp add: lin_def off_def)
  then have "lin ?rb p = lin rb p \<and> get_byte ?rb p = get_byte rb p" if "r \<le> off (start_pos rb) p" for p
    using that get_byte_cong [of ?rb p rb] by (simp add: wrap_def)
  then show ?thesis using assms(1) by (simp add: shifted_def rbuf_ok_def rb_size_def)
qed

lemma release_blocks_shifted:
  assumes "rbuf_ok rb"
  shows "\<exists>rb'. release_blocks rb r = Some rb' \<and> shifted rb (unat r) rb'"
  using assms
proof (induction rb r rule: release_blocks.induct)
  case (1 rb r)
  let ?rest = "RBUF_BLOCK_SIZE - (start_pos rb AND RBUF_BLOCK_MASK)"
  have b: "unat (start_block rb) < length (blocks rb)" using 1(2) by (simp add: rbuf_ok_def word_less_nat_alt)
  note rest = block_rest [of "start_pos rb"]
  consider (nothing) "r = 0" | (block) "0 < r" "?rest \<le> r" | (inside) "0 < r" "\<not> ?rest \<le> r" by (cases "r = 0") (auto simp: word_neq_0_conv)
  then show ?case
  proof cases
    case nothing
    then show ?thesis using 1(2) inside_block_shifted [of rb 0] by (subst release_blocks.simps) simp
  next
    case block
    have s: "shifted rb (unat ?rest) (next_block rb)" using next_block_shifted [OF 1(2) rest] by simp
    have e: "release_blocks rb r = release_blocks (next_block rb) (r - ?rest)" using block b by (subst release_blocks.simps) (simp add: next_block_def Let_def)
    obtain rb' where "release_blocks (next_block rb) (r - ?rest) = Some rb'" "shifted (next_block rb) (unat (r - ?rest)) rb'"
      using 1(1) [OF block(1) b refl block(2)] s by (auto simp: next_block_def shifted_def)
    moreover have "unat ?rest + unat (r - ?rest) = unat r" using block(2) by (simp add: unat_sub word_le_nat_alt)
    moreover have "unat r < 4294967296" using unsigned_less [of r] by simp
    ultimately show ?thesis using shifted_trans [OF s] e by metis
  next
    case inside
    then show ?thesis using inside_block_shifted [OF 1(2), of "unat r"] b rest
      by (subst release_blocks.simps) (simp add: word_le_nat_alt Let_def)
  qed
qed

lemma shifted_window:
  assumes "shifted rb r rb'" "rbuf_ok rb" "k \<le> unat (window_size rb)" "r < k"
  shows "k - r \<le> unat (window_size rb')"
proof -
  let ?p = "start_pos rb + of_nat (k - 1)"
  have k: "k - 1 < 4294967296" using assms(3) window_bound [OF assms(2)] by simp
  have o: "off (start_pos rb) ?p = k - 1" using k by (simp add: off_def unat_of_nat)
  have "lin rb ?p < rb_size rb" using o assms(3,4) window_unat [OF assms(2)] by (simp add: lin_def off_def)
  then have l: "lin rb' ?p < rb_size rb'" using assms(1,4) o by (simp add: shifted_def)
  have s: "start_pos rb' = start_pos rb + of_nat r" "rbuf_ok rb'" using assms(1) by (simp_all add: shifted_def)
  have "off (start_pos rb') ?p = k - 1 - r"
    unfolding s(1) using o assms(4) k by (subst off_shift) (simp_all add: unat_of_nat)
  then show ?thesis using l window_unat [OF s(2)] assms(4) by (simp add: lin_def off_def)
qed

text \<open>The map of ranges without the first \<open>r\<close> positions.\<close>

definition cut :: "u32 \<Rightarrow> u32 \<Rightarrow> nat set \<Rightarrow> nat \<Rightarrow> (u32, u32) treemap \<Rightarrow> bool" where
  "cut s r c w tm \<longleftrightarrow> seq_inv s tm \<and> gapped s (contents tm) \<and> fits s w (contents tm) \<and>
     (\<forall>x \<in> set (contents tm). unat r \<le> off s (fst (snd x))) \<and> cover s (contents tm) = c - {..<unat r}"

lemma cutI:
  assumes "seq_inv s tm" "contents tm = es" "gapped s es" "fits s w es" "\<forall>x \<in> set es. unat r \<le> off s (fst (snd x))" "cover s es = c - {..<unat r}"
  shows "cut s r c w tm"
  using assms by (simp add: cut_def)

lemma delete_front:
  assumes "seq_inv s m" "contents m = (b, s, e) # ys" "\<forall>y \<in> set ys. 0 < off s (fst (snd y))"
  shows "\<exists>tm ret. treemap_delete m s = Some (tm, ret) \<and> seq_inv s tm \<and> contents tm = ys"
proof -
  have "s \<in> seq_window s" by (simp add: seq_window_off off_def)
  moreover have "del_key s ((b, s, e) # ys) = ys" using assms(3) by (auto simp: del_key_def off_def intro!: filter_True)
  ultimately show ?thesis using seq.tm.del_any [OF assms(1)] assms(2) by fastforce
qed

lemma release_gap:
  assumes "ranges_ok rb" "\<forall>x \<in> set (contents (range_map rb)). 0 < off (start_pos rb) (fst (snd x))"
  shows "\<exists>tm. rbuf_release rb 0 (Some a) = release_blocks ((first_map rb)\<lparr>range_map := tm\<rparr>) 0 \<and>
    cut (start_pos rb) 0 (stored rb) (unat (window_size rb)) tm"
proof -
  let ?s = "start_pos rb" and ?m = "range_map (first_map rb)"
  note same = first_map_same [OF assms(1)]
  have inv: "seq_inv ?s ?m" using same(1,6) by (simp add: ranges_ok_def)
  have "?s \<in> seq_window ?s" by (simp add: seq_window_off off_def)
  moreover have "del_key ?s (contents ?m) = contents (range_map rb)"
    unfolding del_key_def same(5) by (rule filter_True) (use assms(2) in \<open>auto simp: off_def\<close>)
  ultimately obtain tm ret where t: "treemap_delete ?m ?s = Some (tm, ret)" "seq_inv ?s tm" "contents tm = contents (range_map rb)"
    using seq.tm.del_any [OF inv] by fastforce
  have "cut ?s 0 (stored rb) (unat (window_size rb)) tm" using t(2,3) assms(1) by (simp add: cut_def stored_def ranges_ok_def)
  then show ?thesis using readable_bytes(2) [OF assms(1) refl assms(2)] t(1) same(6) by (auto simp: rbuf_release_def)
qed

lemma release_front:
  assumes "ranges_ok rb" "contents (range_map rb) = (b, start_pos rb, e) # ys" "r \<le> e - start_pos rb" "a \<notin> fst ` set ys"
  shows "\<exists>tm. rbuf_release rb r (Some a) = release_blocks ((first_map rb)\<lparr>range_map := tm\<rparr>) r \<and>
    cut (start_pos rb) r (stored rb) (unat (window_size rb)) tm"
proof -
  let ?s = "start_pos rb" and ?rb = "first_map rb" and ?w = "unat (window_size rb)"
  let ?k = "?s + r" and ?m = "fst (treemap_first (range_map ?rb))"
  note same = first_map_same [OF assms(1)] and rd = readable_bytes(1) [OF assms(1) refl assms(2)]
  have inv: "seq_inv ?s (range_map ?rb)" using same(1,6) by (simp add: ranges_ok_def)
  have g: "gapped ?s ys" "fits ?s ?w ys" "off ?s e < 2147483648" "off ?s e \<le> ?w" "\<forall>y \<in> set ys. off ?s e < off ?s (fst (snd y))"
    using assms(1) by (simp_all add: ranges_ok_def assms(2))
  then have p: "\<forall>y \<in> set ys. 0 < off ?s (fst (snd y))" by force
  have c: "stored rb = {0..<off ?s e} \<union> cover ?s ys" by (simp add: stored_def assms(2)) (simp add: off_def)
  have d: "off ?s e \<le> i" if "i \<in> cover ?s ys" for i using that g(5) by (fastforce simp: cover_def)
  show ?thesis
  proof (cases "r = e - ?s")
    case True
    obtain tm ret where t: "treemap_delete (range_map ?rb) ?s = Some (tm, ret)" "seq_inv ?s tm" "contents tm = ys"
      using delete_front [OF inv _ p] same(5) assms(2) by auto
    have "cut ?s r (stored rb) ?w tm" using t g c d True by (intro cutI [OF _ t(3)]) (fastforce simp: off_def)+
    then show ?thesis using rd t(1) True same(6) by (auto simp: rbuf_release_def)
  next
    case False
    have lt: "unat r < off ?s e" using assms(3) False by (metis le_neq_implies_less off_def unsigned_word_eqI word_le_nat_alt)
    have m: "snd (treemap_first (range_map ?rb)) = Some b" "seq_inv ?s ?m" "contents ?m = (b, ?s, e) # ys"
      using treemap_first_spec [OF inv] same(5) by (simp_all add: assms(2))
    obtain t ret where t: "treemap_delete ?m ?s = Some (t, ret)" "seq_inv ?s t" "contents t = ys" using delete_front [OF m(2,3) p] by blast
    have k: "off ?s ?k = unat r" "?k \<in> seq_window ?s" using lt g(3) by (simp_all add: off_def seq_window_off)
    have lt_ys: "seq_cmp ?k (fst (snd y)) < 0" if "y \<in> set ys" for y
      using seq_cmp_off [of ?s ?k "fst (snd y)"] that g(1,5) k lt by (fastforce simp: seq_window_off gapped_def)
    have "?k \<notin> set (keys_of ys)" using g(5) k(1) lt by (auto simp: keys_of_set)
    then obtain t' where t': "treemap_insert2 t ?k e (Some a) = Some (t', 0, Some (Some a))" "seq_inv ?s t'" "contents t' = ins_key seq_cmp (a, ?k, e) ys"
      using seq.tm.ins_new [OF t(2) k(2), of a e] t(3) assms(4) by auto
    have c': "contents t' = (a, ?k, e) # ys" unfolding t'(3) using lt_ys by (cases ys) auto
    have "cut ?s r (stored rb) ?w t'" using t'(2) g c d k(1) lt by (intro cutI [OF _ c']) fastforce+
    moreover have "rbuf_release rb r (Some a) = release_blocks (?rb\<lparr>range_map := t'\<rparr>) r"
      using rd assms(3) False t(1) t'(1) m(1) same(6) treemap_access(2) [OF m(2), of b ?s e] m(3)
      by (simp add: rbuf_release_def treemap_insert_def split_beta)
    ultimately show ?thesis by blast
  qed
qed

lemma release_map:
  assumes "ranges_ok rb" "rbuf_readable_bytes rb = Some (rb1, n)" "r \<le> n" "a \<notin> fst ` set (contents (range_map rb))"
  shows "\<exists>tm. rbuf_release rb r (Some a) = release_blocks ((first_map rb)\<lparr>range_map := tm\<rparr>) r \<and>
    cut (start_pos rb) r (stored rb) (unat (window_size rb)) tm"
proof -
  have "gapped (start_pos rb) (contents (range_map rb))" using assms(1) by (simp add: ranges_ok_def)
  then show ?thesis
  proof (cases rule: front_cases)
    case (front b e ys)
    then show ?thesis using release_front [OF assms(1) front(1), of r a] readable_bytes(1) [OF assms(1) refl front(1)] assms(2-4) by auto
  next
    case gap
    then show ?thesis using release_gap [OF assms(1)] readable_bytes(2) [OF assms(1) refl gap] assms(2,3) by auto
  qed
qed

lemma stored_bound: "ranges_ok rb \<Longrightarrow> i \<in> stored rb \<Longrightarrow> i < unat (window_size rb)"
  by (fastforce simp: ranges_ok_def stored_def cover_def fits_def)

lemma pos_in_window:
  assumes "rbuf_ok rb" "i < unat (window_size rb)"
  shows "off (start_pos rb) (start_pos rb + of_nat i) = i" "lin rb (start_pos rb + of_nat i) < rb_size rb"
proof -
  have "i < 4294967296" using assms(2) window_bound [OF assms(1)] by simp
  then show "off (start_pos rb) (start_pos rb + of_nat i) = i" by (simp add: off_def unat_of_nat)
  then show "lin rb (start_pos rb + of_nat i) < rb_size rb" using assms(2) window_unat [OF assms(1)] by (simp add: lin_def off_def)
qed

lemma rbuf_release_spec:
  assumes "rbuf_ok rb" "ranges_ok rb" "rbuf_readable_bytes rb = Some (rb1, n)" "r \<le> n" "a \<notin> fst ` set (contents (range_map rb))"
  shows "\<exists>rb'. rbuf_release rb r (Some a) = Some rb' \<and> rbuf_ok rb' \<and> ranges_ok rb' \<and> start_pos rb' = start_pos rb + r \<and>
    rb_write_pos rb' = rb_write_pos rb \<and> stored rb' = {i. i + unat r \<in> stored rb} \<and>
    (\<forall>i \<in> stored rb'. get_byte rb' (start_pos rb' + of_nat i) = get_byte rb (start_pos rb + of_nat (unat r + i)))"
proof -
  obtain tm where tm: "rbuf_release rb r (Some a) = release_blocks ((first_map rb)\<lparr>range_map := tm\<rparr>) r"
    "cut (start_pos rb) r (stored rb) (unat (window_size rb)) tm" using release_map [OF assms(2-5)] by blast
  let ?q = "(first_map rb)\<lparr>range_map := tm\<rparr>" and ?s = "start_pos rb"
  have q: "rbuf_ok ?q" "start_pos ?q = ?s" "window_size ?q = window_size rb" "lin ?q p = lin rb p" "rb_size ?q = rb_size rb" "get_byte ?q p = get_byte rb p" for p
    using assms(1) by (simp_all add: first_map_def window_size_def)
  obtain rb' where rb': "release_blocks ?q r = Some rb'" "shifted ?q (unat r) rb'" using release_blocks_shifted [OF q(1)] by blast
  have s: "start_pos rb' = ?s + r" "range_map rb' = tm" "rbuf_ok rb'" "rb_write_pos rb' = rb_write_pos ?q" using rb'(2) q(2) by (simp_all add: shifted_def)
  have t: "seq_inv ?s tm" "gapped ?s (contents tm)" "\<forall>x \<in> set (contents tm). unat r \<le> off ?s (fst (snd x))"
    "fits ?s (unat (window_size rb)) (contents tm)" "cover ?s (contents tm) = stored rb - {..<unat r}" using tm(2) by (simp_all add: cut_def)
  have "off (?s + r) (snd (snd x)) \<le> unat (window_size rb')" if "x \<in> set (contents tm)" for x
  proof -
    have l: "unat r < off ?s (snd (snd x))" "off ?s (snd (snd x)) \<le> unat (window_size ?q)"
      using t(2,3,4) that q(3) by (fastforce simp: gapped_def fits_def)+
    then show ?thesis using shifted_window [OF rb'(2) q(1) l(2,1)] by (simp add: off_shift)
  qed
  then have ok: "ranges_ok rb'" using seq_inv_shift [OF t(1,3)] gapped_shift [OF t(2,3)] s by (simp add: ranges_ok_def fits_def)
  have st: "stored rb' = {i. i + unat r \<in> stored rb}" using cover_shift [OF t(2,3)] t(5) s by (simp add: stored_def)
  have "get_byte rb' (start_pos rb' + of_nat i) = get_byte rb (?s + of_nat (unat r + i))" if "i \<in> stored rb'" for i
  proof -
    have b: "unat r + i < unat (window_size rb)" using stored_bound [OF assms(2), of "i + unat r"] that st by (simp add: add.commute)
    have e: "start_pos rb' + of_nat i = ?s + of_nat (unat r + i)" by (simp add: s(1))
    show ?thesis unfolding e using pos_in_window [OF assms(1) b] rb'(2) q by (simp add: shifted_def)
  qed
  then show ?thesis using tm(1) rb'(1) s ok st by (auto simp: first_map_def)
qed

section \<open>Arrivals\<close>

lemma rbuf_write_outside:
  assumes "rbuf_ok rb" "\<not> off (start_pos rb) pos + unat n \<le> unat (window_size rb)"
  shows "rbuf_write rb pos data n mem balloc = Some (rb, RBUF_OUT_OF_RANGE)"
proof -
  let ?s = "start_pos rb"
  have w: "unat (window_size rb) < 2147483648" by (rule window_bound [OF assms(1)])
  have "unat (window_size rb) < off ?s (pos + n)" if "off ?s pos \<le> unat (window_size rb)" "unat n \<le> unat (window_size rb)"
  proof -
    have "pos + n - ?s = (pos - ?s) + n" by simp
    moreover have "unat ((pos - ?s) + n) = off ?s pos + unat n" using that w by (subst unat_add_lem [THEN iffD1]) (simp_all add: off_def)
    ultimately have "off ?s (pos + n) = off ?s pos + unat n" unfolding off_def by metis
    then show ?thesis using assms(2) by simp
  qed
  then show ?thesis by (auto simp: rbuf_write_def Let_def word_less_nat_alt off_def not_less)
qed

section \<open>The stream\<close>

text \<open>The buffer stands at the position \<open>base\<close> of the stream and holds bytes of it only.\<close>

definition stream_ok :: "(nat \<Rightarrow> u8) \<Rightarrow> nat \<Rightarrow> rbuf \<Rightarrow> bool" where
  "stream_ok str base rb \<longleftrightarrow> rbuf_ok rb \<and> ranges_ok rb \<and> start_pos rb = of_nat base \<and>
     (\<forall>i \<in> stored rb. get_byte rb (start_pos rb + of_nat i) = Some (str (base + i)))"

definition segment :: "(nat \<Rightarrow> u8) \<Rightarrow> nat \<Rightarrow> nat \<Rightarrow> u8 list" where
  "segment str k n = map str [k..<k + n]"

lemma segment_simps [simp]: "length (segment str k n) = n" "i < n \<Longrightarrow> segment str k n ! i = str (k + i)"
  "segment str k m @ segment str (k + m) n = segment str k (m + n)"
  using upt_add_eq_append [of k "k + m" n] by (simp_all add: segment_def add.assoc flip: map_append)

lemma init_stream_ok:
  assumes "0 < unat cnt" "unat cnt \<le> 16383"
  shows "stream_ok str 0 (fst (rbuf_init cnt True))"
proof -
  have "contents (treemap_init 4 4 seq_cmp :: (u32, u32) treemap) = []" "seq_inv 0 (treemap_init 4 4 seq_cmp :: (u32, u32) treemap)"
    by (rule treemap_init_inv)+
  then show ?thesis using assms by (simp add: stream_ok_def rbuf_init_def rbuf_ok_def ranges_ok_def stored_def word_less_nat_alt)
qed

lemma off_of_nat:
  assumes "\<bar>int k - int base\<bar> < 2 ^ 31"
  shows "off (of_nat base) (of_nat k) = (if base \<le> k then k - base else 4294967296 - (base - k))"
proof (cases "base \<le> k")
  case True
  then have "of_nat k - of_nat base = (of_nat (k - base) :: u32)" by simp
  then show ?thesis using True assms by (simp add: off_def unat_of_nat del: of_nat_diff)
next
  case False
  let ?d = "base - k"
  have "(of_nat (4294967296 - ?d) :: u32) + of_nat ?d = 0"
    unfolding of_nat_add [symmetric] word_of_nat_eq_0_iff using assms by simp
  moreover have "of_nat ?d = (of_nat base - of_nat k :: u32)" using False by simp
  ultimately have "(of_nat k - of_nat base :: u32) = of_nat (4294967296 - ?d)" by (metis eq_neg_iff_add_eq_0 minus_diff_eq)
  then show ?thesis using False assms by (simp add: off_def unat_of_nat del: of_nat_diff)
qed

lemma written_frame: "written (rb\<lparr>range_map := tm\<rparr>) p xs rb' \<Longrightarrow> rb_write_pos rb' = rb_write_pos rb"
  unfolding written_def by (metis rbuf.select_convs(2) rbuf.surjective rbuf.update_convs(5) rbuf.update_convs(6))

lemma arrive_stream_ok:
  assumes "stream_ok str base rb" "\<bar>int k - int base\<bar> < 2 ^ 31" "0 < n" "a \<notin> fst ` set (contents (range_map rb))"
    and "\<forall>i. \<exists>b. balloc i = Some b \<and> length b = 131072"
  shows "\<exists>rb' ret. rbuf_write rb (of_nat k) (segment str k (unat n)) n (Some a) balloc = Some (rb', ret) \<and> stream_ok str base rb' \<and> rb_write_pos rb' = rb_write_pos rb \<and>
    stored rb' = stored rb \<union> (if base \<le> k \<and> k + unat n \<le> base + unat (window_size rb) then {k - base ..< k - base + unat n} else {})"
proof -
  let ?s = "start_pos rb" and ?pos = "of_nat k :: u32"
  have ok: "rbuf_ok rb" "ranges_ok rb" "?s = of_nat base" using assms(1) by (simp_all add: stream_ok_def)
  have w: "unat (window_size rb) < 2147483648" by (rule window_bound [OF ok(1)])
  have "off ?s ?pos = (if base \<le> k then k - base else 4294967296 - (base - k))"
    unfolding ok(3) by (rule off_of_nat [OF assms(2)])
  then have iff: "off ?s ?pos + unat n \<le> unat (window_size rb) \<longleftrightarrow> base \<le> k \<and> k + unat n \<le> base + unat (window_size rb)"
    and o: "base \<le> k \<Longrightarrow> off ?s ?pos = k - base" using assms(2) w by auto
  show ?thesis
  proof (cases "base \<le> k \<and> k + unat n \<le> base + unat (window_size rb)")
    case False
    then show ?thesis using rbuf_write_outside [OF ok(1)] iff assms(1) by auto
  next
    case True
    then obtain rb' ret where r: "rbuf_write rb ?pos (segment str k (unat n)) n (Some a) balloc = Some (rb', ret)" "rbuf_ok rb'" "ranges_ok rb'"
      "start_pos rb' = ?s" "stored rb' = stored rb \<union> {k - base ..< k - base + unat n}"
      "if ret = 1 then rb' = rb else holds_bytes rb' ?pos (segment str k (unat n)) \<and> (\<exists>tm. written (rb\<lparr>range_map := tm\<rparr>) ?pos (segment str k (unat n)) rb')"
      using rbuf_write_spec [OF ok(1,2) assms(3), of "segment str k (unat n)" ?pos a balloc] iff o assms(4,5) by auto
    have "get_byte rb' (?s + of_nat i) = Some (str (base + i))" if i: "i \<in> stored rb'" for i
    proof (cases "ret = 1")
      case True
      then have "rb' = rb" using r(6) by simp
      then show ?thesis using i assms(1) unfolding stream_ok_def by blast
    next
      case False
      then obtain tm where h: "holds_bytes rb' ?pos (segment str k (unat n))" "written (rb\<lparr>range_map := tm\<rparr>) ?pos (segment str k (unat n)) rb'"
        using r(6) by auto
      show ?thesis
      proof (cases "k - base \<le> i \<and> i < k - base + unat n")
        case True
        have "base + i = k + (i - (k - base))" using True \<open>base \<le> k \<and> _\<close> by linarith
        moreover have j: "i - (k - base) < unat n" using True by linarith
        moreover have "get_byte rb' (?pos + of_nat (i - (k - base))) = Some (segment str k (unat n) ! (i - (k - base)))"
          using h(1) j unfolding holds_bytes_def segment_simps(1) by blast
        ultimately show ?thesis unfolding ok(3) using segment_simps(2) by (metis of_nat_add)
      next
        case False
        then have i': "i \<in> stored rb" using i r(5) by auto
        note p = pos_in_window [OF ok(1) stored_bound [OF ok(2) i']]
        have "lin rb (?s + of_nat i) < lin rb ?pos \<or> lin rb ?pos + unat n \<le> lin rb (?s + of_nat i)"
          using False p(1) o \<open>base \<le> k \<and> _\<close> by (auto simp: lin_def off_def)
        then show ?thesis using writtenD [OF h(2), of "?s + of_nat i"] p(2) i' assms(1) unfolding stream_ok_def by auto
      qed
    qed
    then have "stream_ok str base rb'" using r(2,3,4) ok(3) by (simp add: stream_ok_def)
    moreover have "rb_write_pos rb' = rb_write_pos rb" using r(6) written_frame by (auto split: if_splits)
    ultimately show ?thesis using r(1,5) True by auto
  qed
qed

text \<open>Reading and releasing what can be read.\<close>

lemma readable_spec:
  assumes "ranges_ok rb"
  shows "\<exists>n. rbuf_readable_bytes rb = Some (first_map rb, n) \<and> {..<unat n} \<subseteq> stored rb \<and> unat n \<notin> stored rb"
proof -
  let ?s = "start_pos rb" and ?es = "contents (range_map rb)"
  have "gapped ?s ?es" using assms by (simp add: ranges_ok_def)
  then show ?thesis
  proof (cases rule: front_cases)
    case (front b e ys)
    have "off ?s e \<notin> cover ?s ys" using front(3) by (fastforce simp: cover_def)
    then have "{..<unat (e - ?s)} \<subseteq> stored rb \<and> unat (e - ?s) \<notin> stored rb" by (auto simp: stored_def front(1) off_def)
    then show ?thesis using readable_bytes(1) [OF assms refl front(1)] by blast
  next
    case gap
    then have "0 \<notin> stored rb" by (auto simp: stored_def cover_def)
    then show ?thesis using readable_bytes(2) [OF assms refl gap] by auto
  qed
qed

lemma release_stream_ok:
  assumes "stream_ok str base rb" "rbuf_readable_bytes rb = Some (rb1, n)" "r \<le> n" "a \<notin> fst ` set (contents (range_map rb))"
  shows "\<exists>rb'. rbuf_release rb r (Some a) = Some rb' \<and> stream_ok str (base + unat r) rb' \<and> rb_write_pos rb' = rb_write_pos rb \<and>
    stored rb' = {i. i + unat r \<in> stored rb}"
proof -
  have ok: "rbuf_ok rb" "ranges_ok rb" "start_pos rb = of_nat base" "\<forall>i \<in> stored rb. get_byte rb (start_pos rb + of_nat i) = Some (str (base + i))"
    using assms(1) unfolding stream_ok_def by blast+
  obtain rb' where b: "rbuf_release rb r (Some a) = Some rb'" "rbuf_ok rb'" "ranges_ok rb'" "start_pos rb' = start_pos rb + r"
    "rb_write_pos rb' = rb_write_pos rb" "stored rb' = {i. i + unat r \<in> stored rb}"
    "\<forall>i \<in> stored rb'. get_byte rb' (start_pos rb' + of_nat i) = get_byte rb (start_pos rb + of_nat (unat r + i))"
    using rbuf_release_spec [OF ok(1,2) assms(2-4)] by blast
  have "get_byte rb' (start_pos rb' + of_nat i) = Some (str (base + unat r + i))" if "i \<in> stored rb'" for i
  proof -
    have "unat r + i \<in> stored rb" using b(6) that by (simp add: add.commute)
    then show ?thesis using bspec [OF b(7) that] bspec [OF ok(4)] by (metis add.assoc)
  qed
  then have "stream_ok str (base + unat r) rb'" using b(2,3,4) ok(3) by (simp add: stream_ok_def)
  then show ?thesis using b by blast
qed

lemma deliver_stream_ok:
  assumes "stream_ok str base rb" "a \<notin> fst ` set (contents (range_map rb))"
  shows "\<exists>rb1 rb2 n. {..<n} \<subseteq> stored rb \<and> n \<notin> stored rb \<and> rbuf_read_front rb m = Some (rb1, segment str base (min (unat m) n)) \<and>
    rbuf_release rb1 (of_nat (min (unat m) n)) (Some a) = Some rb2 \<and> stream_ok str (base + min (unat m) n) rb2 \<and>
    stored rb2 = {i. i + min (unat m) n \<in> stored rb}"
proof -
  let ?s = "start_pos rb" and ?rb = "first_map rb"
  have ok: "rbuf_ok rb" "ranges_ok rb" "?s = of_nat base" "\<forall>i \<in> stored rb. get_byte rb (?s + of_nat i) = Some (str (base + i))"
    using assms(1) unfolding stream_ok_def by blast+
  note same = first_map_same [OF ok(2)]
  obtain n where n: "rbuf_readable_bytes rb = Some (?rb, n)" "{..<unat n} \<subseteq> stored rb" "unat n \<notin> stored rb" using readable_spec [OF ok(2)] by blast
  obtain n' where n': "rbuf_readable_bytes ?rb = Some (first_map ?rb, n')" "{..<unat n'} \<subseteq> stored rb" "unat n' \<notin> stored rb"
    using readable_spec [OF same(1)] same(2) by auto
  have "unat n' = unat n" using n(2,3) n'(2,3) by (meson lessThan_iff linorder_neqE_nat subsetD)
  then have e: "n' = n" by (rule unsigned_word_eqI)
  define r where "r = (if m > n then n else m)"
  have r: "unat r = min (unat m) (unat n)" "r \<le> n" "of_nat (min (unat m) (unat n)) = r" by (auto simp: r_def word_less_nat_alt word_le_nat_alt min_def)
  have "{..<unat r} \<subseteq> stored rb" using n(2) r(1) by auto
  then have h: "holds_bytes ?rb ?s (segment str base (unat r))" "unat r \<le> unat (window_size rb)"
    using ok(4) stored_bound [OF ok(2), of "unat r - 1"] by (auto simp: holds_bytes_def same) (cases "unat r", auto)
  have "rbuf_read ?rb ?s r = Some (segment str base (unat r))"
    using h window_unat [OF ok(1)] ok(1) by (intro holds_read) (simp_all add: same lin_def)
  then have "rbuf_read_front rb m = Some (?rb, segment str base (unat r))" using n(1) same(6) by (simp add: rbuf_read_front_def r_def Let_def)
  moreover have "stream_ok str base ?rb" using assms(1) same(1) unfolding stream_ok_def same(2,3,4,6) by blast
  then have "\<exists>rb2. rbuf_release ?rb r (Some a) = Some rb2 \<and> stream_ok str (base + unat r) rb2 \<and> stored rb2 = {i. i + unat r \<in> stored rb}"
    using release_stream_ok [OF _ n'(1), of str base r a] e r(2) assms(2) same(2,5) by auto
  ultimately show ?thesis using n(2,3) r(1,3) by auto
qed

text \<open>
  The buffers a receiver can have, with the bytes it has taken from them: segments of the stream arrive in any order and any number
  of times, as long as they are less than half of the number space away, and the front is read and released.
\<close>

inductive receives :: "(nat \<Rightarrow> u8) \<Rightarrow> rbuf \<Rightarrow> u8 list \<Rightarrow> bool" for str where
  init: "0 < unat cnt \<Longrightarrow> unat cnt \<le> 16383 \<Longrightarrow> rbuf_init cnt True = (rb, ret) \<Longrightarrow> receives str rb []"
| arrive: "receives str rb out \<Longrightarrow> \<bar>int k - int (length out)\<bar> < 2 ^ 31 \<Longrightarrow> 0 < n \<Longrightarrow> a \<notin> fst ` set (contents (range_map rb)) \<Longrightarrow>
    \<forall>i. \<exists>b. balloc i = Some b \<and> length b = 131072 \<Longrightarrow>
    rbuf_write rb (of_nat k) (segment str k (unat n)) n (Some a) balloc = Some (rb', ret) \<Longrightarrow> receives str rb' out"
| deliver: "receives str rb out \<Longrightarrow> a \<notin> fst ` set (contents (range_map rb)) \<Longrightarrow> rbuf_read_front rb m = Some (rb1, xs) \<Longrightarrow>
    rbuf_release rb1 (of_nat (length xs)) (Some a) = Some rb2 \<Longrightarrow> receives str rb2 (out @ xs)"

lemma receives_stream: "receives str rb out \<Longrightarrow> out = segment str 0 (length out) \<and> stream_ok str (length out) rb"
proof (induction rule: receives.induct)
  case (init cnt rb ret)
  then show ?case using init_stream_ok [of cnt str] by (simp add: segment_def)
next
  case (arrive rb out k n a balloc rb' ret)
  then show ?case using arrive_stream_ok [of str "length out" rb k n a balloc] by auto
next
  case (deliver rb out a m rb1 xs rb2)
  then obtain n where "xs = segment str (length out) n" "stream_ok str (length out + n) rb2"
    using deliver_stream_ok [of str "length out" rb a m] by auto
  then show ?case using deliver.IH segment_simps(3) [of str 0 "length out" n] by simp
qed

text \<open>Bytes 0 to 2 of a stream, where the segment of the last two comes first.\<close>

definition sample_stream :: "nat \<Rightarrow> u8" where
  "sample_stream i = of_nat (7 * i)"

lemma sample_receives: "receives sample_stream sample_rb []" "\<exists>rb. receives sample_stream rb [0, 7, 14]"
proof -
  show i: "receives sample_stream sample_rb []" by (rule receives.init [of 2 _ 0]) (simp_all add: sample_rb_def rbuf_init_def)
  have al: "\<forall>i. \<exists>b. sample_alloc i = Some b \<and> length b = 131072" by (simp add: sample_alloc_def)
  have fresh: "\<exists>a. a \<notin> fst ` set (contents (range_map rb))" for rb by (rule ex_new_if_finite) simp_all
  have step: "\<exists>rb'. receives sample_stream rb' [] \<and> stored rb' = stored rb \<union> {k ..< k + unat n}"
    if p: "receives sample_stream rb []" "0 < n" "k + unat n \<le> unat (window_size rb)" for rb k and n :: u32
  proof -
    obtain a where a: "a \<notin> fst ` set (contents (range_map rb))" using fresh by blast
    have w: "unat (window_size rb) < 2147483648" using receives_stream [OF p(1)] by (intro window_bound) (simp add: stream_ok_def)
    have s: "stream_ok sample_stream 0 rb" using receives_stream [OF p(1)] by simp
    obtain rb' ret where r: "rbuf_write rb (of_nat k) (segment sample_stream k (unat n)) n (Some a) sample_alloc = Some (rb', ret)"
      "stored rb' = stored rb \<union> {k ..< k + unat n}" "stream_ok sample_stream 0 rb'"
      using arrive_stream_ok [OF s _ p(2) a al, of k] p(2,3) w by (auto simp: word_less_nat_alt)
    have "receives sample_stream rb' []" by (rule receives.arrive [OF p(1) _ p(2) a al r(1)]) (use p(2,3) w in \<open>simp add: word_less_nat_alt\<close>)
    then show ?thesis using r(2) by blast
  qed
  have "{1 ..< 1 + unat (2 :: u32)} = {1, 2}" by auto
  then obtain rb1 where r1: "receives sample_stream rb1 []" "stored rb1 = {1, 2}" using step [OF i, of 2 1] sample_ranges by auto
  have "rbuf_ok rb1" using receives_stream [OF r1(1)] by (simp add: stream_ok_def)
  then have "0 < unat (window_size rb1)" using window_unat [of rb1] by (cases "unat (window_size rb1)") (auto simp: rb_size_def rbuf_ok_def)
  then obtain rb2 where r2: "receives sample_stream rb2 []" "stored rb2 = {0, 1, 2}" using step [OF r1(1), of 1 0] r1(2) by auto
  obtain a where a: "a \<notin> fst ` set (contents (range_map rb2))" using fresh by blast
  have "stream_ok sample_stream 0 rb2" using receives_stream [OF r2(1)] by simp
  from deliver_stream_ok [OF this a, of 3] obtain rb3 rb4 j where j: "{..<j} \<subseteq> {0, 1, 2}" "j \<notin> {0, 1, 2}"
    "rbuf_read_front rb2 3 = Some (rb3, segment sample_stream 0 (min 3 j))" "rbuf_release rb3 (of_nat (min 3 j)) (Some a) = Some rb4"
    using r2(2) by auto
  have "j = 3" using j(1,2) subsetD [OF j(1), of 3] by (cases "j < 3") auto
  then have "receives sample_stream rb4 ([] @ segment sample_stream 0 3)" using j by (intro receives.deliver [OF r2(1) a, of 3 rb3]) simp_all
  then show "\<exists>rb. receives sample_stream rb [0, 7, 14]" by (auto simp: segment_def sample_stream_def upt_rec)
qed

text \<open>
  C2. What a receiver takes from its buffer is the stream, in order and without a gap, whatever the network does with the segments.
\<close>

theorem stream_in_order:
  assumes "receives str rb out"
  shows "\<forall>i < length out. out ! i = str i"
  using receives_stream [OF assms] segment_simps(2) [of _ "length out" str 0] by (metis add_0)

theorem stream_in_order_witness: "\<exists>rb out. receives sample_stream rb out \<and> length out = 3 \<and> out ! 2 = sample_stream 2"
proof -
  obtain rb where "receives sample_stream rb [0, 7, 14]" using sample_receives(2) by blast
  moreover from this have "[0, 7, 14] ! 2 = sample_stream 2" using stream_in_order [of sample_stream rb "[0, 7, 14]"] by (metis length_Cons lessI list.size(3) numeral_2_eq_2)
  ultimately show ?thesis by (intro exI [of _ rb] exI [of _ "[0, 7, 14]"]) simp
qed

text \<open>
  C6. A receiver gets what has arrived: a segment that fits into the window is stored, and the next read returns all bytes up to
  the first one that is missing, as many as are asked for; neither call fails.
\<close>

theorem stream_progress:
  assumes "receives str rb out" "a \<notin> fst ` set (contents (range_map rb))" "\<forall>i. \<exists>b. balloc i = Some b \<and> length b = 131072"
    and "0 < n" "length out \<le> k" "k + unat n \<le> length out + unat (window_size rb)"
  shows "(\<exists>rb' ret. rbuf_write rb (of_nat k) (segment str k (unat n)) n (Some a) balloc = Some (rb', ret) \<and>
      stored rb' = stored rb \<union> {k - length out ..< k - length out + unat n}) \<and>
    (\<exists>rb1 rb2 j. {..<j} \<subseteq> stored rb \<and> j \<notin> stored rb \<and>
      rbuf_read_front rb m = Some (rb1, segment str (length out) (min (unat m) j)) \<and>
      rbuf_release rb1 (of_nat (min (unat m) j)) (Some a) = Some rb2 \<and> stored rb2 = {i. i + min (unat m) j \<in> stored rb})"
proof -
  have s: "stream_ok str (length out) rb" using receives_stream [OF assms(1)] by blast
  then have "unat (window_size rb) < 2147483648" by (intro window_bound) (simp add: stream_ok_def)
  then have "\<bar>int k - int (length out)\<bar> < 2 ^ 31" using assms(4-6) by (simp add: word_less_nat_alt)
  then have "\<exists>rb' ret. rbuf_write rb (of_nat k) (segment str k (unat n)) n (Some a) balloc = Some (rb', ret) \<and>
      stored rb' = stored rb \<union> {k - length out ..< k - length out + unat n}"
    using arrive_stream_ok [OF s _ assms(4,2,3), of k] assms(5,6) by auto
  then show ?thesis using deliver_stream_ok [OF s assms(2), of m] by blast
qed

theorem stream_progress_witness:
  "(\<exists>rb' ret. rbuf_write sample_rb 131071 (segment sample_stream 131071 3) 3 (Some 1) sample_alloc = Some (rb', ret) \<and>
     stored rb' = {131071 ..< 131074})"
  using stream_progress [OF sample_receives(1), of 1 sample_alloc 3 131071] sample_ranges by (auto simp: sample_alloc_def)

section \<open>Out of memory\<close>

text \<open>
  C36. When there is no memory for a block, \<open>rbuf_write\<close> fails, but the range has been entered: the bytes count as received, and
  reading them follows a null pointer.
\<close>

theorem rbuf_write_no_block:
  assumes "rbuf_ok rb" "ranges_ok rb" "0 < n" "length data = unat n"
    and "off (start_pos rb) pos + unat n \<le> unat (window_size rb)" "a \<notin> fst ` set (contents (range_map rb))"
    and "blocks rb ! unat (block_of rb pos) = None" "balloc (block_of rb pos) = None"
    and "\<not> {off (start_pos rb) pos ..< off (start_pos rb) pos + unat n} \<subseteq> stored rb"
  shows "\<exists>rb'. rbuf_write rb pos data n (Some a) balloc = Some (rb', -1) \<and> rbuf_read rb' pos n = None \<and>
    stored rb' = stored rb \<union> {off (start_pos rb) pos ..< off (start_pos rb) pos + unat n}"
proof -
  let ?s = "start_pos rb"
  have fit: "\<not> n > window_size rb" "\<not> pos - ?s > window_size rb" "\<not> pos + n - ?s > window_size rb"
    using assms(5) off_end [OF assms(1,5)] by (simp_all add: word_less_nat_alt off_def)
  obtain tm1 i tm where t: "rbuf_enter_range (range_map rb) pos (pos + n) (Some a) = Some (Inr (tm1, 0, Some i))" "merge_ranges tm1 i = Some tm"
    "stored (rb\<lparr>range_map := tm\<rparr>) = stored rb \<union> {off ?s pos ..< off ?s pos + unat n}"
    using write_ranges [OF assms(1,2,3,5,6)] assms(9) by blast
  let ?rb = "rb\<lparr>range_map := tm\<rparr>"
  have b: "block_of ?rb pos = block_of rb pos" by (simp add: block_of_def get_block_id_def Let_def)
  have "lin rb pos < rb_size rb" using write_in_window [OF assms(1) fit(2,3,1)] assms(3) by (simp add: word_less_nat_alt)
  then have "unat (block_of rb pos) < length (blocks rb)" using block_of_lin [OF assms(1)] by simp
  then have "copy_to_blocks ?rb balloc pos data n = Some (?rb, False)" "rbuf_read ?rb pos n = None"
    using assms(3,7,8) b by (subst copy_to_blocks.simps rbuf_read.simps, simp)+
  then show ?thesis using fit t by (intro exI [of _ ?rb]) (simp add: rbuf_write_def)
qed

theorem rbuf_write_no_block_witness:
  "\<exists>rb'. rbuf_write sample_rb 0 [1, 2] 2 (Some 1) (\<lambda>_. None) = Some (rb', -1) \<and> rbuf_read rb' 0 2 = None \<and> stored rb' = {0, 1}"
proof -
  have "blocks sample_rb ! unat (block_of sample_rb 0) = None" by (simp add: sample_rb_def rbuf_init_def block_of_def get_block_id_def Let_def)
  then show ?thesis using rbuf_write_no_block [of sample_rb 2 "[1, 2]" 0 1 "\<lambda>_. None"] sample_ranges by (auto simp: off_def)
qed

end
