(* ===== verification/Messages.thy ===== *)
theory Messages
  imports Prelude
begin

text \<open>
  The messages of \<^verbatim>\<open>src/src/litedt_messages.h\<close>. The structures are packed, so a message is the
  concatenation of its fields, each little endian; the \<open>dec_\<close> functions read a structure from the start of a
  buffer and return it with the bytes that follow, or \<open>None\<close> when the buffer is shorter than the
  structure. The trailing arrays of length zero (\<open>data\<close>, \<open>acks\<close>, \<open>fec_data\<close>) are those following
  bytes.
\<close>

unbundle bit_operations_syntax

section \<open>Little-endian numbers\<close>

fun le :: "nat \<Rightarrow> 'a::len word \<Rightarrow> u8 list" where
  "le 0 w = []"
| "le (Suc n) w = ucast w # le n (drop_bit 8 w)"

fun unle :: "u8 list \<Rightarrow> 'a::len word" where
  "unle [] = 0"
| "unle (b # bs) = (ucast b OR push_bit 8 (unle bs))"

lemma length_le [simp]: "length (le n w) = n"
  by (induction n arbitrary: w) simp_all

lemma unle_le: "unle (le n w) = take_bit (8 * n) (w :: 'a::len word)"
proof (induction n arbitrary: w)
  case (Suc n)
  show ?case
    by (rule bit_word_eqI)
      (auto simp: Suc.IH bit_or_iff bit_push_bit_iff bit_take_bit_iff bit_drop_bit_eq bit_ucast_iff not_less)
qed simp

lemma unle_le_id [simp]: "8 * n \<ge> LENGTH('a) \<Longrightarrow> unle (le n w) = (w :: 'a::len word)"
  by (simp add: unle_le take_bit_word_eq_self)

lemma le_unle: "8 * length bs \<le> LENGTH('a) \<Longrightarrow> le (length bs) (unle bs :: 'a::len word) = bs"
proof (induction bs)
  case (Cons b bs)
  have "8 * length bs \<le> LENGTH('a)" using Cons.prems by simp
  moreover have "(ucast (unle (b # bs) :: 'a word) :: u8) = b"
    using Cons.prems by (intro bit_word_eqI) (auto simp: bit_or_iff bit_push_bit_iff bit_ucast_iff)
  moreover have "drop_bit 8 (unle (b # bs) :: 'a word) = unle bs"
  proof (rule bit_word_eqI)
    fix n assume "n < LENGTH('a)"
    have short: "\<not> bit (unle bs :: 'a word) n" if "8 * length bs \<le> n" for n
      using that
    proof (induction bs arbitrary: n)
      case (Cons c cs)
      then show ?case using Cons.IH [of "n - 8"] bit_imp_le_length [of c n]
        by (auto simp: bit_or_iff bit_push_bit_iff bit_ucast_iff)
    qed simp
    have "\<not> bit b (8 + n)" using bit_imp_le_length [of b "8 + n"] by auto
    then show "bit (drop_bit 8 (unle (b # bs) :: 'a word)) n = bit (unle bs :: 'a word) n"
      using short [of n] Cons.prems by (cases "8 * length bs \<le> n") (auto simp: bit_drop_bit_eq bit_or_iff bit_push_bit_iff bit_ucast_iff)
  qed
  ultimately show ?case using Cons.IH by simp
qed simp

lemma le_xor: "le n (x XOR y) = map2 (XOR) (le n x) (le n (y :: 'a::len word))"
proof (induction n arbitrary: x y)
  case (Suc n)
  have "(ucast (x XOR y) :: u8) = ucast x XOR ucast y"
    by (rule bit_word_eqI) (auto simp: bit_xor_iff bit_ucast_iff)
  then show ?case by (simp add: Suc.IH drop_bit_xor)
qed simp

text \<open>Reading \<open>n\<close> bytes as a number.\<close>

definition get_le :: "nat \<Rightarrow> u8 list \<Rightarrow> ('a::len word \<times> u8 list) option" where
  "get_le n bs = (if n \<le> length bs then Some (unle (take n bs), drop n bs) else None)"

definition get_bytes :: "nat \<Rightarrow> u8 list \<Rightarrow> (u8 list \<times> u8 list) option" where
  "get_bytes n bs = (if n \<le> length bs then Some (take n bs, drop n bs) else None)"

lemma get_le_append [simp]: "8 * n \<ge> LENGTH('a) \<Longrightarrow> get_le n (le n w @ rest) = Some (w :: 'a::len word, rest)"
  by (simp add: get_le_def)

lemma get_le_byte [simp]: "get_le (Suc 0) (b # bs) = Some (b :: u8, bs)"
  by (simp add: get_le_def)

lemma get_bytes_append [simp]: "length xs = n \<Longrightarrow> get_bytes n (xs @ rest) = Some (xs, rest)"
  by (simp add: get_bytes_def)

section \<open>The structures\<close>

definition LITEDT_VERSION :: u16 where "LITEDT_VERSION = 0xED03"
definition LITEDT_MSS_MAX :: nat where "LITEDT_MSS_MAX = 1400"
definition LITEDT_MAX_HEADER :: nat where "LITEDT_MAX_HEADER = 28"
definition LITEDT_MTU_MAX :: nat where "LITEDT_MTU_MAX = LITEDT_MSS_MAX + LITEDT_MAX_HEADER"

datatype LITEDT_CMD_ID = LITEDT_PING_REQ | LITEDT_PING_RSP | LITEDT_DATA_POST | LITEDT_DATA_ACK |
  LITEDT_CONNECT_REQ | LITEDT_CONNECT_RSP | LITEDT_CLOSE_REQ | LITEDT_CLOSE_RSP | LITEDT_CONNECT_RST |
  LITEDT_CONNECT_DATA | LITEDT_DATA_FEC

fun cmd_code :: "LITEDT_CMD_ID \<Rightarrow> u8" where
  "cmd_code LITEDT_PING_REQ = 0x10"
| "cmd_code LITEDT_PING_RSP = 0x11"
| "cmd_code LITEDT_DATA_POST = 0x20"
| "cmd_code LITEDT_DATA_ACK = 0x21"
| "cmd_code LITEDT_CONNECT_REQ = 0x22"
| "cmd_code LITEDT_CONNECT_RSP = 0x23"
| "cmd_code LITEDT_CLOSE_REQ = 0x24"
| "cmd_code LITEDT_CLOSE_RSP = 0x25"
| "cmd_code LITEDT_CONNECT_RST = 0x26"
| "cmd_code LITEDT_CONNECT_DATA = 0x27"
| "cmd_code LITEDT_DATA_FEC = 0x30"

definition all_cmds :: "LITEDT_CMD_ID list" where
  "all_cmds = [LITEDT_PING_REQ, LITEDT_PING_RSP, LITEDT_DATA_POST, LITEDT_DATA_ACK, LITEDT_CONNECT_REQ,
     LITEDT_CONNECT_RSP, LITEDT_CLOSE_REQ, LITEDT_CLOSE_RSP, LITEDT_CONNECT_RST, LITEDT_CONNECT_DATA, LITEDT_DATA_FEC]"

definition cmd_of :: "u8 \<Rightarrow> LITEDT_CMD_ID option" where
  "cmd_of c = find (\<lambda>x. cmd_code x = c) all_cmds"

record litedt_header =
  h_ver :: u16
  h_mode :: u8
  h_cmd :: u8
  h_flow :: u32

definition enc_header :: "litedt_header \<Rightarrow> u8 list" where
  "enc_header h = le 2 (h_ver h) @ le 1 (h_mode h) @ le 1 (h_cmd h) @ le 4 (h_flow h)"

definition dec_header :: "u8 list \<Rightarrow> (litedt_header \<times> u8 list) option" where
  "dec_header bs = do {
     (ver, bs) \<leftarrow> get_le 2 bs;
     (mode, bs) \<leftarrow> get_le 1 bs;
     (cmd, bs) \<leftarrow> get_le 1 bs;
     (flow, bs) \<leftarrow> get_le 4 bs;
     Some (\<lparr>h_ver = ver, h_mode = mode, h_cmd = cmd, h_flow = flow\<rparr>, bs)
   }"

definition build_litedt_header :: "LITEDT_CMD_ID \<Rightarrow> u32 \<Rightarrow> litedt_header" where
  "build_litedt_header cmd flow = \<lparr>h_ver = LITEDT_VERSION, h_mode = 0, h_cmd = cmd_code cmd, h_flow = flow\<rparr>"

text \<open>\<open>ping_req_t\<close> and \<open>ping_rsp_t\<close> have the same fields. The timestamp is a signed 64-bit number.\<close>

record ping_msg =
  pm_node_id :: u16
  pm_ping_id :: u32
  pm_timestamp :: u64
  pm_token :: "u8 list"

definition enc_ping_req :: "ping_msg \<Rightarrow> u8 list" where
  "enc_ping_req m = le 2 (pm_node_id m) @ le 4 (pm_ping_id m) @ le 8 (pm_timestamp m) @ pm_token m"

definition dec_ping_req :: "u8 list \<Rightarrow> (ping_msg \<times> u8 list) option" where
  "dec_ping_req bs = do {
     (n, bs) \<leftarrow> get_le 2 bs;
     (i, bs) \<leftarrow> get_le 4 bs;
     (t, bs) \<leftarrow> get_le 8 bs;
     (tok, bs) \<leftarrow> get_bytes 32 bs;
     Some (\<lparr>pm_node_id = n, pm_ping_id = i, pm_timestamp = t, pm_token = tok\<rparr>, bs)
   }"

definition enc_ping_rsp :: "ping_msg \<Rightarrow> u8 list" where
  "enc_ping_rsp m = le 2 (pm_node_id m) @ le 4 (pm_ping_id m) @ le 8 (pm_timestamp m) @ pm_token m"

definition dec_ping_rsp :: "u8 list \<Rightarrow> (ping_msg \<times> u8 list) option" where
  "dec_ping_rsp bs = dec_ping_req bs"

record data_post =
  dp_seq :: u32
  dp_len :: u16
  dp_fec_seq :: u32
  dp_fec_index :: u8

definition enc_data_post :: "data_post \<Rightarrow> u8 list" where
  "enc_data_post d = le 4 (dp_seq d) @ le 2 (dp_len d) @ le 4 (dp_fec_seq d) @ le 1 (dp_fec_index d)"

definition dec_data_post :: "u8 list \<Rightarrow> (data_post \<times> u8 list) option" where
  "dec_data_post bs = do {
     (s, bs) \<leftarrow> get_le 4 bs;
     (l, bs) \<leftarrow> get_le 2 bs;
     (fs, bs) \<leftarrow> get_le 4 bs;
     (fi, bs) \<leftarrow> get_le 1 bs;
     Some (\<lparr>dp_seq = s, dp_len = l, dp_fec_seq = fs, dp_fec_index = fi\<rparr>, bs)
   }"

record data_ack =
  da_win_start :: u32
  da_win_size :: u32
  da_ack_size :: u8

definition enc_data_ack :: "data_ack \<Rightarrow> u8 list" where
  "enc_data_ack a = le 4 (da_win_start a) @ le 4 (da_win_size a) @ le 1 (da_ack_size a)"

definition dec_data_ack :: "u8 list \<Rightarrow> (data_ack \<times> u8 list) option" where
  "dec_data_ack bs = do {
     (s, bs) \<leftarrow> get_le 4 bs;
     (w, bs) \<leftarrow> get_le 4 bs;
     (n, bs) \<leftarrow> get_le 1 bs;
     Some (\<lparr>da_win_start = s, da_win_size = w, da_ack_size = n\<rparr>, bs)
   }"

text \<open>The array \<open>acks\<close>: pairs of the start and the end of a range.\<close>

fun enc_acks :: "(u32 \<times> u32) list \<Rightarrow> u8 list" where
  "enc_acks [] = []"
| "enc_acks ((a, b) # rs) = le 4 a @ le 4 b @ enc_acks rs"

fun dec_acks :: "nat \<Rightarrow> u8 list \<Rightarrow> ((u32 \<times> u32) list \<times> u8 list) option" where
  "dec_acks 0 bs = Some ([], bs)"
| "dec_acks (Suc n) bs = do {
     (a, bs) \<leftarrow> get_le 4 bs;
     (b, bs) \<leftarrow> get_le 4 bs;
     (rs, bs) \<leftarrow> dec_acks n bs;
     Some ((a, b) # rs, bs)
   }"

definition enc_conn_req :: "u16 \<Rightarrow> u8 list" where
  "enc_conn_req tunnel_id = le 2 tunnel_id"

definition dec_conn_req :: "u8 list \<Rightarrow> (u16 \<times> u8 list) option" where
  "dec_conn_req bs = get_le 2 bs"

definition enc_data_conn :: "u16 \<times> data_post \<Rightarrow> u8 list" where
  "enc_data_conn m = enc_conn_req (fst m) @ enc_data_post (snd m)"

definition dec_data_conn :: "u8 list \<Rightarrow> ((u16 \<times> data_post) \<times> u8 list) option" where
  "dec_data_conn bs = do {
     (t, bs) \<leftarrow> dec_conn_req bs;
     (d, bs) \<leftarrow> dec_data_post bs;
     Some ((t, d), bs)
   }"

text \<open>The status of \<open>conn_rsp_t\<close> is a signed 32-bit number.\<close>

definition enc_conn_rsp :: "int \<Rightarrow> u8 list" where
  "enc_conn_rsp status = le 4 (word_of_int status :: u32)"

definition dec_conn_rsp :: "u8 list \<Rightarrow> (int \<times> u8 list) option" where
  "dec_conn_rsp bs = do { (w, bs) \<leftarrow> get_le 4 bs; Some (sint (w :: u32), bs) }"

definition enc_close_req :: "u32 \<Rightarrow> u8 list" where
  "enc_close_req last_seq = le 4 last_seq"

definition dec_close_req :: "u8 list \<Rightarrow> (u32 \<times> u8 list) option" where
  "dec_close_req bs = get_le 4 bs"

record data_fec =
  df_fec_seq :: u32
  df_fec_members :: u8
  df_fec_len :: u16

definition enc_data_fec :: "data_fec \<Rightarrow> u8 list" where
  "enc_data_fec f = le 4 (df_fec_seq f) @ le 1 (df_fec_members f) @ le 2 (df_fec_len f)"

definition dec_data_fec :: "u8 list \<Rightarrow> (data_fec \<times> u8 list) option" where
  "dec_data_fec bs = do {
     (s, bs) \<leftarrow> get_le 4 bs;
     (m, bs) \<leftarrow> get_le 1 bs;
     (l, bs) \<leftarrow> get_le 2 bs;
     Some (\<lparr>df_fec_seq = s, df_fec_members = m, df_fec_len = l\<rparr>, bs)
   }"

lemma dec_acks_enc: "dec_acks (length rs) (enc_acks rs @ rest) = Some (rs, rest)"
  by (induction rs rule: enc_acks.induct) simp_all

lemma message_lengths [simp]:
  "length (enc_header h) = 8" "length (enc_data_post d) = 11" "length (enc_data_ack a) = 9" "length (enc_data_fec f) = 7"
  "length (enc_conn_req t) = 2" "length (enc_conn_rsp st) = 4" "length (enc_close_req s) = 4" "length (enc_acks rs) = 8 * length rs"
  by (simp_all add: enc_header_def enc_data_post_def enc_data_ack_def enc_data_fec_def enc_conn_req_def enc_conn_rsp_def enc_close_req_def)
    (induction rs rule: enc_acks.induct, simp_all)

lemma dec_data_post_enc: "dec_data_post (enc_data_post d @ rest) = Some (d, rest)"
  by (simp add: dec_data_post_def enc_data_post_def)

lemma cmd_of_code: "cmd_of (cmd_code c) = Some c"
  by (cases c) (simp_all add: cmd_of_def all_cmds_def)

text \<open>
  Every message round-trips: reading a structure back from the bytes that were written gives the
  same fields and leaves exactly the bytes that follow, whatever they are; command codes identify the
  commands; a connection status keeps its sign.
\<close>

theorem messages_roundtrip:
  assumes "length (pm_token p) = 32" "-(2 ^ 31) \<le> status" "status < 2 ^ 31"
  shows "dec_header (enc_header h @ rest) = Some (h, rest) \<and> dec_ping_req (enc_ping_req p @ rest) = Some (p, rest) \<and>
    dec_ping_rsp (enc_ping_rsp p @ rest) = Some (p, rest) \<and> dec_data_post (enc_data_post d @ rest) = Some (d, rest) \<and>
    dec_data_ack (enc_data_ack a @ rest) = Some (a, rest) \<and> dec_acks (length rs) (enc_acks rs @ rest) = Some (rs, rest) \<and>
    dec_conn_req (enc_conn_req t @ rest) = Some (t, rest) \<and> dec_data_conn (enc_data_conn (t, d) @ rest) = Some ((t, d), rest) \<and>
    dec_conn_rsp (enc_conn_rsp status @ rest) = Some (status, rest) \<and> dec_close_req (enc_close_req s @ rest) = Some (s, rest) \<and>
    dec_data_fec (enc_data_fec f @ rest) = Some (f, rest) \<and> cmd_of (cmd_code c) = Some c"
proof -
  have "sint (word_of_int status :: u32) = status"
    using assms(2,3) by (simp add: signed_of_int signed_take_bit_int_eq_self)
  then show ?thesis using assms(1)
    by (simp add: enc_header_def dec_header_def enc_ping_req_def dec_ping_req_def enc_ping_rsp_def dec_ping_rsp_def
      enc_data_post_def dec_data_post_def enc_data_ack_def dec_data_ack_def dec_acks_enc enc_conn_req_def dec_conn_req_def
      enc_data_conn_def dec_data_conn_def enc_conn_rsp_def dec_conn_rsp_def enc_close_req_def dec_close_req_def
      enc_data_fec_def dec_data_fec_def cmd_of_code)
qed

theorem messages_roundtrip_witness:
  "dec_header (enc_header \<lparr>h_ver = LITEDT_VERSION, h_mode = 0, h_cmd = cmd_code LITEDT_PING_REQ, h_flow = 7\<rparr> @ [1, 2]) =
    Some (\<lparr>h_ver = LITEDT_VERSION, h_mode = 0, h_cmd = cmd_code LITEDT_PING_REQ, h_flow = 7\<rparr>, [1, 2]) \<and>
   dec_conn_rsp (enc_conn_rsp (-1) @ []) = Some (-1, [])"
  using messages_roundtrip [of "\<lparr>pm_node_id = 0, pm_ping_id = 0, pm_timestamp = 0, pm_token = replicate 32 0\<rparr>" "-1"
      "\<lparr>h_ver = LITEDT_VERSION, h_mode = 0, h_cmd = cmd_code LITEDT_PING_REQ, h_flow = 7\<rparr>" "[1, 2]"]
    messages_roundtrip [of "\<lparr>pm_node_id = 0, pm_ping_id = 0, pm_timestamp = 0, pm_token = replicate 32 0\<rparr>" "-1" _ "[]"]
  by auto

end
