(* ===== verification/Fec.thy ===== *)
theory Fec
  imports HashQueue Seq Messages
begin

text \<open>
  Forward error correction, \<^verbatim>\<open>src/src/fec.c\<close>: the sender adds the data packets of a group by exclusive or and
  posts the sum; the receiver adds what it gets of a group, and when all but one of the packets and the sum are there, the
  sum of them is the missing packet.

  A packet posted and a packet recovered are results of the operations: \<open>fec_post\<close> returns the bytes
  it hands to \<open>socket_send\<close>, and \<open>fec_insert\<close> the bytes it hands to \<open>litedt_on_data_recv\<close>, which is
  the last thing the function does with the module. \<open>group_size\<close> and \<open>buffer_size\<close> are the values of the
  configuration. \<open>None\<close> is a crash, in particular an access outside \<open>fec_map\<close>, \<open>fec_buf\<close> or the packet.
\<close>

unbundle bit_operations_syntax

definition FEC_BUCKET_SIZE :: u32 where "FEC_BUCKET_SIZE = 1003"
definition FEC_MEMBERS_MAX :: u8 where "FEC_MEMBERS_MAX = 127"

record litedt_fec =
  lf_seq :: u32
  lf_end :: u32
  lf_members :: u8
  lf_finish :: u8
  lf_sum :: u8
  lf_map :: "u32 list"
  lf_buf :: "u8 list"

record fec_mod =
  fm_flow :: u32
  current_fec_seq :: u32
  current_fec_end :: u32
  current_fec_index :: u8
  current_fec_members :: u8
  fec_recv_start :: u32
  fec_recv_end :: u32
  fec_queue :: "(u32, litedt_fec) hash_queue"
  fec_len :: u16
  fec_buf :: "u8 list"

text \<open>The outer option is the access \<open>fec_map[idx >> 5]\<close> outside the array of four words.\<close>

definition FEC_ISSET :: "u8 \<Rightarrow> u32 list \<Rightarrow> bool option" where
  "FEC_ISSET idx m =
     (let w = unat (drop_bit 5 idx) in
      if w < length m then Some ((m ! w) AND push_bit (unat (idx AND 31)) 1 \<noteq> 0) else None)"

definition FEC_SET :: "u8 \<Rightarrow> u32 list \<Rightarrow> u32 list option" where
  "FEC_SET idx m =
     (let w = unat (drop_bit 5 idx) in
      if w < length m then Some (m[w := (m ! w) OR push_bit (unat (idx AND 31)) 1]) else None)"

section \<open>The loops that add a packet\<close>

text \<open>
  One step of a loop with words of \<open>n\<close> bytes, \<open>*(uintN_t*)(fec + cur) ^= *(uintN_t*)(ds + cur)\<close>; then the
  loops for 8, 4 and 1 bytes.
\<close>

definition xor_at :: "(u8 list \<Rightarrow> u8 list \<Rightarrow> u8 list) \<Rightarrow> nat \<Rightarrow> u8 list \<Rightarrow> u8 list \<Rightarrow> nat \<Rightarrow> u8 list option" where
  "xor_at f n fec ds cur =
     (if cur + n \<le> length fec \<and> cur + n \<le> length ds then
        Some (take cur fec @ f (take n (drop cur fec)) (take n (drop cur ds)) @ drop (cur + n) fec)
      else None)"

definition xor_word64 :: "u8 list \<Rightarrow> u8 list \<Rightarrow> u8 list" where
  "xor_word64 x y = le 8 ((unle x :: u64) XOR unle y)"

definition xor_word32 :: "u8 list \<Rightarrow> u8 list \<Rightarrow> u8 list" where
  "xor_word32 x y = le 4 ((unle x :: u32) XOR unle y)"

definition xor_word8 :: "u8 list \<Rightarrow> u8 list \<Rightarrow> u8 list" where
  "xor_word8 x y = le 1 ((unle x :: u8) XOR unle y)"

function xor_loop ::
  "(u8 list \<Rightarrow> u8 list \<Rightarrow> u8 list) \<Rightarrow> nat \<Rightarrow> u8 list \<Rightarrow> u8 list \<Rightarrow> nat \<Rightarrow> nat \<Rightarrow> (u8 list \<times> nat) option" where
  "xor_loop f n fec ds cur len =
     (if cur + n \<le> len \<and> n > 0 then do { fec1 \<leftarrow> xor_at f n fec ds cur; xor_loop f n fec1 ds (cur + n) len }
      else Some (fec, cur))"
  by pat_completeness auto
termination by (relation "measure (\<lambda>(f, n, fec, ds, cur, sz). sz - cur)") auto

declare xor_loop.simps [simp del]

definition xor_into :: "u8 list \<Rightarrow> u8 list \<Rightarrow> nat \<Rightarrow> u8 list option" where
  "xor_into fec ds len = do {
     (fec, cur) \<leftarrow> xor_loop xor_word64 8 fec ds 0 len;
     (fec, cur) \<leftarrow> xor_loop xor_word32 4 fec ds cur len;
     (fec, cur) \<leftarrow> xor_loop xor_word8 1 fec ds cur len;
     Some fec
   }"

section \<open>The module\<close>

definition fec_mod_init ::
  "u32 \<Rightarrow> u8 \<Rightarrow> u32 \<Rightarrow> (u32 \<Rightarrow> u32) \<Rightarrow> pointer \<Rightarrow> pointer \<Rightarrow> fec_mod option \<times> int" where
  "fec_mod_init flow group_size buffer_size default_hash hash nodes =
     (case queue_init FEC_BUCKET_SIZE 4 1456 None default_hash 0 hash nodes of
        Inl q \<Rightarrow> (Some \<lparr>fm_flow = flow, current_fec_seq = 0, current_fec_end = 0, current_fec_index = 0,
           current_fec_members = group_size, fec_recv_start = 0, fec_recv_end = buffer_size,
           fec_queue = q, fec_len = 0, fec_buf = replicate LITEDT_MTU_MAX 0\<rparr>, 0)
      | Inr r \<Rightarrow> (None, r))"

definition fec_delete :: "fec_mod \<Rightarrow> u32 \<Rightarrow> fec_mod option" where
  "fec_delete fm seq = do { (q, r) \<leftarrow> queue_del (fec_queue fm) seq; Some (fm\<lparr>fec_queue := q\<rparr>) }"

definition get_fec_header :: "fec_mod \<Rightarrow> u32 \<times> u8" where
  "get_fec_header fm = (current_fec_seq fm, current_fec_index fm)"

text \<open>The loop of \<open>fec_mod_fini\<close>, at most once per queued group.\<close>

fun fec_mod_fini_loop :: "nat \<Rightarrow> fec_mod \<Rightarrow> fec_mod option" where
  "fec_mod_fini_loop left fm =
     (if queue_empty (fec_queue fm) then Some fm
      else (case left of 0 \<Rightarrow> None
        | Suc left1 \<Rightarrow> do {
            (key, fec) \<leftarrow> queue_front (fec_queue fm);
            fm1 \<leftarrow> fec_delete fm (lf_seq fec);
            fec_mod_fini_loop left1 fm1
          }))"

declare fec_mod_fini_loop.simps [simp del]

definition fec_mod_fini :: "fec_mod \<Rightarrow> fec_mod option" where
  "fec_mod_fini fm = do {
     fm1 \<leftarrow> fec_mod_fini_loop (length (hq_queue (fec_queue fm))) fm;
     q \<leftarrow> queue_fini (fec_queue fm1);
     Some (fm1\<lparr>fec_queue := q\<rparr>)
   }"

definition fec_post :: "u8 \<Rightarrow> fec_mod \<Rightarrow> (fec_mod \<times> u8 list option) option" where
  "fec_post group_size fm =
     (if current_fec_index fm = 0 then Some (fm, None)
      else do {
        let fec = \<lparr>df_fec_seq = current_fec_seq fm, df_fec_members = current_fec_index fm, df_fec_len = fec_len fm\<rparr>;
        (body, rest) \<leftarrow> get_bytes (unat (fec_len fm)) (fec_buf fm);
        (if unat (fec_len fm) + 7 + 8 \<le> LITEDT_MTU_MAX + LITEDT_MAX_HEADER then Some () else None);
        let pkt = enc_header (build_litedt_header LITEDT_DATA_FEC (fm_flow fm)) @ enc_data_fec fec @ body;
        Some (fm\<lparr>current_fec_seq := current_fec_end fm, current_fec_index := 0,
                 current_fec_members := group_size, fec_len := 0, fec_buf := replicate LITEDT_MTU_MAX 0\<rparr>, Some pkt)
      })"

text \<open>\<open>pkt\<close> is the data packet: a \<open>data_post_t\<close> and its data.\<close>

definition fec_push_data :: "u8 \<Rightarrow> fec_mod \<Rightarrow> u8 list \<Rightarrow> (fec_mod \<times> u8 list option) option" where
  "fec_push_data group_size fm pkt = do {
     (data, body) \<leftarrow> dec_data_post pkt;
     let fec_size = 11 + unat (dp_len data);
     buf \<leftarrow> xor_into (fec_buf fm) pkt fec_size;
     let fm1 = fm\<lparr>fec_buf := buf, fec_len := of_nat (max (unat (fec_len fm)) fec_size),
                  current_fec_end := dp_seq data + ucast (dp_len data),
                  current_fec_index := current_fec_index fm + 1\<rparr>;
     if current_fec_index fm1 \<ge> current_fec_members fm1 then fec_post group_size fm1 else Some (fm1, None)
   }"

fun fec_checkpoint_loop :: "nat \<Rightarrow> fec_mod \<Rightarrow> u32 \<Rightarrow> pointer \<Rightarrow> fec_mod option" where
  "fec_checkpoint_loop left fm recv_start None = Some fm"
| "fec_checkpoint_loop 0 fm recv_start (Some q_1st) = None"
| "fec_checkpoint_loop (Suc left) fm recv_start (Some q_1st) = do {
     q_2nd \<leftarrow> queue_next (fec_queue fm) q_1st;
     case q_2nd of None \<Rightarrow> Some fm
     | Some q2 \<Rightarrow> do {
         fec1 \<leftarrow> queue_value (fec_queue fm) q_1st;
         fec2 \<leftarrow> queue_value (fec_queue fm) q2;
         if LESS_EQUAL (lf_seq fec2) recv_start then do {
           fm1 \<leftarrow> fec_delete (fm\<lparr>fec_recv_start := lf_seq fec2\<rparr>) (lf_seq fec1);
           fec_checkpoint_loop left fm1 recv_start (Some q2)
         } else Some fm
       }
   }"

definition fec_checkpoint :: "u32 \<Rightarrow> fec_mod \<Rightarrow> u32 \<Rightarrow> fec_mod option" where
  "fec_checkpoint buffer_size fm recv_start = do {
     fm1 \<leftarrow> fec_checkpoint_loop (length (hq_queue (fec_queue fm))) fm recv_start (queue_first (fec_queue fm));
     Some (fm1\<lparr>fec_recv_end := recv_start + buffer_size\<rparr>)
   }"

text \<open>
  The new group is at the end of the queue; \<open>preds\<close> are the groups before it, the nearest first. It is
  moved behind the first of them with a smaller sequence number, or to the front.
\<close>

fun fec_arrange :: "(u32, litedt_fec) hash_queue \<Rightarrow> u32 \<Rightarrow> addr \<Rightarrow> addr list \<Rightarrow> (u32, litedt_fec) hash_queue option" where
  "fec_arrange q fseq q_last [] = queue_move_front q fseq"
| "fec_arrange q fseq q_last (q_it # preds) = do {
     prec \<leftarrow> queue_value q q_it;
     if \<not> LESS_EQUAL fseq (lf_seq prec) then Some (queue_move_to q q_last q_it)
     else fec_arrange q fseq q_last preds
   }"

text \<open>The group of a sequence number, created when it is not there: its address, or the error of \<open>queue_append\<close>.\<close>

definition fec_group :: "fec_mod \<Rightarrow> u32 \<Rightarrow> u8 \<Rightarrow> pointer \<Rightarrow> (fec_mod \<times> (addr + int)) option" where
  "fec_group fm fseq fmems mem = do {
     p \<leftarrow> queue_get (fec_queue fm) fseq;
     case p of Some a \<Rightarrow> Some (fm, Inl a)
     | None \<Rightarrow> do {
         let tmp = \<lparr>lf_seq = fseq, lf_end = fseq, lf_members = fmems, lf_finish = 0, lf_sum = 0,
                    lf_map = replicate 4 0, lf_buf = replicate LITEDT_MTU_MAX 0\<rparr>;
         (q, ret) \<leftarrow> queue_append (fec_queue fm) fseq tmp mem;
         if ret \<noteq> 0 then Some (fm\<lparr>fec_queue := q\<rparr>, Inr ret)
         else do {
           p \<leftarrow> queue_get q fseq;
           a \<leftarrow> p;
           q_last \<leftarrow> queue_last q;
           q1 \<leftarrow> fec_arrange q fseq q_last (tl (rev (hq_queue q)));
           Some (fm\<lparr>fec_queue := q1\<rparr>, Inl a)
         }
       }
   }"

text \<open>The packet is marked as received; \<open>None\<close> inside is a duplicate.\<close>

definition fec_mark :: "litedt_fec \<Rightarrow> u8 \<Rightarrow> u8 \<Rightarrow> u8 list \<Rightarrow> litedt_fec option option" where
  "fec_mark fec fidx fmems buf =
     (if fidx > FEC_MEMBERS_MAX then
        (if lf_sum fec \<noteq> 0 then Some None else Some (Some (fec\<lparr>lf_members := fmems, lf_sum := 1\<rparr>)))
      else do {
        isset \<leftarrow> FEC_ISSET fidx (lf_map fec);
        if isset then Some None
        else do {
          m \<leftarrow> FEC_SET fidx (lf_map fec);
          (dp, body) \<leftarrow> dec_data_post buf;
          let dend = dp_seq dp + ucast (dp_len dp);
          Some (Some (fec\<lparr>lf_map := m, lf_end := (if LESS_EQUAL (lf_end fec) dend then dend else lf_end fec)\<rparr>))
        }
      })"

definition fec_insert ::
  "fec_mod \<Rightarrow> u32 \<Rightarrow> u8 \<Rightarrow> u8 \<Rightarrow> u8 list \<Rightarrow> nat \<Rightarrow> pointer \<Rightarrow> (fec_mod \<times> int \<times> u8 list option) option" where
  "fec_insert fm fseq fidx fmems buf buf_len mem =
     (let rstart = fec_recv_start fm; rend = fec_recv_end fm in
      if fseq - rstart \<ge> rend - rstart then Some (fm, 1, None)
      else if fmems = 0 \<or> fmems > FEC_MEMBERS_MAX \<or> (fidx < FEC_MEMBERS_MAX \<and> fidx \<ge> fmems) \<or> buf_len = 0
      then Some (fm, 0, None)
      else if buf_len > LITEDT_MTU_MAX then Some (fm, 0, None)
      else do {
        (fm1, g) \<leftarrow> fec_group fm fseq fmems mem;
        case g of Inr ret \<Rightarrow> Some (fm1, ret, None)
        | Inl a \<Rightarrow> do {
            fec \<leftarrow> queue_value (fec_queue fm1) a;
            marked \<leftarrow> fec_mark fec fidx fmems buf;
            case marked of None \<Rightarrow> Some (fm1, 1, None)
            | Some fec1 \<Rightarrow> do {
                b \<leftarrow> xor_into (lf_buf fec1) buf buf_len;
                let fec2 = fec1\<lparr>lf_buf := b, lf_finish := lf_finish fec1 + 1\<rparr>;
                if lf_finish fec2 = lf_members fec2 \<and> lf_sum fec2 \<noteq> 0 then do {
                  (dp, body) \<leftarrow> dec_data_post (lf_buf fec2);
                  isset \<leftarrow> (if dp_fec_seq dp = fseq then FEC_ISSET (dp_fec_index dp) (lf_map fec2) else Some True);
                  if \<not> isset then do {
                    m \<leftarrow> FEC_SET (dp_fec_index dp) (lf_map fec2);
                    let dend = dp_seq dp + ucast (dp_len dp);
                    let fec3 = fec2\<lparr>lf_map := m, lf_end := (if LESS_EQUAL (lf_end fec2) dend then dend else lf_end fec2)\<rparr>;
                    Some (fm1\<lparr>fec_queue := queue_set_value (fec_queue fm1) a fec3, fec_recv_start := lf_end fec3\<rparr>, 0,
                          Some (lf_buf fec3))
                  } else Some (fm1\<lparr>fec_queue := queue_set_value (fec_queue fm1) a fec2\<rparr>, 0, None)
                } else Some (fm1\<lparr>fec_queue := queue_set_value (fec_queue fm1) a fec2\<rparr>, 0, None)
              }
          }
      })"

text \<open>\<open>pkt\<close> is the received packet, a \<open>data_post_t\<close> or a \<open>data_fec_t\<close> with what follows.\<close>

definition fec_insert_data :: "fec_mod \<Rightarrow> u8 list \<Rightarrow> pointer \<Rightarrow> (fec_mod \<times> int \<times> u8 list option) option" where
  "fec_insert_data fm pkt mem = do {
     (data, body) \<leftarrow> dec_data_post pkt;
     fec_insert fm (dp_fec_seq data) (dp_fec_index data) FEC_MEMBERS_MAX pkt (11 + unat (dp_len data)) mem
   }"

definition fec_insert_sum :: "fec_mod \<Rightarrow> u8 list \<Rightarrow> pointer \<Rightarrow> (fec_mod \<times> int \<times> u8 list option) option" where
  "fec_insert_sum fm pkt mem = do {
     (fec, body) \<leftarrow> dec_data_fec pkt;
     fec_insert fm (df_fec_seq fec) (FEC_MEMBERS_MAX + 1) (df_fec_members fec) body (unat (df_fec_len fec)) mem
   }"

end
