(* ===== verification/FecCorrect.thy ===== *)
theory FecCorrect
  imports Fec
begin

text \<open>
  Correctness of the exclusive-or arithmetic of forward error correction: the loops over words of eight, four and one
  bytes add byte by byte, and the laws of the sum of a multiset of packets. The last
  section shows an input on which the receiver leaves \<open>fec_map\<close>.
\<close>

section \<open>The loops add byte by byte\<close>

definition xor_range :: "u8 list \<Rightarrow> u8 list \<Rightarrow> nat \<Rightarrow> nat \<Rightarrow> u8 list" where
  "xor_range fec ds a b = map (\<lambda>i. if a \<le> i \<and> i < b then fec ! i XOR ds ! i else fec ! i) [0..<length fec]"

definition xors :: "(u8 list \<Rightarrow> u8 list \<Rightarrow> u8 list) \<Rightarrow> nat \<Rightarrow> bool" where
  "xors f n \<longleftrightarrow> 0 < n \<and> (\<forall>x y. length x = n \<longrightarrow> length y = n \<longrightarrow> f x y = map2 (XOR) x y)"

lemma le_xor_unle:
  "length x = length y \<Longrightarrow> 8 * length x \<le> LENGTH('a) \<Longrightarrow> le (length x) ((unle x :: 'a::len word) XOR unle y) = map2 (XOR) x y"
  using le_unle [of x, where 'a = 'a] le_unle [of y, where 'a = 'a] by (simp add: le_xor)

lemma xor_words: "xors xor_word64 8" "xors xor_word32 4" "xors xor_word8 1"
proof -
  have "length x = length y \<Longrightarrow> length x = 8 \<Longrightarrow> xor_word64 x y = map2 (XOR) x y" for x y
    using le_xor_unle [of x y, where 'a = 64] by (simp add: xor_word64_def)
  then show "xors xor_word64 8" by (simp add: xors_def)
  have "length x = length y \<Longrightarrow> length x = 4 \<Longrightarrow> xor_word32 x y = map2 (XOR) x y" for x y
    using le_xor_unle [of x y, where 'a = 32] by (simp add: xor_word32_def)
  then show "xors xor_word32 4" by (simp add: xors_def)
  have "length x = length y \<Longrightarrow> length x = 1 \<Longrightarrow> xor_word8 x y = map2 (XOR) x y" for x y
    using le_xor_unle [of x y, where 'a = 8] by (simp add: xor_word8_def)
  then show "xors xor_word8 1" by (simp add: xors_def)
qed

lemma xor_range_join: "a \<le> b \<Longrightarrow> b \<le> c \<Longrightarrow> xor_range (xor_range fec ds a b) ds b c = xor_range fec ds a c"
  by (intro nth_equalityI) (auto simp: xor_range_def)

lemma xor_at_range:
  assumes f: "xors f n" and len: "cur + n \<le> length fec" "cur + n \<le> length ds"
  shows "xor_at f n fec ds cur = Some (xor_range fec ds cur (cur + n))"
proof -
  have "take cur fec @ map2 (XOR) (take n (drop cur fec)) (take n (drop cur ds)) @ drop (cur + n) fec = xor_range fec ds cur (cur + n)"
    using len by (intro nth_equalityI) (auto simp: xor_range_def nth_append)
  then show ?thesis using len f by (simp add: xor_at_def xors_def)
qed

lemma xor_loop_range:
  assumes f: "xors f n" and len: "cur \<le> len" "len \<le> length fec" "len \<le> length ds"
  shows "\<exists>c. xor_loop f n fec ds cur len = Some (xor_range fec ds cur c, c) \<and> cur \<le> c \<and> c \<le> len \<and> len < c + n"
  using len
proof (induction "len - cur" arbitrary: cur fec rule: less_induct)
  case less
  have n: "0 < n" using f by (simp add: xors_def)
  show ?case
  proof (cases "cur + n \<le> len")
    case True
    let ?fec = "xor_range fec ds cur (cur + n)"
    have l: "length ?fec = length fec" by (simp add: xor_range_def)
    obtain c where c: "xor_loop f n ?fec ds (cur + n) len = Some (xor_range ?fec ds (cur + n) c, c)" "cur + n \<le> c" "c \<le> len" "len < c + n"
    proof -
      have "len - (cur + n) < len - cur" using True n by simp
      then show ?thesis using less.hyps [of "cur + n" ?fec] True less.prems l that by auto
    qed
    have "xor_at f n fec ds cur = Some ?fec" using True less.prems by (intro xor_at_range f) simp_all
    then have "xor_loop f n fec ds cur len = Some (xor_range fec ds cur c, c)"
      using True n c by (simp add: xor_loop.simps [of f n fec] xor_range_join)
    then show ?thesis using c by auto
  next
    case False
    have "xor_range fec ds cur cur = fec" by (intro nth_equalityI) (auto simp: xor_range_def)
    then show ?thesis using False less.prems n by (auto simp: xor_loop.simps [of f n fec])
  qed
qed

lemma xor_into_range:
  assumes "len \<le> length fec" "len \<le> length ds"
  shows "xor_into fec ds len = Some (xor_range fec ds 0 len)"
proof -
  have l: "length (xor_range fec ds a b) = length fec" for a b by (simp add: xor_range_def)
  obtain c where c: "xor_loop xor_word64 8 fec ds 0 len = Some (xor_range fec ds 0 c, c)" "c \<le> len"
    using xor_loop_range [OF xor_words(1), where cur = 0 and fec = fec and ds = ds and len = len] assms by auto
  obtain d where d: "xor_loop xor_word32 4 (xor_range fec ds 0 c) ds c len = Some (xor_range (xor_range fec ds 0 c) ds c d, d)" "c \<le> d" "d \<le> len"
    using xor_loop_range [OF xor_words(2), where cur = c and fec = "xor_range fec ds 0 c" and ds = ds and len = len] assms c l by auto
  obtain e where e: "xor_loop xor_word8 1 (xor_range fec ds 0 d) ds d len = Some (xor_range (xor_range fec ds 0 d) ds d e, e)" "d \<le> e" "e \<le> len" "len < e + 1"
    using xor_loop_range [OF xor_words(3), where cur = d and fec = "xor_range fec ds 0 d" and ds = ds and len = len] assms d l by auto
  have "e = len" using e by simp
  then show ?thesis using c(1) d(1,2) e(1,2) by (simp add: xor_into_def xor_range_join del: One_nat_def)
qed

section \<open>Sums of packets\<close>

text \<open>The bytes of a packet, zeros behind its end, and the sum of some packets.\<close>

definition byte_of :: "u8 list \<Rightarrow> nat \<Rightarrow> u8" where
  "byte_of p i = (if i < length p then p ! i else 0)"

definition xor_sum :: "u8 list multiset \<Rightarrow> nat \<Rightarrow> u8" where
  "xor_sum ps i = fold_mset (XOR) 0 (image_mset (\<lambda>p. byte_of p i) ps)"

interpretation xor_comm: comp_fun_commute "(XOR) :: u8 \<Rightarrow> u8 \<Rightarrow> u8"
  by unfold_locales (simp add: fun_eq_iff xor.left_commute)

lemma xor_sum_add: "xor_sum (add_mset p ps) i = byte_of p i XOR xor_sum ps i"
  by (simp add: xor_sum_def)

lemma xor_sum_empty: "xor_sum {#} i = 0"
  by (simp add: xor_sum_def)

lemma xor_sum_union: "xor_sum (ps + qs) i = xor_sum ps i XOR xor_sum qs i"
  by (induction ps) (simp_all add: xor_sum_add xor_sum_empty xor.assoc)

lemma xor_into_bytes:
  assumes "len \<le> length fec" "len \<le> length ds"
  shows "xor_into fec ds len = Some (map2 (XOR) (take len fec) (take len ds) @ drop len fec)"
proof -
  have "xor_range fec ds 0 len = map2 (XOR) (take len fec) (take len ds) @ drop len fec"
    using assms by (intro nth_equalityI) (auto simp: xor_range_def nth_append)
  then show ?thesis using xor_into_range [OF assms] by simp
qed

text \<open>
  The loops that add a packet eight, four and one bytes at a time compute the exclusive or byte by
  byte, and never leave the buffers.
\<close>

theorem fec_xor_bytewise:
  assumes "len \<le> length fec" "len \<le> length ds"
  shows "xor_into fec ds len = Some (map2 (XOR) (take len fec) (take len ds) @ drop len fec)"
  by (rule xor_into_bytes [OF assms])

theorem fec_xor_bytewise_witness: "xor_into [1, 2, 3, 4, 5, 6] [1, 1, 1, 1, 1] 5 = Some [0, 3, 2, 5, 4, 6]"
  using fec_xor_bytewise [of 5 "[1, 2, 3, 4, 5, 6]" "[1, 1, 1, 1, 1]"] by simp

section \<open>The index of a recovered packet\<close>

lemma FEC_ISSET_range: "length m = 4 \<Longrightarrow> FEC_ISSET idx m = None \<longleftrightarrow> 128 \<le> idx"
proof -
  have "unat (drop_bit 5 idx) = unat idx div 32" by (simp add: drop_bit_eq_div unat_div)
  moreover have "n div 32 < 4 \<longleftrightarrow> n < 128" for n :: nat by (simp add: div_less_iff_less_mult)
  ultimately show "length m = 4 \<Longrightarrow> FEC_ISSET idx m = None \<longleftrightarrow> 128 \<le> idx"
    by (simp add: FEC_ISSET_def Let_def word_le_nat_alt not_less)
qed

text \<open>
  C35. The index of a recovered packet is not checked: a sum packet that announces a group of one packet is taken for the
  recovered packet itself, and when its bytes give the number of the group and an index of 128 or
  more, the test of \<open>fec_map\<close> reads outside the array.
\<close>

theorem fec_recovered_index_unchecked:
  assumes "fec_group fm fseq 1 mem = Some (fm1, Inl a)" "queue_value (fec_queue fm1) a = Some fec"
    and "lf_sum fec = 0" "lf_finish fec = 0" "lf_buf fec = replicate LITEDT_MTU_MAX 0" "length (lf_map fec) = 4"
    and "fseq - fec_recv_start fm < fec_recv_end fm - fec_recv_start fm"
    and "length body \<le> 1000" "dp_fec_seq dp = fseq" "128 \<le> dp_fec_index dp"
  shows "fec_insert fm fseq (FEC_MEMBERS_MAX + 1) 1 (enc_data_post dp @ body) (11 + length body) mem = None"
proof -
  let ?buf = "enc_data_post dp @ body" let ?fec = "fec\<lparr>lf_members := 1, lf_sum := 1\<rparr>"
  let ?n = "11 + length body"
  have n: "?n \<le> LITEDT_MTU_MAX" using assms(8) by (simp add: LITEDT_MTU_MAX_def LITEDT_MSS_MAX_def LITEDT_MAX_HEADER_def)
  have "map2 (XOR) (take ?n (replicate LITEDT_MTU_MAX 0)) (take ?n ?buf) = ?buf"
    using n by (intro nth_equalityI) simp_all
  then have x: "xor_into (lf_buf ?fec) ?buf ?n = Some (?buf @ drop ?n (lf_buf ?fec))"
    using xor_into_bytes [of ?n "lf_buf ?fec" ?buf] n assms(5) by simp
  have k: "fec_mark fec (FEC_MEMBERS_MAX + 1) 1 ?buf = Some (Some ?fec)"
    using assms(3) by (simp add: fec_mark_def FEC_MEMBERS_MAX_def)
  have i: "FEC_ISSET (dp_fec_index dp) (lf_map fec) = None" using FEC_ISSET_range [OF assms(6)] assms(10) by simp
  show ?thesis
    using assms(1,2,4,7,9) n k x i
    by (simp add: fec_insert_def dec_data_post_enc Let_def not_le FEC_MEMBERS_MAX_def)
qed

definition sample_fec :: fec_mod where
  "sample_fec = \<lparr>fm_flow = 9, current_fec_seq = 0, current_fec_end = 0, current_fec_index = 0, current_fec_members = 10,
     fec_recv_start = 0, fec_recv_end = 1000,
     fec_queue = (case queue_init 1 4 1456 None (\<lambda>k. k) 0 (Some 1) None of Inl q \<Rightarrow> q),
     fec_len = 0, fec_buf = replicate LITEDT_MTU_MAX 0\<rparr>"

theorem fec_recovered_index_unchecked_witness:
  "fec_insert_sum sample_fec (enc_data_fec \<lparr>df_fec_seq = 0, df_fec_members = 1, df_fec_len = 11\<rparr> @
     enc_data_post \<lparr>dp_seq = 0, dp_len = 0, dp_fec_seq = 0, dp_fec_index = 200\<rparr>) (Some 5) = None"
proof -
  let ?dp = "\<lparr>dp_seq = 0, dp_len = 0, dp_fec_seq = 0, dp_fec_index = 200\<rparr> :: data_post"
  have d: "dec_data_fec (enc_data_fec f @ rest) = Some (f, rest)" for f rest
    by (simp add: dec_data_fec_def enc_data_fec_def)
  obtain fm1 a fec where g: "fec_group sample_fec 0 1 (Some 5) = Some (fm1, Inl a)" "queue_value (fec_queue fm1) a = Some fec"
    "lf_sum fec = 0" "lf_finish fec = 0" "lf_buf fec = replicate LITEDT_MTU_MAX 0" "length (lf_map fec) = 4"
    by (simp add: fec_group_def sample_fec_def queue_init_def queue_get_def hash_index_def queue_append_def node_alloc_def
      queue_last_def queue_move_front_def queue_value_def Let_def)
  have "fec_insert sample_fec 0 (FEC_MEMBERS_MAX + 1) 1 (enc_data_post ?dp @ []) (11 + length ([] :: u8 list)) (Some 5) = None"
    by (rule fec_recovered_index_unchecked [OF g]) (simp_all add: sample_fec_def)
  then show ?thesis by (simp add: fec_insert_sum_def d)
qed

end
