(* ===== verification/FecGroup.thy ===== *)
theory FecGroup
  imports FecCorrect HashQueueCorrect
begin

text \<open>
  The two ends of a group of forward error correction, \<^verbatim>\<open>src/src/fec.c\<close>: what the buffer of the sender holds after the packets
  of a group, and how the receiver finds or enters the record of a group in its queue.
\<close>

section \<open>Sums in a buffer\<close>

definition holds_sum :: "u8 list \<Rightarrow> u8 list multiset \<Rightarrow> bool" where
  "holds_sum b ps \<longleftrightarrow> length b = LITEDT_MTU_MAX \<and> (\<forall>i < LITEDT_MTU_MAX. b ! i = xor_sum ps i)"

lemma holds_sum_zero: "holds_sum (replicate LITEDT_MTU_MAX 0) {#}"
  by (simp add: holds_sum_def xor_sum_empty)

lemma xor_into_sum:
  assumes "holds_sum b ps" "length p \<le> LITEDT_MTU_MAX" "n = length p"
  shows "\<exists>b'. xor_into b p n = Some b' \<and> holds_sum b' (add_mset p ps)"
proof -
  have "xor_into b p (length p) = Some (xor_range b p 0 (length p))" using assms by (intro xor_into_range) (simp_all add: holds_sum_def)
  moreover have "holds_sum (xor_range b p 0 (length p)) (add_mset p ps)"
    using assms(1) by (auto simp: holds_sum_def xor_range_def xor_sum_add byte_of_def xor.commute)
  ultimately show ?thesis using assms(3) by blast
qed

lemma xor_sum_zero: "\<forall>p \<in># ps. length p \<le> i \<Longrightarrow> xor_sum ps i = 0"
  by (induction ps) (simp_all add: xor_sum_empty xor_sum_add byte_of_def)

text \<open>The sum of the packets of a group, cut behind the longest of them, and of all of them but one is that one.\<close>

lemma missing_packet:
  assumes "holds_sum b ps" "missing \<in># ps" "\<forall>p \<in># ps. length p \<le> n" "n \<le> LITEDT_MTU_MAX"
    and "holds_sum c (add_mset (take n b) (ps - {#missing#}))"
  shows "c = missing @ replicate (LITEDT_MTU_MAX - length missing) 0"
proof -
  have s: "byte_of (take n b) i = xor_sum ps i" if "i < LITEDT_MTU_MAX" for i
  proof (cases "i < n")
    case False
    have "\<forall>p \<in># ps. length p \<le> i" using assms(3) False by force
    then show ?thesis using xor_sum_zero False by (simp add: byte_of_def)
  qed (use that assms(1) in \<open>simp add: byte_of_def holds_sum_def\<close>)
  have "xor_sum ps i = byte_of missing i XOR xor_sum (ps - {#missing#}) i" for i
    using xor_sum_add [of missing "ps - {#missing#}" i] assms(2) by simp
  then have "c ! i = byte_of missing i" if "i < LITEDT_MTU_MAX" for i
    using assms(5) s [OF that] that by (simp add: holds_sum_def xor_sum_add xor.assoc)
  moreover have "length missing \<le> LITEDT_MTU_MAX" using assms(2-4) by fastforce
  ultimately show ?thesis using assms(5) by (intro nth_equalityI) (auto simp: holds_sum_def byte_of_def nth_append)
qed

section \<open>The sender\<close>

text \<open>
  The packets of the segments of a group, as \<open>litedt_data_post\<close> builds them with the numbers of \<open>get_fec_header\<close>, and the
  sender that builds and pushes them one after the other; the last component is what it posts.
\<close>

definition data_packet :: "u32 \<Rightarrow> u8 \<Rightarrow> u32 \<times> u8 list \<Rightarrow> u8 list" where
  "data_packet fseq idx sg = enc_data_post \<lparr>dp_seq = fst sg, dp_len = of_nat (length (snd sg)), dp_fec_seq = fseq, dp_fec_index = idx\<rparr> @ snd sg"

fun push_group :: "u8 \<Rightarrow> fec_mod \<Rightarrow> (u32 \<times> u8 list) list \<Rightarrow> (fec_mod \<times> u8 list list \<times> u8 list list) option" where
  "push_group group_size fm [] = Some (fm, [], [])"
| "push_group group_size fm (sg # sgs) = do {
     let pkt = data_packet (fst (get_fec_header fm)) (snd (get_fec_header fm)) sg;
     (fm1, post) \<leftarrow> fec_push_data group_size fm pkt;
     (fm2, pkts, posts) \<leftarrow> push_group group_size fm1 sgs;
     Some (fm2, pkt # pkts, (case post of None \<Rightarrow> [] | Some p \<Rightarrow> [p]) @ posts)
   }"

definition group_packets :: "u32 \<Rightarrow> (u32 \<times> u8 list) list \<Rightarrow> u8 list list" where
  "group_packets fseq sgs = map (\<lambda>i. data_packet fseq (of_nat i) (sgs ! i)) [0..<length sgs]"

definition longest :: "u8 list list \<Rightarrow> nat" where
  "longest ps = Max (insert 0 (length ` set ps))"

definition in_group :: "fec_mod \<Rightarrow> u32 \<Rightarrow> nat \<Rightarrow> u8 list list \<Rightarrow> bool" where
  "in_group fm fseq m ps \<longleftrightarrow> current_fec_seq fm = fseq \<and> current_fec_members fm = of_nat m \<and> current_fec_index fm = of_nat (length ps) \<and>
     unat (fec_len fm) = longest ps \<and> holds_sum (fec_buf fm) (mset ps)"

definition sum_packet :: "u32 \<Rightarrow> nat \<Rightarrow> u8 list \<Rightarrow> u8 list" where
  "sum_packet fseq m body = enc_data_fec \<lparr>df_fec_seq = fseq, df_fec_members = of_nat m, df_fec_len = of_nat (length body)\<rparr> @ body"

lemma data_packet_facts:
  assumes "11 + length (snd sg) \<le> LITEDT_MTU_MAX"
  shows "length (data_packet fseq idx sg) = 11 + length (snd sg)"
    "dec_data_post (data_packet fseq idx sg @ rest) =
      Some (\<lparr>dp_seq = fst sg, dp_len = of_nat (length (snd sg)), dp_fec_seq = fseq, dp_fec_index = idx\<rparr>, snd sg @ rest)"
    "unat (of_nat (length (snd sg)) :: u16) = length (snd sg)"
  using assms by (simp_all add: data_packet_def dec_data_post_enc unat_of_nat LITEDT_MTU_MAX_def LITEDT_MSS_MAX_def LITEDT_MAX_HEADER_def
      enc_data_post_def dec_data_post_def)

lemma longest_snoc: "longest (ps @ [p]) = max (longest ps) (length p)"
proof -
  have "insert 0 (length ` set (ps @ [p])) = insert (length p) (insert 0 (length ` set ps))" by auto
  then show ?thesis unfolding longest_def by (simp only: Max.insert) (subst Max.insert, simp_all add: max.commute)
qed

lemma longest_ge: "p \<in> set ps \<Longrightarrow> length p \<le> longest ps"
  by (simp add: longest_def)

lemma longest_le: "\<forall>p \<in> set ps. length p \<le> n \<Longrightarrow> longest ps \<le> n"
  by (simp add: longest_def)

lemma push_one:
  assumes "in_group fm fseq m ps" "11 + length (snd sg) \<le> LITEDT_MTU_MAX" "length ps < m" "m \<le> 127" "\<forall>p \<in> set ps. length p \<le> LITEDT_MTU_MAX"
  defines "pkt \<equiv> data_packet fseq (of_nat (length ps)) sg"
  shows "\<exists>fm1. in_group fm1 fseq m (ps @ [pkt]) \<and> fm_flow fm1 = fm_flow fm \<and> current_fec_end fm1 = fst sg + of_nat (length (snd sg)) \<and>
    fec_push_data group_size fm pkt = (if Suc (length ps) < m then Some (fm1, None) else fec_post group_size fm1)"
proof -
  note f = data_packet_facts(1,2) [OF assms(2), of fseq "of_nat (length ps)", folded pkt_def] data_packet_facts(3) [OF assms(2)]
  have g: "current_fec_members fm = of_nat m" "current_fec_index fm = of_nat (length ps)" "unat (fec_len fm) = longest ps" "holds_sum (fec_buf fm) (mset ps)"
    "current_fec_seq fm = fseq" using assms(1) by (simp_all add: in_group_def)
  obtain b where b: "xor_into (fec_buf fm) pkt (11 + length (snd sg)) = Some b" "holds_sum b (add_mset pkt (mset ps))"
    using xor_into_sum [OF g(4), of pkt] f(1) assms(2) by auto
  let ?n = "max (unat (fec_len fm)) (11 + length (snd sg))"
  let ?fm1 = "fm\<lparr>fec_buf := b, fec_len := of_nat ?n, current_fec_end := fst sg + of_nat (length (snd sg)), current_fec_index := of_nat (Suc (length ps))\<rparr>"
  have "?n \<le> LITEDT_MTU_MAX" using longest_le [OF assms(5)] g(3) assms(2) by simp
  then have n: "unat (of_nat ?n :: u16) = longest (ps @ [pkt])"
    using f(1) g(3) by (simp add: unat_of_nat longest_snoc LITEDT_MTU_MAX_def LITEDT_MSS_MAX_def LITEDT_MAX_HEADER_def del: of_nat_max)
  then have "in_group ?fm1 fseq m (ps @ [pkt])" using b(2) g by (simp add: in_group_def)
  moreover have "(of_nat m :: u8) \<le> of_nat (Suc (length ps)) \<longleftrightarrow> m \<le> Suc (length ps)"
    using assms(3,4) by (simp add: word_le_nat_alt unat_of_nat del: of_nat_Suc)
  moreover have "ucast (of_nat (length (snd sg)) :: u16) = (of_nat (length (snd sg)) :: u32)"
    using f(3) by (metis of_nat_unat)
  ultimately show ?thesis using b(1) f(2) [of "[]"] f(3) g(1,2)
    by (intro exI [of _ ?fm1]) (simp add: fec_push_data_def Let_def not_less add.commute)
qed

lemma byte_of_nat: "m \<le> 127 \<Longrightarrow> unat (of_nat m :: u8) = m"
  by (simp add: unat_of_nat)

lemma post_group:
  assumes "in_group fm fseq m ps" "length ps = m" "0 < m" "m \<le> 127" "\<forall>p \<in> set ps. length p \<le> LITEDT_MTU_MAX"
  shows "\<exists>fm1. fec_post group_size fm = Some (fm1, Some (enc_header (build_litedt_header LITEDT_DATA_FEC (fm_flow fm)) @
      sum_packet fseq m (take (longest ps) (fec_buf fm)))) \<and>
    in_group fm1 (current_fec_end fm) (unat group_size) [] \<and> fm_flow fm1 = fm_flow fm"
proof -
  have g: "current_fec_index fm = of_nat m" "unat (fec_len fm) = longest ps" "length (fec_buf fm) = LITEDT_MTU_MAX" "current_fec_seq fm = fseq"
    using assms(1,2) by (simp_all add: in_group_def holds_sum_def)
  have l: "longest ps \<le> LITEDT_MTU_MAX" by (rule longest_le [OF assms(5)])
  have "unat (of_nat m :: u8) = m" using assms(4) by (rule byte_of_nat)
  then have nz: "(of_nat m :: u8) \<noteq> 0" using assms(3) by (metis less_irrefl unat_0)
  have w: "fec_len fm = of_nat (longest ps)" using g(2) [symmetric] by simp
  let ?fm1 = "fm\<lparr>current_fec_seq := current_fec_end fm, current_fec_index := 0, current_fec_members := group_size, fec_len := 0,
    fec_buf := replicate LITEDT_MTU_MAX 0\<rparr>"
  have "in_group ?fm1 (current_fec_end fm) (unat group_size) []" by (simp add: in_group_def holds_sum_zero longest_def)
  then show ?thesis using g nz l w
    by (intro exI [of _ ?fm1])
      (simp add: fec_post_def get_bytes_def sum_packet_def LITEDT_MAX_HEADER_def Let_def min_absorb1)
qed

text \<open>Only the last packet of a group posts, and it posts the sum of the group.\<close>

lemma push_group_spec:
  assumes "in_group fm fseq m ps" "length ps + length sgs = m" "sgs \<noteq> []" "m \<le> 127" "\<forall>sg \<in> set sgs. 11 + length (snd sg) \<le> LITEDT_MTU_MAX"
    and "\<forall>p \<in> set ps. length p \<le> LITEDT_MTU_MAX"
    and "pkts = map (\<lambda>i. data_packet fseq (of_nat (length ps + i)) (sgs ! i)) [0..<length sgs]"
  shows "\<exists>fm1 b. push_group group_size fm sgs = Some (fm1, pkts, [enc_header (build_litedt_header LITEDT_DATA_FEC (fm_flow fm)) @
      sum_packet fseq m (take (longest (ps @ pkts)) b)]) \<and> holds_sum b (mset (ps @ pkts)) \<and>
    in_group fm1 (fst (last sgs) + of_nat (length (snd (last sgs)))) (unat group_size) []"
  using assms
proof (induction sgs arbitrary: fm ps pkts)
  case (Cons sg sgs)
  let ?pkt = "data_packet fseq (of_nat (length ps)) sg"
  have sz: "11 + length (snd sg) \<le> LITEDT_MTU_MAX" "length ps < m" using Cons.prems(2,5) by simp_all
  obtain fm1 where f: "in_group fm1 fseq m (ps @ [?pkt])" "fm_flow fm1 = fm_flow fm" "current_fec_end fm1 = fst sg + of_nat (length (snd sg))"
    "fec_push_data group_size fm ?pkt = (if Suc (length ps) < m then Some (fm1, None) else fec_post group_size fm1)"
    using push_one [OF Cons.prems(1) sz Cons.prems(4,6), of group_size] by blast
  have h: "get_fec_header fm = (fseq, of_nat (length ps))" using Cons.prems(1) by (simp add: in_group_def get_fec_header_def)
  have pl: "\<forall>p \<in> set (ps @ [?pkt]). length p \<le> LITEDT_MTU_MAX" using Cons.prems(6) sz(1) data_packet_facts(1) [OF sz(1)] by simp
  define rest where "rest = map (\<lambda>i. data_packet fseq (of_nat (length (ps @ [?pkt]) + i)) (sgs ! i)) [0..<length sgs]"
  have pk: "pkts = ?pkt # rest"
    unfolding Cons.prems(7) rest_def by (simp add: upt_conv_Cons map_Suc_upt [symmetric] ac_simps del: upt_Suc)
  show ?case
  proof (cases sgs)
    case Nil
    then have "length (ps @ [?pkt]) = m" "0 < m" using Cons.prems(2) by simp_all
    from post_group [OF f(1) this Cons.prems(4) pl, of group_size] obtain fm2 where
      p: "fec_post group_size fm1 = Some (fm2, Some (enc_header (build_litedt_header LITEDT_DATA_FEC (fm_flow fm)) @
        sum_packet fseq m (take (longest (ps @ [?pkt])) (fec_buf fm1))))" "in_group fm2 (current_fec_end fm1) (unat group_size) []"
      using f(2) by auto
    have "holds_sum (fec_buf fm1) (mset (ps @ [?pkt]))" using f(1) by (simp add: in_group_def)
    then show ?thesis using Nil p f(3,4) h Cons.prems(2) pk rest_def by (intro exI [of _ fm2] exI [of _ "fec_buf fm1"]) (simp add: Let_def)
  next
    case more: (Cons sg' sgs')
    then have ne: "sgs \<noteq> []" by simp
    obtain fm2 b where r: "push_group group_size fm1 sgs = Some (fm2, rest, [enc_header (build_litedt_header LITEDT_DATA_FEC (fm_flow fm)) @
        sum_packet fseq m (take (longest ((ps @ [?pkt]) @ rest)) b)])" "holds_sum b (mset ((ps @ [?pkt]) @ rest))"
      "in_group fm2 (fst (last sgs) + of_nat (length (snd (last sgs)))) (unat group_size) []"
      using Cons.IH [OF f(1) _ ne Cons.prems(4) _ pl rest_def] Cons.prems(2,5) f(2) by auto
    have "Suc (length ps) < m" using Cons.prems(2) ne by (cases sgs) simp_all
    then show ?thesis using r f(4) h pk ne by (intro exI [of _ fm2] exI [of _ b]) (simp add: Let_def)
  qed
qed simp

section \<open>The group in the queue of the receiver\<close>

lemma queue_get_loop_keys:
  assumes "\<forall>n. map_option fst (hq_node q n) = map_option fst (hq_node q' n)"
  shows "queue_get_loop q key ns = queue_get_loop q' key ns"
proof (induction ns)
  case (Cons n ns)
  have "map_option fst (hq_node q n) = map_option fst (hq_node q' n)" using assms by blast
  then show ?case using Cons by (cases "hq_node q n"; cases "hq_node q' n") (auto split: prod.splits)
qed simp

lemma queue_get_unchanged:
  "queue_get (queue_set_value q a v) key = queue_get q key" "queue_get (q\<lparr>hq_queue := ns\<rparr>) key = queue_get q key"
proof -
  have "queue_get_loop (queue_set_value q a v) key bs = queue_get_loop q key bs" for bs
    by (rule queue_get_loop_keys) (auto simp: queue_set_value_def option.map_comp comp_def case_prod_beta)
  then show "queue_get (queue_set_value q a v) key = queue_get q key"
    by (simp add: queue_get_def hash_index_def queue_set_value_def)
  have "queue_get_loop (q\<lparr>hq_queue := ns\<rparr>) key bs = queue_get_loop q key bs" for bs by (rule queue_get_loop_keys) simp
  then show "queue_get (q\<lparr>hq_queue := ns\<rparr>) key = queue_get q key" by (simp add: queue_get_def hash_index_def)
qed

lemma fec_arrange_queue:
  assumes "hq_inv q" "set preds \<subseteq> set (hq_queue q)"
  shows "\<exists>ns. fec_arrange q fseq n preds = Some (q\<lparr>hq_queue := ns\<rparr>)"
  using assms
proof (induction preds)
  case Nil
  have core: "hq_core q" using Nil(1) by (simp add: hq_inv_def)
  obtain i where i: "hash_index q fseq = Some i" "i < length (hq_hash q)" using hash_index_core [OF core] by blast
  have "distinct (hq_hash q ! i)" "set (hq_hash q ! i) \<subseteq> set (hq_queue q)" using core i(2) by (auto simp: hq_core_def)
  then show ?case using queue_move_loop_spec [OF Nil(1), of "hq_hash q ! i" True fseq] i(1) by (simp add: queue_move_front_def) blast
next
  case (Cons x preds)
  obtain e where "hq_node q x = Some e" using Cons.prems by (auto simp: hq_inv_def hq_core_def)
  then show ?case using Cons by (auto simp: queue_value_def queue_move_to_def)
qed

definition group_at :: "fec_mod \<Rightarrow> u32 \<Rightarrow> addr \<Rightarrow> litedt_fec \<Rightarrow> bool" where
  "group_at fm fseq a g \<longleftrightarrow> queue_get (fec_queue fm) fseq = Some (Some a) \<and> hq_node (fec_queue fm) a = Some (fseq, g)"

lemma group_at_set: "group_at fm fseq a g \<Longrightarrow> group_at (fm\<lparr>fec_queue := queue_set_value (fec_queue fm) a g'\<rparr>) fseq a g'"
  by (simp add: group_at_def queue_get_unchanged) (simp add: queue_set_value_def)

lemma fec_group_old: "group_at fm fseq a g \<Longrightarrow> fec_group fm fseq fmems mem = Some (fm, Inl a)"
  by (simp add: group_at_def fec_group_def)

definition new_group :: "u32 \<Rightarrow> u8 \<Rightarrow> litedt_fec" where
  "new_group fseq fmems = \<lparr>lf_seq = fseq, lf_end = fseq, lf_members = fmems, lf_finish = 0, lf_sum = 0,
     lf_map = replicate 4 0, lf_buf = replicate LITEDT_MTU_MAX 0\<rparr>"

lemma fec_group_new:
  assumes "hq_inv (fec_queue fm)" "queue_get (fec_queue fm) fseq = Some None" "fresh_mem (fec_queue fm) mem" "has_room (fec_queue fm) mem"
  shows "\<exists>q a. fec_group fm fseq fmems mem = Some (fm\<lparr>fec_queue := q\<rparr>, Inl a) \<and> group_at (fm\<lparr>fec_queue := q\<rparr>) fseq a (new_group fseq fmems)"
proof -
  let ?q = "fec_queue fm" and ?g = "new_group fseq fmems"
  obtain q n where q: "queue_append ?q fseq ?g mem = Some (q, 0)" "hq_inv q" "items q = items ?q @ [(fseq, ?g)]" "hq_queue q = hq_queue ?q @ [n]"
    using queue_append_spec [OF assms(1,3), of fseq ?g] assms(4) by auto
  have it: "map (\<lambda>n. the (hq_node q n)) (hq_queue ?q) = items ?q" "the (hq_node q n) = (fseq, ?g)" using q(3) by (simp_all add: items_def q(4))
  have "hq_node q n \<noteq> None" using q(2,4) by (simp add: hq_inv_def hq_core_def)
  then have n: "hq_node q n = Some (fseq, ?g)" using it(2) by auto
  have no: "fseq \<notin> fst ` set (items ?q)" using queue_get_spec [OF assms(1), of fseq] assms(2) by simp
  obtain p where p: "queue_get q fseq = Some p" "case p of None \<Rightarrow> fseq \<notin> fst ` set (items q) | Some n \<Rightarrow> n \<in> set (hq_queue q) \<and> queue_key q n = Some fseq"
    using queue_get_spec [OF q(2), of fseq] by (auto split: option.splits)
  have "p = Some n"
  proof (cases p)
    case None
    then show ?thesis using p(2) q(3) by simp
  next
    case (Some x)
    have "x \<notin> set (hq_queue ?q)"
    proof
      assume "x \<in> set (hq_queue ?q)"
      then have "the (hq_node q x) \<in> set (items ?q)" unfolding it(1) [symmetric] by simp
      moreover have "fst (the (hq_node q x)) = fseq" using p(2) Some by (auto simp: queue_key_def)
      ultimately show False using no by force
    qed
    then show ?thesis using p(2) Some q(4) by simp
  qed
  obtain ns where ns: "fec_arrange q fseq n (tl (rev (hq_queue q))) = Some (q\<lparr>hq_queue := ns\<rparr>)"
    using fec_arrange_queue [OF q(2)] q(4) by (metis in_set_butlastD rev_rev_ident set_rev subsetI list.set_sel(2) rev_is_Nil_conv append_is_Nil_conv not_Cons_self2)
  have "queue_last q = Some n" using q(4) by (simp add: queue_last_def)
  then have "fec_group fm fseq fmems mem = Some (fm\<lparr>fec_queue := q\<lparr>hq_queue := ns\<rparr>\<rparr>, Inl n)"
    using assms(2) q(1) p(1) \<open>p = Some n\<close> ns by (simp add: fec_group_def new_group_def Let_def)
  moreover have "group_at (fm\<lparr>fec_queue := q\<lparr>hq_queue := ns\<rparr>\<rparr>) fseq n ?g" using p(1) \<open>p = Some n\<close> n by (simp add: group_at_def queue_get_unchanged)
  ultimately show ?thesis by blast
qed

end
