(* ===== verification/FecRecovery.thy ===== *)
theory FecRecovery
  imports FecGroup
begin

text \<open>
  A packet that is lost is recovered: a group that the sender puts together by \<open>fec_push_data\<close> and \<open>fec_post\<close>, and
  that reaches \<open>fec_insert_data\<close> and \<open>fec_insert_sum\<close> with one packet missing, in any order.
\<close>

section \<open>The map of the received packets\<close>

lemma byte_parts:
  assumes "i < 128"
  shows "unat (drop_bit 5 (of_nat i :: u8)) = i div 32" "unat ((of_nat i :: u8) AND 31) = i mod 32"
proof -
  have u: "unat (of_nat i :: u8) = i" using assms by (simp add: unat_of_nat)
  show "unat (drop_bit 5 (of_nat i :: u8)) = i div 32" using u by (simp add: drop_bit_eq_div unat_div)
  have "(of_nat i :: u8) AND 31 = take_bit 5 (of_nat i)" by (simp add: take_bit_eq_mask mask_eq_exp_minus_1)
  then show "unat ((of_nat i :: u8) AND 31) = i mod 32" using u by (simp add: take_bit_eq_mod unat_mod)
qed

definition marked :: "u32 list \<Rightarrow> nat set \<Rightarrow> bool" where
  "marked m S \<longleftrightarrow> length m = 4 \<and> (\<forall>i < 128. FEC_ISSET (of_nat i) m = Some (i \<in> S))"

lemma isset_bit:
  assumes "length m = 4" "i < 128"
  shows "FEC_ISSET (of_nat i) m = Some (bit (m ! (i div 32)) (i mod 32))"
  using assms byte_parts [OF assms(2)] by (simp add: FEC_ISSET_def bit_iff_and_push_bit_not_eq_0 div_less_iff_less_mult Let_def)

lemma marked_none: "marked (replicate 4 0) {}"
  by (simp add: marked_def isset_bit div_less_iff_less_mult)

lemma marked_insert:
  assumes "marked m S" "j < 128"
  shows "\<exists>m'. FEC_SET (of_nat j) m = Some m' \<and> marked m' (insert j S)"
proof -
  have l: "length m = 4" using assms(1) by (simp add: marked_def)
  let ?m = "m[j div 32 := m ! (j div 32) OR push_bit (j mod 32) 1]"
  have "FEC_SET (of_nat j) m = Some ?m" using l byte_parts [OF assms(2)] assms(2) by (simp add: FEC_SET_def div_less_iff_less_mult Let_def)
  moreover have "bit (?m ! (i div 32)) (i mod 32) \<longleftrightarrow> i = j \<or> bit (m ! (i div 32)) (i mod 32)" if "i < 128" for i
  proof (cases "i div 32 = j div 32")
    case True
    have "i = j \<longleftrightarrow> i mod 32 = j mod 32" using True by (metis div_mult_mod_eq)
    moreover have "bit (push_bit (j mod 32) 1 :: u32) (i mod 32) \<longleftrightarrow> i mod 32 = j mod 32" by (auto simp: bit_simps)
    ultimately show ?thesis using True l assms(2) by (auto simp: bit_or_iff div_less_iff_less_mult)
  next
    case False
    then show ?thesis by auto
  qed
  then have "marked ?m (insert j S)" using assms(1) l by (simp add: marked_def isset_bit)
  ultimately show ?thesis by blast
qed

section \<open>The receiver\<close>

text \<open>The packets of a group on the wire: a data packet, or the sum.\<close>

definition take_one :: "pointer \<Rightarrow> fec_mod \<Rightarrow> u8 list + u8 list \<Rightarrow> (fec_mod \<times> int \<times> u8 list option) option" where
  "take_one mem fm x = (case x of Inl p \<Rightarrow> fec_insert_data fm p mem | Inr p \<Rightarrow> fec_insert_sum fm p mem)"

fun take_group :: "pointer \<Rightarrow> fec_mod \<Rightarrow> (u8 list + u8 list) list \<Rightarrow> (fec_mod \<times> u8 list list) option" where
  "take_group mem fm [] = Some (fm, [])"
| "take_group mem fm (x # xs) = do {
     (fm1, ret, recovered) \<leftarrow> take_one mem fm x;
     (fm2, rest) \<leftarrow> take_group mem fm1 xs;
     Some (fm2, (case recovered of None \<Rightarrow> [] | Some p \<Rightarrow> [p]) @ rest)
   }"

text \<open>\<open>None\<close> stands for the sum, \<open>Some i\<close> for the packet \<open>i\<close> of the group.\<close>

definition payload :: "u8 list list \<Rightarrow> u8 list \<Rightarrow> nat option \<Rightarrow> u8 list" where
  "payload pkts body x = (case x of None \<Rightarrow> body | Some i \<Rightarrow> pkts ! i)"

definition wire :: "u8 list list \<Rightarrow> u8 list \<Rightarrow> nat option \<Rightarrow> u8 list + u8 list" where
  "wire pkts fec x = (case x of None \<Rightarrow> Inr fec | Some i \<Rightarrow> Inl (pkts ! i))"

definition collected :: "litedt_fec \<Rightarrow> nat \<Rightarrow> (nat option \<Rightarrow> u8 list) \<Rightarrow> nat option list \<Rightarrow> bool" where
  "collected g m pay got \<longleftrightarrow> lf_finish g = of_nat (length got) \<and> lf_sum g = (if None \<in> set got then 1 else 0) \<and>
     (None \<in> set got \<longrightarrow> lf_members g = of_nat m) \<and> marked (lf_map g) {i. Some i \<in> set got} \<and> holds_sum (lf_buf g) (mset (map pay got))"

text \<open>What \<open>fec_insert\<close> does with the group when the packet is in it.\<close>

definition insert_tail :: "fec_mod \<Rightarrow> u32 \<Rightarrow> addr \<Rightarrow> litedt_fec \<Rightarrow> (fec_mod \<times> int \<times> u8 list option) option" where
  "insert_tail fm1 fseq a fec2 =
     (if lf_finish fec2 = lf_members fec2 \<and> lf_sum fec2 \<noteq> 0 then do {
        (dp, body) \<leftarrow> dec_data_post (lf_buf fec2);
        isset \<leftarrow> (if dp_fec_seq dp = fseq then FEC_ISSET (dp_fec_index dp) (lf_map fec2) else Some True);
        if \<not> isset then do {
          m \<leftarrow> FEC_SET (dp_fec_index dp) (lf_map fec2);
          let dend = dp_seq dp + ucast (dp_len dp);
          let fec3 = fec2\<lparr>lf_map := m, lf_end := (if LESS_EQUAL (lf_end fec2) dend then dend else lf_end fec2)\<rparr>;
          Some (fm1\<lparr>fec_queue := queue_set_value (fec_queue fm1) a fec3, fec_recv_start := lf_end fec3\<rparr>, 0, Some (lf_buf fec3))
        } else Some (fm1\<lparr>fec_queue := queue_set_value (fec_queue fm1) a fec2\<rparr>, 0, None)
      } else Some (fm1\<lparr>fec_queue := queue_set_value (fec_queue fm1) a fec2\<rparr>, 0, None))"

lemma insert_marked:
  assumes "fseq - fec_recv_start fm < fec_recv_end fm - fec_recv_start fm" "fmems \<noteq> 0" "fmems \<le> FEC_MEMBERS_MAX"
    "\<not> (fidx < FEC_MEMBERS_MAX \<and> fidx \<ge> fmems)" "buf \<noteq> []" "length buf \<le> LITEDT_MTU_MAX"
    "fec_group fm fseq fmems mem = Some (fm1, Inl a)" "hq_node (fec_queue fm1) a = Some (fseq, g)"
    "fec_mark g fidx fmems buf = Some (Some g1)" "xor_into (lf_buf g1) buf (length buf) = Some b"
  shows "fec_insert fm fseq fidx fmems buf (length buf) mem = insert_tail fm1 fseq a (g1\<lparr>lf_buf := b, lf_finish := lf_finish g1 + 1\<rparr>)"
proof -
  have c: "\<not> fseq - fec_recv_start fm \<ge> fec_recv_end fm - fec_recv_start fm" "\<not> length buf > LITEDT_MTU_MAX"
    "\<not> (fmems = 0 \<or> fmems > FEC_MEMBERS_MAX \<or> (fidx < FEC_MEMBERS_MAX \<and> fidx \<ge> fmems) \<or> length buf = 0)"
    using assms(1-6) by (auto simp: not_le)
  show ?thesis unfolding fec_insert_def insert_tail_def Let_def if_not_P [OF c(1)] if_not_P [OF c(2)] if_not_P [OF c(3)]
    using assms(7-10) by (simp add: queue_value_def)
qed

lemma take_sum:
  assumes "collected g m pay got" "None \<notin> set got" "pay None = body" "body \<noteq> []" "length body \<le> LITEDT_MTU_MAX" "0 < m" "m \<le> 127"
    "fseq - fec_recv_start fm < fec_recv_end fm - fec_recv_start fm" "fec_group fm fseq (of_nat m) mem = Some (fm1, Inl a)" "group_at fm1 fseq a g"
  shows "\<exists>g2. collected g2 m pay (got @ [None]) \<and> take_one mem fm (Inr (sum_packet fseq m body)) = insert_tail fm1 fseq a g2"
proof -
  let ?g1 = "g\<lparr>lf_members := of_nat m, lf_sum := 1\<rparr>"
  have c: "lf_sum g = 0" "lf_finish g = of_nat (length got)" "marked (lf_map g) {i. Some i \<in> set got}" "holds_sum (lf_buf g) (mset (map pay got))"
    using assms(1,2) by (simp_all add: collected_def)
  obtain b where b: "xor_into (lf_buf ?g1) body (length body) = Some b" "holds_sum b (add_mset body (mset (map pay got)))"
    using xor_into_sum [OF c(4) assms(5) refl] by auto
  let ?g2 = "?g1\<lparr>lf_buf := b, lf_finish := lf_finish ?g1 + 1\<rparr>"
  have mm: "unat (of_nat m :: u8) = m" by (rule byte_of_nat [OF assms(7)])
  have "(of_nat m :: u8) \<noteq> 0" "(of_nat m :: u8) \<le> FEC_MEMBERS_MAX"
    using mm assms(6,7) by (auto simp: word_le_nat_alt FEC_MEMBERS_MAX_def)
  moreover have "fec_mark g (FEC_MEMBERS_MAX + 1) (of_nat m) body = Some (Some ?g1)" using c(1) by (simp add: fec_mark_def FEC_MEMBERS_MAX_def)
  ultimately have "fec_insert fm fseq (FEC_MEMBERS_MAX + 1) (of_nat m) body (length body) mem = insert_tail fm1 fseq a ?g2"
    using assms(4,5,8,9,10) b(1) by (intro insert_marked) (simp_all add: group_at_def FEC_MEMBERS_MAX_def)
  moreover have "unat (of_nat (length body) :: u16) = length body"
    using assms(5) by (simp add: unat_of_nat LITEDT_MTU_MAX_def LITEDT_MSS_MAX_def LITEDT_MAX_HEADER_def)
  ultimately have "take_one mem fm (Inr (sum_packet fseq m body)) = insert_tail fm1 fseq a ?g2"
    by (simp add: take_one_def fec_insert_sum_def sum_packet_def enc_data_fec_def dec_data_fec_def)
  moreover have "collected ?g2 m pay (got @ [None])" using c b(2) assms(3) by (simp add: collected_def)
  ultimately show ?thesis by blast
qed

lemma take_data:
  assumes "collected g m pay got" "Some i \<notin> set got" "pay (Some i) = data_packet fseq (of_nat i) sg" "11 + length (snd sg) \<le> LITEDT_MTU_MAX" "i < 127"
    "fseq - fec_recv_start fm < fec_recv_end fm - fec_recv_start fm" "fec_group fm fseq FEC_MEMBERS_MAX mem = Some (fm1, Inl a)" "group_at fm1 fseq a g"
  shows "\<exists>g2. collected g2 m pay (got @ [Some i]) \<and> take_one mem fm (Inl (data_packet fseq (of_nat i) sg)) = insert_tail fm1 fseq a g2"
proof -
  let ?p = "data_packet fseq (of_nat i) sg"
  note f = data_packet_facts(1,2) [OF assms(4), of fseq "of_nat i"] data_packet_facts(3) [OF assms(4)]
  have c: "lf_finish g = of_nat (length got)" "marked (lf_map g) {i. Some i \<in> set got}" "holds_sum (lf_buf g) (mset (map pay got))"
    using assms(1) by (simp_all add: collected_def)
  have i: "FEC_ISSET (of_nat i) (lf_map g) = Some False" using c(2) assms(2,5) by (simp add: marked_def)
  obtain k where k: "FEC_SET (of_nat i) (lf_map g) = Some k" "marked k (insert i {i. Some i \<in> set got})" using marked_insert [OF c(2), of i] assms(5) by auto
  define g1 where "g1 = g\<lparr>lf_map := k, lf_end := (if LESS_EQUAL (lf_end g) (fst sg + ucast (of_nat (length (snd sg)) :: u16))
    then fst sg + ucast (of_nat (length (snd sg)) :: u16) else lf_end g)\<rparr>"
  have "unat (of_nat i :: u8) = i" using assms(5) by (intro byte_of_nat) simp
  then have lt: "(of_nat i :: u8) < FEC_MEMBERS_MAX" using assms(5) by (simp add: word_less_nat_alt FEC_MEMBERS_MAX_def)
  then have nlt: "\<not> FEC_MEMBERS_MAX < (of_nat i :: u8)" by (rule less_not_sym)
  have mk: "fec_mark g (of_nat i) FEC_MEMBERS_MAX ?p = Some (Some g1)"
    unfolding fec_mark_def if_not_P [OF nlt] using i k(1) f(2) [of "[]"] by (simp add: g1_def Let_def)
  have g1: "lf_buf g1 = lf_buf g" "lf_finish g1 = lf_finish g" "lf_sum g1 = lf_sum g" "lf_members g1 = lf_members g" "lf_map g1 = k"
    by (simp_all add: g1_def)
  obtain b where b: "xor_into (lf_buf g1) ?p (length ?p) = Some b" "holds_sum b (add_mset ?p (mset (map pay got)))"
    using xor_into_sum [OF c(3), of ?p] f(1) assms(4) g1(1) by auto
  let ?g2 = "g1\<lparr>lf_buf := b, lf_finish := lf_finish g1 + 1\<rparr>"
  have "?p \<noteq> []" "length ?p \<le> LITEDT_MTU_MAX" using f(1) assms(4) by auto
  then have "fec_insert fm fseq (of_nat i) FEC_MEMBERS_MAX ?p (length ?p) mem = insert_tail fm1 fseq a ?g2"
    using assms(6,7,8) mk b(1) lt by (intro insert_marked) (simp_all add: group_at_def FEC_MEMBERS_MAX_def not_le)
  then have "take_one mem fm (Inl ?p) = insert_tail fm1 fseq a ?g2" using f(1,3) f(2) [of "[]"] by (simp add: take_one_def fec_insert_data_def)
  moreover have "{j. Some j \<in> set (got @ [Some i])} = insert i {i. Some i \<in> set got}" by auto
  then have "collected ?g2 m pay (got @ [Some i])" using c b(2) k(2) g1 assms(1,3) by (simp add: collected_def)
  ultimately show ?thesis by blast
qed

text \<open>The group with the packets got so far: not yet there when there are none.\<close>

definition collecting :: "fec_mod \<Rightarrow> u32 \<Rightarrow> nat \<Rightarrow> (nat option \<Rightarrow> u8 list) \<Rightarrow> nat option list \<Rightarrow> pointer \<Rightarrow> bool" where
  "collecting fm fseq m pay got mem \<longleftrightarrow> fseq - fec_recv_start fm < fec_recv_end fm - fec_recv_start fm \<and>
     (if got = [] then hq_inv (fec_queue fm) \<and> queue_get (fec_queue fm) fseq = Some None \<and> fresh_mem (fec_queue fm) mem \<and> has_room (fec_queue fm) mem
      else \<exists>a g. group_at fm fseq a g \<and> collected g m pay got)"

lemma group_ready:
  assumes "collecting fm fseq m pay got mem"
  shows "\<exists>fm1 a g. fec_group fm fseq fmems mem = Some (fm1, Inl a) \<and> group_at fm1 fseq a g \<and> collected g m pay got \<and>
    fec_recv_start fm1 = fec_recv_start fm \<and> fec_recv_end fm1 = fec_recv_end fm"
proof (cases "got = []")
  case True
  then have "hq_inv (fec_queue fm)" "queue_get (fec_queue fm) fseq = Some None" "fresh_mem (fec_queue fm) mem" "has_room (fec_queue fm) mem"
    using assms by (simp_all add: collecting_def)
  from fec_group_new [OF this, of fmems] obtain q a where q: "fec_group fm fseq fmems mem = Some (fm\<lparr>fec_queue := q\<rparr>, Inl a)"
    "group_at (fm\<lparr>fec_queue := q\<rparr>) fseq a (new_group fseq fmems)" by blast
  have "collected (new_group fseq fmems) m pay got" using True by (simp add: collected_def new_group_def marked_none holds_sum_zero)
  then show ?thesis using q by (intro exI [of _ "fm\<lparr>fec_queue := q\<rparr>"] exI [of _ a] exI [of _ "new_group fseq fmems"]) simp
next
  case False
  then obtain a g where g: "group_at fm fseq a g" "collected g m pay got" using assms by (auto simp: collecting_def)
  then show ?thesis using fec_group_old [OF g(1)] by blast
qed

text \<open>A packet of the group that was not there yet, data or sum.\<close>

definition group_ok :: "u32 \<Rightarrow> (u32 \<times> u8 list) list \<Rightarrow> u8 list \<Rightarrow> bool" where
  "group_ok fseq sgs body \<longleftrightarrow> sgs \<noteq> [] \<and> length sgs \<le> 127 \<and> (\<forall>sg \<in> set sgs. 11 + length (snd sg) \<le> LITEDT_MTU_MAX) \<and>
     body \<noteq> [] \<and> length body \<le> LITEDT_MTU_MAX"

lemma take_any:
  fixes sgs :: "(u32 \<times> u8 list) list" and fseq :: u32
  defines "m \<equiv> length sgs" and "pkts \<equiv> group_packets fseq sgs"
  assumes "group_ok fseq sgs body" "collecting fm fseq m (payload pkts body) got mem" "x \<notin> set got" "\<forall>i. x = Some i \<longrightarrow> i < m"
  shows "\<exists>fm1 a g g2. group_at fm1 fseq a g \<and> collected g2 m (payload pkts body) (got @ [x]) \<and> fec_recv_start fm1 = fec_recv_start fm \<and>
    fec_recv_end fm1 = fec_recv_end fm \<and> take_one mem fm (wire pkts (sum_packet fseq m body) x) = insert_tail fm1 fseq a g2"
proof -
  have k: "0 < m" "m \<le> 127" "body \<noteq> []" "length body \<le> LITEDT_MTU_MAX" using assms(3) by (auto simp: group_ok_def m_def)
  have win: "fseq - fec_recv_start fm < fec_recv_end fm - fec_recv_start fm" using assms(4) by (simp add: collecting_def)
  show ?thesis
  proof (cases x)
    case None
    obtain fm1 a g where r: "fec_group fm fseq (of_nat m) mem = Some (fm1, Inl a)" "group_at fm1 fseq a g" "collected g m (payload pkts body) got"
      "fec_recv_start fm1 = fec_recv_start fm" "fec_recv_end fm1 = fec_recv_end fm" using group_ready [OF assms(4), of "of_nat m"] by blast
    have "None \<notin> set got" "payload pkts body None = body" using assms(5) None by (simp_all add: payload_def)
    from take_sum [OF r(3) this k(3,4,1,2) win r(1,2)] show ?thesis using r None by (auto simp: wire_def)
  next
    case (Some i)
    obtain fm1 a g where r: "fec_group fm fseq FEC_MEMBERS_MAX mem = Some (fm1, Inl a)" "group_at fm1 fseq a g" "collected g m (payload pkts body) got"
      "fec_recv_start fm1 = fec_recv_start fm" "fec_recv_end fm1 = fec_recv_end fm" using group_ready [OF assms(4), of FEC_MEMBERS_MAX] by blast
    have i: "i < m" "i < 127" "Some i \<notin> set got" using assms(5,6) Some k(2) by auto
    have p: "pkts ! i = data_packet fseq (of_nat i) (sgs ! i)" using i(1) by (simp add: pkts_def group_packets_def m_def)
    have "11 + length (snd (sgs ! i)) \<le> LITEDT_MTU_MAX" using assms(3) i(1) by (simp add: group_ok_def m_def)
    from take_data [OF r(3) i(3) _ this i(2) win r(1,2)] show ?thesis using r Some p by (auto simp: wire_def payload_def)
  qed
qed

lemma take_more:
  fixes sgs :: "(u32 \<times> u8 list) list" and fseq :: u32
  defines "m \<equiv> length sgs" and "pkts \<equiv> group_packets fseq sgs"
  assumes "group_ok fseq sgs body" "collecting fm fseq m (payload pkts body) got mem" "x \<notin> set got" "\<forall>i. x = Some i \<longrightarrow> i < m"
    and "Suc (length got) < m"
  shows "\<exists>fm1. take_one mem fm (wire pkts (sum_packet fseq m body) x) = Some (fm1, 0, None) \<and>
    collecting fm1 fseq m (payload pkts body) (got @ [x]) mem"
proof -
  obtain fm1 a g g2 where r: "group_at fm1 fseq a g" "collected g2 m (payload pkts body) (got @ [x])" "fec_recv_start fm1 = fec_recv_start fm"
    "fec_recv_end fm1 = fec_recv_end fm" "take_one mem fm (wire pkts (sum_packet fseq m body) x) = insert_tail fm1 fseq a g2"
    using take_any [OF assms(3) assms(4) [unfolded m_def pkts_def] assms(5) assms(6) [unfolded m_def]] unfolding m_def pkts_def by blast
  have "m \<le> 127" using assms(3) by (simp add: group_ok_def m_def)
  then have u: "unat (of_nat (Suc (length got)) :: u8) = Suc (length got)" "unat (of_nat m :: u8) = m"
    using byte_of_nat [of m] byte_of_nat [of "Suc (length got)"] assms(7) by (simp_all del: of_nat_Suc)
  have "\<not> (lf_finish g2 = lf_members g2 \<and> lf_sum g2 \<noteq> 0)"
  proof
    assume "lf_finish g2 = lf_members g2 \<and> lf_sum g2 \<noteq> 0"
    then have "(of_nat (Suc (length got)) :: u8) = of_nat m" using r(2) by (auto simp: collected_def split: if_splits)
    then show False using u assms(7) by (metis less_irrefl)
  qed
  then have "take_one mem fm (wire pkts (sum_packet fseq m body) x) = Some (fm1\<lparr>fec_queue := queue_set_value (fec_queue fm1) a g2\<rparr>, 0, None)"
    using r(5) by (simp only: insert_tail_def if_False)
  moreover have "collecting (fm1\<lparr>fec_queue := queue_set_value (fec_queue fm1) a g2\<rparr>) fseq m (payload pkts body) (got @ [x]) mem"
    using group_at_set [OF r(1), of g2] r(2-4) assms(4) by (auto simp: collecting_def)
  ultimately show ?thesis by blast
qed

text \<open>The last packet completes the sum of all packets but the missing one.\<close>

lemma take_last:
  fixes sgs :: "(u32 \<times> u8 list) list" and fseq :: u32
  defines "m \<equiv> length sgs" and "pkts \<equiv> group_packets fseq sgs"
  assumes "group_ok fseq sgs body" "collecting fm fseq m (payload pkts body) got mem" "x \<notin> set got" "\<forall>i. x = Some i \<longrightarrow> i < m"
    and "Suc (length got) = m" "None \<in> set (got @ [x])" "k < m" "Some k \<notin> set (got @ [x])"
    and "\<And>c. holds_sum c (mset (map (payload pkts body) (got @ [x]))) \<Longrightarrow> c = pkts ! k @ replicate (LITEDT_MTU_MAX - length (pkts ! k)) 0"
  shows "\<exists>fm1. take_one mem fm (wire pkts (sum_packet fseq m body) x) =
    Some (fm1, 0, Some (pkts ! k @ replicate (LITEDT_MTU_MAX - length (pkts ! k)) 0))"
proof -
  obtain fm1 a g g2 where r: "collected g2 m (payload pkts body) (got @ [x])"
    "take_one mem fm (wire pkts (sum_packet fseq m body) x) = insert_tail fm1 fseq a g2"
    using take_any [OF assms(3) assms(4) [unfolded m_def pkts_def] assms(5) assms(6) [unfolded m_def]] unfolding m_def pkts_def by blast
  have c: "lf_finish g2 = of_nat m" "lf_members g2 = of_nat m" "lf_sum g2 = 1" "marked (lf_map g2) {i. Some i \<in> set (got @ [x])}"
    using r(1) assms(7,8) by (auto simp: collected_def simp del: of_nat_Suc)
  have b: "lf_buf g2 = pkts ! k @ replicate (LITEDT_MTU_MAX - length (pkts ! k)) 0" using r(1) by (intro assms(11)) (simp add: collected_def)
  have "m \<le> 127" and sz: "11 + length (snd (sgs ! k)) \<le> LITEDT_MTU_MAX" using assms(3,9) by (simp_all add: group_ok_def m_def)
  have p: "pkts ! k = data_packet fseq (of_nat k) (sgs ! k)" using assms(9) by (simp add: pkts_def group_packets_def m_def)
  have k: "k < 128" using \<open>m \<le> 127\<close> assms(9) by simp
  have "FEC_ISSET (of_nat k) (lf_map g2) = Some False" using c(4) assms(10) k by (simp add: marked_def)
  moreover obtain mp where "FEC_SET (of_nat k) (lf_map g2) = Some mp" using marked_insert [OF c(4) k] by blast
  ultimately show ?thesis
    using r(2) c(1-3) data_packet_facts(2) [OF sz, of fseq "of_nat k" "replicate (LITEDT_MTU_MAX - length (pkts ! k)) 0"]
    by (simp add: insert_tail_def b p Let_def)
qed

lemma take_group_spec:
  fixes sgs :: "(u32 \<times> u8 list) list" and fseq :: u32
  defines "m \<equiv> length sgs" and "pkts \<equiv> group_packets fseq sgs"
  assumes "group_ok fseq sgs body" "k < m" "xs \<noteq> []" "collecting fm fseq m (payload pkts body) got mem" "distinct (got @ xs)"
    and "set (got @ xs) = insert None (Some ` ({..<m} - {k}))"
    and "\<And>c. holds_sum c (mset (map (payload pkts body) (got @ xs))) \<Longrightarrow> c = pkts ! k @ replicate (LITEDT_MTU_MAX - length (pkts ! k)) 0"
  shows "\<exists>fm1. take_group mem fm (map (wire pkts (sum_packet fseq m body)) xs) =
    Some (fm1, [pkts ! k @ replicate (LITEDT_MTU_MAX - length (pkts ! k)) 0])"
  using assms(5-9)
proof (induction xs arbitrary: fm got)
  case (Cons x xs)
  have "card (set (got @ x # xs)) = m"
    unfolding Cons.prems(4) using assms(4) by (simp add: card_image card_insert_if image_iff)
  then have len: "length got + Suc (length xs) = m" using distinct_card [OF Cons.prems(3)] by simp
  have x: "x \<notin> set got" "\<forall>i. x = Some i \<longrightarrow> i < m" using Cons.prems(3,4) by auto
  show ?case
  proof (cases xs)
    case Nil
    have l: "Suc (length got) = m" "None \<in> set (got @ [x])" "Some k \<notin> set (got @ [x])" using len Cons.prems(4) Nil by auto
    have "\<And>c. holds_sum c (mset (map (payload pkts body) (got @ [x]))) \<Longrightarrow> c = pkts ! k @ replicate (LITEDT_MTU_MAX - length (pkts ! k)) 0"
      using Cons.prems(5) Nil by simp
    from take_last [OF assms(3) Cons.prems(2) [unfolded m_def pkts_def] x(1) x(2) [unfolded m_def] l(1) [unfolded m_def] l(2)
        assms(4) [unfolded m_def] l(3) this [unfolded pkts_def]]
    show ?thesis using Nil by (auto simp: m_def pkts_def)
  next
    case more: (Cons y ys)
    have "Suc (length got) < m" using len more by simp
    from take_more [OF assms(3) Cons.prems(2) [unfolded m_def pkts_def] x(1) x(2) [unfolded m_def] this [unfolded m_def]]
    obtain fm1 where f: "take_one mem fm (wire pkts (sum_packet fseq m body) x) = Some (fm1, 0, None)"
      "collecting fm1 fseq m (payload pkts body) (got @ [x]) mem" unfolding m_def pkts_def by blast
    from Cons.IH [OF _ f(2)] obtain fm2 where "take_group mem fm1 (map (wire pkts (sum_packet fseq m body)) xs) =
        Some (fm2, [pkts ! k @ replicate (LITEDT_MTU_MAX - length (pkts ! k)) 0])"
      using Cons.prems(3-5) more by auto
    then show ?thesis using f(1) by simp
  qed
qed simp

lemma all_but_one:
  assumes "distinct xs" "set xs = insert None (Some ` ({..<length pkts} - {k}))" "k < length pkts"
  shows "mset (map (payload pkts body) xs) = add_mset body (mset pkts - {#pkts ! k#})"
proof -
  let ?A = "{..<length pkts} - {k}"
  have "mset xs = mset_set (set xs)" using assms(1) by (simp add: mset_set_set)
  also have "\<dots> = add_mset None (mset_set (Some ` ?A))" unfolding assms(2) by (rule mset_set.insert) auto
  also have "mset_set (Some ` ?A) = image_mset Some (mset_set ?A)" by (simp add: image_mset_mset_set)
  finally have x: "mset (map (payload pkts body) xs) = add_mset body (image_mset (nth pkts) (mset_set ?A))"
    by (simp add: payload_def image_mset.compositionality comp_def)
  have "mset pkts = mset (map (nth pkts) [0..<length pkts])" by (simp add: map_nth)
  also have "\<dots> = image_mset (nth pkts) (mset_set {..<length pkts})" by (simp add: atLeast0LessThan)
  also have "mset_set {..<length pkts} = add_mset k (mset_set ?A)" using assms(3) by (intro mset_set.remove) simp_all
  finally have "mset pkts = add_mset (pkts ! k) (image_mset (nth pkts) (mset_set ?A))" by simp
  then show ?thesis unfolding x by simp
qed

text \<open>
  C7. Forward error correction recovers a lost packet. A sender at the beginning of a group that pushes as many packets as the group has
  members, each within the MTU, posts one packet, after the last of them, and begins the next group with an empty buffer behind
  the last segment. A receiver to which the group is new and in its window, and that gets this packet and all of the data packets but one, in any order,
  hands exactly one packet to the transport, after the last of them: the missing packet, followed by zeros.
\<close>

theorem fec_recovery:
  assumes "current_fec_index fm = 0" "fec_len fm = 0" "fec_buf fm = replicate LITEDT_MTU_MAX 0" "current_fec_members fm = of_nat (length sgs)"
    and "sgs \<noteq> []" "length sgs \<le> 127" "\<forall>sg \<in> set sgs. 11 + length (snd sg) \<le> LITEDT_MTU_MAX"
    and "hq_inv (fec_queue rm)" "queue_get (fec_queue rm) (current_fec_seq fm) = Some None" "fresh_mem (fec_queue rm) mem" "has_room (fec_queue rm) mem"
    and "current_fec_seq fm - fec_recv_start rm < fec_recv_end rm - fec_recv_start rm"
    and "k < length sgs" "distinct order" "set order = insert None (Some ` ({..<length sgs} - {k}))"
  defines "pkts \<equiv> group_packets (current_fec_seq fm) sgs"
  shows "\<exists>fm' fec rm'. push_group group_size fm sgs =
      Some (fm', pkts, [enc_header (build_litedt_header LITEDT_DATA_FEC (fm_flow fm)) @ fec]) \<and>
    current_fec_index fm' = 0 \<and> fec_len fm' = 0 \<and> fec_buf fm' = replicate LITEDT_MTU_MAX 0 \<and> current_fec_members fm' = group_size \<and>
    current_fec_seq fm' = fst (last sgs) + of_nat (length (snd (last sgs))) \<and>
    take_group mem rm (map (wire pkts fec) order) =
      Some (rm', [pkts ! k @ replicate (LITEDT_MTU_MAX - length (pkts ! k)) 0])"
proof -
  let ?s = "current_fec_seq fm" and ?m = "length sgs"
  have i: "in_group fm ?s ?m []" using assms(1-4) by (simp add: in_group_def longest_def holds_sum_zero)
  have p: "pkts = map (\<lambda>i. data_packet ?s (of_nat (length ([] :: u8 list list) + i)) (sgs ! i)) [0..<?m]" by (simp add: pkts_def group_packets_def)
  obtain fm' b where s: "push_group group_size fm sgs = Some (fm', pkts, [enc_header (build_litedt_header LITEDT_DATA_FEC (fm_flow fm)) @
      sum_packet ?s ?m (take (longest pkts) b)])" "holds_sum b (mset pkts)"
    "in_group fm' (fst (last sgs) + of_nat (length (snd (last sgs)))) (unat group_size) []"
    using push_group_spec [OF i _ assms(5,6,7) _ p, of group_size] by auto
  have l: "length p = 11 + length (snd sg)" if "p = data_packet ?s j sg" "sg \<in> set sgs" for p j sg using data_packet_facts(1) assms(7) that by simp
  have pl: "\<forall>p \<in> set pkts. 11 \<le> length p \<and> length p \<le> LITEDT_MTU_MAX"
    using assms(7) by (auto simp: pkts_def group_packets_def l)
  have n: "longest pkts \<le> LITEDT_MTU_MAX" using pl by (intro longest_le) simp
  have len: "length pkts = ?m" by (simp add: pkts_def group_packets_def)
  have "pkts ! k \<in> set pkts" using assms(13) len by simp
  then have k11: "11 \<le> longest pkts" using longest_ge pl by (metis order_trans)
  let ?body = "take (longest pkts) b"
  have b: "length b = LITEDT_MTU_MAX" using s(2) by (simp add: holds_sum_def)
  have "?body \<noteq> []" "length ?body \<le> LITEDT_MTU_MAX" using b k11 n by (auto simp: LITEDT_MTU_MAX_def LITEDT_MSS_MAX_def)
  then have ok: "group_ok ?s sgs ?body" using assms(5-7) by (simp add: group_ok_def)
  have c: "collecting rm ?s ?m (payload pkts ?body) [] mem" using assms(8-12) by (simp add: collecting_def)
  have "c = pkts ! k @ replicate (LITEDT_MTU_MAX - length (pkts ! k)) 0" if "holds_sum c (mset (map (payload pkts ?body) ([] @ order)))" for c
    using missing_packet [OF s(2), of "pkts ! k" "longest pkts" c] that all_but_one [OF assms(14), of pkts k ?body] assms(13,15) len n longest_ge by auto
  moreover have "order \<noteq> []" using assms(15) by (metis insert_not_empty list.set(1))
  ultimately obtain rm' where "take_group mem rm (map (wire pkts (sum_packet ?s ?m ?body)) order) =
      Some (rm', [pkts ! k @ replicate (LITEDT_MTU_MAX - length (pkts ! k)) 0])"
    using take_group_spec [where fseq = ?s and sgs = sgs and k = k and xs = order and got = "[]", folded pkts_def, OF ok assms(13) _ c]
      assms(14,15) by simp blast
  moreover have "fec_buf fm' = replicate LITEDT_MTU_MAX 0"
    using s(3) by (intro nth_equalityI) (simp_all add: in_group_def holds_sum_def xor_sum_empty)
  moreover have "current_fec_index fm' = 0" "fec_len fm' = 0" "current_fec_members fm' = group_size"
    "current_fec_seq fm' = fst (last sgs) + of_nat (length (snd (last sgs)))" using s(3) by (auto simp: in_group_def longest_def unsigned_eq_0_iff)
  ultimately show ?thesis using s(1) by blast
qed

lemma sample_fec_queue: "hq_inv (fec_queue sample_fec)" "queue_get (fec_queue sample_fec) key = Some None"
  "fresh_mem (fec_queue sample_fec) (Some 5)" "has_room (fec_queue sample_fec) (Some 5)"
  by (simp_all add: sample_fec_def queue_init_def hq_inv_def hq_core_def hq_pool_def queue_get_def hash_index_def fresh_mem_def has_room_def)

theorem fec_recovery_witness:
  "\<exists>fm' p q fec rm'. push_group 4 (sample_fec\<lparr>current_fec_members := 2\<rparr>) [(0, [1, 2]), (2, [3])] =
      Some (fm', [p @ [1, 2], q @ [3]], [enc_header (build_litedt_header LITEDT_DATA_FEC 9) @ fec]) \<and> length p = 11 \<and>
    take_group (Some 5) sample_fec [Inr fec, Inl (q @ [3])] = Some (rm', [p @ [1, 2] @ replicate (LITEDT_MTU_MAX - 13) 0])"
proof -
  let ?sgs = "[(0, [1, 2]), (2, [3])] :: (u32 \<times> u8 list) list" and ?fm = "sample_fec\<lparr>current_fec_members := 2\<rparr>"
  let ?p = "data_packet 0 0 (0, [1, 2])" and ?q = "data_packet 0 1 (2, [3])"
  have f: "current_fec_index ?fm = 0" "fec_len ?fm = 0" "fec_buf ?fm = replicate LITEDT_MTU_MAX 0" "current_fec_members ?fm = of_nat (length ?sgs)"
    "current_fec_seq ?fm = 0" "fm_flow ?fm = 9" by (simp_all add: sample_fec_def)
  have s: "?sgs \<noteq> []" "length ?sgs \<le> 127" "\<forall>sg \<in> set ?sgs. 11 + length (snd sg) \<le> LITEDT_MTU_MAX" "0 < length ?sgs"
    by (simp_all add: LITEDT_MTU_MAX_def LITEDT_MSS_MAX_def)
  have w: "current_fec_seq ?fm - fec_recv_start sample_fec < fec_recv_end sample_fec - fec_recv_start sample_fec" by (simp add: sample_fec_def)
  have "{..<length ?sgs} - {0} = {1}" by auto
  then have o: "distinct [None, Some 1]" "set [None, Some 1] = insert None (Some ` ({..<length ?sgs} - {0}))" by simp_all
  have g: "group_packets (current_fec_seq ?fm) ?sgs = [?p, ?q]" unfolding f(5) by (simp add: group_packets_def)
  have l: "length ?p = 13" using data_packet_facts(1) [of "(0, [1, 2])"] s(3) by simp
  obtain fm' fec rm' where r: "push_group 4 ?fm ?sgs = Some (fm', [?p, ?q], [enc_header (build_litedt_header LITEDT_DATA_FEC 9) @ fec])"
    "take_group (Some 5) sample_fec (map (wire [?p, ?q] fec) [None, Some 1]) = Some (rm', [[?p, ?q] ! 0 @ replicate (LITEDT_MTU_MAX - length ([?p, ?q] ! 0)) 0])"
    using fec_recovery [OF f(1-4) s(1-3) sample_fec_queue w s(4) o, of 4, unfolded g f(6)] by blast
  obtain p q where "?p = p @ [1, 2]" "?q = q @ [3]" "length p = 11" by (simp add: data_packet_def enc_data_post_def)
  then show ?thesis using r l by (auto simp: wire_def)
qed

end
