(* ===== verification/FecLoops.thy ===== *)
theory FecLoops
  imports FecRecovery
begin

text \<open>
  The loops over the groups of the receiver: closing the module and the checkpoint at a position of the stream end, and what they
  leave in the queue.
\<close>

section \<open>The loops over the groups\<close>

text \<open>The groups of a queue are entered under their own sequence numbers.\<close>

definition groups_ok :: "fec_mod \<Rightarrow> bool" where
  "groups_ok fm \<longleftrightarrow> hq_inv (fec_queue fm) \<and> distinct (map fst (items (fec_queue fm))) \<and> (\<forall>e \<in> set (items (fec_queue fm)). lf_seq (snd e) = fst e)"

text \<open>What is left of the groups when the stream has been received up to a position: those from the last one on that begins at or before it.\<close>

fun kept :: "u32 \<Rightarrow> (u32 \<times> litedt_fec) list \<Rightarrow> (u32 \<times> litedt_fec) list" where
  "kept pos (x # y # es) = (if LESS_EQUAL (fst y) pos then kept pos (y # es) else x # y # es)"
| "kept pos es = es"

lemma first_group:
  assumes "groups_ok fm" "hq_queue (fec_queue fm) = n # ns"
  shows "\<exists>g es fm1. hq_node (fec_queue fm) n = Some (lf_seq g, g) \<and> items (fec_queue fm) = (lf_seq g, g) # es \<and>
    (\<forall>s. fec_delete (fm\<lparr>fec_recv_start := s\<rparr>) (lf_seq g) = Some (fm1\<lparr>fec_recv_start := s\<rparr>)) \<and> fec_recv_start fm1 = fec_recv_start fm \<and>
    fec_delete fm (lf_seq g) = Some fm1 \<and> groups_ok fm1 \<and> items (fec_queue fm1) = es \<and> hq_queue (fec_queue fm1) = ns"
proof -
  let ?q = "fec_queue fm"
  have ok: "hq_inv ?q" "distinct (map fst (items ?q))" "\<forall>e \<in> set (items ?q). lf_seq (snd e) = fst e" using assms(1) by (simp_all add: groups_ok_def)
  obtain e where "hq_node ?q n = Some e" using ok(1) assms(2) by (auto simp: hq_inv_def hq_core_def)
  moreover have it: "items ?q = the (hq_node ?q n) # map (\<lambda>n. the (hq_node ?q n)) ns" by (simp add: items_def assms(2))
  ultimately obtain g where g: "hq_node ?q n = Some (lf_seq g, g)" using ok(3) by (cases e) auto
  let ?es = "map (\<lambda>n. the (hq_node ?q n)) ns"
  obtain q r where q: "queue_del ?q (lf_seq g) = Some (q, r)" "hq_inv q" "items q = filter (\<lambda>e. fst e \<noteq> lf_seq g) (items ?q)"
    "hq_queue q = filter (\<lambda>n. fst (the (hq_node ?q n)) \<noteq> lf_seq g) (hq_queue ?q)" using queue_del_spec [OF ok(1), of "lf_seq g"] by blast
  have d: "\<forall>n \<in> set ns. fst (the (hq_node ?q n)) \<noteq> lf_seq g" using ok(2) unfolding it g by (auto simp: image_iff)
  then have i: "items q = ?es" "hq_queue q = ns" using q(3,4) it g assms(2) by (simp_all add: filter_id_conv)
  have "groups_ok (fm\<lparr>fec_queue := q\<rparr>)" using ok it q(2) i by (simp add: groups_ok_def)
  then show ?thesis using g it q(1) i by (intro exI [of _ g] exI [of _ ?es] exI [of _ "fm\<lparr>fec_queue := q\<rparr>"]) (simp add: fec_delete_def)
qed

lemma fini_loop:
  assumes "groups_ok fm" "left = length (hq_queue (fec_queue fm))"
  shows "\<exists>fm1. fec_mod_fini_loop left fm = Some fm1 \<and> groups_ok fm1 \<and> hq_queue (fec_queue fm1) = []"
  using assms
proof (induction left arbitrary: fm)
  case 0
  then show ?case by (subst fec_mod_fini_loop.simps) (simp add: queue_empty_def)
next
  case (Suc left)
  then obtain n ns where q: "hq_queue (fec_queue fm) = n # ns" by (metis length_Suc_conv)
  obtain g fm1 where g: "hq_node (fec_queue fm) n = Some (lf_seq g, g)" "fec_delete fm (lf_seq g) = Some fm1" "groups_ok fm1" "hq_queue (fec_queue fm1) = ns"
    using first_group [OF Suc.prems(1) q] by blast
  then show ?case using Suc.IH [of fm1] Suc.prems(2) q by (subst fec_mod_fini_loop.simps) (auto simp: queue_empty_def queue_front_def queue_first_def)
qed

lemma checkpoint_loop:
  assumes "groups_ok fm" "left = length (hq_queue (fec_queue fm))"
  shows "\<exists>fm1. fec_checkpoint_loop left fm pos (queue_first (fec_queue fm)) = Some fm1 \<and> groups_ok fm1 \<and>
    items (fec_queue fm1) = kept pos (items (fec_queue fm)) \<and>
    fec_recv_start fm1 = (if items (fec_queue fm1) = items (fec_queue fm) then fec_recv_start fm else fst (hd (items (fec_queue fm1))))"
  using assms
proof (induction left arbitrary: fm)
  case 0
  then show ?case by (simp add: queue_first_def items_def)
next
  case (Suc left)
  then obtain n ns where q: "hq_queue (fec_queue fm) = n # ns" by (metis length_Suc_conv)
  obtain g es fm1 where g: "hq_node (fec_queue fm) n = Some (lf_seq g, g)" "items (fec_queue fm) = (lf_seq g, g) # es"
    "\<forall>s. fec_delete (fm\<lparr>fec_recv_start := s\<rparr>) (lf_seq g) = Some (fm1\<lparr>fec_recv_start := s\<rparr>)" "groups_ok fm1" "items (fec_queue fm1) = es" "hq_queue (fec_queue fm1) = ns"
    using first_group [OF Suc.prems(1) q] by blast
  show ?case
  proof (cases ns)
    case Nil
    then have "es = []" using g(5,6) by (simp add: items_def)
    then show ?thesis using Nil q g(2) Suc.prems(1) by (simp add: queue_first_def queue_next_def)
  next
    case (Cons n2 ns2)
    obtain h es2 where h: "hq_node (fec_queue fm1) n2 = Some (lf_seq h, h)" "es = (lf_seq h, h) # es2"
      using first_group [OF g(4), of n2 ns2] g(5,6) Cons by auto
    have v: "hq_node (fec_queue fm) n2 = Some (lf_seq h, h)" using g(2) h(2) q Cons Suc.prems(1) by (auto simp: items_def groups_ok_def hq_inv_def hq_core_def)
    have nx: "queue_next (fec_queue fm) n = Some (Some n2)" using q Cons by (simp add: queue_next_def)
    let ?fm1 = "fm1\<lparr>fec_recv_start := lf_seq h\<rparr>"
    have ok1: "groups_ok ?fm1" "left = length (hq_queue (fec_queue ?fm1))" "queue_first (fec_queue ?fm1) = Some n2"
      using g(4,6) Suc.prems(2) q Cons by (simp_all add: groups_ok_def queue_first_def)
    show ?thesis
    proof (cases "LESS_EQUAL (lf_seq h) pos")
      case True
      obtain fm2 where f: "fec_checkpoint_loop left ?fm1 pos (Some n2) = Some fm2" "groups_ok fm2" "items (fec_queue fm2) = kept pos es"
        "fec_recv_start fm2 = (if items (fec_queue fm2) = es then lf_seq h else fst (hd (items (fec_queue fm2))))"
        using Suc.IH [OF ok1(1,2)] ok1(3) g(5) by auto
      have k: "kept pos (items (fec_queue fm)) = kept pos es" using True g(2) h(2) by simp
      have "length (kept pos xs) \<le> length xs" for xs by (induction pos xs rule: kept.induct) auto
      then have "items (fec_queue fm2) \<noteq> items (fec_queue fm)" using f(3) g(2) by (metis impossible_Cons)
      then show ?thesis using f True g(1-3) v nx k h(2) q by (auto simp: queue_first_def queue_value_def)
    next
      case False
      then show ?thesis using g(1,2) v nx h(2) q Suc.prems(1) by (auto simp: queue_first_def queue_value_def)
    qed
  qed
qed

text \<open>
  C33. The two loops over the groups of the receiver end. Closing the module empties its queue. A checkpoint for the position up to which
  the stream was received drops exactly the groups before the last one that begins at or before it, and moves the
  window of the groups accordingly.
\<close>

theorem fec_loops_end:
  assumes "groups_ok fm"
  shows "(\<exists>fm1. fec_mod_fini fm = Some fm1 \<and> items (fec_queue fm1) = []) \<and>
    (\<exists>fm1. fec_checkpoint buffer_size fm pos = Some fm1 \<and> groups_ok fm1 \<and> items (fec_queue fm1) = kept pos (items (fec_queue fm)) \<and>
      fec_recv_start fm1 = (if items (fec_queue fm1) = items (fec_queue fm) then fec_recv_start fm else fst (hd (items (fec_queue fm1)))) \<and>
      fec_recv_end fm1 = pos + buffer_size)"
proof -
  obtain f where f: "fec_mod_fini_loop (length (hq_queue (fec_queue fm))) fm = Some f" "groups_ok f" "hq_queue (fec_queue f) = []"
    using fini_loop [OF assms refl] by blast
  then have "hq_inv (fec_queue f)" by (simp add: groups_ok_def)
  then obtain q where "queue_clear (fec_queue f) = Some q" "hq_queue q = []" using queue_clear_spec by blast
  then have fini: "\<exists>fm1. fec_mod_fini fm = Some fm1 \<and> items (fec_queue fm1) = []"
    using f(1) by (simp add: fec_mod_fini_def queue_fini_def items_def)
  obtain c where "fec_checkpoint_loop (length (hq_queue (fec_queue fm))) fm pos (queue_first (fec_queue fm)) = Some c" "groups_ok c"
    "items (fec_queue c) = kept pos (items (fec_queue fm))"
    "fec_recv_start c = (if items (fec_queue c) = items (fec_queue fm) then fec_recv_start fm else fst (hd (items (fec_queue c))))"
    using checkpoint_loop [OF assms refl] by blast
  then have "\<exists>fm1. fec_checkpoint buffer_size fm pos = Some fm1 \<and> groups_ok fm1 \<and> items (fec_queue fm1) = kept pos (items (fec_queue fm)) \<and>
      fec_recv_start fm1 = (if items (fec_queue fm1) = items (fec_queue fm) then fec_recv_start fm else fst (hd (items (fec_queue fm1)))) \<and>
      fec_recv_end fm1 = pos + buffer_size"
    by (intro exI [of _ "c\<lparr>fec_recv_end := pos + buffer_size\<rparr>"]) (simp add: fec_checkpoint_def groups_ok_def)
  then show ?thesis using fini by blast
qed

text \<open>Three groups at 0, 10 and 20, and a stream received up to 15.\<close>

definition sample_groups :: fec_mod where
  "sample_groups = sample_fec\<lparr>fec_queue := (fec_queue sample_fec)\<lparr>hq_queue := [1, 2, 3], hq_hash := [[1, 2, 3]], node_count := 3,
     hq_node := [1 \<mapsto> (0, new_group 0 4), 2 \<mapsto> (10, new_group 10 4), 3 \<mapsto> (20, new_group 20 4)]\<rparr>\<rparr>"

theorem fec_loops_end_witness:
  "\<exists>fm1. fec_checkpoint 1000 sample_groups 15 = Some fm1 \<and> map fst (items (fec_queue fm1)) = [10, 20] \<and> fec_recv_start fm1 = 10"
proof -
  have i: "items (fec_queue sample_groups) = [(0, new_group 0 4), (10, new_group 10 4), (20, new_group 20 4)]"
    by (simp add: items_def sample_groups_def)
  have "groups_ok sample_groups" unfolding groups_ok_def i
    by (auto simp: new_group_def sample_groups_def sample_fec_def queue_init_def hq_inv_def hq_core_def hq_pool_def key_index_def)
  from fec_loops_end [OF this, of 1000 15] show ?thesis unfolding i by (auto simp: LESS_EQUAL_def)
qed

end
