(* ===== verification/Host.thy ===== *)
theory Host
  imports TimerList HashQueue RBuffer WindowedFilter Fec
begin

text \<open>
  The data of the transport, \<^verbatim>\<open>src/src/litedt.h\<close>, \<open>retrans.h\<close>, \<open>ctrl.h\<close> and the transport section of
  \<open>config.h\<close>. A connection is stored in the node of the timer list \<open>conn_queue\<close> that has its flow as
  key, so a pointer to a connection is a flow; a pointer to a packet is the flow and the sequence number of the packet. Host
  pointers inside the modules are left out, there is one host.

  What the code gets from outside is part of the host, too: the readings of the two clocks, the
  results of \<open>malloc\<close>, and what was handed to \<open>sys_send_cb\<close> with the results of those calls.
\<close>

section \<open>Configuration\<close>

text \<open>
  The transport settings. \<open>cf_rto\<close> is the conversion \<open>(int)(rtt * rto_ratio)\<close> of a round trip time,
  which the code computes in single precision.
\<close>

record transport_settings =
  cf_password :: "u8 list"
  cf_token_expire :: u32
  cf_offline_timeout :: u32
  cf_buffer_size :: u32
  cf_transmit_rate_init :: u32
  cf_transmit_rate_max :: u32
  cf_transmit_rate_min :: u32
  cf_fec_decode :: u32
  cf_fec_group_size :: u32
  cf_max_rtt :: u32
  cf_min_rtt :: u32
  cf_rto :: "u32 \<Rightarrow> int"
  cf_mtu :: u32
  cf_ack_size :: u32

section \<open>Congestion control\<close>

datatype bbr_mode = BBR_STARTUP | BBR_DRAIN | BBR_PROBE_BW | BBR_PROBE_RTT

record ctrl_mod =
  ct_bbr_mode :: bbr_mode
  ct_prior_rtt_round :: u32
  ct_full_bw :: u32
  ct_full_bdp :: u32
  ct_min_rtt_us :: u32
  ct_min_rtt_stamp :: time
  ct_probe_rtt_done_stamp :: time
  ct_probe_rtt_cwnd_target :: u32
  ct_probe_rtt_round_done :: u32
  ct_prior_bw :: u32
  ct_full_bw_reached :: bool
  ct_full_bw_cnt :: "2 word"
  ct_round_start :: bool

section \<open>Retransmission\<close>

record packet_entry =
  pe_flow :: u32
  pe_send_time :: time
  pe_retrans_time :: time
  pe_delivered_time :: time
  pe_first_tx_time :: time
  pe_delivered :: u32
  pe_seq :: u32
  pe_length :: u32
  pe_fec_seq :: u32
  pe_fec_index :: u8
  pe_is_ready :: bool
  pe_is_app_limited :: bool
  pe_retrans_round :: u16

text \<open>The waiting queue is the list of the sequence numbers of its packets.\<close>

record retrans_mod =
  packet_list :: "(u32, packet_entry) treemap"
  waiting_queue :: "u32 list"

record rate_sample =
  rs_prior_mstamp :: time
  rs_prior_delivered :: u32
  rs_delivered :: u32
  rs_interval_us :: time
  rs_rtt_us :: u32
  rs_is_app_limited :: bool

section \<open>Connections and the host\<close>

datatype CONNECT_STATUS = CONN_REQUEST | CONN_ESTABLISHED | CONN_FIN_WAIT | CONN_CLOSE_WAIT | CONN_CLOSED

fun status_num :: "CONNECT_STATUS \<Rightarrow> nat" where
  "status_num CONN_REQUEST = 0"
| "status_num CONN_ESTABLISHED = 1"
| "status_num CONN_FIN_WAIT = 2"
| "status_num CONN_CLOSE_WAIT = 3"
| "status_num CONN_CLOSED = 4"

record sack_info =
  si_seq_end :: u32
  si_send_times :: u8

text \<open>\<open>cn_active\<close> is whether the connection is linked into the active queue of the host.\<close>

record litedt_conn =
  cn_tunnel_id :: u16
  cn_flow :: u32
  cn_swin_start :: u32
  cn_swin_size :: u32
  cn_rwin_start :: u32
  cn_rwin_size :: u32
  cn_write_seq :: u32
  cn_send_seq :: u32
  cn_reack_times :: u8
  cn_probes_sent :: u8
  cn_state :: CONNECT_STATUS
  cn_notify_recvnew :: bool
  cn_notify_recv :: bool
  cn_notify_send :: bool
  cn_fec_enabled :: bool
  cn_active :: bool
  cn_sack_map :: "(u32, sack_info) treemap"
  cn_last_probe_time :: time
  cn_last_sync_time :: time
  cn_next_sync_time :: time
  cn_send_buf :: rbuf
  cn_recv_buf :: rbuf
  cn_retrans :: retrans_mod
  cn_fec :: fec_mod

record litedt_stat =
  st_send_bytes_stat :: u32
  st_recv_bytes_stat :: u32
  st_send_bytes_data :: u32
  st_recv_bytes_data :: u32
  st_send_bytes_ack :: u32
  st_recv_bytes_ack :: u32
  st_data_packet_post :: u32
  st_retrans_packet_post :: u32
  st_fec_packet_post :: u32
  st_data_packet_post_succ :: u32
  st_dup_packet_recv :: u32
  st_fec_recover :: u32
  st_send_error :: u32
  st_udp_lost :: u32
  st_connection_num :: u32
  st_timewait_num :: u32
  st_fec_group_size :: u32
  st_rtt :: u32
  st_bandwidth :: u32
  st_inflight :: u32
  st_cwnd :: u32
  st_time_event_app_limited :: u32
  st_time_event_rate_limited :: u32
  st_time_event_cwnd_limited :: u32
  st_io_event :: u32
  st_io_event_wrong_packet :: u32
  st_io_event_reject :: u32

record litedt_tw_conn =
  tw_flow :: u32
  tw_close_time :: time

text \<open>
  \<open>ho_ext\<close> is the pointer \<open>ext\<close> of the user, or rather what the callbacks of the user can reach through it.
  The last fields are the outside: the future readings of the monotonic and of the real-time clock, the future results of
  \<open>malloc\<close>, \<open>realloc\<close> and of the allocation of buffer blocks, the future results of \<open>sys_send_cb\<close>, and the
  packets handed to it so far, the latest first.
\<close>

record 'w litedt_host =
  ho_ext :: 'w
  ho_node_id :: u16
  ho_peer_node_id :: u16
  ho_mss :: u16
  ho_stat :: litedt_stat
  ho_pacing_time :: time
  ho_pacing_credit :: u32
  ho_pacing_rate :: u32
  ho_snd_cwnd :: u32
  ho_remote_online :: bool
  ho_closed :: bool
  ho_ping_id :: u32
  ho_srtt :: u32
  ho_cur_time :: time
  ho_last_event_time :: time
  ho_next_event_time :: time
  ho_prior_ping_time :: time
  ho_next_ping_time :: time
  ho_offline_time :: time
  ho_rtt_min :: windowed_filter
  ho_bw :: windowed_filter
  ho_ping_rtt :: u32
  ho_rtt_round :: u32
  ho_next_rtt_delivered :: u32
  ho_inflight :: u32
  ho_inflight_bytes :: u32
  ho_delivered :: u32
  ho_delivered_bytes :: u32
  ho_app_limited :: u32
  ho_delivered_time :: time
  ho_first_tx_time :: time
  ho_conn_queue :: "(u32, litedt_conn) timerlist"
  ho_retrans_queue :: "(u32 \<times> u32, u32 \<times> u32) timerlist"
  ho_timewait_queue :: "(u32, litedt_tw_conn) hash_queue"
  ho_active_queue :: "u32 list"
  ho_ctrl :: ctrl_mod
  ho_clock :: "nat \<Rightarrow> time"
  ho_realtime :: "nat \<Rightarrow> time"
  ho_malloc :: "nat \<Rightarrow> pointer"
  ho_realloc :: "nat \<Rightarrow> bool"
  ho_block :: "nat \<Rightarrow> u32 \<Rightarrow> u8 list option"
  ho_send_ret :: "nat \<Rightarrow> int"
  ho_sent :: "u8 list list"

text \<open>Taking the next reading of a clock and the next result of an allocation.\<close>

definition get_curtime :: "'w litedt_host \<Rightarrow> 'w litedt_host \<times> time" where
  "get_curtime h = (h\<lparr>ho_clock := ho_clock h \<circ> Suc\<rparr>, ho_clock h 0)"

definition get_realtime :: "'w litedt_host \<Rightarrow> 'w litedt_host \<times> time" where
  "get_realtime h = (h\<lparr>ho_realtime := ho_realtime h \<circ> Suc\<rparr>, ho_realtime h 0)"

definition host_malloc :: "'w litedt_host \<Rightarrow> 'w litedt_host \<times> pointer" where
  "host_malloc h = (h\<lparr>ho_malloc := ho_malloc h \<circ> Suc\<rparr>, ho_malloc h 0)"

definition host_realloc :: "'w litedt_host \<Rightarrow> 'w litedt_host \<times> bool" where
  "host_realloc h = (h\<lparr>ho_realloc := ho_realloc h \<circ> Suc\<rparr>, ho_realloc h 0)"

definition host_blocks :: "'w litedt_host \<Rightarrow> 'w litedt_host \<times> (u32 \<Rightarrow> u8 list option)" where
  "host_blocks h = (h\<lparr>ho_block := ho_block h \<circ> Suc\<rparr>, ho_block h 0)"

section \<open>A host with no data\<close>

text \<open>The memory of a host after \<open>bzero\<close>; the outside is given by the arguments.\<close>

definition zero_stat :: litedt_stat where
  "zero_stat = \<lparr>st_send_bytes_stat = 0, st_recv_bytes_stat = 0, st_send_bytes_data = 0, st_recv_bytes_data = 0, st_send_bytes_ack = 0,
     st_recv_bytes_ack = 0, st_data_packet_post = 0, st_retrans_packet_post = 0, st_fec_packet_post = 0, st_data_packet_post_succ = 0,
     st_dup_packet_recv = 0, st_fec_recover = 0, st_send_error = 0, st_udp_lost = 0, st_connection_num = 0, st_timewait_num = 0,
     st_fec_group_size = 0, st_rtt = 0, st_bandwidth = 0, st_inflight = 0, st_cwnd = 0, st_time_event_app_limited = 0,
     st_time_event_rate_limited = 0, st_time_event_cwnd_limited = 0, st_io_event = 0, st_io_event_wrong_packet = 0, st_io_event_reject = 0\<rparr>"

definition zero_timerlist :: "('k, 'v) timerlist" where
  "zero_timerlist = \<lparr>tl_bucket_size = 0, tl_key_size = 0, tl_data_size = 0, tl_count = 0, node_capacity = 0, tl_hash_fn = (\<lambda>_. 0),
     tl_hash = [], tl_heap = [], tl_node = (\<lambda>_. None)\<rparr>"

definition zero_queue :: "('k, 'v) hash_queue" where
  "zero_queue = \<lparr>bucket_size = 0, hq_key_size = 0, hq_data_size = 0, node_count = 0, hq_mem = None, hash_fn = (\<lambda>_. 0),
     hq_hash = [], hq_queue = [], hq_node = (\<lambda>_. None)\<rparr>"

definition zero_ctrl :: ctrl_mod where
  "zero_ctrl = \<lparr>ct_bbr_mode = BBR_STARTUP, ct_prior_rtt_round = 0, ct_full_bw = 0, ct_full_bdp = 0, ct_min_rtt_us = 0,
     ct_min_rtt_stamp = 0, ct_probe_rtt_done_stamp = 0, ct_probe_rtt_cwnd_target = 0, ct_probe_rtt_round_done = 0, ct_prior_bw = 0,
     ct_full_bw_reached = False, ct_full_bw_cnt = 0, ct_round_start = False\<rparr>"

definition zero_host :: "(nat \<Rightarrow> time) \<Rightarrow> (nat \<Rightarrow> time) \<Rightarrow> (nat \<Rightarrow> pointer) \<Rightarrow> (nat \<Rightarrow> int) \<Rightarrow> unit litedt_host" where
  "zero_host clock realtime mallocs sends = \<lparr>ho_ext = (), ho_node_id = 0, ho_peer_node_id = 0, ho_mss = 0, ho_stat = zero_stat, ho_pacing_time = 0,
     ho_pacing_credit = 0, ho_pacing_rate = 0, ho_snd_cwnd = 0, ho_remote_online = False, ho_closed = False, ho_ping_id = 0,
     ho_srtt = 0, ho_cur_time = 0, ho_last_event_time = 0, ho_next_event_time = 0, ho_prior_ping_time = 0, ho_next_ping_time = 0,
     ho_offline_time = 0, ho_rtt_min = filter_init 0, ho_bw = filter_init 0, ho_ping_rtt = 0, ho_rtt_round = 0,
     ho_next_rtt_delivered = 0, ho_inflight = 0, ho_inflight_bytes = 0, ho_delivered = 0, ho_delivered_bytes = 0,
     ho_app_limited = 0, ho_delivered_time = 0, ho_first_tx_time = 0, ho_conn_queue = zero_timerlist,
     ho_retrans_queue = zero_timerlist, ho_timewait_queue = zero_queue, ho_active_queue = [], ho_ctrl = zero_ctrl,
     ho_clock = clock, ho_realtime = realtime, ho_malloc = mallocs, ho_realloc = (\<lambda>_. True),
     ho_block = (\<lambda>_ _. Some (replicate (unat RBUF_BLOCK_SIZE) 0)), ho_send_ret = sends, ho_sent = []\<rparr>"

text \<open>The default transport settings of \<open>config.c\<close>, with a retransmission ratio of one and a half.\<close>

definition default_settings :: transport_settings where
  "default_settings = \<lparr>cf_password = replicate 32 0, cf_token_expire = 120, cf_offline_timeout = 120, cf_buffer_size = 10485760,
     cf_transmit_rate_init = 102400, cf_transmit_rate_max = 104857600, cf_transmit_rate_min = 10240, cf_fec_decode = 0,
     cf_fec_group_size = 0, cf_max_rtt = 1000000, cf_min_rtt = 50000, cf_rto = (\<lambda>t. uint t * 3 div 2), cf_mtu = of_nat LITEDT_MTU_MAX, cf_ack_size = 100\<rparr>"

end
