(* ===== verification/Ctrl.thy ===== *)
theory Ctrl
  imports Host
begin

text \<open>
  Congestion control, \<^verbatim>\<open>src/src/ctrl.c\<close>: a variant of BBR that sets the pacing rate and the congestion window of
  the host from the filtered bandwidth and round trip time. Products are 64 bits wide and are cut to 32
  bits where the code stores them in 32 bits. Times are not negative, so \<open>div\<close> is the division of
  C. A division by an MTU of zero is a crash, \<open>None\<close>.
\<close>

unbundle bit_operations_syntax

definition USEC_PER_SEC :: int where "USEC_PER_SEC = 1000000"
definition BBR_SCALE :: nat where "BBR_SCALE = 8"
definition BBR_UNIT :: u64 where "BBR_UNIT = 256"
definition AGGREGATION_TIME :: u64 where "AGGREGATION_TIME = 20000"

definition bbr_mode_name :: "bbr_mode \<Rightarrow> string" where
  "bbr_mode_name m = (case m of BBR_STARTUP \<Rightarrow> ''STARTUP'' | BBR_DRAIN \<Rightarrow> ''DRAIN''
     | BBR_PROBE_BW \<Rightarrow> ''PROBE_BW'' | BBR_PROBE_RTT \<Rightarrow> ''PROBE_RTT'')"

definition bbr_pacing_gain :: "u64 list" where
  "bbr_pacing_gain = [BBR_UNIT * 5 div 4, BBR_UNIT * 3 div 4, BBR_UNIT, BBR_UNIT, BBR_UNIT, BBR_UNIT, BBR_UNIT, BBR_UNIT]"

definition bbr_high_gain :: u64 where "bbr_high_gain = BBR_UNIT * 2885 div 1000 + 1"
definition bbr_drain_gain :: u64 where "bbr_drain_gain = BBR_UNIT * 1000 div 2885"
definition bbr_probe_rtt_gain :: u64 where "bbr_probe_rtt_gain = BBR_UNIT div 2"
definition bbr_cwnd_gain :: u64 where "bbr_cwnd_gain = BBR_UNIT * 2"
definition bbr_full_bw_thresh :: u64 where "bbr_full_bw_thresh = BBR_UNIT * 5 div 4"
definition bbr_cwnd_min_target :: u32 where "bbr_cwnd_min_target = 4"
definition bbr_full_bw_cnt :: "2 word" where "bbr_full_bw_cnt = 3"
definition bbr_probe_rtt_mode_us :: u32 where "bbr_probe_rtt_mode_us = 200000"
definition bbr_min_rtt_win_sec :: int where "bbr_min_rtt_win_sec = 10"
definition bbr_bdp_min_rtt :: u32 where "bbr_bdp_min_rtt = 1500"

definition ctrl_mod_init :: "'w litedt_host \<Rightarrow> 'w litedt_host" where
  "ctrl_mod_init h = h\<lparr>ho_ctrl :=
     \<lparr>ct_bbr_mode = BBR_STARTUP, ct_prior_rtt_round = - 1, ct_full_bw = 0, ct_full_bdp = 0, ct_min_rtt_us = 0,
      ct_min_rtt_stamp = ho_cur_time h div USEC_PER_SEC - bbr_min_rtt_win_sec - 1, ct_probe_rtt_done_stamp = 0,
      ct_probe_rtt_cwnd_target = 0, ct_probe_rtt_round_done = 0, ct_prior_bw = 0, ct_full_bw_reached = False,
      ct_full_bw_cnt = 0, ct_round_start = False\<rparr>\<rparr>"

definition get_ctrl_mode_name :: "'w litedt_host \<Rightarrow> string" where
  "get_ctrl_mode_name h = bbr_mode_name (ct_bbr_mode (ho_ctrl h))"

definition get_bw :: "transport_settings \<Rightarrow> 'w litedt_host \<Rightarrow> u32 option" where
  "get_bw cf h =
     (if filter_get (ho_bw h) \<noteq> 0 then Some (filter_get (ho_bw h))
      else if cf_mtu cf = 0 then None else Some (cf_transmit_rate_init cf div cf_mtu cf))"

definition get_bdp :: "transport_settings \<Rightarrow> 'w litedt_host \<Rightarrow> u32 \<Rightarrow> u32" where
  "get_bdp cf h bw =
     (let rtt_min = (if filter_get (ho_rtt_min h) \<noteq> 0 then filter_get (ho_rtt_min h) else cf_max_rtt cf);
          rtt_min = (if rtt_min < bbr_bdp_min_rtt then bbr_bdp_min_rtt else rtt_min)
      in ucast ((ucast bw :: u64) * ucast rtt_min div 1000000))"

definition get_ack_aggregation_cwnd :: "u32 \<Rightarrow> u32" where
  "get_ack_aggregation_cwnd bw = ucast ((ucast bw :: u64) * AGGREGATION_TIME div 1000000)"

definition get_pacing_rate_fec :: "transport_settings \<Rightarrow> u32 \<Rightarrow> u32" where
  "get_pacing_rate_fec cf pacing_rate =
     (if cf_fec_group_size cf = 0 then 0 else pacing_rate div cf_fec_group_size cf)"

definition scaled :: "u64 \<Rightarrow> u64 \<Rightarrow> u32" where
  "scaled x gain = ucast (drop_bit BBR_SCALE (x * gain))"

definition add_fec_rate :: "transport_settings \<Rightarrow> 'w litedt_host \<Rightarrow> 'w litedt_host" where
  "add_fec_rate cf h = h\<lparr>ho_pacing_rate := ho_pacing_rate h + get_pacing_rate_fec cf (ho_pacing_rate h)\<rparr>"

definition update_pacing_rate :: "transport_settings \<Rightarrow> 'w litedt_host \<Rightarrow> 'w litedt_host option" where
  "update_pacing_rate cf h = do {
     bw0 \<leftarrow> get_bw cf h;
     (if cf_mtu cf = 0 then None else Some ());
     let bw = max bw0 (cf_transmit_rate_min cf div cf_mtu cf);
     let cwnd = (ucast (max (get_bdp cf h bw) bbr_cwnd_min_target) :: u64);
     let bw_bytes = (ucast bw :: u64) * ucast (cf_mtu cf);
     let agg = (ucast (get_ack_aggregation_cwnd bw) :: u64);
     let (rate, win) =
       (case ct_bbr_mode (ho_ctrl h) of
          BBR_STARTUP \<Rightarrow> (scaled bw_bytes bbr_high_gain, scaled (cwnd + agg) bbr_high_gain)
        | BBR_DRAIN \<Rightarrow> (scaled bw_bytes bbr_drain_gain, scaled cwnd bbr_high_gain)
        | BBR_PROBE_BW \<Rightarrow> (scaled bw_bytes (bbr_pacing_gain ! unat (ho_rtt_round h AND 7)), scaled (cwnd + agg) bbr_cwnd_gain)
        | BBR_PROBE_RTT \<Rightarrow> (scaled bw_bytes BBR_UNIT, scaled cwnd bbr_probe_rtt_gain));
     Some (add_fec_rate cf (h\<lparr>ho_pacing_rate := rate, ho_snd_cwnd := win\<rparr>))
   }"

definition pacing_rate_postcheck :: "transport_settings \<Rightarrow> 'w litedt_host \<Rightarrow> 'w litedt_host" where
  "pacing_rate_postcheck cf h =
     (let r = max (ho_pacing_rate h) (cf_transmit_rate_min cf)
      in h\<lparr>ho_pacing_rate := min r (cf_transmit_rate_max cf)\<rparr>)"

definition check_drain :: "transport_settings \<Rightarrow> 'w litedt_host \<Rightarrow> 'w litedt_host" where
  "check_drain cf h =
     (let h1 = (if ct_bbr_mode (ho_ctrl h) = BBR_STARTUP \<and> ct_full_bw_reached (ho_ctrl h)
                then h\<lparr>ho_ctrl := (ho_ctrl h)\<lparr>ct_bbr_mode := BBR_DRAIN, ct_full_bdp := get_bdp cf h (ct_full_bw (ho_ctrl h))\<rparr>\<rparr>
                else h)
      in if ct_bbr_mode (ho_ctrl h1) = BBR_DRAIN then
           (let s = ho_delivered h1 + ho_inflight h1;
                h2 = h1\<lparr>ho_app_limited := (if s \<noteq> 0 then s else 1)\<rparr>
            in if ho_inflight h2 \<le> ct_full_bdp (ho_ctrl h2) then
                 (let cwnd = max (ct_full_bdp (ho_ctrl h2)) bbr_cwnd_min_target + get_ack_aggregation_cwnd (ct_full_bw (ho_ctrl h2));
                      h3 = add_fec_rate cf (h2\<lparr>ho_ctrl := (ho_ctrl h2)\<lparr>ct_bbr_mode := BBR_PROBE_BW\<rparr>,
                             ho_pacing_rate := ct_full_bw (ho_ctrl h2) * cf_mtu cf\<rparr>)
                  in h3\<lparr>ho_snd_cwnd := drop_bit BBR_SCALE (cwnd * ucast bbr_cwnd_gain)\<rparr>)
               else h2)
         else h1)"

definition ctrl_time_event :: "transport_settings \<Rightarrow> 'w litedt_host \<Rightarrow> 'w litedt_host option" where
  "ctrl_time_event cf h =
     (if ho_rtt_round h = ct_prior_rtt_round (ho_ctrl h) then Some h
      else do {
        let h1 = h\<lparr>ho_ctrl := (ho_ctrl h)\<lparr>ct_round_start := True\<rparr>\<rparr>;
        let h2 = check_drain cf h1;
        h3 \<leftarrow> update_pacing_rate cf h2;
        let h4 = pacing_rate_postcheck cf h3;
        Some (h4\<lparr>ho_ctrl := (ho_ctrl h4)\<lparr>ct_prior_rtt_round := ho_rtt_round h4\<rparr>\<rparr>)
      })"

definition check_probe_rtt_done :: "transport_settings \<Rightarrow> 'w litedt_host \<Rightarrow> 'w litedt_host" where
  "check_probe_rtt_done cf h =
     (let c = ho_ctrl h in
      if \<not> (ct_probe_rtt_done_stamp c \<noteq> 0 \<and> ho_cur_time h > ct_probe_rtt_done_stamp c) then h
      else
        (let cwnd = (ucast (max (get_bdp cf h (ct_prior_bw c)) bbr_cwnd_min_target) :: u64)
                    + ucast (get_ack_aggregation_cwnd (ct_prior_bw c));
             h1 = add_fec_rate cf (h\<lparr>ho_pacing_rate := ct_prior_bw c * cf_mtu cf,
                    ho_ctrl := c\<lparr>ct_min_rtt_stamp := ho_cur_time h div USEC_PER_SEC, ct_bbr_mode := BBR_PROBE_BW\<rparr>\<rparr>)
         in pacing_rate_postcheck cf (h1\<lparr>ho_snd_cwnd := scaled cwnd bbr_cwnd_gain\<rparr>)))"

definition check_full_bw_reached :: "'w litedt_host \<Rightarrow> rate_sample \<Rightarrow> 'w litedt_host" where
  "check_full_bw_reached h rs =
     (let c = ho_ctrl h in
      if ct_full_bw_reached c \<or> \<not> ct_round_start c \<or> rs_is_app_limited rs then h
      else
        (let bw_thresh = (ucast (drop_bit BBR_SCALE ((ucast (ct_full_bw c) :: u64) * bbr_full_bw_thresh)) :: u32) in
         if filter_get (ho_bw h) \<ge> bw_thresh
         then h\<lparr>ho_ctrl := c\<lparr>ct_full_bw := filter_get (ho_bw h), ct_full_bw_cnt := 0\<rparr>\<rparr>
         else h\<lparr>ho_ctrl := c\<lparr>ct_full_bw_cnt := ct_full_bw_cnt c + 1,
                  ct_full_bw_reached := ct_full_bw_cnt c + 1 \<ge> bbr_full_bw_cnt\<rparr>\<rparr>))"

text \<open>The parts of \<open>update_min_rtt\<close>: the filter, entering the probe, and the probe itself.\<close>

definition update_rtt_filter :: "'w litedt_host \<Rightarrow> rate_sample \<Rightarrow> 'w litedt_host" where
  "update_rtt_filter h rs =
     (let cur_time_s = word_of_int (ho_cur_time h div USEC_PER_SEC) in
      if rs_rtt_us rs \<noteq> 0 then
        h\<lparr>ho_rtt_min := fst (if filter_get (ho_rtt_min h) \<noteq> 0 then filter_update_min (ho_rtt_min h) cur_time_s (rs_rtt_us rs)
                            else filter_reset (ho_rtt_min h) cur_time_s (rs_rtt_us rs))\<rparr>
      else h)"

definition enter_probe_rtt :: "transport_settings \<Rightarrow> 'w litedt_host \<Rightarrow> 'w litedt_host" where
  "enter_probe_rtt cf h =
     (let bw = filter_get (ho_bw h);
          cwnd = (ucast (max (get_bdp cf h bw) bbr_cwnd_min_target) :: u64)
      in h\<lparr>ho_ctrl := (ho_ctrl h)\<lparr>ct_bbr_mode := BBR_PROBE_RTT, ct_prior_bw := bw,
             ct_probe_rtt_cwnd_target := scaled cwnd bbr_probe_rtt_gain, ct_probe_rtt_done_stamp := 0\<rparr>\<rparr>)"

definition probe_rtt :: "transport_settings \<Rightarrow> 'w litedt_host \<Rightarrow> 'w litedt_host" where
  "probe_rtt cf h =
     (let s = ho_delivered h + ho_inflight h;
          h1 = h\<lparr>ho_app_limited := (if s \<noteq> 0 then s else 1)\<rparr>;
          c = ho_ctrl h1
      in if ct_probe_rtt_done_stamp c = 0 \<and> ho_inflight h1 \<le> ct_probe_rtt_cwnd_target c then
           h1\<lparr>ho_ctrl := c\<lparr>ct_probe_rtt_done_stamp := ho_cur_time h1 + uint bbr_probe_rtt_mode_us,
                ct_probe_rtt_round_done := 0\<rparr>, ho_next_rtt_delivered := ho_delivered h1\<rparr>
         else if ct_probe_rtt_done_stamp c \<noteq> 0 then
           (let h2 = (if ct_round_start c then h1\<lparr>ho_ctrl := c\<lparr>ct_probe_rtt_round_done := 1\<rparr>\<rparr> else h1)
            in if ct_probe_rtt_round_done (ho_ctrl h2) \<noteq> 0 then check_probe_rtt_done cf h2 else h2)
         else h1)"

definition rtt_filter_expired :: "'w litedt_host \<Rightarrow> bool" where
  "rtt_filter_expired h \<longleftrightarrow> ho_cur_time h div USEC_PER_SEC > ct_min_rtt_stamp (ho_ctrl h) + bbr_min_rtt_win_sec"

definition update_rtt_stamp :: "'w litedt_host \<Rightarrow> rate_sample \<Rightarrow> 'w litedt_host" where
  "update_rtt_stamp h rs =
     (if rs_rtt_us rs \<noteq> 0 \<and> (rs_rtt_us rs < ct_min_rtt_us (ho_ctrl h) \<or> rtt_filter_expired h)
      then h\<lparr>ho_ctrl := (ho_ctrl h)\<lparr>ct_min_rtt_us := rs_rtt_us rs, ct_min_rtt_stamp := ho_cur_time h div USEC_PER_SEC\<rparr>\<rparr>
      else h)"

definition update_min_rtt :: "transport_settings \<Rightarrow> 'w litedt_host \<Rightarrow> rate_sample \<Rightarrow> 'w litedt_host" where
  "update_min_rtt cf h rs =
     (let h1 = update_rtt_filter h rs;
          filter_expired = rtt_filter_expired h1;
          h2 = update_rtt_stamp h1 rs;
          h3 = (if bbr_probe_rtt_mode_us > 0 \<and> filter_expired \<and> ct_bbr_mode (ho_ctrl h2) = BBR_PROBE_BW
                then enter_probe_rtt cf h2 else h2)
      in if ct_bbr_mode (ho_ctrl h3) = BBR_PROBE_RTT then probe_rtt cf h3 else h3)"

definition ctrl_io_event :: "transport_settings \<Rightarrow> 'w litedt_host \<Rightarrow> rate_sample \<Rightarrow> 'w litedt_host" where
  "ctrl_io_event cf h rs =
     (let h1 = check_full_bw_reached h rs; h2 = update_min_rtt cf h1 rs
      in h2\<lparr>ho_ctrl := (ho_ctrl h2)\<lparr>ct_round_start := False\<rparr>\<rparr>)"

section \<open>The modes\<close>

text \<open>
  The mode machine: the bandwidth is first found in \<open>BBR_STARTUP\<close>, then the queue is drained, then the host
  alternates between probing for bandwidth and for the round trip time. These are the modes after a time event of a new
  round and after an io event, for a host whose bandwidth-delay product in the new state is \<open>bdp\<close>.
\<close>

abbreviation mode :: "'w litedt_host \<Rightarrow> bbr_mode" where
  "mode h \<equiv> ct_bbr_mode (ho_ctrl h)"

abbreviation full_bw_reached :: "'w litedt_host \<Rightarrow> bool" where
  "full_bw_reached h \<equiv> ct_full_bw_reached (ho_ctrl h)"

fun round_mode :: "bool \<Rightarrow> bool \<Rightarrow> bbr_mode \<Rightarrow> bbr_mode" where
  "round_mode full drained BBR_STARTUP = (if \<not> full then BBR_STARTUP else if drained then BBR_PROBE_BW else BBR_DRAIN)"
| "round_mode full drained BBR_DRAIN = (if drained then BBR_PROBE_BW else BBR_DRAIN)"
| "round_mode full drained m = m"

fun sample_mode :: "bool \<Rightarrow> bool \<Rightarrow> bbr_mode \<Rightarrow> bbr_mode" where
  "sample_mode expired probed BBR_PROBE_BW = (if expired then BBR_PROBE_RTT else BBR_PROBE_BW)"
| "sample_mode expired probed BBR_PROBE_RTT = (if probed then BBR_PROBE_BW else BBR_PROBE_RTT)"
| "sample_mode expired probed m = m"

definition mode_ok :: "'w litedt_host \<Rightarrow> bool" where
  "mode_ok h \<longleftrightarrow> (mode h \<noteq> BBR_STARTUP \<longrightarrow> full_bw_reached h)"

text \<open>The probe of the round trip time is over: its time has passed, and a round ended in it.\<close>

definition probe_over :: "'w litedt_host \<Rightarrow> bool" where
  "probe_over h \<longleftrightarrow> ct_probe_rtt_done_stamp (ho_ctrl h) \<noteq> 0 \<and> ho_cur_time h > ct_probe_rtt_done_stamp (ho_ctrl h) \<and>
     (ct_round_start (ho_ctrl h) \<or> ct_probe_rtt_round_done (ho_ctrl h) \<noteq> 0)"

lemmas ctrl_defs = add_fec_rate_def pacing_rate_postcheck_def Let_def

lemma check_drain_mode:
  "mode (check_drain cf h) = round_mode (full_bw_reached h) (ho_inflight h \<le> ct_full_bdp (ho_ctrl (check_drain cf h))) (mode h) \<and>
   full_bw_reached (check_drain cf h) = full_bw_reached h"
  by (cases "mode h") (simp_all add: check_drain_def ctrl_defs)

lemma update_pacing_rate_ctrl: "update_pacing_rate cf h = Some h' \<Longrightarrow> ho_ctrl h' = ho_ctrl h"
  by (cases "mode h") (auto simp: update_pacing_rate_def ctrl_defs bind_eq_Some_conv split: if_splits)

lemma ctrl_time_event_mode:
  assumes "ctrl_time_event cf h = Some h'"
  shows "mode h' = (if ho_rtt_round h = ct_prior_rtt_round (ho_ctrl h) then mode h
      else round_mode (full_bw_reached h) (ho_inflight h \<le> ct_full_bdp (ho_ctrl h')) (mode h)) \<and>
    full_bw_reached h' = full_bw_reached h"
proof (cases "ho_rtt_round h = ct_prior_rtt_round (ho_ctrl h)")
  case True
  then show ?thesis using assms by (simp add: ctrl_time_event_def)
next
  case False
  let ?h1 = "h\<lparr>ho_ctrl := (ho_ctrl h)\<lparr>ct_round_start := True\<rparr>\<rparr>"
  obtain h3 where h3: "update_pacing_rate cf (check_drain cf ?h1) = Some h3"
    and h': "h' = (pacing_rate_postcheck cf h3)\<lparr>ho_ctrl := (ho_ctrl h3)\<lparr>ct_prior_rtt_round := ho_rtt_round h3\<rparr>\<rparr>"
    using assms False by (auto simp: ctrl_time_event_def bind_eq_Some_conv ctrl_defs)
  show ?thesis using check_drain_mode [of cf ?h1] update_pacing_rate_ctrl [OF h3] False by (simp add: h')
qed

lemma full_bw_fields:
  "mode (check_full_bw_reached h rs) = mode h" "full_bw_reached h \<Longrightarrow> full_bw_reached (check_full_bw_reached h rs)"
  "rtt_filter_expired (check_full_bw_reached h rs) = rtt_filter_expired h" "probe_over (check_full_bw_reached h rs) = probe_over h"
  by (simp_all add: check_full_bw_reached_def rtt_filter_expired_def probe_over_def Let_def)

lemma probe_rtt_mode:
  assumes "mode h = BBR_PROBE_RTT"
  shows "mode (probe_rtt cf h) = (if probe_over h then BBR_PROBE_BW else BBR_PROBE_RTT) \<and> full_bw_reached (probe_rtt cf h) = full_bw_reached h"
  using assms by (simp add: probe_rtt_def check_probe_rtt_done_def probe_over_def ctrl_defs)

lemma update_min_rtt_mode:
  "mode (update_min_rtt cf h rs) = sample_mode (rtt_filter_expired h) (probe_over h) (mode h) \<and>
   full_bw_reached (update_min_rtt cf h rs) = full_bw_reached h"
proof -
  define h1 h2 where "h1 = update_rtt_filter h rs" and "h2 = update_rtt_stamp h1 rs"
  have 1: "rtt_filter_expired h1 = rtt_filter_expired h" by (simp add: h1_def update_rtt_filter_def rtt_filter_expired_def Let_def)
  have 2: "mode h2 = mode h" "full_bw_reached h2 = full_bw_reached h" "probe_over h2 = probe_over h"
    by (simp_all add: h2_def h1_def update_rtt_stamp_def update_rtt_filter_def probe_over_def Let_def)
  have e: "mode (enter_probe_rtt cf h2) = BBR_PROBE_RTT" "\<not> probe_over (enter_probe_rtt cf h2)"
    "full_bw_reached (enter_probe_rtt cf h2) = full_bw_reached h2" by (simp_all add: enter_probe_rtt_def probe_over_def Let_def)
  have u: "update_min_rtt cf h rs =
      (let h3 = (if rtt_filter_expired h \<and> mode h = BBR_PROBE_BW then enter_probe_rtt cf h2 else h2)
       in if mode h3 = BBR_PROBE_RTT then probe_rtt cf h3 else h3)"
    by (simp add: update_min_rtt_def h1_def [symmetric] h2_def [symmetric] 1 2 bbr_probe_rtt_mode_us_def Let_def)
  show ?thesis using u 2 e probe_rtt_mode [of h2 cf] probe_rtt_mode [of "enter_probe_rtt cf h2" cf] by (cases "mode h") simp_all
qed

lemma ctrl_io_event_mode:
  "mode (ctrl_io_event cf h rs) = sample_mode (rtt_filter_expired h) (probe_over h) (mode h)"
  "full_bw_reached h \<Longrightarrow> full_bw_reached (ctrl_io_event cf h rs)"
  using full_bw_fields [of h rs] update_min_rtt_mode [of cf "check_full_bw_reached h rs" rs] by (simp_all add: ctrl_io_event_def Let_def)

text \<open>Any sequence of events; between two of them the rest of the host may change in any way.\<close>

inductive ctrl_run :: "transport_settings \<Rightarrow> 'w litedt_host \<Rightarrow> 'w litedt_host \<Rightarrow> bool" for cf where
  run_start: "ctrl_run cf h h"
| run_time: "ctrl_run cf h h1 \<Longrightarrow> ctrl_time_event cf h1 = Some h2 \<Longrightarrow> ctrl_run cf h h2"
| run_io: "ctrl_run cf h h1 \<Longrightarrow> ctrl_run cf h (ctrl_io_event cf h1 rs)"
| run_other: "ctrl_run cf h h1 \<Longrightarrow> ho_ctrl h2 = ho_ctrl h1 \<Longrightarrow> ctrl_run cf h h2"

lemma sample_time_event:
  "\<exists>h. ctrl_time_event default_settings (ctrl_mod_init (zero_host (\<lambda>_. 0) (\<lambda>_. 0) (\<lambda>_. None) (\<lambda>_. 0))) = Some h"
  by (simp add: ctrl_time_event_def update_pacing_rate_def get_bw_def default_settings_def LITEDT_MTU_MAX_def LITEDT_MSS_MAX_def
      LITEDT_MAX_HEADER_def Let_def split: prod.splits)

lemma time_event_mode_ok:
  assumes "mode_ok h" "ctrl_time_event cf h = Some h'"
  shows "mode_ok h'"
  using ctrl_time_event_mode [OF assms(2)] assms(1) by (cases "mode h") (auto simp: mode_ok_def split: if_splits)

lemma io_event_mode_ok: "mode_ok h \<Longrightarrow> mode_ok (ctrl_io_event cf h rs)"
  using ctrl_io_event_mode(1) [of cf h rs] ctrl_io_event_mode(2) [of h cf rs] by (cases "mode h") (auto simp: mode_ok_def)



text \<open>
  C34. After a time event of a new round the pacing rate lies between the configured minimum and maximum.
\<close>

theorem ctrl_pacing_bounds:
  assumes "ctrl_time_event cf h = Some h'" "ho_rtt_round h \<noteq> ct_prior_rtt_round (ho_ctrl h)"
    and "cf_transmit_rate_min cf \<le> cf_transmit_rate_max cf"
  shows "cf_transmit_rate_min cf \<le> ho_pacing_rate h' \<and> ho_pacing_rate h' \<le> cf_transmit_rate_max cf \<and>
    ct_prior_rtt_round (ho_ctrl h') = ho_rtt_round h'"
  using assms by (auto simp: ctrl_time_event_def bind_eq_Some_conv pacing_rate_postcheck_def Let_def)

theorem ctrl_pacing_bounds_witness:
  "\<exists>h. ctrl_time_event default_settings (ctrl_mod_init (zero_host (\<lambda>_. 0) (\<lambda>_. 0) (\<lambda>_. None) (\<lambda>_. 0))) = Some h \<and>
     10240 \<le> ho_pacing_rate h \<and> ho_pacing_rate h \<le> 104857600"
proof -
  obtain h where h: "ctrl_time_event default_settings (ctrl_mod_init (zero_host (\<lambda>_. 0) (\<lambda>_. 0) (\<lambda>_. None) (\<lambda>_. 0))) = Some h"
    using sample_time_event by blast
  have "cf_transmit_rate_min default_settings \<le> ho_pacing_rate h \<and> ho_pacing_rate h \<le> cf_transmit_rate_max default_settings"
    using ctrl_pacing_bounds [OF h] by (simp add: ctrl_mod_init_def zero_host_def default_settings_def)
  then show ?thesis using h by (simp add: default_settings_def)
qed

end
