(* ===== verification/Retrans.thy ===== *)
theory Retrans
  imports Ctrl
begin

text \<open>
  Retransmission, \<^verbatim>\<open>src/src/retrans.c\<close>, without the functions that send (\<open>handle_retrans\<close> and
  \<open>retrans_queue_send\<close>, which call \<open>litedt_data_post\<close>). Every packet in flight has an entry in the tree map of
  its connection; it waits in the waiting queue of the connection until its time comes, and is
  then in the retransmission queue of the host.
\<close>

section \<open>Connections by flow\<close>

text \<open>
  \<open>find_connection\<close> returns the connection, the outer option is a crash. \<open>get_conn\<close> reads through a pointer to
  a connection and \<open>put_conn\<close> writes through it.
\<close>

definition find_connection :: "'w litedt_host \<Rightarrow> u32 \<Rightarrow> litedt_conn option option" where
  "find_connection h flow = do {
     r \<leftarrow> timerlist_get (ho_conn_queue h) flow;
     case r of None \<Rightarrow> Some None
     | Some (n, t) \<Rightarrow> map_option Some (timerlist_value (ho_conn_queue h) n)
   }"

definition get_conn :: "'w litedt_host \<Rightarrow> u32 \<Rightarrow> litedt_conn option" where
  "get_conn h flow = do { r \<leftarrow> find_connection h flow; r }"

definition put_conn :: "'w litedt_host \<Rightarrow> litedt_conn \<Rightarrow> 'w litedt_host option" where
  "put_conn h c = do {
     r \<leftarrow> timerlist_get (ho_conn_queue h) (cn_flow c);
     (n, t) \<leftarrow> r;
     nd \<leftarrow> tl_node (ho_conn_queue h) n;
     Some (h\<lparr>ho_conn_queue := (ho_conn_queue h)\<lparr>tl_node := (tl_node (ho_conn_queue h))(n \<mapsto> nd\<lparr>tn_val := c\<rparr>)\<rparr>\<rparr>)
   }"

definition get_packet :: "litedt_conn \<Rightarrow> u32 \<Rightarrow> packet_entry option" where
  "get_packet c seq = do {
     a \<leftarrow> treemap_get (packet_list (cn_retrans c)) seq;
     treemap_value (packet_list (cn_retrans c)) a
   }"

definition put_packet :: "litedt_conn \<Rightarrow> packet_entry \<Rightarrow> litedt_conn option" where
  "put_packet c p = do {
     a \<leftarrow> treemap_get (packet_list (cn_retrans c)) (pe_seq p);
     Some (c\<lparr>cn_retrans := (cn_retrans c)\<lparr>packet_list := treemap_set_value (packet_list (cn_retrans c)) a p\<rparr>\<rparr>)
   }"

section \<open>The module\<close>

definition RETRANS_HASH_SIZE :: u32 where "RETRANS_HASH_SIZE = 5003"
definition SRTT_UNIT :: u32 where "SRTT_UNIT = 8"
definition SRTT_ALPHA :: u32 where "SRTT_ALPHA = 7"
definition DEFAULT_INTERVAL :: int where "DEFAULT_INTERVAL = 1000"
definition LITEDT_RECORD_NOT_FOUND :: int where "LITEDT_RECORD_NOT_FOUND = -100"
definition LITEDT_RECORD_EXISTS :: int where "LITEDT_RECORD_EXISTS = -101"
definition LITEDT_PARAMETER_ERROR :: int where "LITEDT_PARAMETER_ERROR = -104"
definition LITEDT_NOT_ENOUGH_SPACE :: int where "LITEDT_NOT_ENOUGH_SPACE = -105"
definition LITEDT_SEQ_OUT_OF_RANGE :: int where "LITEDT_SEQ_OUT_OF_RANGE = -106"
definition LITEDT_SEND_FLOW_CONTROL :: int where "LITEDT_SEND_FLOW_CONTROL = -200"
definition LITEDT_CLIENT_OFFLINE :: int where "LITEDT_CLIENT_OFFLINE = -300"

definition retrans_queue_init ::
  "'w litedt_host \<Rightarrow> (u32 \<times> u32 \<Rightarrow> u32) \<Rightarrow> 'w litedt_host \<times> int" where
  "retrans_queue_init h default_hash =
     (let (h1, hash) = host_malloc h; (h2, heap) = host_malloc h1
      in case timerlist_init RETRANS_HASH_SIZE 8 8 None default_hash hash heap of
           Inl q \<Rightarrow> (h2\<lparr>ho_retrans_queue := q\<rparr>, 0)
         | Inr r \<Rightarrow> (h2, r))"

definition retrans_queue_fini :: "'w litedt_host \<Rightarrow> 'w litedt_host option" where
  "retrans_queue_fini h = do { q \<leftarrow> timerlist_fini (ho_retrans_queue h); Some (h\<lparr>ho_retrans_queue := q\<rparr>) }"

definition retrans_mod_init :: "litedt_conn \<Rightarrow> litedt_conn" where
  "retrans_mod_init c = c\<lparr>cn_retrans := \<lparr>packet_list = treemap_init 4 80 seq_cmp, waiting_queue = []\<rparr>\<rparr>"

definition get_retrans_time :: "transport_settings \<Rightarrow> 'w litedt_host \<Rightarrow> time \<Rightarrow> time" where
  "get_retrans_time cf h cur_time =
     (let rtt = (if ho_srtt h \<noteq> 0 then ho_srtt h else cf_max_rtt cf)
      in if rtt > cf_max_rtt cf then cur_time + cf_rto cf (cf_max_rtt cf)
         else if rtt < cf_min_rtt cf then cur_time + cf_rto cf (cf_min_rtt cf)
         else cur_time + cf_rto cf rtt)"

text \<open>The time of the last packet of the waiting queue, if that is later.\<close>

definition not_before_last :: "litedt_conn \<Rightarrow> time \<Rightarrow> time option" where
  "not_before_last c retrans_time =
     (if waiting_queue (cn_retrans c) = [] then Some retrans_time
      else do {
        p \<leftarrow> get_packet c (last (waiting_queue (cn_retrans c)));
        Some (if retrans_time < pe_retrans_time p then pe_retrans_time p else retrans_time)
      })"

definition create_packet_entry ::
  "transport_settings \<Rightarrow> 'w litedt_host \<Rightarrow> litedt_conn \<Rightarrow> u32 \<Rightarrow> u32 \<Rightarrow> u32 \<Rightarrow> u8 \<Rightarrow> ('w litedt_host \<times> litedt_conn \<times> int) option" where
  "create_packet_entry cf h c seq len fec_seq fec_index = do {
     let (h, cur_time) = get_curtime h;
     let retrans_time = get_retrans_time cf h cur_time;
     if treemap_get (packet_list (cn_retrans c)) seq \<noteq> None then Some (h, c, LITEDT_RECORD_EXISTS)
     else do {
       retrans_time \<leftarrow> not_before_last c retrans_time;
       let packet = \<lparr>pe_flow = cn_flow c, pe_send_time = cur_time, pe_retrans_time = retrans_time,
         pe_delivered_time = ho_delivered_time h, pe_first_tx_time = ho_first_tx_time h, pe_delivered = ho_delivered h,
         pe_seq = seq, pe_length = len, pe_fec_seq = fec_seq, pe_fec_index = fec_index, pe_is_ready = False,
         pe_is_app_limited = (ho_app_limited h \<noteq> 0), pe_retrans_round = 0\<rparr>;
       let h = h\<lparr>ho_inflight := ho_inflight h + 1, ho_inflight_bytes := ho_inflight_bytes h + len\<rparr>;
       let (h, mem) = host_malloc h;
       (tm, ret, at) \<leftarrow> treemap_insert2 (packet_list (cn_retrans c)) seq packet mem;
       let wq = (if ret = 0 then waiting_queue (cn_retrans c) @ [seq] else waiting_queue (cn_retrans c));
       Some (h, c\<lparr>cn_retrans := \<lparr>packet_list = tm, waiting_queue = wq\<rparr>\<rparr>, ret)
     }
   }"

definition packet_delivered ::
  "'w litedt_host \<Rightarrow> packet_entry \<Rightarrow> rate_sample \<Rightarrow> 'w litedt_host \<times> rate_sample" where
  "packet_delivered h p rs =
     (let (h, cur_time) = get_curtime h;
          h = h\<lparr>ho_inflight := ho_inflight h - 1, ho_inflight_bytes := ho_inflight_bytes h - pe_length p,
                ho_delivered_bytes := ho_delivered_bytes h + pe_length p,
                ho_delivered := (if ho_delivered h + 1 \<noteq> 0 then ho_delivered h + 1 else 1)\<rparr>;
          rs = (if pe_retrans_round p = 0 \<and> (rs_rtt_us rs = 0 \<or> cur_time - pe_send_time p < uint (rs_rtt_us rs))
                then rs\<lparr>rs_rtt_us := word_of_int (cur_time - pe_send_time p)\<rparr> else rs)
      in if rs_prior_delivered rs = 0 \<or> AFTER (pe_delivered p) (rs_prior_delivered rs)
         then (h\<lparr>ho_first_tx_time := pe_send_time p\<rparr>,
               rs\<lparr>rs_prior_delivered := pe_delivered p, rs_prior_mstamp := pe_delivered_time p,
                  rs_is_app_limited := pe_is_app_limited p, rs_interval_us := pe_send_time p - pe_first_tx_time p\<rparr>)
         else (h, rs))"

definition packet_abandon :: "'w litedt_host \<Rightarrow> packet_entry \<Rightarrow> 'w litedt_host" where
  "packet_abandon h p = h\<lparr>ho_inflight := ho_inflight h - 1, ho_inflight_bytes := ho_inflight_bytes h - pe_length p,
     ho_app_limited := ho_app_limited h - 1\<rparr>"

definition release_packet_entry ::
  "'w litedt_host \<Rightarrow> litedt_conn \<Rightarrow> packet_entry \<Rightarrow> rate_sample \<Rightarrow> ('w litedt_host \<times> litedt_conn \<times> rate_sample) option" where
  "release_packet_entry h c p rs = do {
     let h = h\<lparr>ho_stat := (ho_stat h)\<lparr>st_data_packet_post_succ := st_data_packet_post_succ (ho_stat h) + 1\<rparr>\<rparr>;
     let (h, rs) = packet_delivered h p rs;
     (h, wq) \<leftarrow> (if pe_is_ready p then do {
                    (q, n) \<leftarrow> timerlist_del (ho_retrans_queue h) (cn_flow c, pe_seq p);
                    Some (h\<lparr>ho_retrans_queue := q\<rparr>, waiting_queue (cn_retrans c))
                  } else Some (h, remove1 (pe_seq p) (waiting_queue (cn_retrans c))));
     (tm, ret) \<leftarrow> treemap_delete (packet_list (cn_retrans c)) (pe_seq p);
     Some (h, c\<lparr>cn_retrans := \<lparr>packet_list = tm, waiting_queue = wq\<rparr>\<rparr>, rs)
   }"

partial_function (option) release_packets_from ::
  "'w litedt_host \<Rightarrow> litedt_conn \<Rightarrow> pointer \<Rightarrow> u32 \<Rightarrow> rate_sample \<Rightarrow> ('w litedt_host \<times> litedt_conn \<times> rate_sample) option" where
  "release_packets_from h c it seq_end rs =
     (case it of None \<Rightarrow> Some (h, c, rs)
      | Some a \<Rightarrow> do {
          p \<leftarrow> treemap_value (packet_list (cn_retrans c)) a;
          if LESS_EQUAL seq_end (pe_seq p) then Some (h, c, rs)
          else do {
            nx \<leftarrow> treemap_next (packet_list (cn_retrans c)) a;
            r \<leftarrow> release_packet_entry h c p rs;
            case r of (h, c, rs) \<Rightarrow> release_packets_from h c nx seq_end rs
          }
        })"

definition release_packet_range ::
  "'w litedt_host \<Rightarrow> litedt_conn \<Rightarrow> u32 \<Rightarrow> u32 \<Rightarrow> rate_sample \<Rightarrow> ('w litedt_host \<times> litedt_conn \<times> rate_sample) option" where
  "release_packet_range h c seq_start seq_end rs =
     release_packets_from h c (treemap_lower_bound (packet_list (cn_retrans c)) seq_start) seq_end rs"

definition first_packet :: "litedt_conn \<Rightarrow> litedt_conn \<times> pointer" where
  "first_packet c =
     (let (tm, p) = treemap_first (packet_list (cn_retrans c))
      in (c\<lparr>cn_retrans := (cn_retrans c)\<lparr>packet_list := tm\<rparr>\<rparr>, p))"

partial_function (option) retrans_checkpoint ::
  "'w litedt_host \<Rightarrow> litedt_conn \<Rightarrow> u32 \<Rightarrow> rate_sample \<Rightarrow> ('w litedt_host \<times> litedt_conn \<times> rate_sample) option" where
  "retrans_checkpoint h c swnd_start rs =
     (case first_packet c of (c, it) \<Rightarrow>
        (case it of None \<Rightarrow> Some (h, c, rs)
         | Some a \<Rightarrow> do {
             p \<leftarrow> treemap_value (packet_list (cn_retrans c)) a;
             if LESS_EQUAL swnd_start (pe_seq p) then Some (h, c, rs)
             else do {
               r \<leftarrow> release_packet_entry h c p rs;
               case r of (h, c, rs) \<Rightarrow> retrans_checkpoint h c swnd_start rs
             }
           }))"

text \<open>The loop over the waiting queue; the packets that became ready are taken out of it.\<close>

fun retrans_ready_loop ::
  "'w litedt_host \<Rightarrow> litedt_conn \<Rightarrow> time \<Rightarrow> u32 list \<Rightarrow> ('w litedt_host \<times> litedt_conn \<times> int) option" where
  "retrans_ready_loop h c cur_time [] = Some (h, c, 0)"
| "retrans_ready_loop h c cur_time (seq # seqs) = do {
     p \<leftarrow> get_packet c seq;
     if pe_retrans_time p > cur_time then Some (h, c, 0)
     else do {
       let (h, ok) = host_realloc h;
       let (h, mem) = host_malloc h;
       (q, ret) \<leftarrow> timerlist_push (ho_retrans_queue h) (pe_send_time p) (cn_flow c, pe_seq p) (cn_flow c, pe_seq p) ok mem;
       let h = h\<lparr>ho_retrans_queue := q\<rparr>;
       if ret \<noteq> 0 then Some (h, c, ret)
       else do {
         c \<leftarrow> put_packet c (p\<lparr>pe_is_ready := True\<rparr>);
         let c = c\<lparr>cn_retrans := (cn_retrans c)\<lparr>waiting_queue := remove1 seq (waiting_queue (cn_retrans c))\<rparr>\<rparr>;
         retrans_ready_loop h c cur_time seqs
       }
     }
   }"

definition retrans_time_event :: "'w litedt_host \<Rightarrow> litedt_conn \<Rightarrow> time \<Rightarrow> ('w litedt_host \<times> litedt_conn \<times> int) option" where
  "retrans_time_event h c cur_time =
     (if status_num (cn_state c) \<ge> status_num CONN_CLOSE_WAIT then Some (h, c, 0)
      else retrans_ready_loop h c cur_time (waiting_queue (cn_retrans c)))"

definition retrans_list_size :: "litedt_conn \<Rightarrow> u32" where
  "retrans_list_size c = treemap_size (packet_list (cn_retrans c))"

definition retrans_next_event_time :: "litedt_conn \<Rightarrow> time \<Rightarrow> time option" where
  "retrans_next_event_time c cur_time =
     (case waiting_queue (cn_retrans c) of [] \<Rightarrow> Some (cur_time + DEFAULT_INTERVAL)
      | s # _ \<Rightarrow> map_option pe_retrans_time (get_packet c s))"

definition generate_bandwidth :: "'w litedt_host \<Rightarrow> rate_sample \<Rightarrow> u32 \<Rightarrow> 'w litedt_host" where
  "generate_bandwidth h rs newly_delivered =
     (let h = (if ho_app_limited h \<noteq> 0 \<and> AFTER (ho_delivered h) (ho_app_limited h) then h\<lparr>ho_app_limited := 0\<rparr> else h) in
      if newly_delivered = 0 then h
      else
        (let cur_time = ho_cur_time h;
             h = h\<lparr>ho_delivered_time := cur_time\<rparr>;
             h = (if LESS_EQUAL (ho_next_rtt_delivered h) (ho_delivered h)
                  then h\<lparr>ho_next_rtt_delivered := ho_delivered h, ho_rtt_round := ho_rtt_round h + 1\<rparr> else h);
             delivered = ho_delivered h - rs_prior_delivered rs;
             interval_us = max (rs_interval_us rs) (cur_time - rs_prior_mstamp rs)
         in if interval_us \<le> 0 then h
            else
              (let delivery_rate = word_of_int (uint delivered * USEC_PER_SEC div interval_us);
                   h = (if \<not> rs_is_app_limited rs \<or> delivery_rate > filter_get (ho_bw h)
                        then h\<lparr>ho_bw := fst (filter_update_max (ho_bw h) (ho_rtt_round h) delivery_rate)\<rparr> else h)
               in if rs_rtt_us rs = 0 then h
                  else if ho_srtt h = 0 then h\<lparr>ho_srtt := rs_rtt_us rs\<rparr>
                  else h\<lparr>ho_srtt := (ho_srtt h * SRTT_ALPHA + rs_rtt_us rs * (SRTT_UNIT - SRTT_ALPHA)) div SRTT_UNIT\<rparr>)))"

definition queue_retrans ::
  "transport_settings \<Rightarrow> 'w litedt_host \<Rightarrow> litedt_conn \<Rightarrow> packet_entry \<Rightarrow> time \<Rightarrow> litedt_conn option" where
  "queue_retrans cf h c p cur_time = do {
     (if pe_is_ready p then Some () else None);
     retrans_time \<leftarrow> not_before_last c (get_retrans_time cf h cur_time);
     let p = p\<lparr>pe_retrans_time := retrans_time,
       pe_retrans_round := (if pe_retrans_round p < 65535 then pe_retrans_round p + 1 else pe_retrans_round p),
       pe_is_ready := False\<rparr>;
     c \<leftarrow> put_packet c p;
     Some (c\<lparr>cn_retrans := (cn_retrans c)\<lparr>waiting_queue := waiting_queue (cn_retrans c) @ [pe_seq p]\<rparr>\<rparr>)
   }"

text \<open>\<open>retrans_mod_fini\<close>: the loop over the packets, then the nodes of the tree map are freed.\<close>

partial_function (option) retrans_fini_from :: "'w litedt_host \<Rightarrow> litedt_conn \<Rightarrow> pointer \<Rightarrow> 'w litedt_host option" where
  "retrans_fini_from h c it =
     (case it of None \<Rightarrow> Some h
      | Some a \<Rightarrow> do {
          p \<leftarrow> treemap_value (packet_list (cn_retrans c)) a;
          let h = packet_abandon h p;
          h \<leftarrow> (if pe_is_ready p then do {
                  (q, n) \<leftarrow> timerlist_del (ho_retrans_queue h) (cn_flow c, pe_seq p);
                  Some (h\<lparr>ho_retrans_queue := q\<rparr>)
                } else Some h);
          nx \<leftarrow> treemap_next (packet_list (cn_retrans c)) a;
          retrans_fini_from h c nx
        })"

definition retrans_mod_fini :: "'w litedt_host \<Rightarrow> litedt_conn \<Rightarrow> ('w litedt_host \<times> litedt_conn) option" where
  "retrans_mod_fini h c = do {
     let (c, it) = first_packet c;
     h \<leftarrow> retrans_fini_from h c it;
     let (tm, freed) = treemap_fini (packet_list (cn_retrans c));
     Some (h, c\<lparr>cn_retrans := (cn_retrans c)\<lparr>packet_list := tm\<rparr>\<rparr>)
   }"

end
