(* ===== verification/LitedtSend.thy ===== *)
theory LitedtSend
  imports Retrans Sha256
begin

text \<open>
  The sending half of \<^verbatim>\<open>src/src/litedt.c\<close>: the functions that build and send each message, and the two functions
  of \<open>retrans.c\<close> that send packets again. A packet is the list of its bytes; the local arrays of fixed size
  appear as bounds, and a write past them is a crash, \<open>None\<close>.
\<close>

section \<open>Packets\<close>

text \<open>Counting in the statistics.\<close>

definition stat_upd :: "(litedt_stat \<Rightarrow> litedt_stat) \<Rightarrow> 'w litedt_host \<Rightarrow> 'w litedt_host" where
  "stat_upd f h = h\<lparr>ho_stat := f (ho_stat h)\<rparr>"

definition socket_send :: "'w litedt_host \<Rightarrow> u8 list \<Rightarrow> bool \<Rightarrow> 'w litedt_host \<times> int" where
  "socket_send h buf force =
     (let len = (of_nat (length buf) :: u32) in
      if \<not> force \<and> ho_pacing_credit h < len then (h, LITEDT_SEND_FLOW_CONTROL)
      else
        (let h = h\<lparr>ho_pacing_credit := (if ho_pacing_credit h \<ge> len then ho_pacing_credit h - len else 0)\<rparr>;
             h = stat_upd (\<lambda>s. s\<lparr>st_send_bytes_stat := st_send_bytes_stat s + len\<rparr>) h;
             ret = ho_send_ret h 0;
             h = h\<lparr>ho_send_ret := ho_send_ret h \<circ> Suc, ho_sent := buf # ho_sent h\<rparr>;
             h = (if ret < int (length buf) then stat_upd (\<lambda>s. s\<lparr>st_send_error := st_send_error s + 1\<rparr>) h else h)
         in (h, ret)))"

definition send_msg :: "'w litedt_host \<Rightarrow> LITEDT_CMD_ID \<Rightarrow> u32 \<Rightarrow> u8 list \<Rightarrow> 'w litedt_host" where
  "send_msg h cmd flow body = fst (socket_send h (enc_header (build_litedt_header cmd flow) @ body) True)"

section \<open>Tokens\<close>

text \<open>
  \<open>SHA256_CTX ctx\<close> is a local variable with arbitrary contents; \<open>sha256_init\<close> sets all but the buffer,
  of which no byte is read before it is written. \<open>None\<close> cannot occur for these lengths.
\<close>

definition token_of :: "transport_settings \<Rightarrow> u16 \<Rightarrow> u8 list \<Rightarrow> u8 list option" where
  "token_of cf node_id payload = do {
     let ctx = sha256_init \<lparr>sc_data = replicate 64 0, sc_datalen = 0, sc_bitlen = 0, sc_state = []\<rparr>;
     ctx \<leftarrow> sha256_update ctx (cf_password cf);
     ctx \<leftarrow> sha256_update ctx (le 2 node_id);
     ctx \<leftarrow> sha256_update ctx payload;
     (ctx, out) \<leftarrow> sha256_final ctx;
     Some out
   }"

definition generate_token :: "transport_settings \<Rightarrow> u16 \<Rightarrow> u8 list \<Rightarrow> u8 list option" where
  "generate_token cf node_id payload = token_of cf node_id payload"

definition validate_token :: "transport_settings \<Rightarrow> u16 \<Rightarrow> u8 list \<Rightarrow> u8 list \<Rightarrow> bool option" where
  "validate_token cf node_id payload token = do {
     expect_token \<leftarrow> token_of cf node_id payload;
     Some (token = expect_token)
   }"

definition ping_payload :: "u32 \<Rightarrow> u64 \<Rightarrow> u8 list" where
  "ping_payload ping_id timestamp = le 4 ping_id @ le 8 timestamp"

section \<open>Control messages\<close>

definition litedt_ping_req :: "transport_settings \<Rightarrow> 'w litedt_host \<Rightarrow> 'w litedt_host option" where
  "litedt_ping_req cf h = do {
     let h = h\<lparr>ho_ping_id := ho_ping_id h + 1\<rparr>;
     let (h, now) = get_realtime h;
     let h = h\<lparr>ho_prior_ping_time := now\<rparr>;
     token \<leftarrow> generate_token cf (ho_node_id h) (ping_payload (ho_ping_id h) (word_of_int now));
     let req = \<lparr>pm_node_id = ho_node_id h, pm_ping_id = ho_ping_id h, pm_timestamp = word_of_int now, pm_token = token\<rparr>;
     Some (send_msg h LITEDT_PING_REQ 0 (enc_ping_req req))
   }"

definition litedt_ping_rsp :: "transport_settings \<Rightarrow> 'w litedt_host \<Rightarrow> ping_msg \<Rightarrow> 'w litedt_host option" where
  "litedt_ping_rsp cf h req = do {
     token \<leftarrow> generate_token cf (ho_node_id h) (pm_token req);
     let rsp = \<lparr>pm_node_id = ho_node_id h, pm_ping_id = pm_ping_id req, pm_timestamp = pm_timestamp req, pm_token = token\<rparr>;
     Some (send_msg h LITEDT_PING_RSP 0 (enc_ping_rsp rsp))
   }"

definition litedt_conn_req :: "'w litedt_host \<Rightarrow> u32 \<Rightarrow> u16 \<Rightarrow> 'w litedt_host" where
  "litedt_conn_req h flow tunnel_id = send_msg h LITEDT_CONNECT_REQ flow (enc_conn_req tunnel_id)"

definition litedt_conn_rsp :: "'w litedt_host \<Rightarrow> u32 \<Rightarrow> int \<Rightarrow> 'w litedt_host" where
  "litedt_conn_rsp h flow status = send_msg h LITEDT_CONNECT_RSP flow (enc_conn_rsp status)"

definition litedt_close_req :: "'w litedt_host \<Rightarrow> u32 \<Rightarrow> u32 \<Rightarrow> 'w litedt_host" where
  "litedt_close_req h flow last_seq = send_msg h LITEDT_CLOSE_REQ flow (enc_close_req last_seq)"

definition litedt_close_rsp :: "'w litedt_host \<Rightarrow> u32 \<Rightarrow> 'w litedt_host" where
  "litedt_close_rsp h flow = send_msg h LITEDT_CLOSE_RSP flow []"

definition litedt_conn_rst :: "'w litedt_host \<Rightarrow> u32 \<Rightarrow> 'w litedt_host" where
  "litedt_conn_rst h flow = send_msg h LITEDT_CONNECT_RST flow []"

definition litedt_online_status :: "'w litedt_host \<Rightarrow> bool" where
  "litedt_online_status h \<longleftrightarrow> ho_remote_online h \<and> \<not> ho_closed h"

section \<open>Data\<close>

text \<open>A FEC packet that \<open>fec_post\<close> or \<open>fec_push_data\<close> produced is sent and counted.\<close>

definition fec_send :: "'w litedt_host \<Rightarrow> u8 list option \<Rightarrow> 'w litedt_host" where
  "fec_send h pkt =
     (case pkt of None \<Rightarrow> h
      | Some b \<Rightarrow> stat_upd (\<lambda>s. s\<lparr>st_fec_packet_post := st_fec_packet_post s + 1\<rparr>) (fst (socket_send h b True)))"

definition litedt_data_post ::
  "transport_settings \<Rightarrow> 'w litedt_host \<Rightarrow> u32 \<Rightarrow> u32 \<Rightarrow> u32 \<Rightarrow> u32 \<Rightarrow> u8 \<Rightarrow> bool \<Rightarrow> ('w litedt_host \<times> int) option" where
  "litedt_data_post cf h flow seq len fec_seq fec_index do_fec =
     (if \<not> litedt_online_status h then Some (h, LITEDT_CLIENT_OFFLINE)
      else if len > ucast (ho_mss h) then Some (h, LITEDT_PARAMETER_ERROR)
      else do {
        r \<leftarrow> find_connection h flow;
        case r of None \<Rightarrow> Some (h, LITEDT_RECORD_NOT_FOUND)
        | Some c \<Rightarrow>
            if seq - cn_swin_start c > cn_swin_size c \<or> seq + len - cn_swin_start c > cn_swin_size c
            then Some (h, LITEDT_SEQ_OUT_OF_RANGE)
            else do {
              let head = (if cn_state c = CONN_REQUEST
                then enc_header (build_litedt_header LITEDT_CONNECT_DATA flow) @ enc_conn_req (cn_tunnel_id c)
                else enc_header (build_litedt_header LITEDT_DATA_POST flow));
              let post = enc_data_post \<lparr>dp_seq = seq, dp_len = ucast len, dp_fec_seq = fec_seq, dp_fec_index = fec_index\<rparr>;
              (if length head + length post + unat len \<le> LITEDT_MTU_MAX then Some () else None);
              (data, h, c) \<leftarrow>
                (if len \<noteq> 0 then do {
                   data \<leftarrow> rbuf_read (cn_send_buf c) seq len;
                   let h = stat_upd (\<lambda>s. s\<lparr>st_data_packet_post := st_data_packet_post s + 1\<rparr>) h;
                   (h, c, ret) \<leftarrow> create_packet_entry cf h c seq len fec_seq fec_index;
                   Some (data, h, c)
                 } else Some ([], h, c));
              let pkt = head @ post @ data;
              let (h, send_ret) = socket_send h pkt (len = 0);
              let h = (if send_ret \<ge> 0 then stat_upd (\<lambda>s. s\<lparr>st_send_bytes_data := st_send_bytes_data s + of_nat (length pkt)\<rparr>) h else h);
              (h, c) \<leftarrow>
                (if cn_fec_enabled c \<and> cf_fec_group_size cf \<noteq> 0 \<and> do_fec then do {
                   (fm, fpkt) \<leftarrow> fec_push_data (ucast (cf_fec_group_size cf)) (cn_fec c) (post @ data);
                   Some (fec_send h fpkt, c\<lparr>cn_fec := fm\<rparr>)
                 } else Some (h, c));
              h \<leftarrow> put_conn h c;
              Some (h, if send_ret = LITEDT_SEND_FLOW_CONTROL then LITEDT_SEND_FLOW_CONTROL else 0)
            }
      })"

text \<open>
  The loop that collects the ranges of an acknowledgement; a range is sent twice and then forgotten. Each
  entry is written to the buffer of \<open>LITEDT_MTU_MAX\<close> bytes behind the 17 bytes of the two headers.
\<close>

partial_function (option) collect_sacks ::
  "u32 \<Rightarrow> (u32, sack_info) treemap \<Rightarrow> pointer \<Rightarrow> (u32 \<times> u32) list \<Rightarrow> ((u32, sack_info) treemap \<times> (u32 \<times> u32) list) option" where
  "collect_sacks ack_size tm it acks =
     (case it of None \<Rightarrow> Some (tm, acks)
      | Some a \<Rightarrow> do {
          start \<leftarrow> treemap_key tm a;
          sack \<leftarrow> treemap_value tm a;
          (if 17 + 8 * (length acks + 1) \<le> LITEDT_MTU_MAX then Some () else None);
          let acks = acks @ [(start, si_seq_end sack)];
          nx \<leftarrow> treemap_next tm a;
          let sack = sack\<lparr>si_send_times := si_send_times sack + 1\<rparr>;
          let tm = treemap_set_value tm a sack;
          (tm, ret) \<leftarrow> (if si_send_times sack \<ge> 2 then treemap_delete tm start else Some (tm, 0));
          if of_nat (length acks) \<ge> ack_size then Some (tm, acks) else collect_sacks ack_size tm nx acks
        })"

definition litedt_data_ack :: "transport_settings \<Rightarrow> 'w litedt_host \<Rightarrow> u32 \<Rightarrow> bool \<Rightarrow> ('w litedt_host \<times> int) option" where
  "litedt_data_ack cf h flow ack_list = do {
     r \<leftarrow> find_connection h flow;
     case r of None \<Rightarrow> Some (h, LITEDT_RECORD_NOT_FOUND)
     | Some c \<Rightarrow> do {
         (c, acks) \<leftarrow>
           (if ack_list then do {
              let (tm, it) = treemap_first (cn_sack_map c);
              (tm, acks) \<leftarrow> collect_sacks (cf_ack_size cf) tm it [];
              Some (c\<lparr>cn_sack_map := tm\<rparr>, acks)
            } else Some (c, []));
         let n = (of_nat (length acks) :: u8);
         let body = enc_data_ack \<lparr>da_win_start = cn_rwin_start c, da_win_size = cn_rwin_size c, da_ack_size = n\<rparr>
                      @ enc_acks (take (unat n) acks);
         h \<leftarrow> put_conn h c;
         let h = send_msg h LITEDT_DATA_ACK flow body;
         Some (stat_upd (\<lambda>s. s\<lparr>st_send_bytes_ack := st_send_bytes_ack s + of_nat (8 + length body)\<rparr>) h, 0)
       }
   }"

section \<open>Retransmission\<close>

definition handle_retrans ::
  "transport_settings \<Rightarrow> 'w litedt_host \<Rightarrow> u32 \<times> u32 \<Rightarrow> time \<Rightarrow> ('w litedt_host \<times> int) option" where
  "handle_retrans cf h pk cur_time = do {
     c \<leftarrow> get_conn h (fst pk);
     p \<leftarrow> get_packet c (snd pk);
     if status_num (cn_state c) \<ge> status_num CONN_CLOSE_WAIT \<or> AFTER (cn_swin_start c) (pe_seq p) then do {
       c \<leftarrow> queue_retrans cf h c p cur_time;
       h \<leftarrow> put_conn h c;
       Some (h, 0)
     }
     else do {
       (h, ret) \<leftarrow>
         (if pe_length p + of_nat LITEDT_MAX_HEADER \<le> ho_pacing_credit h then do {
            let h = stat_upd (\<lambda>s. s\<lparr>st_retrans_packet_post := st_retrans_packet_post s + 1\<rparr>) h;
            (h, ret) \<leftarrow> litedt_data_post cf h (cn_flow c) (pe_seq p) (pe_length p) (pe_fec_seq p) (pe_fec_index p) False;
            c \<leftarrow> get_conn h (fst pk);
            p \<leftarrow> get_packet c (snd pk);
            c \<leftarrow> queue_retrans cf h c p cur_time;
            h \<leftarrow> put_conn h c;
            Some (h, ret)
          } else Some (h, LITEDT_SEND_FLOW_CONTROL));
       Some (h, if ret = LITEDT_SEND_FLOW_CONTROL then ret else 0)
     }
   }"

partial_function (option) retrans_queue_send :: "transport_settings \<Rightarrow> 'w litedt_host \<Rightarrow> 'w litedt_host option" where
  "retrans_queue_send cf h =
     (if timerlist_empty (ho_retrans_queue h) then Some h
      else do {
        top \<leftarrow> timerlist_top (ho_retrans_queue h);
        e \<leftarrow> top;
        case e of (a, t, key, pk) \<Rightarrow> do {
          r \<leftarrow> handle_retrans cf h pk (ho_cur_time h);
          case r of (h, ret) \<Rightarrow> do {
            c \<leftarrow> get_conn h (fst pk);
            p \<leftarrow> get_packet c (snd pk);
            h \<leftarrow> (if \<not> pe_is_ready p then do {
                     q \<leftarrow> timerlist_pop (ho_retrans_queue h);
                     Some (h\<lparr>ho_retrans_queue := q\<rparr>)
                   } else Some h);
            if ret \<noteq> 0 then Some h else retrans_queue_send cf h
          }
        }
      })"

definition retrans_packet_length :: "'w litedt_host \<Rightarrow> u32 option" where
  "retrans_packet_length h =
     (if timerlist_empty (ho_retrans_queue h) then Some 0
      else do {
        top \<leftarrow> timerlist_top (ho_retrans_queue h);
        (a, t, key, pk) \<leftarrow> top;
        c \<leftarrow> get_conn h (fst pk);
        p \<leftarrow> get_packet c (snd pk);
        Some (pe_length p)
      })"

end
