(* ===== verification/Litedt.thy ===== *)
theory Litedt
  imports LitedtSend Fnv
begin

text \<open>
  Connections and events of \<^verbatim>\<open>src/src/litedt.c\<close>. The callbacks of the user are functions on the host, collected in an
  environment; they may call back into the transport. A connection is looked up again after every
  call that may have changed it, as the code does through its pointer; \<open>None\<close> is a crash, which
  includes the use of a connection that was released in between.
\<close>

definition SWND_MAX_SIZE :: u32 where "SWND_MAX_SIZE = 1073741824"
definition CONN_HASH_SIZE :: u32 where "CONN_HASH_SIZE = 1013"
definition CYCLE_LEN :: u32 where "CYCLE_LEN = 8"
definition ZERO_WINDOW_PROBES :: nat where "ZERO_WINDOW_PROBES = 120"
definition KEEPALIVE_PROBES :: nat where "KEEPALIVE_PROBES = 18"
definition CONNECTION_TIMEOUT :: time where "CONNECTION_TIMEOUT = 120000000"
definition TIME_WAIT_EXPIRE :: time where "TIME_WAIT_EXPIRE = 120000000"
definition PING_INTERVAL :: time where "PING_INTERVAL = 10000000"
definition PING_RETRY_WAIT :: time where "PING_RETRY_WAIT = 1000000"
definition KEEPALIVE_TIME :: time where "KEEPALIVE_TIME = 30000000"
definition KEEPALIVE_INTERVAL :: time where "KEEPALIVE_INTERVAL = 5000000"
definition FAST_ACK_DELAY :: time where "FAST_ACK_DELAY = 20000"
definition REACK_DELAY :: time where "REACK_DELAY = 40000"
definition NORMAL_ACK_DELAY :: time where "NORMAL_ACK_DELAY = 1000000"
definition SLOW_ACK_DELAY :: time where "SLOW_ACK_DELAY = 60000000"
definition IDLE_INTERVAL :: time where "IDLE_INTERVAL = 1000000"
definition SEND_INTERVAL :: time where "SEND_INTERVAL = 1000"

text \<open>The callbacks; \<open>None\<close> where the user has set none. The hash is that of \<open>hash_32.c\<close> on the bytes of a key.\<close>

record 'w litedt_env =
  cb_online :: "('w litedt_host \<Rightarrow> bool \<Rightarrow> 'w litedt_host option) option"
  cb_connect :: "('w litedt_host \<Rightarrow> u32 \<Rightarrow> u16 \<Rightarrow> ('w litedt_host \<times> int) option) option"
  cb_close :: "('w litedt_host \<Rightarrow> u32 \<Rightarrow> 'w litedt_host option) option"
  cb_receive :: "('w litedt_host \<Rightarrow> u32 \<Rightarrow> u32 \<Rightarrow> 'w litedt_host option) option"
  cb_send :: "('w litedt_host \<Rightarrow> u32 \<Rightarrow> u32 \<Rightarrow> 'w litedt_host option) option"
  cb_event_time :: "('w litedt_host \<Rightarrow> time \<Rightarrow> 'w litedt_host option) option"

definition upd_conn :: "'w litedt_host \<Rightarrow> u32 \<Rightarrow> (litedt_conn \<Rightarrow> litedt_conn) \<Rightarrow> 'w litedt_host option" where
  "upd_conn h flow f = do { c \<leftarrow> get_conn h flow; put_conn h (f c) }"

definition litedt_mod_evtime :: "'w litedt_env \<Rightarrow> 'w litedt_host \<Rightarrow> u32 option \<Rightarrow> time \<Rightarrow> 'w litedt_host option" where
  "litedt_mod_evtime env h conn event_time = do {
     h \<leftarrow> (case conn of None \<Rightarrow> Some h
          | Some flow \<Rightarrow> do {
              c \<leftarrow> get_conn h flow;
              if event_time < cn_next_sync_time c then do {
                h \<leftarrow> put_conn h (c\<lparr>cn_next_sync_time := event_time\<rparr>);
                (q, n) \<leftarrow> timerlist_moveup (ho_conn_queue h) event_time flow;
                Some (h\<lparr>ho_conn_queue := q\<rparr>)
              } else Some h
            });
     if event_time < ho_next_event_time h then do {
       let (h, cur_time) = get_curtime h;
       let h = h\<lparr>ho_next_event_time := event_time\<rparr>;
       case cb_event_time env of None \<Rightarrow> Some h
       | Some f \<Rightarrow> f h (if event_time > cur_time then event_time - cur_time else 0)
     } else Some h
   }"

section \<open>Creating and releasing connections\<close>

definition fnv_hash32 :: "u32 \<Rightarrow> u32" where
  "fnv_hash32 k = fnv_32_buf (le 4 k) FNV1_32_INIT"

definition zero_fec :: fec_mod where
  "zero_fec = \<lparr>fm_flow = 0, current_fec_seq = 0, current_fec_end = 0, current_fec_index = 0, current_fec_members = 0,
     fec_recv_start = 0, fec_recv_end = 0,
     fec_queue = \<lparr>bucket_size = 0, hq_key_size = 0, hq_data_size = 0, node_count = 0, hq_mem = None, hash_fn = (\<lambda>_. 0),
       hq_hash = [], hq_queue = [], hq_node = (\<lambda>_. None)\<rparr>,
     fec_len = 0, fec_buf = replicate LITEDT_MTU_MAX 0\<rparr>"

text \<open>The connection that \<open>create_connection\<close> fills in; \<open>ok1\<close> and \<open>ok2\<close> are the allocations of the two buffers.\<close>

definition new_connection ::
  "transport_settings \<Rightarrow> u32 \<Rightarrow> u16 \<Rightarrow> CONNECT_STATUS \<Rightarrow> time \<Rightarrow> bool \<Rightarrow> bool \<Rightarrow> litedt_conn" where
  "new_connection cf flow tunnel_id state cur_time ok1 ok2 =
     (let sbuf = fst (rbuf_init (cf_buffer_size cf div RBUF_BLOCK_SIZE) ok1);
          rbuf = fst (rbuf_init (cf_buffer_size cf div RBUF_BLOCK_SIZE) ok2);
          (win_start, win_size) = rbuf_window_info rbuf
      in retrans_mod_init
        \<lparr>cn_tunnel_id = tunnel_id, cn_flow = flow, cn_swin_start = 0, cn_swin_size = cf_buffer_size cf,
         cn_rwin_start = win_start, cn_rwin_size = win_size, cn_write_seq = 0, cn_send_seq = 0, cn_reack_times = 0,
         cn_probes_sent = 0, cn_state = state, cn_notify_recvnew = False, cn_notify_recv = True, cn_notify_send = False,
         cn_fec_enabled = False, cn_active = False, cn_sack_map = treemap_init 4 8 seq_cmp, cn_last_probe_time = cur_time,
         cn_last_sync_time = cur_time, cn_next_sync_time = cur_time, cn_send_buf = sbuf, cn_recv_buf = rbuf,
         cn_retrans = \<lparr>packet_list = treemap_init 4 80 seq_cmp, waiting_queue = []\<rparr>, cn_fec = zero_fec\<rparr>)"

definition create_connection ::
  "transport_settings \<Rightarrow> 'w litedt_env \<Rightarrow> 'w litedt_host \<Rightarrow> u32 \<Rightarrow> u16 \<Rightarrow> CONNECT_STATUS \<Rightarrow> ('w litedt_host \<times> int) option" where
  "create_connection cf env h flow tunnel_id state = do {
     let (h, cur_time) = get_curtime h;
     r \<leftarrow> find_connection h flow;
     known \<leftarrow> (if r \<noteq> None then Some True else do { tw \<leftarrow> queue_get (ho_timewait_queue h) flow; Some (tw \<noteq> None) });
     if known then Some (h, LITEDT_RECORD_EXISTS)
     else do {
       (h, ret) \<leftarrow> (if state = CONN_ESTABLISHED then (case cb_connect env of None \<Rightarrow> Some (h, 0) | Some f \<Rightarrow> f h flow tunnel_id)
                    else Some (h, 0));
       if ret \<noteq> 0 then Some (h, ret)
       else do {
         let (h, ok) = host_realloc h;
         let (h, mem) = host_malloc h;
         let (h, p1) = host_malloc h;
         let (h, p2) = host_malloc h;
         let c = new_connection cf flow tunnel_id state cur_time (p1 \<noteq> None) (p2 \<noteq> None);
         (q, ret) \<leftarrow> timerlist_push (ho_conn_queue h) cur_time flow c ok mem;
         let h = h\<lparr>ho_conn_queue := q\<rparr>;
         if ret \<noteq> 0 then Some (h, ret)
         else do {
           (h, ret) \<leftarrow>
             (if cf_fec_decode cf \<noteq> 0 \<or> cf_fec_group_size cf \<noteq> 0 then
                (let (h, hash) = host_malloc h in
                 case fec_mod_init flow (ucast (cf_fec_group_size cf)) (cf_buffer_size cf) fnv_hash32 hash None of
                   (Some fm, ret) \<Rightarrow> do { h \<leftarrow> upd_conn h flow (\<lambda>c. c\<lparr>cn_fec_enabled := True, cn_fec := fm\<rparr>); Some (h, 0) }
                 | (None, ret) \<Rightarrow> do {
                     c \<leftarrow> get_conn h flow;
                     (h, c) \<leftarrow> retrans_mod_fini h c;
                     (q, n) \<leftarrow> timerlist_del (ho_conn_queue h) flow;
                     Some (h\<lparr>ho_conn_queue := q\<rparr>, ret)
                   })
              else Some (h, 0));
           if ret \<noteq> 0 then Some (h, ret)
           else do { h \<leftarrow> litedt_mod_evtime env h (Some flow) cur_time; Some (h, 0) }
         }
       }
     }
   }"

definition release_connection :: "'w litedt_env \<Rightarrow> 'w litedt_host \<Rightarrow> u32 \<Rightarrow> 'w litedt_host option" where
  "release_connection env h flow = do {
     r \<leftarrow> find_connection h flow;
     case r of None \<Rightarrow> Some h
     | Some _ \<Rightarrow> do {
         h \<leftarrow> (case cb_close env of None \<Rightarrow> Some h | Some f \<Rightarrow> f h flow);
         c \<leftarrow> get_conn h flow;
         let h = (if cn_active c then h\<lparr>ho_active_queue := remove1 flow (ho_active_queue h)\<rparr> else h);
         (h, c) \<leftarrow> retrans_mod_fini h c;
         (if cn_fec_enabled c then fec_mod_fini (cn_fec c) else Some zero_fec);
         (q, n) \<leftarrow> timerlist_del (ho_conn_queue h) flow;
         let h = h\<lparr>ho_conn_queue := q\<rparr>;
         let (h, now) = get_curtime h;
         let (h, mem) = host_malloc h;
         (tq, ret) \<leftarrow> queue_append (ho_timewait_queue h) flow \<lparr>tw_flow = flow, tw_close_time = now\<rparr> mem;
         Some (h\<lparr>ho_timewait_queue := tq\<rparr>)
       }
   }"

partial_function (option) release_all_connections :: "'w litedt_env \<Rightarrow> 'w litedt_host \<Rightarrow> 'w litedt_host option" where
  "release_all_connections env h =
     (if timerlist_empty (ho_conn_queue h) then Some h
      else do {
        top \<leftarrow> timerlist_top (ho_conn_queue h);
        e \<leftarrow> top;
        case e of (a, t, key, c) \<Rightarrow> do {
          h \<leftarrow> release_connection env h (cn_flow c);
          release_all_connections env h
        }
      })"

definition get_offline_time :: "transport_settings \<Rightarrow> time \<Rightarrow> time" where
  "get_offline_time cf cur_time = cur_time + uint (cf_offline_timeout cf * 1000000)"

section \<open>The user's calls\<close>

definition litedt_connect ::
  "transport_settings \<Rightarrow> 'w litedt_env \<Rightarrow> 'w litedt_host \<Rightarrow> u32 \<Rightarrow> u16 \<Rightarrow> ('w litedt_host \<times> int) option" where
  "litedt_connect cf env h flow tunnel_id =
     (if \<not> litedt_online_status h then Some (h, LITEDT_CLIENT_OFFLINE)
      else do {
        r \<leftarrow> find_connection h flow;
        (h, ret) \<leftarrow> (if r = None then create_connection cf env h flow tunnel_id CONN_REQUEST else Some (h, 0));
        Some (if ret = 0 then litedt_conn_req h flow tunnel_id else h, ret)
      })"

definition litedt_close :: "'w litedt_env \<Rightarrow> 'w litedt_host \<Rightarrow> u32 \<Rightarrow> ('w litedt_host \<times> int) option" where
  "litedt_close env h flow = do {
     r \<leftarrow> find_connection h flow;
     case r of None \<Rightarrow> Some (h, LITEDT_RECORD_NOT_FOUND)
     | Some c \<Rightarrow>
         if status_num (cn_state c) \<le> status_num CONN_ESTABLISHED then do {
           h \<leftarrow> put_conn h (c\<lparr>cn_state := CONN_FIN_WAIT\<rparr>);
           let h = litedt_close_req h flow (cn_write_seq c);
           h \<leftarrow> litedt_mod_evtime env h (Some flow) (ho_last_event_time h + NORMAL_ACK_DELAY);
           Some (h, 0)
         }
         else if cn_state c \<noteq> CONN_FIN_WAIT then do {
           let h = litedt_close_rsp h flow;
           h \<leftarrow> release_connection env h flow;
           Some (h, 0)
         }
         else Some (h, 0)
   }"

definition litedt_send :: "'w litedt_env \<Rightarrow> 'w litedt_host \<Rightarrow> u32 \<Rightarrow> u8 list \<Rightarrow> ('w litedt_host \<times> int) option" where
  "litedt_send env h flow buf = do {
     let len = (of_nat (length buf) :: u32);
     r \<leftarrow> find_connection h flow;
     case r of None \<Rightarrow> Some (h, LITEDT_RECORD_NOT_FOUND)
     | Some c \<Rightarrow>
         if status_num (cn_state c) \<ge> status_num CONN_FIN_WAIT then Some (h, LITEDT_RECORD_NOT_FOUND)
         else if rbuf_writable_bytes (cn_send_buf c) < len then Some (h, LITEDT_NOT_ENOUGH_SPACE)
         else if len > 0 then do {
           let (h, mem) = host_malloc h;
           let (h, balloc) = host_blocks h;
           (sb, ret) \<leftarrow> rbuf_write_front (cn_send_buf c) buf len mem balloc;
           let h = (if cn_active c then h else h\<lparr>ho_active_queue := ho_active_queue h @ [flow]\<rparr>);
           h \<leftarrow> put_conn h (c\<lparr>cn_send_buf := sb, cn_write_seq := rbuf_write_pos sb, cn_active := True\<rparr>);
           h \<leftarrow> litedt_mod_evtime env h None (ho_last_event_time h + SEND_INTERVAL);
           Some (h, 0)
         }
         else Some (h, 0)
   }"

text \<open>The receive window starts behind the readable bytes.\<close>

definition sync_rwin :: "litedt_conn \<Rightarrow> (litedt_conn \<times> u32) option" where
  "sync_rwin c = do {
     let (ws, wl) = rbuf_window_info (cn_recv_buf c);
     (rb, readable) \<leftarrow> rbuf_readable_bytes (cn_recv_buf c);
     Some (c\<lparr>cn_recv_buf := rb, cn_rwin_start := ws + readable, cn_rwin_size := wl - readable\<rparr>, readable)
   }"

definition release_recv :: "'w litedt_env \<Rightarrow> 'w litedt_host \<Rightarrow> litedt_conn \<Rightarrow> u32 \<Rightarrow> 'w litedt_host option" where
  "release_recv env h c len = do {
     let (h, mem) = host_malloc h;
     rb \<leftarrow> rbuf_release (cn_recv_buf c) len mem;
     (c, readable) \<leftarrow> sync_rwin (c\<lparr>cn_recv_buf := rb\<rparr>);
     let (h, now) = get_curtime h;
     h \<leftarrow> put_conn h (c\<lparr>cn_reack_times := 2\<rparr>);
     litedt_mod_evtime env h (Some (cn_flow c)) (now + FAST_ACK_DELAY)
   }"

definition litedt_recv :: "'w litedt_env \<Rightarrow> 'w litedt_host \<Rightarrow> u32 \<Rightarrow> u32 \<Rightarrow> ('w litedt_host \<times> int \<times> u8 list) option" where
  "litedt_recv env h flow len = do {
     r \<leftarrow> find_connection h flow;
     case r of None \<Rightarrow> Some (h, LITEDT_RECORD_NOT_FOUND, [])
     | Some c \<Rightarrow> do {
         (rb, data) \<leftarrow> rbuf_read_front (cn_recv_buf c) len;
         h \<leftarrow> (if data \<noteq> [] then release_recv env h (c\<lparr>cn_recv_buf := rb\<rparr>) (of_nat (length data))
              else put_conn h (c\<lparr>cn_recv_buf := rb\<rparr>));
         Some (h, int (length data), data)
       }
   }"

definition litedt_peek :: "'w litedt_host \<Rightarrow> u32 \<Rightarrow> u32 \<Rightarrow> ('w litedt_host \<times> int \<times> u8 list) option" where
  "litedt_peek h flow len = do {
     r \<leftarrow> find_connection h flow;
     case r of None \<Rightarrow> Some (h, LITEDT_RECORD_NOT_FOUND, [])
     | Some c \<Rightarrow> do {
         (rb, data) \<leftarrow> rbuf_read_front (cn_recv_buf c) len;
         h \<leftarrow> put_conn h (c\<lparr>cn_recv_buf := rb\<rparr>);
         Some (h, int (length data), data)
       }
   }"

definition litedt_recv_skip :: "'w litedt_env \<Rightarrow> 'w litedt_host \<Rightarrow> u32 \<Rightarrow> u32 \<Rightarrow> 'w litedt_host option" where
  "litedt_recv_skip env h flow len = do {
     r \<leftarrow> find_connection h flow;
     case r of None \<Rightarrow> Some h
     | Some c \<Rightarrow> if len = 0 then Some h else release_recv env h c len
   }"

definition litedt_writable_bytes :: "'w litedt_host \<Rightarrow> u32 \<Rightarrow> int option" where
  "litedt_writable_bytes h flow = do {
     r \<leftarrow> find_connection h flow;
     case r of None \<Rightarrow> Some LITEDT_RECORD_NOT_FOUND | Some c \<Rightarrow> Some (sint (rbuf_writable_bytes (cn_send_buf c)))
   }"

definition litedt_readable_bytes :: "'w litedt_host \<Rightarrow> u32 \<Rightarrow> ('w litedt_host \<times> int) option" where
  "litedt_readable_bytes h flow = do {
     r \<leftarrow> find_connection h flow;
     case r of None \<Rightarrow> Some (h, LITEDT_RECORD_NOT_FOUND)
     | Some c \<Rightarrow> do {
         (rb, n) \<leftarrow> rbuf_readable_bytes (cn_recv_buf c);
         h \<leftarrow> put_conn h (c\<lparr>cn_recv_buf := rb\<rparr>);
         Some (h, sint n)
       }
   }"

definition set_notify :: "'w litedt_host \<Rightarrow> u32 \<Rightarrow> (litedt_conn \<Rightarrow> litedt_conn) \<Rightarrow> 'w litedt_host option" where
  "set_notify h flow f = do {
     r \<leftarrow> find_connection h flow;
     case r of None \<Rightarrow> Some h | Some c \<Rightarrow> put_conn h (f c)
   }"

definition litedt_set_notify_recv :: "'w litedt_host \<Rightarrow> u32 \<Rightarrow> bool \<Rightarrow> 'w litedt_host option" where
  "litedt_set_notify_recv h flow notify = set_notify h flow (\<lambda>c. c\<lparr>cn_notify_recv := notify\<rparr>)"

definition litedt_set_notify_recvnew :: "'w litedt_host \<Rightarrow> u32 \<Rightarrow> bool \<Rightarrow> 'w litedt_host option" where
  "litedt_set_notify_recvnew h flow notify = set_notify h flow (\<lambda>c. c\<lparr>cn_notify_recvnew := notify\<rparr>)"

definition litedt_set_notify_send :: "'w litedt_host \<Rightarrow> u32 \<Rightarrow> bool \<Rightarrow> 'w litedt_host option" where
  "litedt_set_notify_send h flow notify = set_notify h flow (\<lambda>c. c\<lparr>cn_notify_send := notify\<rparr>)"

definition litedt_get_stat :: "transport_settings \<Rightarrow> 'w litedt_host \<Rightarrow> 'w litedt_host \<times> litedt_stat" where
  "litedt_get_stat cf h =
     (let h = stat_upd (\<lambda>s. s\<lparr>st_connection_num := of_nat (timerlist_size (ho_conn_queue h)),
        st_timewait_num := queue_size (ho_timewait_queue h), st_fec_group_size := cf_fec_group_size cf, st_rtt := ho_ping_rtt h,
        st_bandwidth := filter_get (ho_bw h), st_inflight := ho_inflight h, st_cwnd := ho_snd_cwnd h\<rparr>) h
      in (h, ho_stat h))"

definition litedt_set_ext :: "'w litedt_host \<Rightarrow> 'w \<Rightarrow> 'w litedt_host" where
  "litedt_set_ext h ext = h\<lparr>ho_ext := ext\<rparr>"

definition litedt_ext :: "'w litedt_host \<Rightarrow> 'w" where
  "litedt_ext h = ho_ext h"

definition litedt_peer_node_id :: "'w litedt_host \<Rightarrow> u16" where
  "litedt_peer_node_id h = ho_peer_node_id h"

definition litedt_is_closed :: "'w litedt_host \<Rightarrow> bool" where
  "litedt_is_closed h = ho_closed h"

definition litedt_ctrl_mode_name :: "'w litedt_host \<Rightarrow> string" where
  "litedt_ctrl_mode_name h = get_ctrl_mode_name h"

definition litedt_fini :: "'w litedt_env \<Rightarrow> 'w litedt_host \<Rightarrow> 'w litedt_host option" where
  "litedt_fini env h = do {
     h \<leftarrow> release_all_connections env h;
     h \<leftarrow> retrans_queue_fini h;
     tq \<leftarrow> queue_fini (ho_timewait_queue h);
     cq \<leftarrow> timerlist_fini (ho_conn_queue h);
     Some (h\<lparr>ho_timewait_queue := tq, ho_conn_queue := cq, ho_closed := True\<rparr>)
   }"

definition is_snd_queue_empty :: "litedt_conn \<Rightarrow> bool" where
  "is_snd_queue_empty c \<longleftrightarrow> cn_write_seq c = cn_send_seq c \<and> retrans_list_size c = 0"

end
