(* ===== verification/LitedtEvents.thy ===== *)
theory LitedtEvents
  imports Litedt
begin

text \<open>
  The event handlers of \<^verbatim>\<open>src/src/litedt.c\<close>: one per message, \<open>litedt_io_event\<close> that dispatches a received packet, and
  \<open>litedt_time_event\<close> with the three checks it runs.
\<close>

section \<open>Session messages\<close>

definition check_peer_node_id :: "'w litedt_host \<Rightarrow> u16 \<Rightarrow> bool" where
  "check_peer_node_id h node_id \<longleftrightarrow> ho_peer_node_id h \<noteq> 0 \<and> ho_peer_node_id h \<noteq> node_id"

definition reject :: "'w litedt_host \<Rightarrow> 'w litedt_host" where
  "reject h = stat_upd (\<lambda>s. s\<lparr>st_io_event_reject := st_io_event_reject s + 1\<rparr>) h"

text \<open>The timestamp of a token lies further than \<open>token_expire\<close> seconds from the real time.\<close>

definition token_expired :: "transport_settings \<Rightarrow> time \<Rightarrow> time \<Rightarrow> bool" where
  "token_expired cf token_time real_time =
     (let exp = uint (cf_token_expire cf) * USEC_PER_SEC
      in token_time - real_time > exp \<or> real_time - token_time > exp)"

definition litedt_on_ping_req :: "transport_settings \<Rightarrow> 'w litedt_host \<Rightarrow> ping_msg \<Rightarrow> ('w litedt_host \<times> int) option" where
  "litedt_on_ping_req cf h req = do {
     let (h, expired) = (if cf_token_expire cf \<noteq> 0 then (case get_realtime h of (h, now) \<Rightarrow> (h, token_expired cf (sint (pm_timestamp req)) now))
                         else (h, False));
     if expired then Some (reject h, 0)
     else do {
       valid \<leftarrow> validate_token cf (pm_node_id req) (ping_payload (pm_ping_id req) (pm_timestamp req)) (pm_token req);
       if \<not> valid then Some (reject h, 0)
       else if check_peer_node_id h (pm_node_id req) then Some (h, 0)
       else do { h \<leftarrow> litedt_ping_rsp cf h req; Some (h, 0) }
     }
   }"

definition litedt_on_ping_rsp ::
  "transport_settings \<Rightarrow> 'w litedt_env \<Rightarrow> 'w litedt_host \<Rightarrow> ping_msg \<Rightarrow> ('w litedt_host \<times> int) option" where
  "litedt_on_ping_rsp cf env h rsp = do {
     let (h, real_time) = get_realtime h;
     let timestamp = sint (pm_timestamp rsp);
     if pm_ping_id rsp \<noteq> ho_ping_id h \<or> timestamp \<noteq> ho_prior_ping_time h then Some (h, 0)
     else if pm_node_id rsp = 0 \<or> check_peer_node_id h (pm_node_id rsp) then Some (h, 0)
     else if cf_token_expire cf \<noteq> 0 \<and> token_expired cf timestamp real_time then Some (reject h, 0)
     else do {
       temp_token \<leftarrow> generate_token cf (ho_node_id h) (ping_payload (pm_ping_id rsp) (pm_timestamp rsp));
       valid \<leftarrow> validate_token cf (pm_node_id rsp) temp_token (pm_token rsp);
       if \<not> valid then Some (reject h, 0)
       else do {
         let h = h\<lparr>ho_peer_node_id := (if ho_peer_node_id h = 0 then pm_node_id rsp else ho_peer_node_id h),
                   ho_ping_id := ho_ping_id h + 1, ho_ping_rtt := word_of_int (real_time - timestamp),
                   ho_next_ping_time := ho_cur_time h + PING_INTERVAL, ho_offline_time := get_offline_time cf (ho_cur_time h)\<rparr>;
         if ho_remote_online h then Some (h, 0)
         else do {
           let h = h\<lparr>ho_remote_online := True, ho_pacing_time := ho_cur_time h\<rparr>;
           h \<leftarrow> (case cb_online env of None \<Rightarrow> Some h | Some f \<Rightarrow> f h True);
           h \<leftarrow> (if \<not> timerlist_empty (ho_conn_queue h) then litedt_mod_evtime env h None (ho_last_event_time h + SEND_INTERVAL)
                else Some h);
           Some (h, 0)
         }
       }
     }
   }"

section \<open>Connection messages\<close>

definition litedt_on_conn_req ::
  "transport_settings \<Rightarrow> 'w litedt_env \<Rightarrow> 'w litedt_host \<Rightarrow> u32 \<Rightarrow> u16 \<Rightarrow> bool \<Rightarrow> ('w litedt_host \<times> int) option" where
  "litedt_on_conn_req cf env h flow tunnel_id no_rsp = do {
     r \<leftarrow> find_connection h flow;
     if r \<noteq> None then Some (litedt_conn_rsp h flow 0, 0)
     else do {
       (h, ret) \<leftarrow> create_connection cf env h flow tunnel_id CONN_ESTABLISHED;
       if ret = 0 then
         (if \<not> no_rsp then do {
            let h = litedt_conn_rsp h flow ret;
            (h, _) \<leftarrow> litedt_data_ack cf h flow False;
            Some (h, ret)
          } else Some (h, ret))
       else Some (litedt_conn_rsp h flow ret, ret)
     }
   }"

definition litedt_on_conn_rsp ::
  "transport_settings \<Rightarrow> 'w litedt_env \<Rightarrow> 'w litedt_host \<Rightarrow> u32 \<Rightarrow> int \<Rightarrow> ('w litedt_host \<times> int) option" where
  "litedt_on_conn_rsp cf env h flow status = do {
     r \<leftarrow> find_connection h flow;
     case r of None \<Rightarrow> Some (h, LITEDT_RECORD_NOT_FOUND)
     | Some c \<Rightarrow>
         if status = 0 then do {
           h \<leftarrow> (if cn_state c = CONN_REQUEST then put_conn h (c\<lparr>cn_state := CONN_ESTABLISHED\<rparr>) else Some h);
           (h, _) \<leftarrow> litedt_data_ack cf h flow False;
           Some (h, 0)
         } else do { h \<leftarrow> release_connection env h flow; Some (h, 0) }
   }"

section \<open>Received data\<close>

text \<open>The loops of \<open>push_sack_map\<close>: ranges below the window are removed or cut, and the ranges that the new one reaches are merged.\<close>

partial_function (option) expire_sacks ::
  "u32 \<Rightarrow> pointer \<Rightarrow> (u32, sack_info) treemap \<Rightarrow> (u32, sack_info) treemap option" where
  "expire_sacks rwin_start mem tm =
     (case treemap_first tm of (tm, it) \<Rightarrow>
        (case it of None \<Rightarrow> Some tm
         | Some a \<Rightarrow> do {
             sack_seq \<leftarrow> treemap_key tm a;
             sack \<leftarrow> treemap_value tm a;
             if LESS_EQUAL rwin_start sack_seq then Some tm
             else do {
               r \<leftarrow> treemap_delete tm sack_seq;
               if \<not> LESS_EQUAL (si_seq_end sack) rwin_start then do {
                 r2 \<leftarrow> treemap_insert (fst r) rwin_start sack mem;
                 Some (fst r2)
               } else expire_sacks rwin_start mem (fst r)
             }
           }))"

partial_function (option) merge_sacks :: "(u32, sack_info) treemap \<Rightarrow> addr \<Rightarrow> (u32, sack_info) treemap option" where
  "merge_sacks tm it = do {
     pend \<leftarrow> treemap_value tm it;
     nx \<leftarrow> treemap_next tm it;
     case nx of None \<Rightarrow> Some tm
     | Some nxt \<Rightarrow> do {
         nstart \<leftarrow> treemap_key tm nxt;
         nend \<leftarrow> treemap_value tm nxt;
         if LESS_EQUAL nstart (si_seq_end pend) then do {
           let tm1 = (if LESS_EQUAL (si_seq_end pend) (si_seq_end nend)
                      then treemap_set_value tm it (pend\<lparr>si_seq_end := si_seq_end nend\<rparr>) else tm);
           r \<leftarrow> treemap_delete tm1 nstart;
           merge_sacks (fst r) it
         } else Some tm
       }
   }"

definition prev_entry :: "('k, 'v) treemap \<Rightarrow> 'k \<Rightarrow> pointer option" where
  "prev_entry tm key = (case treemap_upper_bound tm key of None \<Rightarrow> Some (treemap_last tm) | Some a \<Rightarrow> treemap_prev tm a)"

definition push_sack_map :: "litedt_conn \<Rightarrow> u32 \<Rightarrow> pointer \<Rightarrow> pointer \<Rightarrow> litedt_conn option" where
  "push_sack_map c seq mem1 mem2 =
     (if \<not> LESS_EQUAL (cn_rwin_start c) seq then Some c
      else do {
        sm \<leftarrow> expire_sacks (cn_rwin_start c) mem1 (cn_sack_map c);
        let rmap = rbuf_range_map (cn_recv_buf c);
        p \<leftarrow> prev_entry rmap seq;
        a \<leftarrow> p;
        start \<leftarrow> treemap_key rmap a;
        seq_end \<leftarrow> treemap_value rmap a;
        let sack = \<lparr>si_seq_end = seq_end, si_send_times = 0\<rparr>;
        it \<leftarrow> prev_entry sm start;
        let insert = do { (tm, ret, at) \<leftarrow> treemap_insert2 sm start sack mem2;
                          Some (if ret = -1 then (tm, None) else (tm, case at of None \<Rightarrow> it | Some q \<Rightarrow> q)) };
        (sm, it) \<leftarrow>
          (case it of
             Some i \<Rightarrow> do {
               rstart \<leftarrow> treemap_key sm i;
               prev \<leftarrow> treemap_value sm i;
               if LESS_EQUAL seq_end (si_seq_end prev) then Some (sm, None)
               else if LESS_EQUAL rstart start \<and> LESS_EQUAL start (si_seq_end prev)
               then Some (treemap_set_value sm i (prev\<lparr>si_seq_end := seq_end, si_send_times := 0\<rparr>), it)
               else insert
             }
           | None \<Rightarrow> insert);
        sm \<leftarrow> (case it of None \<Rightarrow> Some sm | Some i \<Rightarrow> merge_sacks sm i);
        Some (c\<lparr>cn_sack_map := sm\<rparr>)
      })"

text \<open>Acknowledging until the list of ranges is no longer full, and the end of \<open>litedt_on_data_recv\<close>.\<close>

partial_function (option) ack_until_short :: "transport_settings \<Rightarrow> 'w litedt_host \<Rightarrow> u32 \<Rightarrow> 'w litedt_host option" where
  "ack_until_short cf h flow = do {
     c \<leftarrow> get_conn h flow;
     if cf_ack_size cf \<noteq> 0 \<and> treemap_size (cn_sack_map c) \<ge> cf_ack_size cf then do {
       r \<leftarrow> litedt_data_ack cf h flow True;
       ack_until_short cf (fst r) flow
     } else Some h
   }"

definition data_recv_finish ::
  "transport_settings \<Rightarrow> 'w litedt_env \<Rightarrow> 'w litedt_host \<Rightarrow> u32 \<Rightarrow> u32 \<Rightarrow> 'w litedt_host option" where
  "data_recv_finish cf env h flow readable = do {
     let cur_time = ho_cur_time h;
     c \<leftarrow> get_conn h flow;
     h \<leftarrow> (if treemap_size (cn_sack_map c) \<ge> cf_ack_size cf then do {
              (h, _) \<leftarrow> litedt_data_ack cf h flow True;
              h \<leftarrow> ack_until_short cf h flow;
              h \<leftarrow> upd_conn h flow (\<lambda>c. c\<lparr>cn_reack_times := 1\<rparr>);
              litedt_mod_evtime env h (Some flow) (cur_time + REACK_DELAY)
            } else do {
              let next_time = min (cn_next_sync_time c) (cur_time + FAST_ACK_DELAY);
              h \<leftarrow> upd_conn h flow (\<lambda>c. c\<lparr>cn_reack_times := 2\<rparr>);
              litedt_mod_evtime env h (Some flow) next_time
            });
     c \<leftarrow> get_conn h flow;
     case cb_receive env of
       Some f \<Rightarrow> if (cn_notify_recv c \<or> cn_notify_recvnew c) \<and> sint readable > 0 \<and> cn_state c \<noteq> CONN_FIN_WAIT \<and>
                   status_num (cn_state c) \<le> status_num CONN_CLOSED
                then f h flow readable else Some h
     | None \<Rightarrow> Some h
   }"

text \<open>
  \<open>litedt_on_data_recv\<close> with what it does for forward error correction as an argument: the function is
  called once more, with \<open>fec_recv = 1\<close>, for a packet that was recovered while it runs.
\<close>

definition data_recv ::
  "('w litedt_host \<Rightarrow> u32 \<Rightarrow> ('w litedt_host \<times> u32) option) \<Rightarrow> transport_settings \<Rightarrow> 'w litedt_env \<Rightarrow> 'w litedt_host \<Rightarrow> u32 \<Rightarrow> u8 list \<Rightarrow>
     ('w litedt_host \<times> int) option" where
  "data_recv fec_step cf env h flow pkt = do {
     (data, body) \<leftarrow> dec_data_post pkt;
     let dlen = (ucast (dp_len data) :: u32);
     r \<leftarrow> find_connection h flow;
     case r of None \<Rightarrow> Some (h, LITEDT_RECORD_NOT_FOUND)
     | Some c \<Rightarrow> do {
         let c = (if cn_state c = CONN_REQUEST then c\<lparr>cn_state := CONN_ESTABLISHED\<rparr> else c);
         h \<leftarrow> put_conn h c;
         if dlen = 0 then do {
           (h, _) \<leftarrow> litedt_data_ack cf h flow True;
           h \<leftarrow> upd_conn h flow (\<lambda>c. c\<lparr>cn_reack_times := 1\<rparr>);
           h \<leftarrow> litedt_mod_evtime env h (Some flow) (ho_cur_time h + REACK_DELAY);
           Some (h, 0)
         }
         else do {
           let (h, mem) = host_malloc h;
           let (h, balloc) = host_blocks h;
           (rb, ret) \<leftarrow> rbuf_write (cn_recv_buf c) (dp_seq data) body dlen mem balloc;
           let c = c\<lparr>cn_recv_buf := rb\<rparr>;
           let h = (if ret = 1 \<or> ret = RBUF_OUT_OF_RANGE
                    then stat_upd (\<lambda>s. s\<lparr>st_dup_packet_recv := st_dup_packet_recv s + 1\<rparr>) h else h);
           (h, readable) \<leftarrow>
             (if ret \<ge> 0 then do {
                (c, readable) \<leftarrow> sync_rwin c;
                let (h, m1) = host_malloc h;
                let (h, m2) = host_malloc h;
                c \<leftarrow> push_sack_map c (dp_seq data) m1 m2;
                h \<leftarrow> put_conn h c;
                if cn_fec_enabled c \<and> cf_fec_decode cf \<noteq> 0 then fec_step h readable else Some (h, readable)
              } else do { h \<leftarrow> put_conn h c; Some (h, 0) });
           h \<leftarrow> data_recv_finish cf env h flow readable;
           Some (h, 0)
         }
       }
   }"

definition conn_fec_checkpoint :: "transport_settings \<Rightarrow> 'w litedt_host \<Rightarrow> u32 \<Rightarrow> 'w litedt_host option" where
  "conn_fec_checkpoint cf h flow = do {
     c \<leftarrow> get_conn h flow;
     fm \<leftarrow> fec_checkpoint (cf_buffer_size cf) (cn_fec c) (cn_rwin_start c);
     put_conn h (c\<lparr>cn_fec := fm\<rparr>)
   }"

definition on_recovered ::
  "transport_settings \<Rightarrow> 'w litedt_env \<Rightarrow> 'w litedt_host \<Rightarrow> u32 \<Rightarrow> u8 list \<Rightarrow> ('w litedt_host \<times> int) option" where
  "on_recovered cf env h flow pkt =
     data_recv (\<lambda>h readable. do { h \<leftarrow> conn_fec_checkpoint cf h flow; Some (h, readable) }) cf env h flow pkt"

text \<open>What follows \<open>fec_insert\<close> for the host: a recovered packet is received and counted.\<close>

definition fec_inserted ::
  "transport_settings \<Rightarrow> 'w litedt_env \<Rightarrow> 'w litedt_host \<Rightarrow> litedt_conn \<Rightarrow> fec_mod \<times> int \<times> u8 list option \<Rightarrow> 'w litedt_host option" where
  "fec_inserted cf env h c res =
     (case res of (fm, ret, recovered) \<Rightarrow> do {
        h \<leftarrow> put_conn h (c\<lparr>cn_fec := fm\<rparr>);
        case recovered of None \<Rightarrow> Some h
        | Some pkt \<Rightarrow> do {
            (h, _) \<leftarrow> on_recovered cf env h (cn_flow c) pkt;
            Some (stat_upd (\<lambda>s. s\<lparr>st_fec_recover := st_fec_recover s + 1\<rparr>) h)
          }
      })"

definition litedt_on_data_recv ::
  "transport_settings \<Rightarrow> 'w litedt_env \<Rightarrow> 'w litedt_host \<Rightarrow> u32 \<Rightarrow> u8 list \<Rightarrow> ('w litedt_host \<times> int) option" where
  "litedt_on_data_recv cf env h flow pkt =
     data_recv (\<lambda>h readable. do {
       c \<leftarrow> get_conn h flow;
       let (h, mem) = host_malloc h;
       res \<leftarrow> fec_insert_data (cn_fec c) pkt mem;
       h \<leftarrow> fec_inserted cf env h c res;
       c \<leftarrow> get_conn h flow;
       (rb, readable) \<leftarrow> rbuf_readable_bytes (cn_recv_buf c);
       h \<leftarrow> put_conn h (c\<lparr>cn_recv_buf := rb\<rparr>);
       h \<leftarrow> conn_fec_checkpoint cf h flow;
       Some (h, readable)
     }) cf env h flow pkt"

definition litedt_on_data_fec ::
  "transport_settings \<Rightarrow> 'w litedt_env \<Rightarrow> 'w litedt_host \<Rightarrow> u32 \<Rightarrow> u8 list \<Rightarrow> ('w litedt_host \<times> int) option" where
  "litedt_on_data_fec cf env h flow pkt = do {
     r \<leftarrow> find_connection h flow;
     case r of None \<Rightarrow> Some (h, LITEDT_RECORD_NOT_FOUND)
     | Some c \<Rightarrow>
         if \<not> cn_fec_enabled c \<or> cf_fec_decode cf = 0 then Some (h, 0)
         else do {
           let c = (if cn_state c = CONN_REQUEST then c\<lparr>cn_state := CONN_ESTABLISHED\<rparr> else c);
           h \<leftarrow> put_conn h c;
           if cn_state c \<noteq> CONN_ESTABLISHED \<and> cn_state c \<noteq> CONN_CLOSE_WAIT then Some (h, 0)
           else do {
             let (h, mem) = host_malloc h;
             res \<leftarrow> fec_insert_sum (cn_fec c) pkt mem;
             h \<leftarrow> fec_inserted cf env h c res;
             h \<leftarrow> conn_fec_checkpoint cf h flow;
             Some (h, 0)
           }
         }
   }"

fun release_acked ::
  "'w litedt_host \<Rightarrow> litedt_conn \<Rightarrow> (u32 \<times> u32) list \<Rightarrow> rate_sample \<Rightarrow> ('w litedt_host \<times> litedt_conn \<times> rate_sample) option" where
  "release_acked h c [] rs = Some (h, c, rs)"
| "release_acked h c ((start, end) # acks) rs = do {
     (h, c, rs) \<leftarrow> release_packet_range h c start end rs;
     release_acked h c acks rs
   }"

definition litedt_on_data_ack ::
  "transport_settings \<Rightarrow> 'w litedt_env \<Rightarrow> 'w litedt_host \<Rightarrow> u32 \<Rightarrow> u8 list \<Rightarrow> ('w litedt_host \<times> int) option" where
  "litedt_on_data_ack cf env h flow pkt = do {
     (ack, body) \<leftarrow> dec_data_ack pkt;
     (acks, _) \<leftarrow> dec_acks (unat (da_ack_size ack)) body;
     r \<leftarrow> find_connection h flow;
     case r of None \<Rightarrow> Some (h, LITEDT_RECORD_NOT_FOUND)
     | Some c \<Rightarrow> do {
         let c = (if cn_state c = CONN_REQUEST then c\<lparr>cn_state := CONN_ESTABLISHED\<rparr> else c);
         let delivered = ho_delivered h;
         let rs = \<lparr>rs_prior_mstamp = 0, rs_prior_delivered = 0, rs_delivered = 0, rs_interval_us = 0, rs_rtt_us = 0, rs_is_app_limited = False\<rparr>;
         (h, c, rs) \<leftarrow> release_acked h c acks rs;
         (h, c, rs) \<leftarrow>
           (if LESS_EQUAL (cn_swin_start c) (da_win_start ack) \<and> LESS_EQUAL (da_win_start ack) (cn_send_seq c) then do {
              let c = c\<lparr>cn_last_sync_time := ho_cur_time h, cn_probes_sent := 0, cn_swin_start := da_win_start ack,
                        cn_swin_size := min (da_win_size ack) SWND_MAX_SIZE\<rparr>;
              let release_size = cn_swin_start c - fst (rbuf_window_info (cn_send_buf c));
              let (h, mem) = host_malloc h;
              sb \<leftarrow> (if release_size > 0 then rbuf_release (cn_send_buf c) release_size mem else Some (cn_send_buf c));
              retrans_checkpoint h (c\<lparr>cn_send_buf := sb\<rparr>) (cn_swin_start c) rs
            } else Some (h, c, rs));
         h \<leftarrow> put_conn h c;
         let h = generate_bandwidth h rs (ho_delivered h - delivered);
         let h = ctrl_io_event cf h rs;
         h \<leftarrow> (case cb_send env of
                Some f \<Rightarrow>
                  if cn_notify_send c \<and> status_num (cn_state c) \<le> status_num CONN_ESTABLISHED \<and>
                     sint (rbuf_writable_bytes (cn_send_buf c)) > 0
                  then f h flow (rbuf_writable_bytes (cn_send_buf c)) else Some h
              | None \<Rightarrow> Some h);
         Some (h, 0)
       }
   }"

section \<open>Closing\<close>

definition litedt_on_close_req ::
  "'w litedt_env \<Rightarrow> 'w litedt_host \<Rightarrow> u32 \<Rightarrow> u32 \<Rightarrow> ('w litedt_host \<times> int) option" where
  "litedt_on_close_req env h flow last_seq = do {
     r \<leftarrow> find_connection h flow;
     case r of None \<Rightarrow> Some (litedt_close_rsp h flow, 0)
     | Some c \<Rightarrow>
         if cn_state c = CONN_FIN_WAIT then do {
           h \<leftarrow> release_connection env h flow;
           Some (litedt_close_rsp h flow, 0)
         }
         else if cn_state c \<noteq> CONN_CLOSED then do {
           let win_start = fst (rbuf_window_info (cn_recv_buf c));
           (rb, readable) \<leftarrow> rbuf_readable_bytes (cn_recv_buf c);
           let c = c\<lparr>cn_recv_buf := rb\<rparr>;
           if win_start + readable = last_seq then do {
             h \<leftarrow> put_conn h (c\<lparr>cn_state := CONN_CLOSED\<rparr>);
             let h = litedt_close_rsp h flow;
             h \<leftarrow> litedt_mod_evtime env h (Some flow) (ho_cur_time h);
             Some (h, 0)
           } else do {
             h \<leftarrow> put_conn h (c\<lparr>cn_state := CONN_CLOSE_WAIT\<rparr>);
             h \<leftarrow> litedt_mod_evtime env h (Some flow) (ho_cur_time h + NORMAL_ACK_DELAY);
             Some (h, 0)
           }
         }
         else Some (h, 0)
   }"

definition litedt_on_close_rsp :: "'w litedt_env \<Rightarrow> 'w litedt_host \<Rightarrow> u32 \<Rightarrow> ('w litedt_host \<times> int) option" where
  "litedt_on_close_rsp env h flow = do {
     r \<leftarrow> find_connection h flow;
     case r of None \<Rightarrow> Some (h, 0)
     | Some c \<Rightarrow> if cn_state c = CONN_FIN_WAIT then do { h \<leftarrow> release_connection env h flow; Some (h, 0) } else Some (h, 0)
   }"

definition litedt_on_conn_rst :: "'w litedt_env \<Rightarrow> 'w litedt_host \<Rightarrow> u32 \<Rightarrow> ('w litedt_host \<times> int) option" where
  "litedt_on_conn_rst env h flow = do {
     r \<leftarrow> find_connection h flow;
     case r of None \<Rightarrow> Some (h, 0)
     | Some c \<Rightarrow>
         if cn_state c = CONN_FIN_WAIT then do { h \<leftarrow> release_connection env h flow; Some (h, 0) }
         else do {
           h \<leftarrow> put_conn h (c\<lparr>cn_state := CONN_CLOSED\<rparr>);
           h \<leftarrow> litedt_mod_evtime env h (Some flow) (ho_cur_time h);
           Some (h, 0)
         }
   }"

section \<open>A received packet\<close>

text \<open>
  The dispatch of \<open>litedt_io_event\<close>: the result is the return code of the handler, 0 where the code
  ignores it. A packet that is too short for its message does nothing.
\<close>

definition io_dispatch ::
  "transport_settings \<Rightarrow> 'w litedt_env \<Rightarrow> 'w litedt_host \<Rightarrow> litedt_header \<Rightarrow> u8 list \<Rightarrow> nat \<Rightarrow> ('w litedt_host \<times> int) option" where
  "io_dispatch cf env h hdr body recv_len =
     (let flow = h_flow hdr; ignore = Some (h, 0) in
      case cmd_of (h_cmd hdr) of
        None \<Rightarrow> ignore
      | Some LITEDT_PING_REQ \<Rightarrow> (case dec_ping_req body of None \<Rightarrow> ignore | Some (m, _) \<Rightarrow> litedt_on_ping_req cf h m)
      | Some LITEDT_PING_RSP \<Rightarrow> (case dec_ping_rsp body of None \<Rightarrow> ignore | Some (m, _) \<Rightarrow> litedt_on_ping_rsp cf env h m)
      | Some LITEDT_CONNECT_REQ \<Rightarrow>
          (case dec_conn_req body of None \<Rightarrow> ignore
           | Some (t, _) \<Rightarrow> do { (h, _) \<leftarrow> litedt_on_conn_req cf env h flow t False; Some (h, 0) })
      | Some LITEDT_CONNECT_RSP \<Rightarrow>
          (case dec_conn_rsp body of None \<Rightarrow> ignore | Some (st, _) \<Rightarrow> litedt_on_conn_rsp cf env h flow st)
      | Some LITEDT_DATA_POST \<Rightarrow>
          (case dec_data_post body of None \<Rightarrow> ignore
           | Some (d, rest) \<Rightarrow>
               if length rest < unat (dp_len d) then ignore
               else litedt_on_data_recv cf env
                 (stat_upd (\<lambda>s. s\<lparr>st_recv_bytes_data := st_recv_bytes_data s + of_nat recv_len\<rparr>) h) flow body)
      | Some LITEDT_DATA_ACK \<Rightarrow>
          (case dec_data_ack body of None \<Rightarrow> ignore
           | Some (a, rest) \<Rightarrow>
               if length rest < unat (da_ack_size a) * 8 then ignore
               else litedt_on_data_ack cf env
                 (stat_upd (\<lambda>s. s\<lparr>st_recv_bytes_ack := st_recv_bytes_ack s + of_nat recv_len\<rparr>) h) flow body)
      | Some LITEDT_CLOSE_REQ \<Rightarrow>
          (case dec_close_req body of None \<Rightarrow> ignore
           | Some (s, _) \<Rightarrow> do { (h, _) \<leftarrow> litedt_on_close_req env h flow s; Some (h, 0) })
      | Some LITEDT_CLOSE_RSP \<Rightarrow> do { (h, _) \<leftarrow> litedt_on_close_rsp env h flow; Some (h, 0) }
      | Some LITEDT_CONNECT_RST \<Rightarrow> do { (h, _) \<leftarrow> litedt_on_conn_rst env h flow; Some (h, 0) }
      | Some LITEDT_CONNECT_DATA \<Rightarrow>
          (case dec_data_conn body of None \<Rightarrow> ignore
           | Some ((t, d), rest) \<Rightarrow>
               if length rest < unat (dp_len d) then ignore
               else do {
                 (h, status) \<leftarrow> litedt_on_conn_req cf env h flow t True;
                 if status = 0 then litedt_on_data_recv cf env h flow (drop 2 body) else Some (h, 0)
               })
      | Some LITEDT_DATA_FEC \<Rightarrow>
          (case dec_data_fec body of None \<Rightarrow> ignore
           | Some (f, rest) \<Rightarrow> if length rest < unat (df_fec_len f) then ignore else litedt_on_data_fec cf env h flow body))"

definition litedt_io_event :: "transport_settings \<Rightarrow> 'w litedt_env \<Rightarrow> 'w litedt_host \<Rightarrow> u8 list \<Rightarrow> 'w litedt_host option" where
  "litedt_io_event cf env h buf = do {
     let (h, now) = get_curtime h;
     let h = stat_upd (\<lambda>s. s\<lparr>st_io_event := st_io_event s + 1, st_recv_bytes_stat := st_recv_bytes_stat s + of_nat (length buf)\<rparr>)
               (h\<lparr>ho_cur_time := now\<rparr>);
     let wrong = stat_upd (\<lambda>s. s\<lparr>st_io_event_wrong_packet := st_io_event_wrong_packet s + 1\<rparr>) h;
     case dec_header buf of None \<Rightarrow> Some wrong
     | Some (hdr, body) \<Rightarrow>
         if h_ver hdr \<noteq> LITEDT_VERSION then Some wrong
         else do {
           (h, ret) \<leftarrow> io_dispatch cf env h hdr body (length buf);
           Some (if ret \<noteq> 0 then litedt_conn_rst h (h_flow hdr) else h)
         }
   }"

end
