(* ===== verification/LitedtTime.thy ===== *)
theory LitedtTime
  imports LitedtEvents
begin

text \<open>
  Initialisation and the time event of \<^verbatim>\<open>src/src/litedt.c\<close>. The active queue is the list of the flows behind its
  head; moving the head in front of a connection rotates the list. A division by a pacing rate of
  zero is a crash, \<open>None\<close>, and so is a loop that does not end.
\<close>

section \<open>Initialisation\<close>

definition litedt_clear_stat :: "'w litedt_host \<Rightarrow> 'w litedt_host" where
  "litedt_clear_stat h = h\<lparr>ho_stat := zero_stat\<rparr>"

definition fnv_hash64 :: "u32 \<times> u32 \<Rightarrow> u32" where
  "fnv_hash64 k = fnv_32_buf (le 4 (fst k) @ le 4 (snd k)) FNV1_32_INIT"

text \<open>The fields that \<open>litedt_init\<close> sets before and after the queues; the outside is that of \<open>h\<close>.\<close>

definition init_fields :: "transport_settings \<Rightarrow> 'w litedt_host \<Rightarrow> u16 \<Rightarrow> time \<Rightarrow> 'w litedt_host option" where
  "init_fields cf h node_id cur_time =
     (if cf_mtu cf = 0 then None
      else Some (h\<lparr>ho_node_id := node_id, ho_peer_node_id := 0, ho_mss := ucast (cf_mtu cf - of_nat LITEDT_MAX_HEADER),
        ho_stat := zero_stat, ho_pacing_time := cur_time, ho_pacing_credit := 0, ho_pacing_rate := cf_transmit_rate_init cf,
        ho_snd_cwnd := max (2 * (cf_transmit_rate_init cf div cf_mtu cf)) 4, ho_remote_online := False, ho_closed := False,
        ho_ping_id := 0, ho_srtt := 0, ho_cur_time := cur_time, ho_last_event_time := cur_time, ho_next_event_time := cur_time,
        ho_prior_ping_time := cur_time, ho_next_ping_time := cur_time, ho_offline_time := get_offline_time cf cur_time\<rparr>))"

definition init_counters :: "'w litedt_host \<Rightarrow> time \<Rightarrow> 'w litedt_host" where
  "init_counters h cur_time = h\<lparr>ho_bw := filter_init (CYCLE_LEN + 2), ho_rtt_min := filter_init 10, ho_inflight := 0,
     ho_inflight_bytes := 0, ho_delivered := 1, ho_delivered_bytes := 0, ho_app_limited := -1, ho_delivered_time := cur_time,
     ho_first_tx_time := cur_time, ho_ping_rtt := 0, ho_rtt_round := 0, ho_next_rtt_delivered := 0\<rparr>"

text \<open>\<open>conn_size\<close> is \<open>sizeof(litedt_conn_t)\<close>.\<close>

definition litedt_init :: "transport_settings \<Rightarrow> u32 \<Rightarrow> 'w litedt_host \<Rightarrow> u16 \<Rightarrow> ('w litedt_host \<times> int) option" where
  "litedt_init cf conn_size h node_id = do {
     let (h, cur_time) = get_curtime h;
     h \<leftarrow> init_fields cf h node_id cur_time;
     let (h, m1) = host_malloc h;
     let (h, m2) = host_malloc h;
     case timerlist_init CONN_HASH_SIZE 4 conn_size None fnv_hash32 m1 m2 of Inr _ \<Rightarrow> Some (h, -1)
     | Inl cq \<Rightarrow> do {
         let h = h\<lparr>ho_conn_queue := cq\<rparr>;
         let (h, m3) = host_malloc h;
         case queue_init CONN_HASH_SIZE 4 16 None fnv_hash32 0 m3 None of
           Inr _ \<Rightarrow> do { cq \<leftarrow> timerlist_fini (ho_conn_queue h); Some (h\<lparr>ho_conn_queue := cq\<rparr>, -1) }
         | Inl tq \<Rightarrow> do {
             let h = h\<lparr>ho_timewait_queue := tq\<rparr>;
             let (h, ret) = retrans_queue_init h fnv_hash64;
             if ret \<noteq> 0 then do {
               cq \<leftarrow> timerlist_fini (ho_conn_queue h);
               tq \<leftarrow> queue_fini (ho_timewait_queue h);
               Some (h\<lparr>ho_conn_queue := cq, ho_timewait_queue := tq\<rparr>, -1)
             }
             else Some (init_counters (ctrl_mod_init (h\<lparr>ho_active_queue := []\<rparr>)) cur_time, 0)
           }
       }
   }"

section \<open>Probes\<close>

definition probe_window :: "transport_settings \<Rightarrow> 'w litedt_host \<Rightarrow> u32 \<Rightarrow> nat \<Rightarrow> 'w litedt_host option" where
  "probe_window cf h flow max_probes = do {
     c \<leftarrow> get_conn h flow;
     h \<leftarrow> (if unat (cn_probes_sent c) < max_probes then do {
              (h, _) \<leftarrow> litedt_data_post cf h flow (cn_send_seq c) 0 0 0 False;
              upd_conn h flow (\<lambda>c. c\<lparr>cn_probes_sent := cn_probes_sent c + 1\<rparr>)
            } else Some h);
     upd_conn h flow (\<lambda>c. c\<lparr>cn_last_probe_time := ho_cur_time h\<rparr>)
   }"

definition check_and_send_probes :: "transport_settings \<Rightarrow> 'w litedt_host \<Rightarrow> u32 \<Rightarrow> ('w litedt_host \<times> time) option" where
  "check_and_send_probes cf h flow = do {
     let cur_time = ho_cur_time h;
     c \<leftarrow> get_conn h flow;
     if status_num (cn_state c) \<ge> status_num CONN_CLOSE_WAIT then Some (h, -1)
     else if is_snd_queue_empty c then
       (if cur_time - cn_last_sync_time c \<ge> KEEPALIVE_TIME then do {
          h \<leftarrow> (if cur_time - cn_last_probe_time c \<ge> KEEPALIVE_INTERVAL then probe_window cf h flow KEEPALIVE_PROBES else Some h);
          c \<leftarrow> get_conn h flow;
          Some (h, cn_last_probe_time c + KEEPALIVE_INTERVAL)
        } else Some (h, cn_last_sync_time c + KEEPALIVE_TIME))
     else if cn_swin_size c = 0 then do {
       h \<leftarrow> (if cur_time - cn_last_probe_time c \<ge> IDLE_INTERVAL then probe_window cf h flow ZERO_WINDOW_PROBES else Some h);
       c \<leftarrow> get_conn h flow;
       Some (h, cn_last_probe_time c + IDLE_INTERVAL)
     }
     else Some (h, -1)
   }"

section \<open>The state of the connections\<close>

definition conn_fec_post :: "transport_settings \<Rightarrow> 'w litedt_host \<Rightarrow> litedt_conn \<Rightarrow> 'w litedt_host option" where
  "conn_fec_post cf h c =
     (if cn_fec_enabled c \<and> cf_fec_group_size cf \<noteq> 0 then do {
        (fm, pkt) \<leftarrow> fec_post (ucast (cf_fec_group_size cf)) (cn_fec c);
        put_conn (fec_send h pkt) (c\<lparr>cn_fec := fm\<rparr>)
      } else Some h)"

text \<open>The synchronisation of one connection; \<open>False\<close> when it was released.\<close>

definition sync_connection :: "transport_settings \<Rightarrow> 'w litedt_env \<Rightarrow> 'w litedt_host \<Rightarrow> u32 \<Rightarrow> ('w litedt_host \<times> bool) option" where
  "sync_connection cf env h flow = do {
     let cur_time = ho_cur_time h;
     c \<leftarrow> get_conn h flow;
     if cur_time < cn_next_sync_time c then Some (h, True)
     else do {
       (h, alive) \<leftarrow>
         (case cn_state c of
            CONN_REQUEST \<Rightarrow> Some (litedt_conn_req h flow (cn_tunnel_id c), True)
          | CONN_ESTABLISHED \<Rightarrow> do {
              h \<leftarrow> conn_fec_post cf h c;
              (h, _) \<leftarrow> litedt_data_ack cf h flow (cn_reack_times c > 0);
              Some (h, True)
            }
          | CONN_FIN_WAIT \<Rightarrow> do {
              h \<leftarrow> conn_fec_post cf h c;
              Some (litedt_close_req h flow (cn_write_seq c), True)
            }
          | CONN_CLOSE_WAIT \<Rightarrow> do {
              (h, _) \<leftarrow> litedt_data_ack cf h flow (cn_reack_times c > 0);
              Some (h, True)
            }
          | CONN_CLOSED \<Rightarrow> do {
              (rb, readable) \<leftarrow> rbuf_readable_bytes (cn_recv_buf c);
              h \<leftarrow> put_conn h (c\<lparr>cn_recv_buf := rb\<rparr>);
              if readable = 0 then do { h \<leftarrow> release_connection env h flow; Some (h, False) } else Some (h, True)
            });
       if \<not> alive then Some (h, False)
       else do {
         h \<leftarrow> upd_conn h flow (\<lambda>c.
           if cn_reack_times c > 1 then c\<lparr>cn_reack_times := cn_reack_times c - 1, cn_next_sync_time := cur_time + REACK_DELAY\<rparr>
           else c\<lparr>cn_reack_times := 0, cn_next_sync_time :=
             cur_time + (if cn_state c = CONN_ESTABLISHED then SLOW_ACK_DELAY else NORMAL_ACK_DELAY)\<rparr>);
         Some (h, True)
       }
     }
   }"

text \<open>The notification of the user, with the numbers of readable and writable bytes found.\<close>

definition notify_user :: "'w litedt_env \<Rightarrow> 'w litedt_host \<Rightarrow> u32 \<Rightarrow> ('w litedt_host \<times> u32 \<times> u32) option" where
  "notify_user env h flow = do {
     c \<leftarrow> get_conn h flow;
     (h, readable) \<leftarrow>
       (case cb_receive env of
          Some f \<Rightarrow>
            if cn_notify_recv c \<and> cn_state c \<noteq> CONN_FIN_WAIT \<and> status_num (cn_state c) \<le> status_num CONN_CLOSED then do {
              (rb, readable) \<leftarrow> rbuf_readable_bytes (cn_recv_buf c);
              h \<leftarrow> put_conn h (c\<lparr>cn_recv_buf := rb\<rparr>);
              h \<leftarrow> (if readable > 0 then f h flow readable else Some h);
              Some (h, readable)
            } else Some (h, 0)
        | None \<Rightarrow> Some (h, 0));
     c \<leftarrow> get_conn h flow;
     (h, writable) \<leftarrow>
       (case cb_send env of
          Some f \<Rightarrow>
            if cn_notify_send c \<and> status_num (cn_state c) \<le> status_num CONN_ESTABLISHED then do {
              let writable = rbuf_writable_bytes (cn_send_buf c);
              h \<leftarrow> (if writable > 0 then f h flow writable else Some h);
              Some (h, writable)
            } else Some (h, 0)
        | None \<Rightarrow> Some (h, 0));
     Some (h, readable, writable)
   }"

text \<open>
  One pass of the loop of \<open>check_connection_state\<close> for the connection at the top. The connection is read once
  more for its next time; when the user has released it in a callback this is a crash.
\<close>

definition check_connection :: "transport_settings \<Rightarrow> 'w litedt_env \<Rightarrow> 'w litedt_host \<Rightarrow> u32 \<Rightarrow> 'w litedt_host option" where
  "check_connection cf env h flow = do {
     let cur_time = ho_cur_time h;
     c \<leftarrow> get_conn h flow;
     if cur_time - cn_last_sync_time c > CONNECTION_TIMEOUT then release_connection env h flow
     else do {
       (h, probe_time) \<leftarrow> check_and_send_probes cf h flow;
       (h, alive) \<leftarrow> sync_connection cf env h flow;
       if \<not> alive then Some h
       else do {
         (h, readable, writable) \<leftarrow> notify_user env h flow;
         next_time \<leftarrow>
           (if readable \<noteq> 0 \<or> writable \<noteq> 0 then Some (cur_time + 1)
            else do {
              c \<leftarrow> get_conn h flow;
              Some (if probe_time > 0 \<and> probe_time < cn_next_sync_time c then probe_time else cn_next_sync_time c)
            });
         (q, n) \<leftarrow> timerlist_resched_top (ho_conn_queue h) next_time;
         Some (h\<lparr>ho_conn_queue := q\<rparr>)
       }
     }
   }"

partial_function (option) check_connections :: "transport_settings \<Rightarrow> 'w litedt_env \<Rightarrow> 'w litedt_host \<Rightarrow> 'w litedt_host option" where
  "check_connections cf env h =
     (if timerlist_empty (ho_conn_queue h) then Some h
      else do {
        top \<leftarrow> timerlist_top (ho_conn_queue h);
        e \<leftarrow> top;
        case e of (a, event_time, key, c) \<Rightarrow>
          if event_time > ho_cur_time h then Some h
          else do {
            h \<leftarrow> check_connection cf env h (cn_flow c);
            check_connections cf env h
          }
      })"

definition check_connection_state ::
  "transport_settings \<Rightarrow> 'w litedt_env \<Rightarrow> 'w litedt_host \<Rightarrow> time \<Rightarrow> ('w litedt_host \<times> time) option" where
  "check_connection_state cf env h next_time = do {
     h \<leftarrow> check_connections cf env h;
     if timerlist_empty (ho_conn_queue h) then Some (h, next_time)
     else do {
       top \<leftarrow> timerlist_top (ho_conn_queue h);
       (a, event_time, key, c) \<leftarrow> top;
       Some (h, min next_time event_time)
     }
   }"

section \<open>Retransmission and transmission\<close>

definition pacing_delay :: "'w litedt_host \<Rightarrow> u32 \<Rightarrow> time option" where
  "pacing_delay h predict =
     (if ho_pacing_rate h = 0 then None else Some (ho_pacing_time h + uint predict * USEC_PER_SEC div uint (ho_pacing_rate h)))"

fun retrans_check_loop :: "'w litedt_host \<Rightarrow> time \<Rightarrow> time \<Rightarrow> u32 list \<Rightarrow> ('w litedt_host \<times> time) option" where
  "retrans_check_loop h cur_time next_time [] = Some (h, next_time)"
| "retrans_check_loop h cur_time next_time (flow # flows) = do {
     c \<leftarrow> get_conn h flow;
     (h, c, ret) \<leftarrow> retrans_time_event h c cur_time;
     h \<leftarrow> put_conn h c;
     if ret \<noteq> 0 then Some (h, next_time)
     else do {
       t \<leftarrow> retrans_next_event_time c cur_time;
       retrans_check_loop h cur_time (min next_time t) flows
     }
   }"

definition check_retrans_queue :: "transport_settings \<Rightarrow> 'w litedt_host \<Rightarrow> time \<Rightarrow> ('w litedt_host \<times> time) option" where
  "check_retrans_queue cf h next_time = do {
     (h, next_time) \<leftarrow> retrans_check_loop h (ho_cur_time h) next_time (ho_active_queue h);
     h \<leftarrow> retrans_queue_send cf h;
     if timerlist_empty (ho_retrans_queue h) then Some (h, next_time)
     else do {
       len \<leftarrow> retrans_packet_length h;
       t \<leftarrow> pacing_delay h (len + of_nat LITEDT_MAX_HEADER);
       Some (h, min next_time t)
     }
   }"

datatype stop_reason = STOP_SENDING_APP_LIMITED | STOP_SENDING_RATE_LIMITED | STOP_SENDING_CWND_LIMITED

text \<open>
  What the loops of \<open>check_transmit_queue\<close> carry: the time of the next event, whether the application is
  the limit, and why sending stopped.
\<close>

type_synonym transmit = "time \<times> bool \<times> stop_reason"

partial_function (option) transmit_conn ::
  "transport_settings \<Rightarrow> 'w litedt_host \<Rightarrow> u32 \<Rightarrow> transmit \<Rightarrow> ('w litedt_host \<times> transmit) option" where
  "transmit_conn cf h flow st = do {
     c \<leftarrow> get_conn h flow;
     if cn_write_seq c = cn_send_seq c then Some (h, st)
     else
       (let left = min (cn_write_seq c - cn_send_seq c) (ucast (ho_mss h));
            room = cn_swin_start c + cn_swin_size c - cn_send_seq c;
            bytes = (if left > room then room else left);
            predict = bytes + of_nat LITEDT_MAX_HEADER
        in if bytes = 0 then Some (h, st)
           else if predict > ho_pacing_credit h then do {
             t \<leftarrow> pacing_delay h predict;
             Some (h, (min (fst st) t, False, STOP_SENDING_RATE_LIMITED))
           }
           else if ho_inflight h \<ge> ho_snd_cwnd h then Some (h, (fst st, False, STOP_SENDING_CWND_LIMITED))
           else
             (case (if cn_fec_enabled c \<and> cf_fec_group_size cf \<noteq> 0 then get_fec_header (cn_fec c) else (0, 0)) of
                (fec_seq, fec_index) \<Rightarrow> do {
                  r \<leftarrow> litedt_data_post cf h flow (cn_send_seq c) bytes fec_seq fec_index True;
                  case r of (h, ret) \<Rightarrow>
                    if ret = 0 then do {
                      h \<leftarrow> upd_conn h flow (\<lambda>c. c\<lparr>cn_send_seq := cn_send_seq c + bytes\<rparr>);
                      transmit_conn cf h flow st
                    }
                    else if ret = LITEDT_SEND_FLOW_CONTROL
                    then Some (h, (min (fst st) (ho_cur_time h + SEND_INTERVAL), False, STOP_SENDING_RATE_LIMITED))
                    else Some (h, st)
                }))
   }"

text \<open>
  The loop over the active queue: \<open>kept\<close> are the connections already served that stay active, the last
  argument those still to serve.
\<close>

fun transmit_loop ::
  "transport_settings \<Rightarrow> 'w litedt_host \<Rightarrow> transmit \<Rightarrow> u32 list \<Rightarrow> u32 list \<Rightarrow> ('w litedt_host \<times> transmit) option" where
  "transmit_loop cf h st kept [] = Some (h\<lparr>ho_active_queue := kept\<rparr>, st)"
| "transmit_loop cf h st kept (flow # flows) = do {
     let st = (if ho_inflight h \<ge> ho_snd_cwnd h then (fst st, False, STOP_SENDING_CWND_LIMITED) else st);
     if \<not> fst (snd st) then Some (h\<lparr>ho_active_queue := (flow # flows) @ kept\<rparr>, st)
     else do {
       c \<leftarrow> get_conn h flow;
       if status_num (cn_state c) > status_num CONN_FIN_WAIT then do {
         h \<leftarrow> put_conn h (c\<lparr>cn_active := False\<rparr>);
         transmit_loop cf h st kept flows
       }
       else do {
         (h, st) \<leftarrow> transmit_conn cf h flow st;
         c \<leftarrow> get_conn h flow;
         if is_snd_queue_empty c then do {
           h \<leftarrow> put_conn h (c\<lparr>cn_active := False\<rparr>);
           transmit_loop cf h st kept flows
         }
         else transmit_loop cf h st (kept @ [flow]) flows
       }
     }
   }"

definition check_transmit_queue :: "transport_settings \<Rightarrow> 'w litedt_host \<Rightarrow> time \<Rightarrow> ('w litedt_host \<times> time) option" where
  "check_transmit_queue cf h next_time = do {
     (h, next_time, app_limited, stop) \<leftarrow> transmit_loop cf h (next_time, True, STOP_SENDING_APP_LIMITED) [] (ho_active_queue h);
     let s = ho_delivered h + ho_inflight h;
     let h = (if app_limited then h\<lparr>ho_app_limited := (if s \<noteq> 0 then s else 1)\<rparr> else h);
     let h = (if app_limited \<or> ho_inflight h \<ge> ho_snd_cwnd h then h\<lparr>ho_pacing_credit := 0\<rparr> else h);
     let h = stat_upd (\<lambda>s. case stop of
         STOP_SENDING_APP_LIMITED \<Rightarrow> s\<lparr>st_time_event_app_limited := st_time_event_app_limited s + 1\<rparr>
       | STOP_SENDING_RATE_LIMITED \<Rightarrow> s\<lparr>st_time_event_rate_limited := st_time_event_rate_limited s + 1\<rparr>
       | STOP_SENDING_CWND_LIMITED \<Rightarrow> s\<lparr>st_time_event_cwnd_limited := st_time_event_cwnd_limited s + 1\<rparr>) h;
     Some (h, next_time)
   }"

section \<open>The time event\<close>

partial_function (option) expire_timewait :: "'w litedt_host \<Rightarrow> time \<Rightarrow> time \<Rightarrow> ('w litedt_host \<times> time) option" where
  "expire_timewait h cur_time next_time =
     (if queue_empty (ho_timewait_queue h) then Some (h, next_time)
      else do {
        n \<leftarrow> queue_first (ho_timewait_queue h);
        tw \<leftarrow> queue_value (ho_timewait_queue h) n;
        if cur_time < tw_close_time tw + TIME_WAIT_EXPIRE then Some (h, min next_time (tw_close_time tw + TIME_WAIT_EXPIRE))
        else do {
          r \<leftarrow> queue_del (ho_timewait_queue h) (tw_flow tw);
          expire_timewait (h\<lparr>ho_timewait_queue := fst r\<rparr>) cur_time next_time
        }
      })"

definition refill_credit :: "transport_settings \<Rightarrow> 'w litedt_host \<Rightarrow> 'w litedt_host option" where
  "refill_credit cf h =
     (if ho_pacing_rate h = 0 then None
      else
        (let cur_time = ho_cur_time h;
             pacing_interval = max (uint (cf_mtu cf) * USEC_PER_SEC div uint (ho_pacing_rate h)) SEND_INTERVAL
         in Some (if cur_time \<ge> ho_pacing_time h + pacing_interval
                  then h\<lparr>ho_pacing_credit := ho_pacing_credit h +
                           word_of_int ((uint (ho_pacing_rate h) * (cur_time - ho_pacing_time h)) mod 2 ^ 64 div USEC_PER_SEC),
                         ho_pacing_time := cur_time\<rparr>
                  else h)))"

text \<open>The end of the time event: the time until the next one.\<close>

definition time_event_exit :: "'w litedt_host \<Rightarrow> time \<Rightarrow> 'w litedt_host \<times> time" where
  "time_event_exit h next_time =
     (let (h, cur_time) = get_curtime h in (h, if next_time \<le> cur_time then 0 else next_time - cur_time))"

definition litedt_time_event :: "transport_settings \<Rightarrow> 'w litedt_env \<Rightarrow> 'w litedt_host \<Rightarrow> ('w litedt_host \<times> time) option" where
  "litedt_time_event cf env h = do {
     let (h, cur_time) = get_curtime h;
     let h = h\<lparr>ho_cur_time := cur_time\<rparr>;
     let next_time = cur_time + IDLE_INTERVAL;
     if ho_closed h then Some (h, 0)
     else do {
       h \<leftarrow> (if cur_time \<ge> ho_next_ping_time h then do {
                h \<leftarrow> litedt_ping_req cf h;
                Some (h\<lparr>ho_next_ping_time := cur_time + PING_RETRY_WAIT\<rparr>)
              } else Some h);
       (h, next_time) \<leftarrow> expire_timewait h cur_time next_time;
       if cur_time \<ge> ho_offline_time h then do {
         h \<leftarrow> release_all_connections env (h\<lparr>ho_offline_time := get_offline_time cf cur_time\<rparr>);
         let h = h\<lparr>ho_remote_online := False\<rparr>;
         h \<leftarrow> (case cb_online env of None \<Rightarrow> Some h | Some f \<Rightarrow> f h False);
         Some (h, -1)
       }
       else do {
         let next_time = min next_time (ho_offline_time h);
         if \<not> ho_remote_online h then Some (time_event_exit h next_time)
         else do {
           h \<leftarrow> refill_credit cf h;
           h \<leftarrow> ctrl_time_event cf h;
           (h, next_time) \<leftarrow> check_connection_state cf env h next_time;
           (h, next_time) \<leftarrow> check_retrans_queue cf h next_time;
           (h, next_time) \<leftarrow> check_transmit_queue cf h next_time;
           let next_time = (if next_time < cur_time + SEND_INTERVAL then cur_time + SEND_INTERVAL else next_time);
           Some (time_event_exit (h\<lparr>ho_last_event_time := cur_time, ho_next_event_time := next_time\<rparr>) next_time)
         }
       }
     }
   }"

end
