(* ===== verification/Config.thy ===== *)
theory Config
  imports Host
begin

text \<open>
  The configuration of \<^verbatim>\<open>src/src/config.c\<close>. The file is parsed by the library json-parser into a tree, which is
  a data type here; the parser itself is an argument. Text is a list of characters, a \<open>char\<close> array of a
  structure has its full length, and \<open>cstr\<close> is the part before the terminating zero. An entry of a parser
  table has as its address the way to write the field; a write that does not match the field, or that leaves an
  array, is a crash, \<open>None\<close>, as is a failed \<open>assert\<close>.
\<close>

section \<open>Values\<close>

datatype json_type = json_object | json_array | json_integer | json_double | json_string | json_boolean | json_null

datatype 'd json_value =
    JObject "(string \<times> 'd json_value) list"
  | JArray "'d json_value list"
  | JInteger int
  | JDouble 'd
  | JString string
  | JBoolean bool
  | JNull

fun jtype :: "'d json_value \<Rightarrow> json_type" where
  "jtype (JObject _) = json_object"
| "jtype (JArray _) = json_array"
| "jtype (JInteger _) = json_integer"
| "jtype (JDouble _) = json_double"
| "jtype (JString _) = json_string"
| "jtype (JBoolean _) = json_boolean"
| "jtype JNull = json_null"

definition NO_ERROR :: int where "NO_ERROR = 0"
definition FILE_NOT_FOUND :: int where "FILE_NOT_FOUND = 1"
definition NOT_ENOUGH_RESOURCES :: int where "NOT_ENOUGH_RESOURCES = 2"
definition PARSE_FAILED :: int where "PARSE_FAILED = 3"

definition PROTOCOL_TCP :: u16 where "PROTOCOL_TCP = 0"
definition PROTOCOL_UDP :: u16 where "PROTOCOL_UDP = 1"

definition MAX_PORT_NUM :: nat where "MAX_PORT_NUM = 100"
definition MAX_PEER_NUM :: nat where "MAX_PEER_NUM = 20"
definition PASSWORD_LEN :: nat where "PASSWORD_LEN = 32"
definition ADDRESS_MAX_LEN :: nat where "ADDRESS_MAX_LEN = 65"
definition DOMAIN_MAX_LEN :: nat where "DOMAIN_MAX_LEN = 128"
definition DOMAIN_PORT_MAX_LEN :: nat where "DOMAIN_PORT_MAX_LEN = DOMAIN_MAX_LEN + 6"
definition DEFAULT_PORT :: u16 where "DEFAULT_PORT = 19210"
definition MAX_CONF_SIZE :: nat where "MAX_CONF_SIZE = 1048576"
definition MAX_CONF_NAME_LENGTH :: nat where "MAX_CONF_NAME_LENGTH = 1023"

definition nul :: char where "nul = CHR 0x00"

definition cstr :: "string \<Rightarrow> string" where
  "cstr s = takeWhile (\<lambda>c. c \<noteq> nul) s"

definition zeros :: "nat \<Rightarrow> string" where
  "zeros n = replicate n nul"

definition strncpy :: "string \<Rightarrow> string \<Rightarrow> nat \<Rightarrow> string option" where
  "strncpy dst src n = (if n \<le> length dst then Some (take n (cstr src @ zeros n) @ drop n dst) else None)"

definition tolower :: "char \<Rightarrow> char" where
  "tolower c = (let n = of_char c :: nat in if 65 \<le> n \<and> n \<le> 90 then char_of (n + 32) else c)"

definition strcaseeq :: "string \<Rightarrow> string \<Rightarrow> bool" where
  "strcaseeq a b \<longleftrightarrow> map tolower (cstr a) = map tolower (cstr b)"

section \<open>The structures\<close>

record service_settings =
  sv_debug_log :: u32
  sv_perf_log :: u32
  sv_node_id :: u32
  sv_listen_addr :: string
  sv_listen_port :: u32
  sv_max_incoming_peers :: u32
  sv_connect_peers :: "string list"
  sv_dns_server :: string
  sv_prefer_ipv6 :: u32
  sv_udp_timeout :: u32
  sv_tcp_nodelay :: u32
  sv_tcp_fastopen :: u32
  sv_tcp_fastopen_connect :: u32

record entrance_rule =
  er_tunnel_id :: u16
  er_node_id :: u16
  er_listen_addr :: string
  er_listen_port :: u16
  er_protocol :: u16

record forward_rule =
  fr_tunnel_id :: u16
  fr_node_id :: u16
  fr_destination_addr :: string
  fr_destination_port :: u16
  fr_protocol :: u16

record global_config =
  gc_service :: service_settings
  gc_transport :: transport_settings
  gc_entrance_rules :: "entrance_rule list"
  gc_forward_rules :: "forward_rule list"

definition zero_entrance :: entrance_rule where
  "zero_entrance = \<lparr>er_tunnel_id = 0, er_node_id = 0, er_listen_addr = zeros ADDRESS_MAX_LEN, er_listen_port = 0, er_protocol = 0\<rparr>"

definition zero_forward :: forward_rule where
  "zero_forward = \<lparr>fr_tunnel_id = 0, fr_node_id = 0, fr_destination_addr = zeros ADDRESS_MAX_LEN, fr_destination_port = 0,
     fr_protocol = 0\<rparr>"

section \<open>The parser tables\<close>

text \<open>The addresses, which \<open>global_config_init\<close> enters into the tables at the start, are part of the entries.\<close>

datatype ('d, 's) field =
    U16_at "u16 \<Rightarrow> 's \<Rightarrow> 's"
  | U32_at "u32 \<Rightarrow> 's \<Rightarrow> 's"
  | Float_at "'d \<Rightarrow> 's \<Rightarrow> 's"
  | Chars_at "'s \<Rightarrow> string" "string \<Rightarrow> 's \<Rightarrow> 's"
  | Table_at "'s \<Rightarrow> string list" "string list \<Rightarrow> 's \<Rightarrow> 's"

datatype custom_parser_handler = protocol_parser_fn | peers_parser_fn

record ('d, 's) parser_entry =
  pe_key :: string
  pe_type :: json_type
  pe_maxlen :: nat
  pe_addr :: "('d, 's) field"
  pe_handler :: "custom_parser_handler option"

definition entry :: "string \<Rightarrow> json_type \<Rightarrow> nat \<Rightarrow> ('d, 's) field \<Rightarrow> ('d, 's) parser_entry" where
  "entry key type maxlen addr = \<lparr>pe_key = key, pe_type = type, pe_maxlen = maxlen, pe_addr = addr, pe_handler = None\<rparr>"

definition static_service_vars_entries :: "('d, service_settings) parser_entry list" where
  "static_service_vars_entries =
    [entry ''debug_log'' json_integer 4 (U32_at (\<lambda>v s. s\<lparr>sv_debug_log := v\<rparr>)),
     entry ''perf_log'' json_integer 4 (U32_at (\<lambda>v s. s\<lparr>sv_perf_log := v\<rparr>)),
     entry ''node_id'' json_integer 4 (U32_at (\<lambda>v s. s\<lparr>sv_node_id := v\<rparr>)),
     entry ''listen_addr'' json_string ADDRESS_MAX_LEN (Chars_at sv_listen_addr (\<lambda>v s. s\<lparr>sv_listen_addr := v\<rparr>)),
     entry ''listen_port'' json_integer 4 (U32_at (\<lambda>v s. s\<lparr>sv_listen_port := v\<rparr>)),
     entry ''max_incoming_peers'' json_integer 4 (U32_at (\<lambda>v s. s\<lparr>sv_max_incoming_peers := v\<rparr>)),
     (entry ''connect_peers'' json_array (MAX_PEER_NUM + 1) (Table_at sv_connect_peers (\<lambda>v s. s\<lparr>sv_connect_peers := v\<rparr>)))
       \<lparr>pe_handler := Some peers_parser_fn\<rparr>,
     entry ''dns_server'' json_string ADDRESS_MAX_LEN (Chars_at sv_dns_server (\<lambda>v s. s\<lparr>sv_dns_server := v\<rparr>)),
     entry ''prefer_ipv6'' json_integer 4 (U32_at (\<lambda>v s. s\<lparr>sv_prefer_ipv6 := v\<rparr>)),
     entry ''udp_timeout'' json_integer 4 (U32_at (\<lambda>v s. s\<lparr>sv_udp_timeout := v\<rparr>)),
     entry ''tcp_nodelay'' json_integer 4 (U32_at (\<lambda>v s. s\<lparr>sv_tcp_nodelay := v\<rparr>)),
     entry ''tcp_fastopen'' json_integer 4 (U32_at (\<lambda>v s. s\<lparr>sv_tcp_fastopen := v\<rparr>)),
     entry ''tcp_fastopen_connect'' json_integer 4 (U32_at (\<lambda>v s. s\<lparr>sv_tcp_fastopen_connect := v\<rparr>))]"

text \<open>\<open>rto\<close> is the multiplication of a time with a ratio, as in \<open>cf_rto\<close>.\<close>

definition password_at :: "('d, transport_settings) field" where
  "password_at = Chars_at (\<lambda>s. map (\<lambda>b. char_of (unat b)) (cf_password s)) (\<lambda>v s. s\<lparr>cf_password := map of_char v\<rparr>)"

definition static_transport_vars_entries :: "('d \<Rightarrow> u32 \<Rightarrow> int) \<Rightarrow> ('d, transport_settings) parser_entry list" where
  "static_transport_vars_entries rto =
    [entry ''password'' json_string PASSWORD_LEN password_at,
     entry ''token_expire'' json_integer 4 (U32_at (\<lambda>v s. s\<lparr>cf_token_expire := v\<rparr>)),
     entry ''offline_timeout'' json_integer 4 (U32_at (\<lambda>v s. s\<lparr>cf_offline_timeout := v\<rparr>)),
     entry ''buffer_size'' json_integer 4 (U32_at (\<lambda>v s. s\<lparr>cf_buffer_size := v\<rparr>)),
     entry ''transmit_rate_init'' json_integer 4 (U32_at (\<lambda>v s. s\<lparr>cf_transmit_rate_init := v\<rparr>)),
     entry ''transmit_rate_max'' json_integer 4 (U32_at (\<lambda>v s. s\<lparr>cf_transmit_rate_max := v\<rparr>)),
     entry ''transmit_rate_min'' json_integer 4 (U32_at (\<lambda>v s. s\<lparr>cf_transmit_rate_min := v\<rparr>)),
     entry ''fec_decode'' json_integer 4 (U32_at (\<lambda>v s. s\<lparr>cf_fec_decode := v\<rparr>)),
     entry ''fec_group_size'' json_integer 4 (U32_at (\<lambda>v s. s\<lparr>cf_fec_group_size := v\<rparr>)),
     entry ''max_rtt'' json_integer 4 (U32_at (\<lambda>v s. s\<lparr>cf_max_rtt := v\<rparr>)),
     entry ''min_rtt'' json_integer 4 (U32_at (\<lambda>v s. s\<lparr>cf_min_rtt := v\<rparr>)),
     entry ''rto_ratio'' json_double 4 (Float_at (\<lambda>d s. s\<lparr>cf_rto := rto d\<rparr>)),
     entry ''mtu'' json_integer 4 (U32_at (\<lambda>v s. s\<lparr>cf_mtu := v\<rparr>)),
     entry ''ack_size'' json_integer 4 (U32_at (\<lambda>v s. s\<lparr>cf_ack_size := v\<rparr>))]"

definition dynamic_entrance_rules_entries :: "('d, entrance_rule) parser_entry list" where
  "dynamic_entrance_rules_entries =
    [entry ''tunnel_id'' json_integer 2 (U16_at (\<lambda>v s. s\<lparr>er_tunnel_id := v\<rparr>)),
     entry ''node_id'' json_integer 2 (U16_at (\<lambda>v s. s\<lparr>er_node_id := v\<rparr>)),
     entry ''listen_addr'' json_string ADDRESS_MAX_LEN (Chars_at er_listen_addr (\<lambda>v s. s\<lparr>er_listen_addr := v\<rparr>)),
     entry ''listen_port'' json_integer 2 (U16_at (\<lambda>v s. s\<lparr>er_listen_port := v\<rparr>)),
     (entry ''protocol'' json_string 2 (U16_at (\<lambda>v s. s\<lparr>er_protocol := v\<rparr>)))\<lparr>pe_handler := Some protocol_parser_fn\<rparr>]"

definition dynamic_forward_rules_entries :: "('d, forward_rule) parser_entry list" where
  "dynamic_forward_rules_entries =
    [entry ''tunnel_id'' json_integer 2 (U16_at (\<lambda>v s. s\<lparr>fr_tunnel_id := v\<rparr>)),
     entry ''node_id'' json_integer 2 (U16_at (\<lambda>v s. s\<lparr>fr_node_id := v\<rparr>)),
     entry ''destination_addr'' json_string ADDRESS_MAX_LEN (Chars_at fr_destination_addr (\<lambda>v s. s\<lparr>fr_destination_addr := v\<rparr>)),
     entry ''destination_port'' json_integer 2 (U16_at (\<lambda>v s. s\<lparr>fr_destination_port := v\<rparr>)),
     (entry ''protocol'' json_string 2 (U16_at (\<lambda>v s. s\<lparr>fr_protocol := v\<rparr>)))\<lparr>pe_handler := Some protocol_parser_fn\<rparr>]"

section \<open>The parsers\<close>

definition normal_parser :: "'d json_value \<Rightarrow> ('d, 's) parser_entry \<Rightarrow> 's \<Rightarrow> ('s \<times> int) option" where
  "normal_parser value e s =
     (case pe_type e of
        json_integer \<Rightarrow>
          (if pe_maxlen e = 2 then
             (case (value, pe_addr e) of (JInteger i, U16_at f) \<Rightarrow> Some (f (word_of_int i) s, NO_ERROR) | _ \<Rightarrow> None)
           else if pe_maxlen e = 4 then
             (case (value, pe_addr e) of (JInteger i, U32_at f) \<Rightarrow> Some (f (word_of_int i) s, NO_ERROR) | _ \<Rightarrow> None)
           else if pe_maxlen e = 1 then None
           else Some (s, NO_ERROR))
      | json_double \<Rightarrow>
          (if pe_maxlen e = 4 then
             (case (value, pe_addr e) of (JDouble d, Float_at f) \<Rightarrow> Some (f d s, NO_ERROR) | _ \<Rightarrow> None)
           else if pe_maxlen e = 8 then None
           else Some (s, NO_ERROR))
      | json_string \<Rightarrow>
          (case (value, pe_addr e) of
             (JString str, Chars_at get put) \<Rightarrow>
               if length str \<ge> pe_maxlen e then Some (s, PARSE_FAILED)
               else do { v \<leftarrow> strncpy (get s) str (pe_maxlen e - 1); Some (put v s, NO_ERROR) }
           | _ \<Rightarrow> None)
      | _ \<Rightarrow> Some (s, PARSE_FAILED))"

definition protocol_parser :: "'d json_value \<Rightarrow> ('d, 's) parser_entry \<Rightarrow> 's \<Rightarrow> ('s \<times> int) option" where
  "protocol_parser value e s =
     (case (value, pe_addr e) of
        (JString p, U16_at f) \<Rightarrow>
          if strcaseeq p ''tcp'' then Some (f PROTOCOL_TCP s, NO_ERROR)
          else if strcaseeq p ''udp'' then Some (f PROTOCOL_UDP s, NO_ERROR)
          else Some (s, PARSE_FAILED)
      | _ \<Rightarrow> None)"

fun peers_loop :: "'d json_value list \<Rightarrow> nat \<Rightarrow> string list \<Rightarrow> (string list \<times> int) option" where
  "peers_loop [] array_idx rows = Some (rows, NO_ERROR)"
| "peers_loop (item # items) array_idx rows =
     (if array_idx \<ge> MAX_PORT_NUM then Some (rows, NO_ERROR)
      else case item of
        JString str \<Rightarrow>
          if length str \<ge> DOMAIN_PORT_MAX_LEN then Some (rows, PARSE_FAILED)
          else if array_idx < length rows then do {
            row \<leftarrow> strncpy (rows ! array_idx) str (DOMAIN_PORT_MAX_LEN - 1);
            peers_loop items (array_idx + 1) (rows[array_idx := row])
          }
          else None
      | _ \<Rightarrow> Some (rows, PARSE_FAILED))"

definition peers_parser :: "'d json_value \<Rightarrow> ('d, 's) parser_entry \<Rightarrow> 's \<Rightarrow> ('s \<times> int) option" where
  "peers_parser list e s =
     (case pe_addr e of
        Table_at get put \<Rightarrow>
          (let rows = replicate (MAX_PEER_NUM + 1) (zeros DOMAIN_PORT_MAX_LEN) in
           case list of
             JArray items \<Rightarrow> do { (rows, ret) \<leftarrow> peers_loop items 0 rows; Some (put rows s, ret) }
           | _ \<Rightarrow> Some (put rows s, PARSE_FAILED))
      | _ \<Rightarrow> None)"

definition call_parser :: "'d json_value \<Rightarrow> ('d, 's) parser_entry \<Rightarrow> 's \<Rightarrow> ('s \<times> int) option" where
  "call_parser value e s =
     (case pe_handler e of
        Some protocol_parser_fn \<Rightarrow> protocol_parser value e s
      | Some peers_parser_fn \<Rightarrow> peers_parser value e s
      | None \<Rightarrow> normal_parser value e s)"

fun parse_member :: "string \<Rightarrow> 'd json_value \<Rightarrow> ('d, 's) parser_entry list \<Rightarrow> 's \<Rightarrow> ('s \<times> int) option" where
  "parse_member name value [] s = Some (s, NO_ERROR)"
| "parse_member name value (e # es) s =
     (if pe_key e \<noteq> cstr name then parse_member name value es s
      else if jtype value \<noteq> pe_type e then Some (s, PARSE_FAILED)
      else do {
        (s, ret) \<leftarrow> call_parser value e s;
        if ret \<noteq> NO_ERROR then Some (s, ret) else parse_member name value es s
      })"

fun parse_members :: "(string \<times> 'd json_value) list \<Rightarrow> ('d, 's) parser_entry list \<Rightarrow> 's \<Rightarrow> ('s \<times> int) option" where
  "parse_members [] entries s = Some (s, NO_ERROR)"
| "parse_members ((name, value) # ms) entries s = do {
     (s, ret) \<leftarrow> parse_member name value entries s;
     if ret \<noteq> NO_ERROR then Some (s, ret) else parse_members ms entries s
   }"

definition parse_entries_from_jobject ::
  "'d json_value \<Rightarrow> ('d, 's) parser_entry list \<Rightarrow> 's \<Rightarrow> ('s \<times> int) option" where
  "parse_entries_from_jobject jobject entries s =
     (case jobject of JObject ms \<Rightarrow> parse_members ms entries s | _ \<Rightarrow> Some (s, PARSE_FAILED))"

fun rules_loop :: "'d json_value list \<Rightarrow> nat \<Rightarrow> ('d, 'r) parser_entry list \<Rightarrow> 'r list \<Rightarrow> ('r list \<times> int) option" where
  "rules_loop [] array_idx entries rules = Some (rules, NO_ERROR)"
| "rules_loop (item # items) array_idx entries rules =
     (if array_idx \<ge> MAX_PORT_NUM then Some (rules, NO_ERROR)
      else if jtype item \<noteq> json_object then Some (rules, PARSE_FAILED)
      else if array_idx < length rules then do {
        (r, ret) \<leftarrow> parse_entries_from_jobject item entries (rules ! array_idx);
        let rules = rules[array_idx := r];
        if ret \<noteq> NO_ERROR then Some (rules, ret) else rules_loop items (array_idx + 1) entries rules
      }
      else None)"

text \<open>\<open>zero\<close> is a rule filled with zeros by \<open>bzero\<close>.\<close>

definition parse_rules_array :: "'d json_value \<Rightarrow> 'r \<Rightarrow> ('d, 'r) parser_entry list \<Rightarrow> ('r list \<times> int) option" where
  "parse_rules_array list zero entries =
     (let rules = replicate (MAX_PORT_NUM + 1) zero in
      case list of JArray items \<Rightarrow> rules_loop items 0 entries rules | _ \<Rightarrow> Some (rules, PARSE_FAILED))"

fun parse_rules_loop ::
  "(string \<times> 'd json_value) list \<Rightarrow> entrance_rule list \<Rightarrow> forward_rule list \<Rightarrow> (entrance_rule list \<times> forward_rule list \<times> int) option" where
  "parse_rules_loop [] es fs = Some (es, fs, NO_ERROR)"
| "parse_rules_loop ((name, value) # ms) es fs = do {
     (es, fs, ret) \<leftarrow>
       (if cstr name = ''entrance_rules'' then do {
          (es, ret) \<leftarrow> parse_rules_array value zero_entrance dynamic_entrance_rules_entries; Some (es, fs, ret) }
        else if cstr name = ''forward_rules'' then do {
          (fs, ret) \<leftarrow> parse_rules_array value zero_forward dynamic_forward_rules_entries; Some (es, fs, ret) }
        else Some (es, fs, NO_ERROR));
     if ret \<noteq> NO_ERROR then Some (es, fs, ret) else parse_rules_loop ms es fs
   }"

definition parse_rules ::
  "'d json_value \<Rightarrow> entrance_rule list \<Rightarrow> forward_rule list \<Rightarrow> (entrance_rule list \<times> forward_rule list \<times> int) option" where
  "parse_rules obj es fs = (case obj of JObject ms \<Rightarrow> parse_rules_loop ms es fs | _ \<Rightarrow> Some (es, fs, PARSE_FAILED))"

section \<open>Loading and reloading\<close>

text \<open>The static variables: the configuration, the name of its file, and the arrays \<open>reload_config_file\<close> parses into.\<close>

record config_state =
  cs_config :: global_config
  cs_conf_name :: string
  cs_temp_entrances :: "entrance_rule list"
  cs_temp_forwards :: "forward_rule list"

definition upd_service :: "(service_settings \<Rightarrow> service_settings) \<Rightarrow> global_config \<Rightarrow> global_config" where
  "upd_service f g = g\<lparr>gc_service := f (gc_service g)\<rparr>"

definition upd_transport :: "(transport_settings \<Rightarrow> transport_settings) \<Rightarrow> global_config \<Rightarrow> global_config" where
  "upd_transport f g = g\<lparr>gc_transport := f (gc_transport g)\<rparr>"

text \<open>The sections of the file. A section that cannot be parsed fails an \<open>assert\<close>.\<close>

fun load_sections :: "('d \<Rightarrow> u32 \<Rightarrow> int) \<Rightarrow> (string \<times> 'd json_value) list \<Rightarrow> global_config \<Rightarrow> global_config option" where
  "load_sections rto [] g = Some g"
| "load_sections rto ((name, value) # ms) g = do {
     g \<leftarrow> (if cstr name = ''service'' then do {
             (s, ret) \<leftarrow> parse_entries_from_jobject value static_service_vars_entries (gc_service g);
             if ret \<noteq> NO_ERROR then None else Some (g\<lparr>gc_service := s\<rparr>) }
           else if cstr name = ''transport'' then do {
             (t, ret) \<leftarrow> parse_entries_from_jobject value (static_transport_vars_entries rto) (gc_transport g);
             if ret \<noteq> NO_ERROR then None else Some (g\<lparr>gc_transport := t\<rparr>) }
           else Some g);
     load_sections rto ms g
   }"

definition post_check :: "transport_settings \<Rightarrow> transport_settings" where
  "post_check t =
     (let t = (if cf_fec_group_size t > 127 then t\<lparr>cf_fec_group_size := 127\<rparr> else t);
          t = (if cf_mtu t > of_nat LITEDT_MTU_MAX then t\<lparr>cf_mtu := of_nat LITEDT_MTU_MAX\<rparr> else t)
      in if cf_mtu t \<le> of_nat LITEDT_MAX_HEADER then t\<lparr>cf_mtu := of_nat LITEDT_MAX_HEADER + 1\<rparr> else t)"

text \<open>
  Reading the file: \<open>file\<close> is its contents, or \<open>None\<close> when it cannot be opened; \<open>mem\<close> and \<open>rd\<close> are whether the buffer could
  be allocated and filled; \<open>json_parse\<close> is the parser.
\<close>

definition read_json ::
  "(string \<Rightarrow> 'd json_value option) \<Rightarrow> string option \<Rightarrow> bool \<Rightarrow> bool \<Rightarrow> int + 'd json_value" where
  "read_json json_parse file mem rd =
     (case file of None \<Rightarrow> Inl FILE_NOT_FOUND
      | Some text \<Rightarrow>
          if length text \<ge> MAX_CONF_SIZE then Inl PARSE_FAILED
          else if \<not> mem then Inl NOT_ENOUGH_RESOURCES
          else if length text = 0 \<or> \<not> rd then Inl FILE_NOT_FOUND
          else (case json_parse text of None \<Rightarrow> Inl PARSE_FAILED | Some obj \<Rightarrow> Inr obj))"

definition load_config_file ::
  "(string \<Rightarrow> 'd json_value option) \<Rightarrow> ('d \<Rightarrow> u32 \<Rightarrow> int) \<Rightarrow> string \<Rightarrow> string option \<Rightarrow> bool \<Rightarrow> bool \<Rightarrow>
     config_state \<Rightarrow> (config_state \<times> int) option" where
  "load_config_file json_parse rto filename file mem rd cs = do {
     name \<leftarrow> (case file of None \<Rightarrow> Some (cs_conf_name cs)
             | Some text \<Rightarrow> if length text \<ge> MAX_CONF_SIZE then Some (cs_conf_name cs)
                 else strncpy (cs_conf_name cs) filename (MAX_CONF_NAME_LENGTH - 1));
     let cs = cs\<lparr>cs_conf_name := name\<rparr>;
     case read_json json_parse file mem rd of
       Inl err \<Rightarrow> Some (cs, err)
     | Inr (JObject ms) \<Rightarrow> do {
         g \<leftarrow> load_sections rto ms (cs_config cs);
         (es, fs, ret) \<leftarrow> parse_rules (JObject ms) (gc_entrance_rules g) (gc_forward_rules g);
         (if ret = NO_ERROR then Some () else None);
         Some (cs\<lparr>cs_config := upd_transport post_check (g\<lparr>gc_entrance_rules := es, gc_forward_rules := fs\<rparr>)\<rparr>, NO_ERROR)
       }
     | Inr _ \<Rightarrow> Some (cs, PARSE_FAILED)
   }"

definition reload_config_file ::
  "(string \<Rightarrow> 'd json_value option) \<Rightarrow> string option \<Rightarrow> bool \<Rightarrow> bool \<Rightarrow> config_state \<Rightarrow> (config_state \<times> int) option" where
  "reload_config_file json_parse file mem rd cs =
     (case read_json json_parse file mem rd of
        Inl err \<Rightarrow> Some (cs, err)
      | Inr obj \<Rightarrow> do {
          (es, fs, ret) \<leftarrow> parse_rules obj (cs_temp_entrances cs) (cs_temp_forwards cs);
          let cs = cs\<lparr>cs_temp_entrances := es, cs_temp_forwards := fs\<rparr>;
          Some (if ret \<noteq> NO_ERROR then cs
                else cs\<lparr>cs_config := (cs_config cs)\<lparr>gc_entrance_rules := es, gc_forward_rules := fs\<rparr>\<rparr>, ret)
        })"

text \<open>The defaults; \<open>rnd\<close> is the result of \<open>rand\<close>. The peers are those of the static variable, which is zero at the start.\<close>

definition default_service :: "int \<Rightarrow> service_settings" where
  "default_service rnd =
     (let node = (word_of_int rnd :: u32) AND 0xFFFF in
      \<lparr>sv_debug_log = 0, sv_perf_log = 0, sv_node_id = (if node \<noteq> 0 then node else 1),
       sv_listen_addr = zeros ADDRESS_MAX_LEN, sv_listen_port = 0, sv_max_incoming_peers = 0,
       sv_connect_peers = replicate (MAX_PEER_NUM + 1) (zeros DOMAIN_PORT_MAX_LEN), sv_dns_server = zeros ADDRESS_MAX_LEN,
       sv_prefer_ipv6 = 0, sv_udp_timeout = 120, sv_tcp_nodelay = 0, sv_tcp_fastopen = 0, sv_tcp_fastopen_connect = 0\<rparr>)"

definition global_config_init :: "int \<Rightarrow> config_state" where
  "global_config_init rnd =
     \<lparr>cs_config = \<lparr>gc_service = default_service rnd, gc_transport = default_settings,
        gc_entrance_rules = replicate (MAX_PORT_NUM + 1) zero_entrance, gc_forward_rules = replicate (MAX_PORT_NUM + 1) zero_forward\<rparr>,
      cs_conf_name = zeros (MAX_CONF_NAME_LENGTH + 1),
      cs_temp_entrances = replicate (MAX_PORT_NUM + 1) zero_entrance, cs_temp_forwards = replicate (MAX_PORT_NUM + 1) zero_forward\<rparr>"

end
