(* ===== verification/Flow.thy ===== *)
theory Flow
  imports Config LitedtTime
begin

text \<open>
  The state of the forwarding program of \<^verbatim>\<open>src/src/liteflow.h\<close>, \<^verbatim>\<open>liteflow.c\<close>, \<^verbatim>\<open>tcp.c\<close> and \<^verbatim>\<open>udp.c\<close>,
  and the flows of a peer. The static variables of the three files are the fields of one record, and every structure
  that the code allocates is at its address of a store; a freed one is gone from it, and following a pointer to
  it is a crash, \<open>None\<close>. The system is a record of streams: the results of the calls, the new sockets, the data
  received, the clock, the allocator, and the streams that the hosts of new peers read. A negative result of a call is the negated \<open>errno\<close>. What the
  program does to its sockets is written to a log.
\<close>

section \<open>The system\<close>

definition AF_UNSPEC :: u16 where "AF_UNSPEC = 0"
definition AF_INET :: u16 where "AF_INET = 2"
definition AF_INET6 :: u16 where "AF_INET6 = 10"
definition EINTR :: int where "EINTR = 4"
definition EAGAIN :: int where "EAGAIN = 11"
definition EINPROGRESS :: int where "EINPROGRESS = 115"

datatype sockaddr = Sockaddr_in u16 "u8 list" | Sockaddr_in6 u16 "u8 list" | Sockaddr_other u16

fun sa_family :: "sockaddr \<Rightarrow> u16" where
  "sa_family (Sockaddr_in port a) = AF_INET"
| "sa_family (Sockaddr_in6 port a) = AF_INET6"
| "sa_family (Sockaddr_other f) = f"

datatype io_result = Data "u8 list" | Errno int

datatype os_action =
    Closed int
  | Bound int sockaddr
  | Listening int
  | Connected int sockaddr
  | Sent int "u8 list"
  | Sent_to int sockaddr "u8 list"

text \<open>The calls that c-ares makes back into the program.\<close>

datatype ares_call =
    Ares_state int bool bool
  | Ares_answer addr "(u16 \<times> u8 list) option"

record os =
  os_ret :: "nat \<Rightarrow> int"
  os_fd :: "nat \<Rightarrow> int"
  os_recv :: "nat \<Rightarrow> io_result"
  os_recvfrom :: "nat \<Rightarrow> (u8 list \<times> sockaddr \<times> nat) option"
  os_send :: "nat \<Rightarrow> int"
  os_malloc :: "nat \<Rightarrow> pointer"
  os_clock :: "nat \<Rightarrow> time"
  os_pton :: "u16 \<Rightarrow> string \<Rightarrow> u8 list option"
  os_ares :: "nat \<Rightarrow> ares_call list"
  os_ares_timeout :: "nat \<Rightarrow> time"
  os_file :: "nat \<Rightarrow> string option \<times> bool \<times> bool"
  os_hosts :: "nat \<Rightarrow> (nat \<Rightarrow> time) \<times> (nat \<Rightarrow> time) \<times> (nat \<Rightarrow> pointer) \<times> (nat \<Rightarrow> int)"
  os_conn_size :: u32
  os_log :: "os_action list"

definition htons :: "u16 \<Rightarrow> u16" where
  "htons x = push_bit 8 x OR drop_bit 8 x"

section \<open>The structures\<close>

record addr_key =
  ak_family :: u16
  ak_port :: u16
  ak_address :: "u8 list"

text \<open>The three callbacks of a flow are always set together, to those of \<open>tcp.c\<close> or those of \<open>udp.c\<close>.\<close>

datatype flow_callbacks = Tcp_flow | Udp_flow

record flow_info =
  fi_flow :: u32
  fi_peer :: addr
  fi_ext :: pointer
  fi_callbacks :: "flow_callbacks option"

datatype timer_callback = Litedt_timeout_cb | Dns_failed_cb

record peer_info =
  pi_timer_cb :: timer_callback
  pi_timer_after :: time
  pi_timer_active :: bool
  pi_peer_id :: u16
  pi_is_outbound :: bool
  pi_dt :: "unit litedt_host"
  pi_flow_map :: "(u32, flow_info) treemap"
  pi_address :: string
  pi_port :: u16
  pi_resolve_ipv6 :: bool
  pi_remote_addr :: sockaddr
  pi_remote_addr_len :: nat
  pi_bound_addr_key :: addr_key

record hsock_data =
  hs_local_addr :: string
  hs_local_port :: u16
  hs_tunnel_id :: u16
  hs_peer_forward :: u16
  hs_fd :: int
  hs_active :: bool

text \<open>\<open>hsock_list\<close>, \<open>hsock_cnt\<close> and the structures that the entries point to.\<close>

record hsock_table =
  hsock_list :: "pointer list"
  hsock_cnt :: nat
  hsock_mem :: "addr \<Rightarrow> hsock_data option"

record tcp_flow =
  tf_read_active :: bool
  tf_write_active :: bool
  tf_sock_fd :: int
  tf_peer :: addr
  tf_flow :: u32

text \<open>A flow of an entrance leaves its watcher, its peer and its number uninitialised.\<close>

record udp_flow =
  uf_read_active :: "bool option"
  uf_sock_fd :: int
  uf_host_fd :: int
  uf_sock_addr :: sockaddr
  uf_addr_len :: nat
  uf_peer :: "addr option"
  uf_flow :: "u32 option"

record udp_key =
  uk_host_fd :: int
  uk_ip :: "u8 list"
  uk_port :: u16

record udp_bind =
  ub_peer :: addr
  ub_flow :: u32
  ub_expire :: time
  ub_closed :: bool

record lf_world =
  lw_os :: os
  lw_config :: config_state
  lw_litedt_sock :: int
  lw_addrs_tab :: "(addr_key, addr) hash_queue"
  lw_peers_tab :: "(u16, addr) hash_queue"
  lw_peers_outbound :: "(string, addr) hash_queue"
  lw_peers_inbound_cnt :: u32
  lw_next_flow :: u32
  lw_peers :: "addr \<Rightarrow> peer_info option"
  lw_tcp_flows :: "addr \<Rightarrow> tcp_flow option"
  lw_udp_flows :: "addr \<Rightarrow> udp_flow option"
  lw_udp_tab :: "(udp_key, udp_bind) hash_queue"
  lw_tcp_buf :: "u8 list"
  lw_udp_buf :: "u8 list"
  lw_tcp_hsocks :: hsock_table
  lw_udp_hsocks :: hsock_table
  lw_host_io :: "int option"
  lw_dns_io :: "(int \<times> bool \<times> bool) option"
  lw_dns_queries :: "(addr \<times> u16) list"
  lw_dns_timeout :: "time option"
  lw_monitor_active :: bool
  lw_last_stat_time :: time
  lw_last_sock_reset_time :: time
  lw_need_reload_conf :: bool

abbreviation service :: "lf_world \<Rightarrow> service_settings" where
  "service w \<equiv> gc_service (cs_config (lw_config w))"

abbreviation transport :: "lf_world \<Rightarrow> transport_settings" where
  "transport w \<equiv> gc_transport (cs_config (lw_config w))"

section \<open>Calls of the system\<close>

definition upd_os :: "(os \<Rightarrow> os) \<Rightarrow> lf_world \<Rightarrow> lf_world" where
  "upd_os f w = w\<lparr>lw_os := f (lw_os w)\<rparr>"

definition os_do :: "os_action \<Rightarrow> lf_world \<Rightarrow> lf_world" where
  "os_do a = upd_os (\<lambda>s. s\<lparr>os_log := os_log s @ [a]\<rparr>)"

definition os_call :: "lf_world \<Rightarrow> lf_world \<times> int" where
  "os_call w = (upd_os (\<lambda>s. s\<lparr>os_ret := os_ret s \<circ> Suc\<rparr>) w, os_ret (lw_os w) 0)"

definition os_open :: "lf_world \<Rightarrow> lf_world \<times> int" where
  "os_open w = (upd_os (\<lambda>s. s\<lparr>os_fd := os_fd s \<circ> Suc\<rparr>) w, os_fd (lw_os w) 0)"

definition os_alloc :: "lf_world \<Rightarrow> lf_world \<times> pointer" where
  "os_alloc w = (upd_os (\<lambda>s. s\<lparr>os_malloc := os_malloc s \<circ> Suc\<rparr>) w, os_malloc (lw_os w) 0)"

definition os_time :: "lf_world \<Rightarrow> lf_world \<times> time" where
  "os_time w = (upd_os (\<lambda>s. s\<lparr>os_clock := os_clock s \<circ> Suc\<rparr>) w, os_clock (lw_os w) 0)"

text \<open>\<open>recv\<close> returns at most as many bytes as it is asked for, \<open>send\<close> takes at most as many as it is given.\<close>

definition sys_recv :: "nat \<Rightarrow> lf_world \<Rightarrow> lf_world \<times> io_result" where
  "sys_recv len w = (upd_os (\<lambda>s. s\<lparr>os_recv := os_recv s \<circ> Suc\<rparr>) w,
     case os_recv (lw_os w) 0 of Data ds \<Rightarrow> Data (take len ds) | Errno e \<Rightarrow> Errno e)"

definition sys_recvfrom :: "nat \<Rightarrow> lf_world \<Rightarrow> lf_world \<times> (u8 list \<times> sockaddr \<times> nat) option" where
  "sys_recvfrom len w = (upd_os (\<lambda>s. s\<lparr>os_recvfrom := os_recvfrom s \<circ> Suc\<rparr>) w,
     map_option (\<lambda>(ds, a). (take len ds, a)) (os_recvfrom (lw_os w) 0))"

definition sys_send :: "int \<Rightarrow> u8 list \<Rightarrow> lf_world \<Rightarrow> lf_world \<times> int" where
  "sys_send fd ds w =
     (let ret = min (os_send (lw_os w) 0) (int (length ds))
      in (os_do (Sent fd (take (nat ret) ds)) (upd_os (\<lambda>s. s\<lparr>os_send := os_send s \<circ> Suc\<rparr>) w), ret))"

definition set_nonblock :: "lf_world \<Rightarrow> lf_world \<times> bool" where
  "set_nonblock w =
     (let (w, flags) = os_call w; (w, r1) = os_call w
      in if r1 < 0 then (w, False) else (let (w, r2) = os_call w in (w, r2 \<ge> 0)))"

definition get_addr_family :: "lf_world \<Rightarrow> string \<Rightarrow> u16 option" where
  "get_addr_family w a =
     (if os_pton (lw_os w) AF_INET (cstr a) \<noteq> None then Some AF_INET
      else if os_pton (lw_os w) AF_INET6 (cstr a) \<noteq> None then Some AF_INET6 else None)"

text \<open>
  The address that the code fills into a cleared \<open>sockaddr_storage\<close> for an address of the family \<open>af\<close>, and
  its length.
\<close>

definition fill_sockaddr :: "lf_world \<Rightarrow> u16 \<Rightarrow> string \<Rightarrow> u16 \<Rightarrow> sockaddr \<times> nat" where
  "fill_sockaddr w af ip port =
     (let a = os_pton (lw_os w) af (cstr ip) in
      if af = AF_INET then (Sockaddr_in (htons port) (case a of None \<Rightarrow> replicate 4 0 | Some b \<Rightarrow> b), 16)
      else (Sockaddr_in6 (htons port) (case a of None \<Rightarrow> replicate 16 0 | Some b \<Rightarrow> b), 28))"

section \<open>Peers and their transport\<close>

text \<open>
  While a function of the transport runs, the host carries the rest of the program and the address of its peer in its field
  \<open>ext\<close>, so that the callbacks reach them; in the store the host is kept without them. A peer that a callback
  has freed is not written back.
\<close>

definition host_with :: "'a litedt_host \<Rightarrow> 'b \<Rightarrow> 'b litedt_host" where
  "host_with h ext = \<lparr>
     ho_ext = ext, ho_node_id = ho_node_id h, ho_peer_node_id = ho_peer_node_id h, ho_mss = ho_mss h, ho_stat =
      ho_stat h, ho_pacing_time = ho_pacing_time h, ho_pacing_credit = ho_pacing_credit h, ho_pacing_rate =
      ho_pacing_rate h, ho_snd_cwnd = ho_snd_cwnd h, ho_remote_online = ho_remote_online h, ho_closed = ho_closed
      h, ho_ping_id = ho_ping_id h, ho_srtt = ho_srtt h, ho_cur_time = ho_cur_time h, ho_last_event_time =
      ho_last_event_time h, ho_next_event_time = ho_next_event_time h, ho_prior_ping_time = ho_prior_ping_time h,
      ho_next_ping_time = ho_next_ping_time h, ho_offline_time = ho_offline_time h, ho_rtt_min = ho_rtt_min h,
      ho_bw = ho_bw h, ho_ping_rtt = ho_ping_rtt h, ho_rtt_round = ho_rtt_round h, ho_next_rtt_delivered =
      ho_next_rtt_delivered h, ho_inflight = ho_inflight h, ho_inflight_bytes = ho_inflight_bytes h, ho_delivered =
      ho_delivered h, ho_delivered_bytes = ho_delivered_bytes h, ho_app_limited = ho_app_limited h,
      ho_delivered_time = ho_delivered_time h, ho_first_tx_time = ho_first_tx_time h, ho_conn_queue = ho_conn_queue
      h, ho_retrans_queue = ho_retrans_queue h, ho_timewait_queue = ho_timewait_queue h, ho_active_queue =
      ho_active_queue h, ho_ctrl = ho_ctrl h, ho_clock = ho_clock h, ho_realtime = ho_realtime h, ho_malloc =
      ho_malloc h, ho_realloc = ho_realloc h, ho_block = ho_block h, ho_send_ret = ho_send_ret h, ho_sent = ho_sent
      h\<rparr>"

type_synonym lf_host = "(lf_world \<times> addr) litedt_host"
type_synonym lf_env = "(lf_world \<times> addr) litedt_env"

definition upd_peer :: "addr \<Rightarrow> (peer_info \<Rightarrow> peer_info) \<Rightarrow> lf_world \<Rightarrow> lf_world option" where
  "upd_peer a f w = do { p \<leftarrow> lw_peers w a; Some (w\<lparr>lw_peers := (lw_peers w)(a \<mapsto> f p)\<rparr>) }"

definition enter_host :: "lf_world \<Rightarrow> addr \<Rightarrow> lf_host option" where
  "enter_host w a = do { p \<leftarrow> lw_peers w a; Some (host_with (pi_dt p) (w, a)) }"

definition leave_host :: "lf_host \<Rightarrow> lf_world" where
  "leave_host h =
     (case litedt_ext h of (w, a) \<Rightarrow>
        case lw_peers w a of None \<Rightarrow> w
        | Some p \<Rightarrow> w\<lparr>lw_peers := (lw_peers w)(a \<mapsto> p\<lparr>pi_dt := host_with h ()\<rparr>)\<rparr>)"

definition upd_world :: "lf_host \<Rightarrow> lf_world \<Rightarrow> lf_host" where
  "upd_world h w = litedt_set_ext h (w, snd (litedt_ext h))"

section \<open>Flows\<close>

definition LITEFLOW_RECORD_EXISTS :: int where "LITEFLOW_RECORD_EXISTS = -1101"
definition LITEFLOW_CONNECT_FAIL :: int where "LITEFLOW_CONNECT_FAIL = -1102"
definition LITEFLOW_MEM_ALLOC_ERROR :: int where "LITEFLOW_MEM_ALLOC_ERROR = -1103"
definition LITEFLOW_PARAMETER_ERROR :: int where "LITEFLOW_PARAMETER_ERROR = -1104"
definition LITEFLOW_ACCESS_DENIED :: int where "LITEFLOW_ACCESS_DENIED = -1105"
definition LITEFLOW_INTERNAL_ERROR :: int where "LITEFLOW_INTERNAL_ERROR = -1106"
definition LITEFLOW_SOCKET_ERROR :: int where "LITEFLOW_SOCKET_ERROR = -1107"

definition find_peer :: "lf_world \<Rightarrow> u16 \<Rightarrow> pointer option" where
  "find_peer w peer_id =
     (if peer_id \<noteq> 0 then do {
        n \<leftarrow> queue_get (lw_peers_tab w) peer_id;
        case n of None \<Rightarrow> Some None | Some a \<Rightarrow> map_option Some (queue_value (lw_peers_tab w) a)
      }
      else Some (map_option snd (queue_front (lw_peers_tab w))))"

definition find_flow :: "lf_world \<Rightarrow> addr \<Rightarrow> u32 \<Rightarrow> pointer option" where
  "find_flow w peer flow = do { p \<leftarrow> lw_peers w peer; Some (treemap_get (pi_flow_map p) flow) }"

text \<open>Reading and writing through the pointer that \<open>find_flow\<close> returns.\<close>

definition get_flow_info :: "lf_world \<Rightarrow> addr \<Rightarrow> addr \<Rightarrow> flow_info option" where
  "get_flow_info w peer node = do { p \<leftarrow> lw_peers w peer; treemap_value (pi_flow_map p) node }"

definition set_flow_info :: "addr \<Rightarrow> addr \<Rightarrow> flow_info \<Rightarrow> lf_world \<Rightarrow> lf_world option" where
  "set_flow_info peer node info = upd_peer peer (\<lambda>p. p\<lparr>pi_flow_map := treemap_set_value (pi_flow_map p) node info\<rparr>)"

partial_function (option) next_flow_id :: "lf_world \<Rightarrow> addr \<Rightarrow> (lf_world \<times> u32) option" where
  "next_flow_id w peer =
     (case lw_peers w peer of None \<Rightarrow> None
      | Some p \<Rightarrow>
          let flow = (if sv_node_id (service w) < ucast (pi_peer_id p) then 0 else 1) OR push_bit 1 (lw_next_flow w);
              w = w\<lparr>lw_next_flow := lw_next_flow w + 1\<rparr>
          in if flow = 0 \<or> find_flow w peer flow \<noteq> Some None then next_flow_id w peer else Some (w, flow))"

definition create_flow :: "lf_world \<Rightarrow> addr \<Rightarrow> u32 \<Rightarrow> (lf_world \<times> int) option" where
  "create_flow w peer flow = do {
     r \<leftarrow> find_flow w peer flow;
     if r \<noteq> None then Some (w, LITEFLOW_RECORD_EXISTS)
     else do {
       let (w, mem) = os_alloc w;
       p \<leftarrow> lw_peers w peer;
       (tm, ret) \<leftarrow> treemap_insert (pi_flow_map p) flow \<lparr>fi_flow = flow, fi_peer = peer, fi_ext = None, fi_callbacks = None\<rparr> mem;
       w \<leftarrow> upd_peer peer (\<lambda>p. p\<lparr>pi_flow_map := tm\<rparr>) w;
       Some (w, ret)
     }
   }"

definition release_flow :: "lf_world \<Rightarrow> addr \<Rightarrow> u32 \<Rightarrow> lf_world option" where
  "release_flow w peer flow = do {
     p \<leftarrow> lw_peers w peer;
     (tm, ret) \<leftarrow> treemap_delete (pi_flow_map p) flow;
     upd_peer peer (\<lambda>p. p\<lparr>pi_flow_map := tm\<rparr>) w
   }"

text \<open>What the entrances and exits do with a new flow: its extension and its callbacks.\<close>

definition bind_flow :: "lf_world \<Rightarrow> addr \<Rightarrow> u32 \<Rightarrow> addr \<Rightarrow> flow_callbacks \<Rightarrow> lf_world option" where
  "bind_flow w peer flow ext cbs = do {
     r \<leftarrow> find_flow w peer flow;
     node \<leftarrow> r;
     info \<leftarrow> get_flow_info w peer node;
     set_flow_info peer node (info\<lparr>fi_ext := Some ext, fi_callbacks := Some cbs\<rparr>) w
   }"

end
