(* ===== verification/Entrance.thy ===== *)
theory Entrance
  imports Flow
begin

text \<open>
  The table of listening sockets, which \<^verbatim>\<open>src/src/tcp.c\<close> and \<^verbatim>\<open>src/src/udp.c\<close> both have: the end of
  \<open>tcp_local_init\<close> and \<open>udp_local_init\<close>, and the reload, whose code is the same in both but for the protocol and
  the call that opens a socket. An access outside the table or through a pointer to no structure is a
  crash, \<open>None\<close>.
\<close>

definition hsocks :: "u16 \<Rightarrow> lf_world \<Rightarrow> hsock_table" where
  "hsocks proto w = (if proto = PROTOCOL_TCP then lw_tcp_hsocks w else lw_udp_hsocks w)"

definition set_hsocks :: "u16 \<Rightarrow> hsock_table \<Rightarrow> lf_world \<Rightarrow> lf_world" where
  "set_hsocks proto t w = (if proto = PROTOCOL_TCP then w\<lparr>lw_tcp_hsocks := t\<rparr> else w\<lparr>lw_udp_hsocks := t\<rparr>)"

definition zero_hsocks :: hsock_table where
  "zero_hsocks = \<lparr>hsock_list = replicate (MAX_PORT_NUM + 1) None, hsock_cnt = 0, hsock_mem = (\<lambda>_. None)\<rparr>"

section \<open>Opening\<close>

text \<open>From the option \<open>SO_REUSEADDR\<close> to \<open>bind\<close>; a socket that cannot be bound is closed.\<close>

definition bind_entrance :: "lf_world \<Rightarrow> int \<Rightarrow> u16 \<Rightarrow> entrance_rule \<Rightarrow> lf_world \<times> int" where
  "bind_entrance w sockfd af entrance =
     (let (w, r) = os_call w in
      if r < 0 then (os_do (Closed sockfd) w, -1)
      else let (w, ok) = set_nonblock w in
      if \<not> ok then (os_do (Closed sockfd) w, -1)
      else let (w, r) = os_call w in
      if r \<noteq> 0 then (os_do (Closed sockfd) w, -2)
      else (os_do (Bound sockfd (fst (fill_sockaddr w af (er_listen_addr entrance) (er_listen_port entrance)))) w, 0))"

definition enter_hsock :: "u16 \<Rightarrow> lf_world \<Rightarrow> int \<Rightarrow> entrance_rule \<Rightarrow> (lf_world \<times> int) option" where
  "enter_hsock proto w sockfd entrance =
     (let (w, mem) = os_alloc w in
      case mem of None \<Rightarrow> Some (os_do (Closed sockfd) w, -4)
      | Some host \<Rightarrow> do {
          local_addr \<leftarrow> strncpy (zeros ADDRESS_MAX_LEN) (er_listen_addr entrance) (ADDRESS_MAX_LEN - 1);
          let t = hsocks proto w;
          if hsock_cnt t < length (hsock_list t)
          then Some (set_hsocks proto
            \<lparr>hsock_list = (hsock_list t)[hsock_cnt t := Some host], hsock_cnt = hsock_cnt t + 1,
             hsock_mem = (hsock_mem t)(host \<mapsto> \<lparr>hs_local_addr = local_addr, hs_local_port = er_listen_port entrance,
               hs_tunnel_id = er_tunnel_id entrance, hs_peer_forward = er_node_id entrance, hs_fd = sockfd, hs_active = True\<rparr>)\<rparr> w, 0)
          else None
        })"

section \<open>Reloading\<close>

text \<open>The rules in front of the terminating one.\<close>

fun active_rules :: "entrance_rule list \<Rightarrow> entrance_rule list option" where
  "active_rules [] = None"
| "active_rules (e # es) = (if er_listen_port e = 0 then Some [] else map_option (Cons e) (active_rules es))"

definition same_port :: "hsock_data \<Rightarrow> entrance_rule \<Rightarrow> bool" where
  "same_port hs e \<longleftrightarrow> cstr (hs_local_addr hs) = cstr (er_listen_addr e) \<and> hs_local_port hs = er_listen_port e"

definition hsock_ref :: "hsock_table \<Rightarrow> nat \<Rightarrow> (addr \<times> hsock_data) option" where
  "hsock_ref t i =
     (if i < length (hsock_list t) then do { a \<leftarrow> hsock_list t ! i; hs \<leftarrow> hsock_mem t a; Some (a, hs) } else None)"

text \<open>The last entry takes the place of the removed one.\<close>

definition remove_hsock :: "hsock_table \<Rightarrow> nat \<Rightarrow> addr \<Rightarrow> hsock_table" where
  "remove_hsock t i a =
     (let n = hsock_cnt t - 1 in
      t\<lparr>hsock_list := (if i \<noteq> n then (hsock_list t)[i := hsock_list t ! n, n := None] else (hsock_list t)[i := None]),
        hsock_cnt := n, hsock_mem := (hsock_mem t)(a := None)\<rparr>)"

partial_function (option) release_hsocks :: "u16 \<Rightarrow> entrance_rule list \<Rightarrow> nat \<Rightarrow> lf_world \<Rightarrow> lf_world option" where
  "release_hsocks proto rules i w =
     (let t = hsocks proto w in
      if hsock_cnt t \<le> i then Some w
      else case hsock_ref t i of None \<Rightarrow> None
      | Some (a, hs) \<Rightarrow>
          (case find (\<lambda>e. er_protocol e = proto \<and> same_port hs e) rules of
             Some e \<Rightarrow> release_hsocks proto rules (i + 1)
               (set_hsocks proto (t\<lparr>hsock_mem := (hsock_mem t)(a \<mapsto> hs\<lparr>hs_tunnel_id := er_tunnel_id e\<rparr>)\<rparr>) w)
           | None \<Rightarrow> release_hsocks proto rules i (os_do (Closed (hs_fd hs)) (set_hsocks proto (remove_hsock t i a) w))))"

fun hsock_exists :: "(addr \<Rightarrow> hsock_data option) \<Rightarrow> pointer list \<Rightarrow> entrance_rule \<Rightarrow> bool option" where
  "hsock_exists m [] e = Some False"
| "hsock_exists m (p # ps) e = do {
     a \<leftarrow> p;
     hs \<leftarrow> m a;
     if same_port hs e then Some True else hsock_exists m ps e
   }"

fun bind_hsocks ::
  "u16 \<Rightarrow> (lf_world \<Rightarrow> entrance_rule \<Rightarrow> (lf_world \<times> int) option) \<Rightarrow> entrance_rule list \<Rightarrow> lf_world \<Rightarrow> lf_world option" where
  "bind_hsocks proto local_init [] w = Some w"
| "bind_hsocks proto local_init (e # es) w =
     (if er_protocol e \<noteq> proto then bind_hsocks proto local_init es w
      else do {
        let t = hsocks proto w;
        exist \<leftarrow> (if hsock_cnt t \<le> length (hsock_list t) then hsock_exists (hsock_mem t) (take (hsock_cnt t) (hsock_list t)) e else None);
        w \<leftarrow> (if exist then Some w else map_option fst (local_init w e));
        bind_hsocks proto local_init es w
      })"

definition local_reload ::
  "u16 \<Rightarrow> (lf_world \<Rightarrow> entrance_rule \<Rightarrow> (lf_world \<times> int) option) \<Rightarrow> lf_world \<Rightarrow> entrance_rule list \<Rightarrow> (lf_world \<times> int) option" where
  "local_reload proto local_init w entrances = do {
     rules \<leftarrow> active_rules entrances;
     w \<leftarrow> release_hsocks proto rules 0 w;
     w \<leftarrow> bind_hsocks proto local_init rules w;
     Some (w, 0)
   }"

end
