(* ===== verification/Tcp.thy ===== *)
theory Tcp
  imports Entrance
begin

text \<open>
  The TCP entrances and exits of \<^verbatim>\<open>src/src/tcp.c\<close>. The callbacks that the transport needs are an argument
  \<open>env\<close>, since the functions of this file are callbacks themselves. A callback of the transport has the
  running host as its argument and the rest of the program in its \<open>ext\<close>; a callback of the event
  loop has the state of the program, and enters the host of the peer for every call of the transport.
\<close>

definition BUFFER_SIZE :: nat where "BUFFER_SIZE = 65536"

section \<open>Entrances\<close>

definition tcp_local_init :: "lf_world \<Rightarrow> entrance_rule \<Rightarrow> (lf_world \<times> int) option" where
  "tcp_local_init w entrance =
     (case get_addr_family w (er_listen_addr entrance) of None \<Rightarrow> Some (w, -1)
      | Some af \<Rightarrow>
          let (w, sockfd) = os_open w in
          if sockfd < 0 then Some (w, -1)
          else
            let w = (if sv_tcp_nodelay (service w) \<noteq> 0 then fst (os_call w) else w);
                w = (if sv_tcp_fastopen (service w) \<noteq> 0 then fst (os_call w) else w);
                (w, ret) = bind_entrance w sockfd af entrance
            in if ret \<noteq> 0 then Some (w, ret)
               else
                 let (w, r) = os_call w in
                 if r < 0 then Some (os_do (Closed sockfd) w, -3)
                 else enter_hsock PROTOCOL_TCP (os_do (Listening sockfd) w) sockfd entrance)"

definition tcp_local_reload :: "lf_world \<Rightarrow> entrance_rule list \<Rightarrow> (lf_world \<times> int) option" where
  "tcp_local_reload w entrances = local_reload PROTOCOL_TCP tcp_local_init w entrances"

section \<open>Callbacks of the event loop\<close>

definition upd_tcp_flow :: "addr \<Rightarrow> (tcp_flow \<Rightarrow> tcp_flow) \<Rightarrow> lf_world \<Rightarrow> lf_world option" where
  "upd_tcp_flow a f w = do { tf \<leftarrow> lw_tcp_flows w a; Some (w\<lparr>lw_tcp_flows := (lw_tcp_flows w)(a \<mapsto> f tf)\<rparr>) }"

text \<open>Data that is read into the static buffer; what is behind it stays.\<close>

definition tcp_fill :: "u8 list \<Rightarrow> lf_world \<Rightarrow> lf_world" where
  "tcp_fill ds w = w\<lparr>lw_tcp_buf := ds @ drop (length ds) (lw_tcp_buf w)\<rparr>"

text \<open>The errors after which a call of \<open>recv\<close> is tried again later.\<close>

definition would_block :: "int \<Rightarrow> bool" where
  "would_block errno \<longleftrightarrow> errno = EAGAIN \<or> errno = EINTR"

text \<open>The connection was closed by the other side, or has failed.\<close>

definition tcp_closed :: "lf_env \<Rightarrow> lf_host \<Rightarrow> u32 \<Rightarrow> addr \<Rightarrow> lf_host option" where
  "tcp_closed env h flow tcp_ext = do {
     w \<leftarrow> upd_tcp_flow tcp_ext (\<lambda>tf. tf\<lparr>tf_read_active := False\<rparr>) (fst (litedt_ext h));
     (h, ret) \<leftarrow> litedt_close env (upd_world h w) flow;
     Some h
   }"

partial_function (option) tcp_local_recv :: "lf_env \<Rightarrow> lf_world \<Rightarrow> addr \<Rightarrow> lf_world option" where
  "tcp_local_recv env w tcp_ext =
     (case lw_tcp_flows w tcp_ext of None \<Rightarrow> None
      | Some tf \<Rightarrow> do {
          h \<leftarrow> enter_host w (tf_peer tf);
          writable \<leftarrow> litedt_writable_bytes h (tf_flow tf);
          if writable \<le> 0 then do {
            h \<leftarrow> litedt_set_notify_send h (tf_flow tf) True;
            upd_tcp_flow tcp_ext (\<lambda>tf. tf\<lparr>tf_read_active := False\<rparr>) (leave_host h)
          }
          else
            (case sys_recv (min BUFFER_SIZE (nat writable)) w of (w, r) \<Rightarrow>
               (case r of
                  Data ds \<Rightarrow>
                    if ds \<noteq> [] then do {
                      h \<leftarrow> enter_host (tcp_fill ds w) (tf_peer tf);
                      r \<leftarrow> litedt_send env h (tf_flow tf) ds;
                      tcp_local_recv env (leave_host (fst r)) tcp_ext
                    }
                    else do {
                      h \<leftarrow> enter_host w (tf_peer tf);
                      map_option leave_host (tcp_closed env h (tf_flow tf) tcp_ext)
                    }
                | Errno e \<Rightarrow>
                    if would_block e then Some w
                    else do {
                      h \<leftarrow> enter_host w (tf_peer tf);
                      map_option leave_host (tcp_closed env h (tf_flow tf) tcp_ext)
                    }))
        })"

partial_function (option) tcp_local_send :: "lf_env \<Rightarrow> lf_world \<Rightarrow> addr \<Rightarrow> lf_world option" where
  "tcp_local_send env w tcp_ext =
     (case lw_tcp_flows w tcp_ext of None \<Rightarrow> None
      | Some tf \<Rightarrow> do {
          h \<leftarrow> enter_host w (tf_peer tf);
          r \<leftarrow> litedt_readable_bytes h (tf_flow tf);
          case r of (h, readable) \<Rightarrow>
            if readable \<le> 0 then do {
              h \<leftarrow> litedt_set_notify_recv h (tf_flow tf) True;
              upd_tcp_flow tcp_ext (\<lambda>tf. tf\<lparr>tf_write_active := False\<rparr>) (leave_host h)
            }
            else do {
              let write_len = min BUFFER_SIZE (nat readable);
              r \<leftarrow> litedt_peek h (tf_flow tf) (of_nat write_len);
              case r of (h, n, ds) \<Rightarrow>
                (let w = tcp_fill ds (leave_host h) in
                 case sys_send (tf_sock_fd tf) (take write_len (lw_tcp_buf w)) w of (w, ret) \<Rightarrow>
                   if ret > 0 then do {
                     h \<leftarrow> enter_host w (tf_peer tf);
                     h \<leftarrow> litedt_recv_skip env h (tf_flow tf) (of_int ret);
                     tcp_local_send env (leave_host h) tcp_ext
                   }
                   else Some w)
            }
        })"

text \<open>The new connection of an entrance; the flow has its number from \<open>next_flow_id\<close>.\<close>

definition new_tcp_flow :: "lf_world \<Rightarrow> addr \<Rightarrow> int \<Rightarrow> addr \<Rightarrow> u32 \<Rightarrow> lf_world" where
  "new_tcp_flow w tcp_ext sockfd peer flow =
     w\<lparr>lw_tcp_flows := (lw_tcp_flows w)(tcp_ext \<mapsto> \<lparr>tf_read_active = True, tf_write_active = False, tf_sock_fd = sockfd,
       tf_peer = peer, tf_flow = flow\<rparr>)\<rparr>"

definition host_accept_cb :: "lf_env \<Rightarrow> lf_world \<Rightarrow> addr \<Rightarrow> lf_world option" where
  "host_accept_cb env w hsock = do {
     hs \<leftarrow> hsock_mem (lw_tcp_hsocks w) hsock;
     let (w, sockfd) = os_open w;
     if sockfd < 0 then Some w
     else do {
       let (w, ok) = set_nonblock w;
       if \<not> ok then Some (os_do (Closed sockfd) w)
       else do {
         r \<leftarrow> find_peer w (hs_peer_forward hs);
         case r of None \<Rightarrow> Some (os_do (Closed sockfd) w)
         | Some peer \<Rightarrow> do {
             let (w, mem) = os_alloc w;
             case mem of None \<Rightarrow> Some (os_do (Closed sockfd) w)
             | Some tcp_ext \<Rightarrow> do {
                 (w, flow) \<leftarrow> next_flow_id w peer;
                 (w, ret) \<leftarrow> create_flow w peer flow;
                 (w, ret) \<leftarrow> (if ret = 0 then do {
                     h \<leftarrow> enter_host w peer;
                     (h, ret) \<leftarrow> litedt_connect (transport w) env h flow (hs_tunnel_id hs);
                     Some (leave_host h, ret)
                   } else Some (w, ret));
                 if ret \<noteq> 0 then do {
                   w \<leftarrow> release_flow w peer flow;
                   Some (os_do (Closed sockfd) w)
                 }
                 else do {
                   w \<leftarrow> bind_flow w peer flow tcp_ext Tcp_flow;
                   Some (new_tcp_flow w tcp_ext sockfd peer flow)
                 }
               }
           }
       }
     }
   }"

section \<open>Callbacks of the transport\<close>

text \<open>\<open>tcp_remote_init\<close> is called while the host of \<open>peer\<close> runs; its error exit closes the socket and releases the flow.\<close>

definition tcp_remote_init :: "lf_world \<Rightarrow> addr \<Rightarrow> u32 \<Rightarrow> string \<Rightarrow> u16 \<Rightarrow> (lf_world \<times> int) option" where
  "tcp_remote_init w peer flow ip port =
     (case get_addr_family w ip of None \<Rightarrow> Some (w, LITEFLOW_PARAMETER_ERROR)
      | Some af \<Rightarrow>
          let (w, sockfd) = os_open w in
          if sockfd < 0 then Some (w, LITEFLOW_INTERNAL_ERROR)
          else
            let w = (if sv_tcp_nodelay (service w) \<noteq> 0 then fst (os_call w) else w);
                w = (if sv_tcp_fastopen_connect (service w) \<noteq> 0 then fst (os_call w) else w);
                (w, ok) = set_nonblock w
            in if \<not> ok then Some (os_do (Closed sockfd) w, LITEFLOW_INTERNAL_ERROR)
               else
                 let (w, mem) = os_alloc w in
                 case mem of None \<Rightarrow> Some (os_do (Closed sockfd) w, LITEFLOW_MEM_ALLOC_ERROR)
                 | Some tcp_ext \<Rightarrow> do {
                     let addr = fst (fill_sockaddr w af ip port);
                     (w, ret) \<leftarrow> create_flow w peer flow;
                     if ret \<noteq> 0 then Some (os_do (Closed sockfd) w, ret)
                     else do {
                       let (w, ret) = os_call w;
                       let w = os_do (Connected sockfd addr) w;
                       if ret < 0 \<and> - ret \<noteq> EINPROGRESS then do {
                         w \<leftarrow> release_flow (os_do (Closed sockfd) w) peer flow;
                         Some (w, LITEFLOW_CONNECT_FAIL)
                       }
                       else do {
                         w \<leftarrow> bind_flow w peer flow tcp_ext Tcp_flow;
                         Some (new_tcp_flow w tcp_ext sockfd peer flow, 0)
                       }
                     }
                   })"

text \<open>
  The two loops carry the length of the next piece, which starts at \<open>BUFFER_SIZE\<close>, and the number of bytes that are
  left.
\<close>

partial_function (option) tcp_recv_loop :: "lf_env \<Rightarrow> lf_host \<Rightarrow> u32 \<Rightarrow> addr \<Rightarrow> int \<Rightarrow> int \<Rightarrow> lf_host option" where
  "tcp_recv_loop env h flow tcp_ext read_len readable =
     (if readable \<le> 0 then Some h
      else
        let read_len = min read_len readable in
        do {
          r \<leftarrow> litedt_peek h flow (of_int read_len);
          case r of (h, n, ds) \<Rightarrow>
            (let w = tcp_fill ds (fst (litedt_ext h)) in
             case lw_tcp_flows w tcp_ext of None \<Rightarrow> None
             | Some tf \<Rightarrow>
                 (case sys_send (tf_sock_fd tf) (take (nat read_len) (lw_tcp_buf w)) w of (w, ret) \<Rightarrow> do {
                    h \<leftarrow> (if ret > 0 then litedt_recv_skip env (upd_world h w) flow (of_int ret) else Some (upd_world h w));
                    if ret < read_len then do {
                      w \<leftarrow> upd_tcp_flow tcp_ext (\<lambda>tf. tf\<lparr>tf_write_active := True\<rparr>) (fst (litedt_ext h));
                      litedt_set_notify_recv (upd_world h w) flow False
                    }
                    else tcp_recv_loop env h flow tcp_ext read_len (readable - ret)
                  }))
        })"

definition tcp_remote_recv :: "lf_env \<Rightarrow> lf_host \<Rightarrow> flow_info \<Rightarrow> int \<Rightarrow> lf_host option" where
  "tcp_remote_recv env h info readable = do {
     tcp_ext \<leftarrow> fi_ext info;
     tcp_recv_loop env h (fi_flow info) tcp_ext (int BUFFER_SIZE) readable
   }"

partial_function (option) tcp_send_loop :: "lf_env \<Rightarrow> lf_host \<Rightarrow> u32 \<Rightarrow> addr \<Rightarrow> int \<Rightarrow> int \<Rightarrow> lf_host option" where
  "tcp_send_loop env h flow tcp_ext write_len writable =
     (if writable \<le> 0 then Some h
      else if lw_tcp_flows (fst (litedt_ext h)) tcp_ext = None then None
      else
        let write_len = min write_len writable in
        (case sys_recv (nat write_len) (fst (litedt_ext h)) of (w, r) \<Rightarrow>
           (case r of
              Data ds \<Rightarrow>
                if ds \<noteq> [] then do {
                  r \<leftarrow> litedt_send env (upd_world h (tcp_fill ds w)) flow ds;
                  tcp_send_loop env (fst r) flow tcp_ext write_len (writable - int (length ds))
                }
                else tcp_closed env (upd_world h w) flow tcp_ext
            | Errno e \<Rightarrow>
                if would_block e then do {
                  w \<leftarrow> upd_tcp_flow tcp_ext (\<lambda>tf. tf\<lparr>tf_read_active := True\<rparr>) w;
                  litedt_set_notify_send (upd_world h w) flow False
                }
                else tcp_closed env (upd_world h w) flow tcp_ext)))"

definition tcp_remote_send :: "lf_env \<Rightarrow> lf_host \<Rightarrow> flow_info \<Rightarrow> int \<Rightarrow> lf_host option" where
  "tcp_remote_send env h info writable = do {
     tcp_ext \<leftarrow> fi_ext info;
     tcp_send_loop env h (fi_flow info) tcp_ext (int BUFFER_SIZE) writable
   }"

definition tcp_remote_close :: "lf_world \<Rightarrow> addr \<Rightarrow> addr \<Rightarrow> lf_world option" where
  "tcp_remote_close w peer node = do {
     info \<leftarrow> get_flow_info w peer node;
     case fi_ext info of None \<Rightarrow> Some w
     | Some tcp_ext \<Rightarrow> do {
         tf \<leftarrow> lw_tcp_flows w tcp_ext;
         let w = os_do (Closed (tf_sock_fd tf)) w;
         let w = w\<lparr>lw_tcp_flows := (lw_tcp_flows w)(tcp_ext := None)\<rparr>;
         set_flow_info peer node (info\<lparr>fi_ext := None\<rparr>) w
       }
   }"

end
