(* ===== verification/Udp.thy ===== *)
theory Udp
  imports Tcp
begin

text \<open>
  The UDP entrances and exits of \<^verbatim>\<open>src/src/udp.c\<close>. A datagram travels through a flow behind its length in
  two bytes. An entrance keeps the flow of every sender in the hash queue \<open>udp_tab\<close>, oldest first, until it has been
  silent for the timeout.
\<close>

definition UDP_HASH_SIZE :: u32 where "UDP_HASH_SIZE = 1013"

definition convert_to_udp_key :: "int \<Rightarrow> sockaddr \<Rightarrow> nat \<Rightarrow> udp_key" where
  "convert_to_udp_key host_fd addr addr_len =
     (case addr of
        Sockaddr_in port a \<Rightarrow>
          if addr_len < 16 then \<lparr>uk_host_fd = host_fd, uk_ip = replicate 16 0, uk_port = 0\<rparr>
          else \<lparr>uk_host_fd = host_fd, uk_ip = 0xFF # replicate 11 0 @ a, uk_port = htons port\<rparr>
      | Sockaddr_in6 port a \<Rightarrow>
          if addr_len < 28 then \<lparr>uk_host_fd = host_fd, uk_ip = replicate 16 0, uk_port = 0\<rparr>
          else \<lparr>uk_host_fd = host_fd, uk_ip = a, uk_port = htons port\<rparr>
      | Sockaddr_other f \<Rightarrow> \<lparr>uk_host_fd = host_fd, uk_ip = replicate 16 0, uk_port = 0\<rparr>)"

text \<open>The default hash of a hash queue, FNV on the bytes of the packed key.\<close>

definition udp_key_hash :: "udp_key \<Rightarrow> u32" where
  "udp_key_hash k = fnv_32_buf (le 4 (word_of_int (uk_host_fd k) :: u32) @ uk_ip k @ le 2 (uk_port k)) FNV1_32_INIT"

definition udp_init :: "lf_world \<Rightarrow> lf_world \<times> int" where
  "udp_init w =
     (let (w, mem) = os_alloc w in
      case queue_init UDP_HASH_SIZE 22 32 None udp_key_hash 0 mem None of
        Inl q \<Rightarrow> (w\<lparr>lw_udp_tab := q\<rparr>, 0)
      | Inr ret \<Rightarrow> (w, ret))"

section \<open>Entrances\<close>

definition udp_local_init :: "lf_world \<Rightarrow> entrance_rule \<Rightarrow> (lf_world \<times> int) option" where
  "udp_local_init w entrance =
     (if hsock_cnt (lw_udp_hsocks w) \<ge> MAX_PORT_NUM then Some (w, -1)
      else case get_addr_family w (er_listen_addr entrance) of None \<Rightarrow> Some (w, -1)
      | Some af \<Rightarrow>
          let (w, sockfd) = os_open w in
          if sockfd < 0 then Some (w, -1)
          else
            let (w, ret) = bind_entrance w sockfd af entrance in
            if ret \<noteq> 0 then Some (w, ret) else enter_hsock PROTOCOL_UDP w sockfd entrance)"

definition udp_local_reload :: "lf_world \<Rightarrow> entrance_rule list \<Rightarrow> (lf_world \<times> int) option" where
  "udp_local_reload w entrances = local_reload PROTOCOL_UDP udp_local_init w entrances"

definition udp_expire :: "lf_world \<Rightarrow> time \<Rightarrow> time" where
  "udp_expire w cur_time = cur_time + uint (sv_udp_timeout (service w) * 1000000)"

definition create_udp_bind :: "lf_env \<Rightarrow> lf_world \<Rightarrow> sockaddr \<Rightarrow> nat \<Rightarrow> int \<Rightarrow> u16 \<Rightarrow> u16 \<Rightarrow> (lf_world \<times> int) option" where
  "create_udp_bind env w addr addr_len host_fd tunnel_id peer_forward = do {
     let (w, cur_time) = os_time w;
     r \<leftarrow> find_peer w peer_forward;
     case r of None \<Rightarrow> Some (w, -1)
     | Some peer \<Rightarrow> do {
         let (w, mem) = os_alloc w;
         case mem of None \<Rightarrow> Some (w, -1)
         | Some udp_ext \<Rightarrow> do {
             (w, flow) \<leftarrow> next_flow_id w peer;
             (w, ret) \<leftarrow> create_flow w peer flow;
             (w, ret) \<leftarrow> (if ret = 0 then do {
                 h \<leftarrow> enter_host w peer;
                 (h, ret) \<leftarrow> litedt_connect (transport w) env h flow tunnel_id;
                 Some (leave_host h, ret)
               } else Some (w, ret));
             if ret \<noteq> 0 then do { w \<leftarrow> release_flow w peer flow; Some (w, -1) }
             else do {
               w \<leftarrow> bind_flow w peer flow udp_ext Udp_flow;
               let w = w\<lparr>lw_udp_flows := (lw_udp_flows w)(udp_ext \<mapsto> \<lparr>uf_read_active = None, uf_sock_fd = 0,
                 uf_host_fd = host_fd, uf_sock_addr = addr, uf_addr_len = addr_len, uf_peer = None, uf_flow = None\<rparr>)\<rparr>;
               h \<leftarrow> enter_host w peer;
               h \<leftarrow> litedt_set_notify_recv h flow False;
               h \<leftarrow> litedt_set_notify_recvnew h flow True;
               let w = leave_host h;
               let (w, mem) = os_alloc w;
               (q, ret) \<leftarrow> queue_append (lw_udp_tab w) (convert_to_udp_key host_fd addr addr_len)
                 \<lparr>ub_peer = peer, ub_flow = flow, ub_expire = udp_expire w cur_time, ub_closed = False\<rparr> mem;
               let w = w\<lparr>lw_udp_tab := q\<rparr>;
               if ret \<noteq> 0 then do {
                 w \<leftarrow> release_flow w peer flow;
                 Some (w\<lparr>lw_udp_flows := (lw_udp_flows w)(udp_ext := None)\<rparr>, -1)
               }
               else Some (w, 0)
             }
           }
       }
   }"

section \<open>Callbacks of the event loop\<close>

text \<open>
  The walk over the table: the next node is taken before the flow is closed, and the record is written after
  that; when closing has deleted the record, the write goes to freed memory, a crash.
\<close>

definition mark_closed :: "lf_world \<Rightarrow> addr \<Rightarrow> lf_world option" where
  "mark_closed w n = do {
     ub \<leftarrow> queue_value (lw_udp_tab w) n;
     Some (w\<lparr>lw_udp_tab := queue_set_value (lw_udp_tab w) n (ub\<lparr>ub_closed := True\<rparr>)\<rparr>)
   }"

partial_function (option) udp_timeout_loop :: "lf_env \<Rightarrow> lf_world \<Rightarrow> time \<Rightarrow> pointer \<Rightarrow> lf_world option" where
  "udp_timeout_loop env w cur_time q_it =
     (if q_it = None then Some w
      else do {
          n \<leftarrow> q_it;
          ub \<leftarrow> queue_value (lw_udp_tab w) n;
          nxt \<leftarrow> queue_next (lw_udp_tab w) n;
          if cur_time \<ge> ub_expire ub then
            (if ub_closed ub then udp_timeout_loop env w cur_time nxt
             else do {
               h \<leftarrow> enter_host w (ub_peer ub);
               r \<leftarrow> litedt_close env h (ub_flow ub);
               w \<leftarrow> mark_closed (leave_host (fst r)) n;
               udp_timeout_loop env w cur_time nxt
             })
          else Some w
        })"

definition udp_timeout_cb :: "lf_env \<Rightarrow> lf_world \<Rightarrow> lf_world option" where
  "udp_timeout_cb env w = (let (w, cur_time) = os_time w in udp_timeout_loop env w cur_time (queue_first (lw_udp_tab w)))"

definition udp_fill :: "u8 list \<Rightarrow> lf_world \<Rightarrow> lf_world" where
  "udp_fill ds w = w\<lparr>lw_udp_buf := ds @ drop (length ds) (lw_udp_buf w)\<rparr>"

text \<open>A datagram that does not fit is counted as lost; otherwise its length and its bytes are sent.\<close>

definition udp_lost :: "transport_settings \<Rightarrow> lf_host \<Rightarrow> lf_host" where
  "udp_lost cf h = stat_upd (\<lambda>s. s\<lparr>st_udp_lost := st_udp_lost s + 1\<rparr>) (fst (litedt_get_stat cf h))"

definition udp_forward :: "lf_env \<Rightarrow> lf_host \<Rightarrow> u32 \<Rightarrow> u8 list \<Rightarrow> lf_host option" where
  "udp_forward env h flow ds = do {
     (h, _) \<leftarrow> litedt_send env h flow (le 2 (of_nat (length ds) :: u32));
     (h, _) \<leftarrow> litedt_send env h flow ds;
     Some h
   }"

partial_function (option) udp_host_loop :: "lf_env \<Rightarrow> lf_world \<Rightarrow> addr \<Rightarrow> time \<Rightarrow> lf_world option" where
  "udp_host_loop env w hsock cur_time =
     (case hsock_mem (lw_udp_hsocks w) hsock of None \<Rightarrow> None
      | Some hs \<Rightarrow>
          (case sys_recvfrom BUFFER_SIZE w of (w, r) \<Rightarrow>
             (case r of None \<Rightarrow> Some w
              | Some (ds, addr, addr_len) \<Rightarrow> do {
                  let w = udp_fill ds w;
                  let ukey = convert_to_udp_key (hs_fd hs) addr addr_len;
                  n \<leftarrow> queue_get (lw_udp_tab w) ukey;
                  r \<leftarrow> (case n of
                      None \<Rightarrow> create_udp_bind env w addr addr_len (hs_fd hs) (hs_tunnel_id hs) (hs_peer_forward hs)
                    | Some n \<Rightarrow> do {
                        ub \<leftarrow> queue_value (lw_udp_tab w) n;
                        q \<leftarrow> queue_move_back (queue_set_value (lw_udp_tab w) n (ub\<lparr>ub_expire := udp_expire w cur_time\<rparr>)) ukey;
                        Some (w\<lparr>lw_udp_tab := q\<rparr>, 0)
                      });
                  case r of (w, ret) \<Rightarrow>
                    if ret \<noteq> 0 then udp_host_loop env w hsock cur_time
                    else do {
                      n \<leftarrow> queue_get (lw_udp_tab w) ukey;
                      n \<leftarrow> n;
                      ub \<leftarrow> queue_value (lw_udp_tab w) n;
                      h \<leftarrow> enter_host w (ub_peer ub);
                      writable \<leftarrow> litedt_writable_bytes h (ub_flow ub);
                      if int (length ds) + 2 > writable
                      then udp_host_loop env (leave_host (udp_lost (transport w) h)) hsock cur_time
                      else if length ds > 0xFFFF then udp_host_loop env w hsock cur_time
                      else do {
                        h \<leftarrow> udp_forward env h (ub_flow ub) ds;
                        udp_host_loop env (leave_host h) hsock cur_time
                      }
                    }
                })))"

definition udp_host_recv :: "lf_env \<Rightarrow> lf_world \<Rightarrow> addr \<Rightarrow> lf_world option" where
  "udp_host_recv env w hsock = (let (w, cur_time) = os_time w in udp_host_loop env w hsock cur_time)"

partial_function (option) udp_local_recv :: "lf_env \<Rightarrow> lf_world \<Rightarrow> addr \<Rightarrow> lf_world option" where
  "udp_local_recv env w udp_ext =
     (case lw_udp_flows w udp_ext of None \<Rightarrow> None
      | Some uf \<Rightarrow>
          (case sys_recv BUFFER_SIZE w of (w, r) \<Rightarrow>
             (case r of Errno e \<Rightarrow> Some w
              | Data ds \<Rightarrow> do {
                  peer \<leftarrow> uf_peer uf;
                  flow \<leftarrow> uf_flow uf;
                  h \<leftarrow> enter_host (udp_fill ds w) peer;
                  writable \<leftarrow> litedt_writable_bytes h flow;
                  h \<leftarrow> (if int (length ds) + 2 > writable then Some (udp_lost (transport w) h) else udp_forward env h flow ds);
                  if ds \<noteq> [] then udp_local_recv env (leave_host h) udp_ext else Some (leave_host h)
                })))"

section \<open>Callbacks of the transport\<close>

text \<open>\<open>udp_remote_init\<close> is called while the host \<open>h\<close> of the peer runs.\<close>

definition udp_remote_init :: "lf_host \<Rightarrow> u32 \<Rightarrow> string \<Rightarrow> u16 \<Rightarrow> (lf_host \<times> int) option" where
  "udp_remote_init h flow ip port =
     (case litedt_ext h of (w, peer) \<Rightarrow>
        (case get_addr_family w ip of None \<Rightarrow> Some (h, LITEFLOW_PARAMETER_ERROR)
         | Some af \<Rightarrow>
             let (w, sockfd) = os_open w in
             if sockfd < 0 then Some (upd_world h w, LITEFLOW_INTERNAL_ERROR)
             else let (w, ok) = set_nonblock w in
             if \<not> ok then Some (upd_world h (os_do (Closed sockfd) w), LITEFLOW_INTERNAL_ERROR)
             else let (w, mem) = os_alloc w in
             case mem of None \<Rightarrow> Some (upd_world h (os_do (Closed sockfd) w), LITEFLOW_MEM_ALLOC_ERROR)
             | Some udp_ext \<Rightarrow> do {
                 let addr = fst (fill_sockaddr w af ip port);
                 (w, ret) \<leftarrow> create_flow w peer flow;
                 if ret \<noteq> 0 then Some (upd_world h (os_do (Closed sockfd) w), ret)
                 else do {
                   let (w, ret) = os_call w;
                   let w = os_do (Connected sockfd addr) w;
                   if ret < 0 \<and> - ret \<noteq> EINPROGRESS then do {
                     w \<leftarrow> release_flow (os_do (Closed sockfd) w) peer flow;
                     Some (upd_world h w, LITEFLOW_CONNECT_FAIL)
                   }
                   else do {
                     w \<leftarrow> bind_flow w peer flow udp_ext Udp_flow;
                     let w = w\<lparr>lw_udp_flows := (lw_udp_flows w)(udp_ext \<mapsto> \<lparr>uf_read_active = Some True, uf_sock_fd = sockfd,
                       uf_host_fd = 0, uf_sock_addr = Sockaddr_other 0, uf_addr_len = 0, uf_peer = Some peer, uf_flow = Some flow\<rparr>)\<rparr>;
                     h \<leftarrow> litedt_set_notify_recv (upd_world h w) flow False;
                     h \<leftarrow> litedt_set_notify_recvnew h flow True;
                     Some (h, 0)
                   }
                 }
               }))"

partial_function (option) udp_recv_loop :: "lf_env \<Rightarrow> lf_host \<Rightarrow> u32 \<Rightarrow> addr \<Rightarrow> int \<Rightarrow> lf_host option" where
  "udp_recv_loop env h flow udp_ext readable =
     (if readable \<le> 0 then Some h
      else do {
        r \<leftarrow> litedt_peek h flow 2;
        case r of (h, n, ls) \<Rightarrow>
          (let read_len = unat (unle ls :: u16) in
           if readable < int read_len + 2 then Some h
           else do {
             h \<leftarrow> litedt_recv_skip env h flow 2;
             r \<leftarrow> litedt_recv env h flow (of_nat read_len);
             case r of (h, n, ds) \<Rightarrow>
               (let w = udp_fill ds (fst (litedt_ext h)) in
                case lw_udp_flows w udp_ext of None \<Rightarrow> None
                | Some uf \<Rightarrow>
                    (let pkt = take read_len (lw_udp_buf w);
                         w = (if uf_sock_fd uf \<noteq> 0 then fst (sys_send (uf_sock_fd uf) pkt w)
                              else os_do (Sent_to (uf_host_fd uf) (uf_sock_addr uf) pkt) w)
                     in udp_recv_loop env (upd_world h w) flow udp_ext (readable - (int read_len + 2))))
           })
      })"

definition udp_remote_recv :: "lf_env \<Rightarrow> lf_host \<Rightarrow> flow_info \<Rightarrow> int \<Rightarrow> lf_host option" where
  "udp_remote_recv env h info readable = do {
     udp_ext \<leftarrow> fi_ext info;
     udp_recv_loop env h (fi_flow info) udp_ext readable
   }"

definition udp_remote_send :: "lf_host \<Rightarrow> flow_info \<Rightarrow> lf_host option" where
  "udp_remote_send h info = do {
     udp_ext \<leftarrow> fi_ext info;
     let w = fst (litedt_ext h);
     uf \<leftarrow> lw_udp_flows w udp_ext;
     active \<leftarrow> uf_read_active uf;
     let w = w\<lparr>lw_udp_flows := (lw_udp_flows w)(udp_ext \<mapsto> uf\<lparr>uf_read_active := Some True\<rparr>)\<rparr>;
     litedt_set_notify_send (upd_world h w) (fi_flow info) False
   }"

definition udp_remote_close :: "lf_world \<Rightarrow> addr \<Rightarrow> addr \<Rightarrow> lf_world option" where
  "udp_remote_close w peer node = do {
     info \<leftarrow> get_flow_info w peer node;
     case fi_ext info of None \<Rightarrow> Some w
     | Some udp_ext \<Rightarrow> do {
         uf \<leftarrow> lw_udp_flows w udp_ext;
         w \<leftarrow> (if uf_sock_fd uf \<noteq> 0 then Some (os_do (Closed (uf_sock_fd uf)) w)
              else do {
                (q, n) \<leftarrow> queue_del (lw_udp_tab w) (convert_to_udp_key (uf_host_fd uf) (uf_sock_addr uf) (uf_addr_len uf));
                Some (w\<lparr>lw_udp_tab := q\<rparr>)
              });
         let w = w\<lparr>lw_udp_flows := (lw_udp_flows w)(udp_ext := None)\<rparr>;
         set_flow_info peer node (info\<lparr>fi_ext := None\<rparr>) w
       }
   }"

end
