(* ===== verification/Liteflow.thy ===== *)
theory Liteflow
  imports Udp
begin

text \<open>
  The peers of \<^verbatim>\<open>src/src/liteflow.c\<close>, its callbacks of the transport and of the event loop, and its start. Peers are known
  by their node, by their address and, when this side connects to them, by the text of the configuration.
  Times of the event loop are in microseconds. The resolver c-ares answers through a stream of the calls that
  it makes back.
\<close>

definition PEER_HASH_SIZE :: u32 where "PEER_HASH_SIZE = 101"
definition MAX_DNS_TIMEOUT :: time where "MAX_DNS_TIMEOUT = 60000000"
definition MIN_DNS_TIMEOUT :: time where "MIN_DNS_TIMEOUT = 1000000"
definition DNS_RETRY_INTERVAL :: time where "DNS_RETRY_INTERVAL = 10000000"
definition RECV_BUFSIZE :: nat where "RECV_BUFSIZE = 2048"

text \<open>The static variables before the start; \<open>dns_io\<close> and the timers are not active.\<close>

definition static_world :: "os \<Rightarrow> config_state \<Rightarrow> lf_world" where
  "static_world sys cs = \<lparr>lw_os = sys, lw_config = cs, lw_litedt_sock = -1, lw_addrs_tab = zero_queue, lw_peers_tab = zero_queue,
     lw_peers_outbound = zero_queue, lw_peers_inbound_cnt = 0, lw_next_flow = 0, lw_peers = (\<lambda>_. None), lw_tcp_flows = (\<lambda>_. None),
     lw_udp_flows = (\<lambda>_. None), lw_udp_tab = zero_queue, lw_tcp_buf = replicate BUFFER_SIZE 0, lw_udp_buf = replicate BUFFER_SIZE 0,
     lw_tcp_hsocks = zero_hsocks, lw_udp_hsocks = zero_hsocks, lw_host_io = None, lw_dns_io = None, lw_dns_queries = [],
     lw_dns_timeout = None, lw_monitor_active = False, lw_last_stat_time = 0, lw_last_sock_reset_time = 0, lw_need_reload_conf = False\<rparr>"

section \<open>Addresses\<close>

definition zero_addr_key :: addr_key where
  "zero_addr_key = \<lparr>ak_family = AF_UNSPEC, ak_port = 0, ak_address = replicate 16 0\<rparr>"

definition v4mapped :: "u8 list \<Rightarrow> bool" where
  "v4mapped a \<longleftrightarrow> take 12 a = replicate 10 0 @ [0xFF, 0xFF]"

definition get_addr_key :: "sockaddr \<Rightarrow> addr_key \<times> int" where
  "get_addr_key addr =
     (case addr of
        Sockaddr_in port a \<Rightarrow> (\<lparr>ak_family = AF_INET, ak_port = port, ak_address = take 4 a @ replicate 12 0\<rparr>, 0)
      | Sockaddr_in6 port a \<Rightarrow>
          if v4mapped a then (\<lparr>ak_family = AF_INET, ak_port = port, ak_address = take 4 (drop 12 a) @ replicate 12 0\<rparr>, 0)
          else (\<lparr>ak_family = AF_INET6, ak_port = port, ak_address = take 16 a\<rparr>, 0)
      | Sockaddr_other f \<Rightarrow> (zero_addr_key, -1))"

definition addr_key_hash :: "addr_key \<Rightarrow> u32" where
  "addr_key_hash k = fnv_32_buf (le 2 (ak_family k) @ le 2 (ak_port k) @ ak_address k) FNV1_32_INIT"

text \<open>The texts in the table are terminated, so that the hash always ends.\<close>

definition domain_hash :: "string \<Rightarrow> u32" where
  "domain_hash key = (case fnv_32_str (map of_char key @ [0]) FNV1_32_INIT of None \<Rightarrow> 0 | Some h \<Rightarrow> h)"

text \<open>\<open>atoi\<close>, of which a number outside \<open>int\<close> is undefined, and the decimal digits that \<open>%u\<close> prints.\<close>

definition is_digit :: "char \<Rightarrow> bool" where
  "is_digit c \<longleftrightarrow> (of_char c :: nat) \<in> {48..57}"

definition is_space :: "char \<Rightarrow> bool" where
  "is_space c \<longleftrightarrow> (of_char c :: nat) = 32 \<or> (of_char c :: nat) \<in> {9..13}"

definition digits_value :: "string \<Rightarrow> nat" where
  "digits_value ds = foldl (\<lambda>n c. 10 * n + (of_char c - 48)) 0 ds"

definition atoi :: "string \<Rightarrow> int option" where
  "atoi s =
     (let s = dropWhile is_space (cstr s);
          negative = (s \<noteq> [] \<and> hd s = CHR ''-'');
          s = (if s \<noteq> [] \<and> hd s \<in> {CHR ''-'', CHR ''+''} then tl s else s);
          n = int (digits_value (takeWhile is_digit s));
          n = (if negative then - n else n)
      in if - (2 ^ 31) \<le> n \<and> n < 2 ^ 31 then Some n else None)"

fun decimal :: "nat \<Rightarrow> string" where
  "decimal n = (if n < 10 then [char_of (48 + n)] else decimal (n div 10) @ [char_of (48 + n mod 10)])"

definition last_colon :: "string \<Rightarrow> nat option" where
  "last_colon s =
     (if CHR '':'' \<in> set s then Some (length s - 1 - length (takeWhile (\<lambda>c. c \<noteq> CHR '':'') (rev s))) else None)"

definition parse_peer_address_port :: "peer_info \<Rightarrow> string \<Rightarrow> peer_info option" where
  "parse_peer_address_port p address_port =
     (let s = cstr address_port;
          p = p\<lparr>pi_address := zeros DOMAIN_MAX_LEN, pi_port := DEFAULT_PORT\<rparr>
      in if length s > DOMAIN_PORT_MAX_LEN - 1 then Some p
         else case last_colon s of
           Some pos \<Rightarrow>
             if pos \<ge> DOMAIN_MAX_LEN then Some p
             else do {
               a \<leftarrow> strncpy (pi_address p) s pos;
               port \<leftarrow> atoi (drop (pos + 1) s);
               Some (p\<lparr>pi_address := a, pi_port := word_of_int port\<rparr>)
             }
         | None \<Rightarrow>
             if length s \<ge> DOMAIN_MAX_LEN then Some p
             else do {
               a \<leftarrow> strncpy (pi_address p) s DOMAIN_MAX_LEN;
               Some (p\<lparr>pi_address := a\<rparr>)
             })"

section \<open>Starting a peer\<close>

definition tab_append :: "('k, 'v) hash_queue \<Rightarrow> 'k \<Rightarrow> 'v \<Rightarrow> lf_world \<Rightarrow> (lf_world \<times> ('k, 'v) hash_queue \<times> int) option" where
  "tab_append q key val w = (let (w, mem) = os_alloc w in map_option (Pair w) (queue_append q key val mem))"

definition unbind_addr :: "addr_key \<Rightarrow> lf_world \<Rightarrow> lf_world option" where
  "unbind_addr key w = do { (q, n) \<leftarrow> queue_del (lw_addrs_tab w) key; Some (w\<lparr>lw_addrs_tab := q\<rparr>) }"

definition bind_addr :: "addr_key \<Rightarrow> addr \<Rightarrow> lf_world \<Rightarrow> lf_world option" where
  "bind_addr key peer w = do {
     (w, q, ret) \<leftarrow> tab_append (lw_addrs_tab w) key peer w;
     Some (w\<lparr>lw_addrs_tab := q\<rparr>)
   }"

definition peer_start :: "lf_world \<Rightarrow> addr \<Rightarrow> sockaddr \<Rightarrow> nat \<Rightarrow> lf_world option" where
  "peer_start w peer peer_addr addr_len = do {
     p \<leftarrow> lw_peers w peer;
     w \<leftarrow> (if ak_family (pi_bound_addr_key p) \<noteq> AF_UNSPEC then unbind_addr (pi_bound_addr_key p) w else Some w);
     let key = fst (get_addr_key peer_addr);
     w \<leftarrow> unbind_addr key w;
     w \<leftarrow> bind_addr key peer w;
     upd_peer peer (\<lambda>p. p\<lparr>pi_bound_addr_key := key, pi_remote_addr := peer_addr, pi_remote_addr_len := addr_len,
       pi_timer_cb := Litedt_timeout_cb, pi_timer_after := 0, pi_timer_active := True\<rparr>) w
   }"

definition ares_state_cb :: "lf_world \<Rightarrow> int \<Rightarrow> bool \<Rightarrow> bool \<Rightarrow> lf_world" where
  "ares_state_cb w s r wr = w\<lparr>lw_dns_io := (if r \<or> wr then Some (s, r, wr) else None)\<rparr>"

definition dns_query_cb :: "lf_world \<Rightarrow> addr \<Rightarrow> (u16 \<times> u8 list) option \<Rightarrow> lf_world option" where
  "dns_query_cb w peer answer =
     (case answer of
        None \<Rightarrow> upd_peer peer (\<lambda>p. p\<lparr>pi_timer_cb := Dns_failed_cb, pi_timer_after := DNS_RETRY_INTERVAL, pi_timer_active := True\<rparr>) w
      | Some (addrtype, a) \<Rightarrow> do {
          p \<leftarrow> lw_peers w peer;
          if addrtype = AF_INET then peer_start w peer (Sockaddr_in (htons (pi_port p)) a) 16
          else peer_start w peer (Sockaddr_in6 (htons (pi_port p)) a) 28
        })"

fun run_ares :: "ares_call list \<Rightarrow> lf_world \<Rightarrow> lf_world option" where
  "run_ares [] w = Some w"
| "run_ares (Ares_state s r wr # cs) w = run_ares cs (ares_state_cb w s r wr)"
| "run_ares (Ares_answer peer answer # cs) w = do { w \<leftarrow> dns_query_cb w peer answer; run_ares cs w }"

definition ares_process :: "lf_world \<Rightarrow> lf_world option" where
  "ares_process w = run_ares (os_ares (lw_os w) 0) (upd_os (\<lambda>s. s\<lparr>os_ares := os_ares s \<circ> Suc\<rparr>) w)"

text \<open>The timer of the resolver is set to the time c-ares asks for, within its bounds.\<close>

definition set_dns_timeout :: "lf_world \<Rightarrow> lf_world" where
  "set_dns_timeout w =
     (let nwait = os_ares_timeout (lw_os w) 0
      in (upd_os (\<lambda>s. s\<lparr>os_ares_timeout := os_ares_timeout s \<circ> Suc\<rparr>) w)
           \<lparr>lw_dns_timeout := Some (if nwait < MIN_DNS_TIMEOUT then MIN_DNS_TIMEOUT
             else if nwait > MAX_DNS_TIMEOUT then MAX_DNS_TIMEOUT else nwait)\<rparr>)"

definition resolve_outbound_peer :: "lf_world \<Rightarrow> addr \<Rightarrow> lf_world option" where
  "resolve_outbound_peer w peer = do {
     p \<leftarrow> lw_peers w peer;
     case get_addr_family w (pi_address p) of
       Some af \<Rightarrow> (case fill_sockaddr w af (pi_address p) (pi_port p) of (a, n) \<Rightarrow> peer_start w peer a n)
     | None \<Rightarrow> do {
         let w = w\<lparr>lw_dns_queries := lw_dns_queries w @ [(peer, if pi_resolve_ipv6 p then AF_INET6 else AF_INET)]\<rparr>;
         w \<leftarrow> ares_process w;
         Some (set_dns_timeout w)
       }
   }"

section \<open>Callbacks that close flows\<close>

definition remote_close_cb :: "lf_world \<Rightarrow> addr \<Rightarrow> addr \<Rightarrow> lf_world option" where
  "remote_close_cb w peer node = do {
     info \<leftarrow> get_flow_info w peer node;
     cbs \<leftarrow> fi_callbacks info;
     case cbs of Tcp_flow \<Rightarrow> tcp_remote_close w peer node | Udp_flow \<Rightarrow> udp_remote_close w peer node
   }"

definition liteflow_on_close :: "lf_host \<Rightarrow> u32 \<Rightarrow> lf_host option" where
  "liteflow_on_close h flow =
     (case litedt_ext h of (w, peer) \<Rightarrow> do {
        r \<leftarrow> find_flow w peer flow;
        case r of None \<Rightarrow> Some h
        | Some node \<Rightarrow> do {
            w \<leftarrow> remote_close_cb w peer node;
            w \<leftarrow> release_flow w peer flow;
            Some (upd_world h w)
          }
      })"

definition liteflow_set_eventtime :: "lf_host \<Rightarrow> time \<Rightarrow> lf_host option" where
  "liteflow_set_eventtime h event_after =
     (case litedt_ext h of (w, peer) \<Rightarrow> do {
        w \<leftarrow> upd_peer peer (\<lambda>p. p\<lparr>pi_timer_after := max event_after 0, pi_timer_active := True\<rparr>) w;
        Some (upd_world h w)
      })"

text \<open>
  The environment of the calls into the transport that callbacks make themselves: those calls use only
  the callbacks for a closed flow and for the time of the next event, and these two make no further calls.
\<close>

definition inner_env :: lf_env where
  "inner_env = \<lparr>cb_online = None, cb_connect = None, cb_close = Some liteflow_on_close, cb_receive = None, cb_send = None,
     cb_event_time = Some liteflow_set_eventtime\<rparr>"

section \<open>Releasing a peer\<close>

partial_function (option) close_flows :: "lf_world \<Rightarrow> addr \<Rightarrow> pointer \<Rightarrow> lf_world option" where
  "close_flows w peer it =
     (if it = None then Some w
      else do {
        node \<leftarrow> it;
        w \<leftarrow> remote_close_cb w peer node;
        p \<leftarrow> lw_peers w peer;
        nxt \<leftarrow> treemap_next (pi_flow_map p) node;
        close_flows w peer nxt
      })"

definition outbound_key :: "string \<Rightarrow> string" where
  "outbound_key s = take DOMAIN_PORT_MAX_LEN (take (DOMAIN_PORT_MAX_LEN - 1) (cstr s) @ zeros DOMAIN_PORT_MAX_LEN)"

text \<open>The host of the peer is entered; the result is the program without the peer.\<close>

definition release_peer :: "lf_host \<Rightarrow> lf_world option" where
  "release_peer h =
     (case litedt_ext h of (w, peer) \<Rightarrow> do {
        p \<leftarrow> lw_peers w peer;
        w \<leftarrow> (if pi_is_outbound p then do {
                (q, n) \<leftarrow> queue_del (lw_peers_outbound w) (outbound_key (cstr (pi_address p) @ '':'' @ decimal (unat (pi_port p))));
                Some (w\<lparr>lw_peers_outbound := q\<rparr>)
              } else Some (w\<lparr>lw_peers_inbound_cnt := lw_peers_inbound_cnt w - 1\<rparr>));
        w \<leftarrow> (if pi_peer_id p \<noteq> 0 then do {
                (q, n) \<leftarrow> queue_del (lw_peers_tab w) (pi_peer_id p);
                Some (w\<lparr>lw_peers_tab := q\<rparr>)
              } else Some w);
        w \<leftarrow> (if ak_family (pi_bound_addr_key p) \<noteq> AF_UNSPEC then unbind_addr (pi_bound_addr_key p) w else Some w);
        let (tm, it) = treemap_first (pi_flow_map p);
        w \<leftarrow> upd_peer peer (\<lambda>p. p\<lparr>pi_flow_map := tm\<rparr>) w;
        w \<leftarrow> close_flows w peer it;
        w \<leftarrow> upd_peer peer (\<lambda>p. p\<lparr>pi_flow_map := fst (treemap_fini (pi_flow_map p))\<rparr>) w;
        h \<leftarrow> litedt_fini inner_env (upd_world h w);
        let w = fst (litedt_ext h);
        Some (w\<lparr>lw_peers := (lw_peers w)(peer := None)\<rparr>)
      })"

section \<open>The socket of the transport\<close>

definition init_litedt_sock :: "lf_world \<Rightarrow> lf_world \<times> int" where
  "init_litedt_sock w =
     (let unset = (cstr (sv_listen_addr (service w)) = []);
          listen_addr = (if unset then ''0.0.0.0'' else sv_listen_addr (service w))
      in case (if unset then Some AF_INET else get_addr_family w listen_addr) of
           None \<Rightarrow> (w, LITEDT_PARAMETER_ERROR)
         | Some af \<Rightarrow>
             let (w, sock) = os_open w in
             if sock < 0 then (w, LITEFLOW_SOCKET_ERROR)
             else let (w, ret) = os_call w in
             if ret < 0 then (os_do (Closed sock) w, LITEFLOW_SOCKET_ERROR)
             else let (w, ok) = set_nonblock w in
             if \<not> ok then (os_do (Closed sock) w, LITEFLOW_SOCKET_ERROR)
             else let (w, ret) = os_call w in
             if ret < 0 then (os_do (Closed sock) w, LITEFLOW_SOCKET_ERROR)
             else let (w, ret) = os_call w in
             if ret < 0 then (os_do (Closed sock) w, LITEFLOW_SOCKET_ERROR)
             else if sv_listen_port (service w) > 0 then
               let (w, ret) = os_call w in
               if ret < 0 then (os_do (Closed sock) w, LITEFLOW_SOCKET_ERROR)
               else (os_do (Bound sock (fst (fill_sockaddr w af listen_addr (ucast (sv_listen_port (service w))))))
                       (w\<lparr>lw_litedt_sock := sock\<rparr>), 0)
             else (w\<lparr>lw_litedt_sock := sock\<rparr>, 0))"

definition reset_litedt_sock :: "lf_world \<Rightarrow> lf_world" where
  "reset_litedt_sock w =
     (let w = fst (init_litedt_sock (os_do (Closed (lw_litedt_sock w)) w)) in w\<lparr>lw_host_io := Some (lw_litedt_sock w)\<rparr>)"

section \<open>Callbacks of the transport\<close>

definition stop_timer :: "addr \<Rightarrow> lf_world \<Rightarrow> lf_world option" where
  "stop_timer peer = upd_peer peer (\<lambda>p. p\<lparr>pi_timer_active := False\<rparr>)"

text \<open>An outbound peer takes the place of another one with the same node, usually an inbound one.\<close>

definition replace_peer :: "lf_world \<Rightarrow> addr \<Rightarrow> addr \<Rightarrow> lf_world option" where
  "replace_peer w peer old_peer = do {
     w \<leftarrow> stop_timer old_peer w;
     old \<leftarrow> enter_host w old_peer;
     w \<leftarrow> release_peer old;
     p \<leftarrow> lw_peers w peer;
     if ak_family (pi_bound_addr_key p) \<noteq> AF_UNSPEC then do {
       w \<leftarrow> unbind_addr (pi_bound_addr_key p) w;
       bind_addr (pi_bound_addr_key p) peer w
     } else Some w
   }"

definition peer_online :: "lf_world \<Rightarrow> addr \<Rightarrow> u16 \<Rightarrow> lf_world option" where
  "peer_online w peer node_id = do {
     p \<leftarrow> lw_peers w peer;
     if \<not> pi_is_outbound p then Some w
     else do {
       w \<leftarrow> upd_peer peer (\<lambda>p. p\<lparr>pi_peer_id := node_id\<rparr>) w;
       n \<leftarrow> queue_get (lw_peers_tab w) node_id;
       w \<leftarrow> (case n of None \<Rightarrow> Some w
            | Some n \<Rightarrow> do {
                old_peer \<leftarrow> queue_value (lw_peers_tab w) n;
                if old_peer \<noteq> peer then replace_peer w peer old_peer else Some w
              });
       (w, q, ret) \<leftarrow> tab_append (lw_peers_tab w) node_id peer w;
       Some (w\<lparr>lw_peers_tab := q\<rparr>)
     }
   }"

definition outbound_offline :: "lf_world \<Rightarrow> addr \<Rightarrow> time \<Rightarrow> lf_world option" where
  "outbound_offline w peer cur_time = do {
     p \<leftarrow> lw_peers w peer;
     w \<leftarrow> (if pi_peer_id p \<noteq> 0 then do {
             (q, n) \<leftarrow> queue_del (lw_peers_tab w) (pi_peer_id p);
             upd_peer peer (\<lambda>p. p\<lparr>pi_peer_id := 0\<rparr>) (w\<lparr>lw_peers_tab := q\<rparr>)
           } else Some w);
     let w = (if cur_time - lw_last_sock_reset_time w > 60 * USEC_PER_SEC \<and> sv_listen_port (service w) = 0 \<and> queue_empty (lw_peers_tab w)
              then (reset_litedt_sock w)\<lparr>lw_last_sock_reset_time := cur_time\<rparr> else w);
     resolve_outbound_peer w peer
   }"

definition liteflow_on_online :: "lf_host \<Rightarrow> bool \<Rightarrow> lf_host option" where
  "liteflow_on_online h online =
     (case litedt_ext h of (w, peer) \<Rightarrow> do {
        let (w, cur_time) = os_time w;
        p \<leftarrow> lw_peers w peer;
        if online then map_option (upd_world h) (peer_online w peer (ho_peer_node_id h))
        else do {
          w \<leftarrow> stop_timer peer w;
          if pi_is_outbound p then map_option (upd_world h) (outbound_offline w peer cur_time)
          else map_option (upd_world h) (release_peer (upd_world h w))
        }
      })"

fun connect_rule :: "forward_rule list \<Rightarrow> lf_host \<Rightarrow> u32 \<Rightarrow> u16 \<Rightarrow> (lf_host \<times> int) option" where
  "connect_rule [] h flow tunnel_id = None"
| "connect_rule (r # rs) h flow tunnel_id =
     (if fr_destination_port r = 0 then Some (h, LITEFLOW_ACCESS_DENIED)
      else if fr_tunnel_id r \<noteq> tunnel_id then connect_rule rs h flow tunnel_id
      else if fr_node_id r \<noteq> 0 \<and> fr_node_id r \<noteq> litedt_peer_node_id h then connect_rule rs h flow tunnel_id
      else if fr_protocol r = PROTOCOL_TCP then do {
        (w, ret) \<leftarrow> tcp_remote_init (fst (litedt_ext h)) (snd (litedt_ext h)) flow (fr_destination_addr r) (fr_destination_port r);
        Some (upd_world h w, ret)
      }
      else if fr_protocol r = PROTOCOL_UDP then udp_remote_init h flow (fr_destination_addr r) (fr_destination_port r)
      else connect_rule rs h flow tunnel_id)"

definition liteflow_on_connect :: "lf_host \<Rightarrow> u32 \<Rightarrow> u16 \<Rightarrow> (lf_host \<times> int) option" where
  "liteflow_on_connect h flow tunnel_id =
     connect_rule (gc_forward_rules (cs_config (lw_config (fst (litedt_ext h))))) h flow tunnel_id"

text \<open>The call of a callback of the flow, if there is the flow.\<close>

definition with_flow :: "lf_host \<Rightarrow> u32 \<Rightarrow> (flow_info \<Rightarrow> flow_callbacks \<Rightarrow> lf_host option) \<Rightarrow> lf_host option" where
  "with_flow h flow f =
     (case litedt_ext h of (w, peer) \<Rightarrow> do {
        r \<leftarrow> find_flow w peer flow;
        case r of None \<Rightarrow> Some h
        | Some node \<Rightarrow> do {
            info \<leftarrow> get_flow_info w peer node;
            cbs \<leftarrow> fi_callbacks info;
            f info cbs
          }
      })"

definition liteflow_on_receive :: "lf_host \<Rightarrow> u32 \<Rightarrow> u32 \<Rightarrow> lf_host option" where
  "liteflow_on_receive h flow readable = with_flow h flow (\<lambda>info cbs.
     case cbs of Tcp_flow \<Rightarrow> tcp_remote_recv inner_env h info (sint readable)
     | Udp_flow \<Rightarrow> udp_remote_recv inner_env h info (sint readable))"

definition liteflow_on_send :: "lf_host \<Rightarrow> u32 \<Rightarrow> u32 \<Rightarrow> lf_host option" where
  "liteflow_on_send h flow writable = with_flow h flow (\<lambda>info cbs.
     case cbs of Tcp_flow \<Rightarrow> tcp_remote_send inner_env h info (sint writable) | Udp_flow \<Rightarrow> udp_remote_send h info)"

definition liteflow_env :: lf_env where
  "liteflow_env = \<lparr>cb_online = Some liteflow_on_online, cb_connect = Some liteflow_on_connect, cb_close = Some liteflow_on_close,
     cb_receive = Some liteflow_on_receive, cb_send = Some liteflow_on_send, cb_event_time = Some liteflow_set_eventtime\<rparr>"

end
