(* ===== verification/LiteflowEvents.thy ===== *)
theory LiteflowEvents
  imports Liteflow
begin

text \<open>
  The callbacks of the event loop, new peers and the start of \<^verbatim>\<open>src/src/liteflow.c\<close>. The loop of libev is not
  code of the program; \<open>lf_event\<close> lists what it may report, and \<open>run_event\<close> calls the callback of an active
  watcher.
\<close>

section \<open>New peers\<close>

definition new_peer :: "lf_world \<Rightarrow> (lf_world \<times> pointer) option" where
  "new_peer w =
     (let (w, mem) = os_alloc w in
      case mem of None \<Rightarrow> Some (w, None)
      | Some peer \<Rightarrow>
          (case os_hosts (lw_os w) 0 of (clock, realtime, mallocs, sends) \<Rightarrow> do {
             let w = upd_os (\<lambda>s. s\<lparr>os_hosts := os_hosts s \<circ> Suc\<rparr>) w;
             (dt, ret) \<leftarrow> litedt_init (transport w) (os_conn_size (lw_os w)) (zero_host clock realtime mallocs sends)
               (ucast (sv_node_id (service w)));
             if ret \<noteq> 0 then Some (w, None)
             else Some (w\<lparr>lw_peers := (lw_peers w)(peer \<mapsto>
                 \<lparr>pi_timer_cb = Litedt_timeout_cb, pi_timer_after = 0, pi_timer_active = False, pi_peer_id = 0, pi_is_outbound = False,
                  pi_dt = dt, pi_flow_map = treemap_init 4 48 seq_cmp, pi_address = zeros DOMAIN_MAX_LEN, pi_port = 0,
                  pi_resolve_ipv6 = False, pi_remote_addr = Sockaddr_other 0, pi_remote_addr_len = 0,
                  pi_bound_addr_key = zero_addr_key\<rparr>)\<rparr>, Some peer)
           }))"

definition new_peer_inbound :: "lf_world \<Rightarrow> u16 \<Rightarrow> sockaddr \<Rightarrow> nat \<Rightarrow> (lf_world \<times> pointer) option" where
  "new_peer_inbound w peer_id peer_addr addr_len = do {
     (w, r) \<leftarrow> new_peer w;
     case r of None \<Rightarrow> Some (w, None)
     | Some peer \<Rightarrow> do {
         w \<leftarrow> upd_peer peer (\<lambda>p. p\<lparr>pi_is_outbound := False, pi_peer_id := peer_id\<rparr>) w;
         (w, q, ret) \<leftarrow> tab_append (lw_peers_tab w) peer_id peer w;
         let w = w\<lparr>lw_peers_tab := q\<rparr>;
         if ret \<noteq> 0 then Some (w, None)
         else do { w \<leftarrow> peer_start w peer peer_addr addr_len; Some (w, Some peer) }
       }
   }"

definition new_peer_outbound :: "lf_world \<Rightarrow> string \<Rightarrow> (lf_world \<times> pointer) option" where
  "new_peer_outbound w address_port = do {
     let key = outbound_key address_port;
     n \<leftarrow> queue_get (lw_peers_outbound w) key;
     if n \<noteq> None then Some (w, None)
     else do {
       (w, r) \<leftarrow> new_peer w;
       case r of None \<Rightarrow> Some (w, None)
       | Some peer \<Rightarrow> do {
           p \<leftarrow> lw_peers w peer;
           p \<leftarrow> parse_peer_address_port (p\<lparr>pi_is_outbound := True, pi_resolve_ipv6 := (sv_prefer_ipv6 (service w) \<noteq> 0)\<rparr>) address_port;
           w \<leftarrow> upd_peer peer (\<lambda>_. p) w;
           (w, q, ret) \<leftarrow> tab_append (lw_peers_outbound w) key peer w;
           let w = w\<lparr>lw_peers_outbound := q\<rparr>;
           if ret \<noteq> 0 then Some (w, None)
           else do { w \<leftarrow> resolve_outbound_peer w peer; Some (w, Some peer) }
         }
     }
   }"

section \<open>Packets of the transport\<close>

definition peer_io_event :: "lf_world \<Rightarrow> addr \<Rightarrow> u8 list \<Rightarrow> lf_world option" where
  "peer_io_event w peer buf = do {
     h \<leftarrow> enter_host w peer;
     h \<leftarrow> litedt_io_event (transport w) liteflow_env h buf;
     Some (leave_host h)
   }"

text \<open>A request that is too short for a ping is not read further.\<close>

definition try_accept_peer :: "lf_world \<Rightarrow> litedt_header \<Rightarrow> u8 list \<Rightarrow> sockaddr \<Rightarrow> nat \<Rightarrow> lf_world option" where
  "try_accept_peer w header buf addr addr_len =
     (if cmd_of (h_cmd header) \<noteq> Some LITEDT_PING_REQ then Some w
      else case dec_ping_req (drop 8 buf) of None \<Rightarrow> Some w
      | Some (ping_req, _) \<Rightarrow>
          if snd (get_addr_key addr) \<noteq> 0 then Some w
          else do {
            let peer_id = pm_node_id ping_req;
            n \<leftarrow> queue_get (lw_peers_tab w) peer_id;
            case n of
              Some n \<Rightarrow> do {
                peer \<leftarrow> queue_value (lw_peers_tab w) n;
                w \<leftarrow> peer_start w peer addr addr_len;
                peer_io_event w peer buf
              }
            | None \<Rightarrow>
                if lw_peers_inbound_cnt w \<ge> sv_max_incoming_peers (service w) then Some w
                else do {
                  (w, r) \<leftarrow> new_peer_inbound (w\<lparr>lw_peers_inbound_cnt := lw_peers_inbound_cnt w + 1\<rparr>) peer_id addr addr_len;
                  case r of None \<Rightarrow> Some w | Some peer \<Rightarrow> peer_io_event w peer buf
                }
          })"

definition handle_packet :: "lf_world \<Rightarrow> u8 list \<Rightarrow> sockaddr \<Rightarrow> nat \<Rightarrow> lf_world option" where
  "handle_packet w buf addr addr_len =
     (case get_addr_key addr of (key, ret) \<Rightarrow>
        if ret \<noteq> 0 then Some w
        else case dec_header buf of None \<Rightarrow> Some w
        | Some (header, _) \<Rightarrow>
            if h_ver header \<noteq> LITEDT_VERSION then Some w
            else do {
              n \<leftarrow> queue_get (lw_addrs_tab w) key;
              case n of None \<Rightarrow> try_accept_peer w header buf addr addr_len
              | Some n \<Rightarrow> do {
                  peer \<leftarrow> queue_value (lw_addrs_tab w) n;
                  peer_io_event w peer buf
                }
            })"

partial_function (option) litedt_io_cb :: "lf_world \<Rightarrow> lf_world option" where
  "litedt_io_cb w =
     (case sys_recvfrom RECV_BUFSIZE w of (w, r) \<Rightarrow>
        (case r of None \<Rightarrow> Some w
         | Some (buf, addr, addr_len) \<Rightarrow>
             if buf = [] then Some w else do { w \<leftarrow> handle_packet w buf addr addr_len; litedt_io_cb w }))"

section \<open>Timers\<close>

definition litedt_timeout_cb :: "lf_world \<Rightarrow> addr \<Rightarrow> lf_world option" where
  "litedt_timeout_cb w peer = do {
     h \<leftarrow> enter_host w peer;
     (h, event_after) \<leftarrow> litedt_time_event (transport w) liteflow_env h;
     let w = leave_host h;
     if event_after \<noteq> -1
     then upd_peer peer (\<lambda>p. p\<lparr>pi_timer_after := max event_after 0, pi_timer_active := True\<rparr>) w
     else Some w
   }"

definition dns_failed_cb :: "lf_world \<Rightarrow> addr \<Rightarrow> lf_world option" where
  "dns_failed_cb w peer = do {
     w \<leftarrow> upd_peer peer (\<lambda>p. if sv_prefer_ipv6 (service w) \<noteq> 0 then p\<lparr>pi_resolve_ipv6 := \<not> pi_resolve_ipv6 p\<rparr> else p) w;
     h \<leftarrow> enter_host w peer;
     h \<leftarrow> liteflow_on_online h False;
     Some (leave_host h)
   }"

definition dns_io_cb :: "lf_world \<Rightarrow> lf_world option" where
  "dns_io_cb w = ares_process w"

definition dns_timeout_cb :: "lf_world \<Rightarrow> lf_world option" where
  "dns_timeout_cb w = do { w \<leftarrow> ares_process (w\<lparr>lw_dns_timeout := None\<rparr>); Some (set_dns_timeout w) }"

text \<open>The statistics of every active peer are brought up to date, printed and cleared.\<close>

fun clear_stats :: "addr list \<Rightarrow> lf_world \<Rightarrow> lf_world option" where
  "clear_stats [] w = Some w"
| "clear_stats (n # ns) w = do {
     peer \<leftarrow> queue_value (lw_peers_tab w) n;
     h \<leftarrow> enter_host w peer;
     clear_stats ns (leave_host (litedt_clear_stat (fst (litedt_get_stat (transport w) h))))
   }"

definition print_statistics :: "lf_world \<Rightarrow> lf_world option" where
  "print_statistics w = clear_stats (hq_queue (lw_peers_tab w)) w"

definition reload_conf_handler :: "lf_world \<Rightarrow> lf_world" where
  "reload_conf_handler w = w\<lparr>lw_need_reload_conf := True\<rparr>"

text \<open>\<open>json_parse\<close> is the parser of the configuration; the file is the next one of its stream.\<close>

definition monitor_cb :: "(string \<Rightarrow> 'd json_value option) \<Rightarrow> lf_world \<Rightarrow> lf_world option" where
  "monitor_cb json_parse w = do {
     let (w, cur_time) = os_time w;
     w \<leftarrow> (if cur_time \<ge> lw_last_stat_time w + 60 * USEC_PER_SEC then do {
             w \<leftarrow> print_statistics w;
             Some (w\<lparr>lw_last_stat_time := cur_time\<rparr>)
           } else Some w);
     if lw_need_reload_conf w then do {
       let w = w\<lparr>lw_need_reload_conf := False\<rparr>;
       let (file, mem, rd) = os_file (lw_os w) 0;
       let w = upd_os (\<lambda>s. s\<lparr>os_file := os_file s \<circ> Suc\<rparr>) w;
       (cs, ret) \<leftarrow> reload_config_file json_parse file mem rd (lw_config w);
       let w = w\<lparr>lw_config := cs\<rparr>;
       if ret = 0 then do {
         (w, _) \<leftarrow> tcp_local_reload w (gc_entrance_rules (cs_config cs));
         (w, _) \<leftarrow> udp_local_reload w (gc_entrance_rules (cs_config cs));
         Some w
       } else Some w
     } else Some w
   }"

section \<open>The start\<close>

fun start_entrances :: "entrance_rule list \<Rightarrow> lf_world \<Rightarrow> (lf_world \<times> int) option" where
  "start_entrances [] w = None"
| "start_entrances (e # es) w =
     (if er_listen_port e = 0 then Some (w, 0)
      else do {
        (w, ret) \<leftarrow> (if er_protocol e = PROTOCOL_TCP then tcp_local_init w e
                      else if er_protocol e = PROTOCOL_UDP then udp_local_init w e else Some (w, 0));
        if ret \<noteq> 0 then Some (w, ret) else start_entrances es w
      })"

fun start_peers :: "string list \<Rightarrow> lf_world \<Rightarrow> lf_world option" where
  "start_peers [] w = None"
| "start_peers (s # ss) w =
     (if cstr s = [] then Some w
      else do {
        (w, _) \<leftarrow> new_peer_outbound w s;
        start_peers ss w
      })"

text \<open>
  The tables of the peers; the code does not look at the results. \<open>resolver\<close> is the result of \<open>init_resolver\<close>,
  and \<open>rnd\<close> that of \<open>rand\<close>.
\<close>

definition init_tab :: "u32 \<Rightarrow> u32 \<Rightarrow> ('k \<Rightarrow> u32) \<Rightarrow> ('k, addr) hash_queue \<Rightarrow> lf_world \<Rightarrow> lf_world \<times> ('k, addr) hash_queue" where
  "init_tab ksize dsize fn q w =
     (let (w, mem) = os_alloc w in
      case queue_init PEER_HASH_SIZE ksize dsize None fn 0 mem None of Inl q \<Rightarrow> (w, q) | Inr ret \<Rightarrow> (w, q))"

definition init_liteflow :: "int \<Rightarrow> u32 \<Rightarrow> lf_world \<Rightarrow> (lf_world \<times> int) option" where
  "init_liteflow resolver rnd w = do {
     let w = w\<lparr>lw_next_flow := rnd\<rparr>;
     let (w, q) = init_tab 20 8 addr_key_hash (lw_addrs_tab w) w;
     let w = w\<lparr>lw_addrs_tab := q\<rparr>;
     let (w, q) = init_tab 2 8 (\<lambda>k. fnv_32_buf (le 2 k) FNV1_32_INIT) (lw_peers_tab w) w;
     let w = w\<lparr>lw_peers_tab := q\<rparr>;
     let (w, q) = init_tab (of_nat DOMAIN_PORT_MAX_LEN) 8 domain_hash (lw_peers_outbound w) w;
     let w = w\<lparr>lw_peers_outbound := q\<rparr>;
     if resolver \<noteq> 0 then Some (w, -1)
     else do {
       let w = fst (udp_init w);
       (w, ret) \<leftarrow> start_entrances (gc_entrance_rules (cs_config (lw_config w))) w;
       if ret \<noteq> 0 then Some (w, ret)
       else do {
         w \<leftarrow> start_peers (sv_connect_peers (service w)) w;
         let (w, ret) = init_litedt_sock w;
         if ret \<noteq> 0 then Some (w, -1) else Some (w\<lparr>lw_host_io := Some (lw_litedt_sock w)\<rparr>, 0)
       }
     }
   }"

definition start_liteflow :: "lf_world \<Rightarrow> lf_world" where
  "start_liteflow w = (let (w, now) = os_time w in w\<lparr>lw_last_stat_time := now, lw_monitor_active := True\<rparr>)"

section \<open>The event loop\<close>

datatype lf_event =
    Ev_litedt_io
  | Ev_peer_timer addr
  | Ev_accept addr
  | Ev_tcp_read addr
  | Ev_tcp_write addr
  | Ev_udp_host addr
  | Ev_udp_read addr
  | Ev_udp_timeout
  | Ev_dns_io
  | Ev_dns_timeout
  | Ev_monitor
  | Ev_signal

text \<open>A timer without repetition is stopped before its callback runs. An event of a watcher that is not active is not reported.\<close>

fun run_event :: "(string \<Rightarrow> 'd json_value option) \<Rightarrow> lf_event \<Rightarrow> lf_world \<Rightarrow> lf_world option" where
  "run_event jp Ev_litedt_io w = (if lw_host_io w = None then Some w else litedt_io_cb w)"
| "run_event jp (Ev_peer_timer a) w =
     (case lw_peers w a of None \<Rightarrow> Some w
      | Some p \<Rightarrow>
          if \<not> pi_timer_active p then Some w
          else do {
            w \<leftarrow> stop_timer a w;
            case pi_timer_cb p of Litedt_timeout_cb \<Rightarrow> litedt_timeout_cb w a | Dns_failed_cb \<Rightarrow> dns_failed_cb w a
          })"
| "run_event jp (Ev_accept a) w =
     (case hsock_mem (lw_tcp_hsocks w) a of None \<Rightarrow> Some w | Some hs \<Rightarrow> host_accept_cb inner_env w a)"
| "run_event jp (Ev_tcp_read a) w =
     (case lw_tcp_flows w a of None \<Rightarrow> Some w | Some tf \<Rightarrow> if tf_read_active tf then tcp_local_recv inner_env w a else Some w)"
| "run_event jp (Ev_tcp_write a) w =
     (case lw_tcp_flows w a of None \<Rightarrow> Some w | Some tf \<Rightarrow> if tf_write_active tf then tcp_local_send inner_env w a else Some w)"
| "run_event jp (Ev_udp_host a) w =
     (case hsock_mem (lw_udp_hsocks w) a of None \<Rightarrow> Some w | Some hs \<Rightarrow> udp_host_recv inner_env w a)"
| "run_event jp (Ev_udp_read a) w =
     (case lw_udp_flows w a of None \<Rightarrow> Some w
      | Some uf \<Rightarrow> if uf_read_active uf = Some True then udp_local_recv inner_env w a else Some w)"
| "run_event jp Ev_udp_timeout w = udp_timeout_cb inner_env w"
| "run_event jp Ev_dns_io w = (if lw_dns_io w = None then Some w else dns_io_cb w)"
| "run_event jp Ev_dns_timeout w = (if lw_dns_timeout w = None then Some w else dns_timeout_cb w)"
| "run_event jp Ev_monitor w = (if lw_monitor_active w then monitor_cb jp w else Some w)"
| "run_event jp Ev_signal w = Some (reload_conf_handler w)"

end
