(* ===== verification/FlowCorrect.thy ===== *)
theory FlowCorrect
  imports LiteflowEvents TreeMapProps
begin

text \<open>
  Numbers for new flows. The search of \<open>next_flow_id\<close> ends as long as not nearly all numbers of its parity are
  taken, whatever the order of the numbers in the tree: a number that is found is in the tree.
\<close>

lemma seq_cmp_zero: "seq_cmp a b = 0 \<longleftrightarrow> a = b"
  by (simp add: seq_cmp_def LESS_EQUAL_def)

lemma get_from_key: "get_from seq_cmp t k \<noteq> None \<Longrightarrow> k \<in> set (keys_of (inorder t))"
proof (induction t)
  case (Node x p l r c k' v)
  then show ?case using seq_cmp_zero [of k k'] by (auto simp: keys_of_def Let_def split: if_splits)
qed simp

lemma get_from_none: "k \<notin> set (keys_of (inorder t)) \<Longrightarrow> get_from seq_cmp t k = None"
  using get_from_key [of t k] by blast

definition flow_id :: "bool \<Rightarrow> u32 \<Rightarrow> u32" where
  "flow_id e n = (if e then 0 else 1) OR push_bit 1 n"

lemma flow_id_eq: "(if e then 0 else 1) OR push_bit 1 n = flow_id e n"
  by (simp add: flow_id_def)

lemma even_bit: "\<not> bit (n * 2 :: u32) 0"
  by (simp add: bit_0)

lemma flow_id_shift: "flow_id e n AND NOT 1 = push_bit 1 n"
  using even_bit [of n] by (intro bit_word_eqI) (auto simp: flow_id_def bit_simps intro: gr0I)

lemma flow_id_parity: "flow_id e n AND 1 = (if e then 0 else 1)"
  using even_bit [of n] by (intro bit_word_eqI) (auto simp: flow_id_def bit_simps intro: gr0I)

lemma flow_id_inj: "inj_on (\<lambda>i. flow_id e (n + of_nat i)) {..<2 ^ 31}"
proof (rule inj_onI)
  fix i j :: nat
  assume ij: "i \<in> {..<2 ^ 31}" "j \<in> {..<2 ^ 31}" "flow_id e (n + of_nat i) = flow_id e (n + of_nat j)"
  then have "push_bit 1 (n + of_nat i) = push_bit 1 (n + of_nat j)" using flow_id_shift by metis
  then have "of_nat (2 * i) = (of_nat (2 * j) :: u32)" by (simp add: push_bit_eq_mult algebra_simps)
  moreover have "unat (of_nat (2 * i) :: u32) = 2 * i" "unat (of_nat (2 * j) :: u32) = 2 * j"
    using ij by (simp_all only: unsigned_of_nat) (simp_all add: take_bit_nat_eq_self)
  ultimately have "2 * i = 2 * j" by metis
  then show "i = j" by simp
qed

lemma free_flow_id:
  assumes "finite K" "card K < 2 ^ 31 - 1"
  shows "\<exists>i. flow_id e (n + of_nat i) \<noteq> 0 \<and> flow_id e (n + of_nat i) \<notin> K"
proof (rule ccontr)
  assume "\<not> ?thesis"
  then have "(\<lambda>i. flow_id e (n + of_nat i)) ` {..<2 ^ 31} \<subseteq> insert 0 K" by auto
  then have "card ((\<lambda>i. flow_id e (n + of_nat i)) ` {..<(2::nat) ^ 31}) \<le> card (insert 0 K)"
    using assms(1) by (intro card_mono) auto
  then have "2 ^ 31 \<le> card (insert 0 K)" using card_image [OF flow_id_inj [of e n]] by simp
  then show False using assms card_insert_le_m1 [of "2 ^ 31" K 0] by (simp add: card_insert_if split: if_splits)
qed

abbreviation even_side :: "lf_world \<Rightarrow> peer_info \<Rightarrow> bool" where
  "even_side w p \<equiv> sv_node_id (service w) < ucast (pi_peer_id p)"

lemma find_flow_next: "find_flow (w\<lparr>lw_next_flow := n\<rparr>) peer flow = find_flow w peer flow"
  by (simp add: find_flow_def)

lemma next_flow_id_from:
  assumes "lw_peers w peer = Some p" "flow_id (even_side w p) (lw_next_flow w + of_nat i) \<noteq> 0"
    "find_flow w peer (flow_id (even_side w p) (lw_next_flow w + of_nat i)) = Some None"
  shows "\<exists>n m. next_flow_id w peer = Some (w\<lparr>lw_next_flow := n\<rparr>, flow_id (even_side w p) m) \<and>
    flow_id (even_side w p) m \<noteq> 0 \<and> find_flow w peer (flow_id (even_side w p) m) = Some None"
  using assms
proof (induction i arbitrary: w)
  case 0
  then have "next_flow_id w peer = Some (w\<lparr>lw_next_flow := lw_next_flow w + 1\<rparr>, flow_id (even_side w p) (lw_next_flow w))"
    by (subst next_flow_id.simps) (simp only: flow_id_eq find_flow_next Let_def option.simps, simp)
  then show ?case using 0 by auto
next
  case (Suc i)
  let ?w = "w\<lparr>lw_next_flow := lw_next_flow w + 1\<rparr>"
  let ?f = "flow_id (even_side w p) (lw_next_flow w)"
  have step: "next_flow_id w peer = (if ?f = 0 \<or> find_flow w peer ?f \<noteq> Some None then next_flow_id ?w peer else Some (?w, ?f))"
    using Suc.prems(1) by (subst next_flow_id.simps) (simp only: flow_id_eq find_flow_next Let_def option.simps)
  show ?case
  proof (cases "?f = 0 \<or> find_flow w peer ?f \<noteq> Some None")
    case True
    have "\<exists>n m. next_flow_id ?w peer = Some (?w\<lparr>lw_next_flow := n\<rparr>, flow_id (even_side ?w p) m) \<and>
      flow_id (even_side ?w p) m \<noteq> 0 \<and> find_flow ?w peer (flow_id (even_side ?w p) m) = Some None"
      by (rule Suc.IH) (use Suc.prems in \<open>simp_all add: find_flow_next algebra_simps\<close>)
    then show ?thesis using True step by (simp add: find_flow_next)
  next
    case False
    then show ?thesis using step by auto
  qed
qed

text \<open>
  C18. With fewer than \<open>2\<^sup>3\<^sup>1 - 1\<close> flows on a peer, \<open>next_flow_id\<close> always ends. The number it returns is not
  zero, belongs to no flow, and is even exactly when this node has a smaller number than the peer, so that two
  nodes never choose the same one; nothing but the counter changes.
\<close>

theorem next_flow_id_live:
  assumes "lw_peers w peer = Some p" "cmp_fn (pi_flow_map p) = seq_cmp" "length (contents (pi_flow_map p)) < 2 ^ 31 - 1"
  shows "\<exists>n flow. next_flow_id w peer = Some (w\<lparr>lw_next_flow := n\<rparr>, flow) \<and> flow \<noteq> 0 \<and> find_flow w peer flow = Some None \<and>
    flow AND 1 = (if sv_node_id (service w) < ucast (pi_peer_id p) then 0 else 1)"
proof -
  let ?K = "set (keys_of (contents (pi_flow_map p)))"
  have "card ?K < 2 ^ 31 - 1" using assms(3) card_length [of "keys_of (contents (pi_flow_map p))"] by (simp add: keys_of_def)
  then obtain i where i: "flow_id (even_side w p) (lw_next_flow w + of_nat i) \<noteq> 0"
    "flow_id (even_side w p) (lw_next_flow w + of_nat i) \<notin> ?K"
    using free_flow_id [of ?K] by blast
  then have "find_flow w peer (flow_id (even_side w p) (lw_next_flow w + of_nat i)) = Some None"
    using assms(1,2) by (simp add: find_flow_def treemap_get_def contents_def get_from_none)
  then obtain n m where "next_flow_id w peer = Some (w\<lparr>lw_next_flow := n\<rparr>, flow_id (even_side w p) m)"
    "flow_id (even_side w p) m \<noteq> 0" "find_flow w peer (flow_id (even_side w p) m) = Some None"
    using next_flow_id_from [OF assms(1) i(1)] by blast
  then show ?thesis using flow_id_parity [of "even_side w p" m] by auto
qed

text \<open>A peer with one flow, the first number that would be tried.\<close>

definition sample_os :: os where
  "sample_os = \<lparr>os_ret = (\<lambda>_. 0), os_fd = (\<lambda>n. 3 + int n), os_recv = (\<lambda>_. Errno EAGAIN), os_recvfrom = (\<lambda>_. None), os_send = (\<lambda>_. 0), os_malloc = (\<lambda>n. Some (100 + n)),
     os_clock = int, os_pton = (\<lambda>af a. if af = AF_INET then Some [127, 0, 0, 1] else None), os_ares = (\<lambda>_. []), os_ares_timeout = (\<lambda>_. 0),
     os_file = (\<lambda>_. (None, True, True)), os_hosts = (\<lambda>_. (int, int, Some, \<lambda>_. 0)), os_conn_size = 1000, os_log = []\<rparr>"

definition sample_peer :: peer_info where
  "sample_peer = \<lparr>pi_timer_cb = Litedt_timeout_cb, pi_timer_after = 0, pi_timer_active = False, pi_peer_id = 9, pi_is_outbound = False,
     pi_dt = zero_host int int Some (\<lambda>_. 0), pi_flow_map = treemap_init 4 48 seq_cmp, pi_address = zeros DOMAIN_MAX_LEN, pi_port = 0,
     pi_resolve_ipv6 = False, pi_remote_addr = Sockaddr_other 0, pi_remote_addr_len = 0, pi_bound_addr_key = zero_addr_key\<rparr>"

definition sample_world :: lf_world where
  "sample_world = (static_world sample_os (global_config_init 5))\<lparr>lw_next_flow := 1, lw_peers := [7 \<mapsto> sample_peer\<lparr>pi_flow_map :=
     (treemap_init 4 48 seq_cmp)\<lparr>tm_root := Node 20 None NULL NULL NODE_BLACK 2 \<lparr>fi_flow = 2, fi_peer = 7, fi_ext = None, fi_callbacks = None\<rparr>, node_cnt := 1\<rparr>\<rparr>]\<rparr>"

theorem next_flow_id_live_witness:
  "\<exists>n flow. next_flow_id sample_world 7 = Some (sample_world\<lparr>lw_next_flow := n\<rparr>, flow) \<and> flow \<noteq> 0 \<and> flow \<noteq> 2 \<and> flow AND 1 = 0"
proof -
  have "find_flow sample_world 7 2 = Some (Some 20)"
    by (simp add: sample_world_def find_flow_def sample_peer_def treemap_get_def treemap_init_def seq_cmp_def LESS_EQUAL_def)
  then show ?thesis
    using next_flow_id_live [of sample_world 7 "the (lw_peers sample_world 7)"]
    by (auto simp: sample_world_def sample_peer_def treemap_init_def contents_def static_world_def global_config_init_def default_service_def)
qed

end
