(* ===== verification/ConfigCorrect.thy ===== *)
theory ConfigCorrect
  imports Config
begin

text \<open>
  The configuration is type safe: whatever a file says, the arrays of the structures keep their lengths and
  their terminating zero, and the rule tables their terminating rule.
\<close>

section \<open>Well-formed structures\<close>

definition chars_ok :: "nat \<Rightarrow> string \<Rightarrow> bool" where
  "chars_ok n s \<longleftrightarrow> length s = n \<and> 0 < n \<and> s ! (n - 1) = nul"

definition service_ok :: "service_settings \<Rightarrow> bool" where
  "service_ok s \<longleftrightarrow> chars_ok ADDRESS_MAX_LEN (sv_listen_addr s) \<and> chars_ok ADDRESS_MAX_LEN (sv_dns_server s) \<and>
     length (sv_connect_peers s) = MAX_PEER_NUM + 1 \<and> list_all (chars_ok DOMAIN_PORT_MAX_LEN) (sv_connect_peers s)"

definition transport_ok :: "transport_settings \<Rightarrow> bool" where
  "transport_ok t \<longleftrightarrow> length (cf_password t) = PASSWORD_LEN \<and> cf_password t ! (PASSWORD_LEN - 1) = 0"

definition entrance_ok :: "entrance_rule \<Rightarrow> bool" where
  "entrance_ok r \<longleftrightarrow> chars_ok ADDRESS_MAX_LEN (er_listen_addr r)"

definition forward_ok :: "forward_rule \<Rightarrow> bool" where
  "forward_ok r \<longleftrightarrow> chars_ok ADDRESS_MAX_LEN (fr_destination_addr r)"

text \<open>A table of rules ends with a rule of zeros, where the loops over it stop.\<close>

definition rules_ok :: "('r \<Rightarrow> bool) \<Rightarrow> 'r \<Rightarrow> 'r list \<Rightarrow> bool" where
  "rules_ok P zero rs \<longleftrightarrow> length rs = MAX_PORT_NUM + 1 \<and> list_all P rs \<and> rs ! MAX_PORT_NUM = zero"

definition config_ok :: "global_config \<Rightarrow> bool" where
  "config_ok g \<longleftrightarrow> service_ok (gc_service g) \<and> transport_ok (gc_transport g) \<and>
     rules_ok entrance_ok zero_entrance (gc_entrance_rules g) \<and> rules_ok forward_ok zero_forward (gc_forward_rules g)"

definition config_state_ok :: "config_state \<Rightarrow> bool" where
  "config_state_ok cs \<longleftrightarrow> config_ok (cs_config cs) \<and> chars_ok (MAX_CONF_NAME_LENGTH + 1) (cs_conf_name cs) \<and>
     rules_ok entrance_ok zero_entrance (cs_temp_entrances cs) \<and> rules_ok forward_ok zero_forward (cs_temp_forwards cs)"

lemmas config_sizes = ADDRESS_MAX_LEN_def DOMAIN_PORT_MAX_LEN_def DOMAIN_MAX_LEN_def PASSWORD_LEN_def MAX_PEER_NUM_def
  MAX_PORT_NUM_def MAX_CONF_NAME_LENGTH_def

lemma chars_ok_zeros [simp]: "0 < n \<Longrightarrow> chars_ok n (zeros n)"
  by (simp add: chars_ok_def zeros_def)

lemma zero_rules_ok [simp]:
  "rules_ok entrance_ok zero_entrance (replicate (MAX_PORT_NUM + 1) zero_entrance)"
  "rules_ok forward_ok zero_forward (replicate (MAX_PORT_NUM + 1) zero_forward)"
  by (simp_all add: rules_ok_def entrance_ok_def forward_ok_def zero_entrance_def zero_forward_def list_all_iff config_sizes nth_append)

lemma global_config_init_ok: "config_state_ok (global_config_init rnd)"
  using zero_rules_ok
  by (simp add: config_state_ok_def global_config_init_def config_ok_def service_ok_def transport_ok_def default_service_def
      default_settings_def list_all_iff Let_def config_sizes del: zero_rules_ok)

lemma strncpy_ok:
  assumes "chars_ok n dst" "k < n"
  shows "\<exists>v. strncpy dst src k = Some v \<and> chars_ok n v"
proof -
  let ?x = "take k (cstr src @ zeros k)"
  have l: "length ?x = k" by (simp add: zeros_def)
  have d: "length dst = n" "dst ! (n - 1) = nul" using assms(1) by (simp_all add: chars_ok_def)
  have "\<not> n - 1 < k" using assms(2) by linarith
  then have "(?x @ drop k dst) ! (n - 1) = drop k dst ! (n - 1 - k)" unfolding nth_append l by (rule if_not_P)
  also have "\<dots> = nul" using assms(2) d by simp
  finally have "chars_ok n (?x @ drop k dst)" using l d assms(2) by (simp add: chars_ok_def)
  then show ?thesis using assms(2) d(1) by (simp add: strncpy_def)
qed

section \<open>The parsers keep the structures\<close>

text \<open>
  An entry keeps a property of the structure when its parser does; it is typed when the parser also never
  crashes, which means that the field has the type and the size of the entry.
\<close>

definition keeps :: "('s \<Rightarrow> bool) \<Rightarrow> ('d, 's) parser_entry \<Rightarrow> bool" where
  "keeps P e \<longleftrightarrow> (\<forall>x s s' r. P s \<longrightarrow> jtype x = pe_type e \<longrightarrow> call_parser x e s = Some (s', r) \<longrightarrow> P s')"

definition typed :: "('s \<Rightarrow> bool) \<Rightarrow> ('d, 's) parser_entry \<Rightarrow> bool" where
  "typed P e \<longleftrightarrow> (\<forall>x s. P s \<longrightarrow> jtype x = pe_type e \<longrightarrow> (\<exists>s' r. call_parser x e s = Some (s', r) \<and> P s'))"

lemma typedD: "typed P e \<Longrightarrow> P s \<Longrightarrow> jtype x = pe_type e \<Longrightarrow> \<exists>s' r. call_parser x e s = Some (s', r) \<and> P s'"
  by (simp add: typed_def)

lemma typed_keeps: "typed P e \<Longrightarrow> keeps P e"
  by (fastforce simp: typed_def keeps_def)

lemma jtype_cases:
  "jtype v = json_integer \<longleftrightarrow> (\<exists>i. v = JInteger i)" "jtype v = json_double \<longleftrightarrow> (\<exists>d. v = JDouble d)"
  "jtype v = json_string \<longleftrightarrow> (\<exists>s. v = JString s)" "jtype v = json_array \<longleftrightarrow> (\<exists>xs. v = JArray xs)"
  "jtype v = json_object \<longleftrightarrow> (\<exists>ms. v = JObject ms)"
  by (cases v; simp)+

lemma typed_int: "(\<And>v s. P s \<Longrightarrow> P (f v s)) \<Longrightarrow> typed P (entry k json_integer 4 (U32_at f))"
  by (auto simp: typed_def entry_def call_parser_def normal_parser_def jtype_cases)

lemma typed_short: "(\<And>v s. P s \<Longrightarrow> P (g v s)) \<Longrightarrow> typed P (entry k json_integer 2 (U16_at g))"
  by (auto simp: typed_def entry_def call_parser_def normal_parser_def jtype_cases)

lemma typed_float: "(\<And>v s. P s \<Longrightarrow> P (f v s)) \<Longrightarrow> typed P (entry k json_double 4 (Float_at f))"
  by (auto simp: typed_def entry_def call_parser_def normal_parser_def jtype_cases)

lemma typed_protocol:
  "(\<And>v s. P s \<Longrightarrow> P (g v s)) \<Longrightarrow> typed P ((entry k json_string 2 (U16_at g))\<lparr>pe_handler := Some protocol_parser_fn\<rparr>)"
  by (auto simp: typed_def entry_def call_parser_def protocol_parser_def jtype_cases)

lemma typed_chars:
  assumes "\<And>s. P s \<Longrightarrow> chars_ok n (get s)" "\<And>v s. P s \<Longrightarrow> chars_ok n v \<Longrightarrow> P (put v s)"
  shows "typed P (entry k json_string n (Chars_at get put))"
  unfolding typed_def
proof (intro allI impI)
  fix x s
  assume ps: "P s" and "jtype x = pe_type (entry k json_string n (Chars_at get put))"
  then obtain str where x: "x = JString str" by (auto simp: entry_def jtype_cases)
  have g: "chars_ok n (get s)" using assms(1) ps by blast
  then have "n - 1 < n" by (simp add: chars_ok_def)
  from strncpy_ok [OF g this, of str] obtain v where v: "strncpy (get s) str (n - 1) = Some v" "P (put v s)" using assms(2) [OF ps] by blast
  have "call_parser x (entry k json_string n (Chars_at get put)) s =
      (if length str \<ge> n then Some (s, PARSE_FAILED) else Some (put v s, NO_ERROR))"
    using v(1) by (simp add: x entry_def call_parser_def normal_parser_def)
  then show "\<exists>s' r. call_parser x (entry k json_string n (Chars_at get put)) s = Some (s', r) \<and> P s'"
    using v(2) ps by (cases "length str \<ge> n") simp_all
qed

lemma char_zero: "char_of (0 :: nat) = nul" "of_char nul = (0 :: u8)"
  by (simp_all add: nul_def char_of_def)

lemma password_typed:
  "typed transport_ok (entry k json_string PASSWORD_LEN password_at)"
  unfolding password_at_def
proof (rule typed_chars)
  show "transport_ok s \<Longrightarrow> chars_ok PASSWORD_LEN (map (\<lambda>b. char_of (unat b)) (cf_password s))" for s
    by (simp add: transport_ok_def chars_ok_def char_zero config_sizes)
  show "transport_ok s \<Longrightarrow> chars_ok PASSWORD_LEN v \<Longrightarrow> transport_ok (s\<lparr>cf_password := map of_char v\<rparr>)" for v s
    by (simp add: transport_ok_def chars_ok_def char_zero config_sizes)
qed

lemma peers_loop_ok:
  "peers_loop items i rows = Some (rows', r) \<Longrightarrow> list_all (chars_ok DOMAIN_PORT_MAX_LEN) rows \<Longrightarrow>
     list_all (chars_ok DOMAIN_PORT_MAX_LEN) rows' \<and> length rows' = length rows"
proof (induction items i rows rule: peers_loop.induct)
  case (2 item items i rows)
  show ?case
  proof (cases "i \<ge> MAX_PORT_NUM \<or> (\<forall>str. item \<noteq> JString str \<or> length str \<ge> DOMAIN_PORT_MAX_LEN)")
    case False
    then obtain str where str: "item = JString str" "\<not> length str \<ge> DOMAIN_PORT_MAX_LEN" "\<not> i \<ge> MAX_PORT_NUM" by auto
    with "2.prems"(1) obtain row where i: "i < length rows" and row: "strncpy (rows ! i) str (DOMAIN_PORT_MAX_LEN - 1) = Some row"
      and rest: "peers_loop items (i + 1) (rows[i := row]) = Some (rows', r)"
      by (auto simp: bind_eq_Some_conv split: if_splits)
    have "chars_ok DOMAIN_PORT_MAX_LEN (rows ! i)" using "2.prems"(2) i by (simp add: list_all_length)
    then have "chars_ok DOMAIN_PORT_MAX_LEN row"
      using strncpy_ok [of DOMAIN_PORT_MAX_LEN "rows ! i" "DOMAIN_PORT_MAX_LEN - 1" str] row by (simp add: config_sizes)
    then have "list_all (chars_ok DOMAIN_PORT_MAX_LEN) (rows[i := row])" using "2.prems"(2)
      using set_update_subset_insert [of rows i row] by (auto simp: list_all_iff)
    then show ?thesis using "2.IH" [OF str(3,1,2) i row rest] by simp
  next
    case True
    then show ?thesis using "2.prems" by (auto split: json_value.splits if_splits)
  qed
qed simp

lemma peers_keeps:
  assumes "\<And>rows s. P s \<Longrightarrow> length rows = MAX_PEER_NUM + 1 \<Longrightarrow> list_all (chars_ok DOMAIN_PORT_MAX_LEN) rows \<Longrightarrow> P (put rows s)"
  shows "keeps P ((entry k json_array n (Table_at get put))\<lparr>pe_handler := Some peers_parser_fn\<rparr>)"
  unfolding keeps_def
proof (intro allI impI)
  let ?e = "(entry k json_array n (Table_at get put))\<lparr>pe_handler := Some peers_parser_fn\<rparr>"
  let ?rows = "replicate (MAX_PEER_NUM + 1) (zeros DOMAIN_PORT_MAX_LEN)"
  fix x s s' r
  assume ps: "P s" and t: "jtype x = pe_type ?e" and c: "call_parser x ?e s = Some (s', r)"
  from t obtain items where x: "x = JArray items" by (auto simp: entry_def jtype_cases)
  from c obtain rows where rows: "peers_loop items 0 ?rows = Some (rows, r)" "s' = put rows s"
    by (auto simp: x entry_def call_parser_def peers_parser_def bind_eq_Some_conv)
  have "list_all (chars_ok DOMAIN_PORT_MAX_LEN) ?rows" by (simp add: list_all_iff config_sizes)
  from peers_loop_ok [OF rows(1) this] show "P s'" using assms [OF ps, of rows] rows(2) by simp
qed

lemma service_entries_keep: "list_all (keeps service_ok) static_service_vars_entries"
proof -
  have p: "keeps service_ok ((entry k json_array n (Table_at sv_connect_peers (\<lambda>v s. s\<lparr>sv_connect_peers := v\<rparr>)))
      \<lparr>pe_handler := Some peers_parser_fn\<rparr>)" for k n by (rule peers_keeps) (simp add: service_ok_def)
  show ?thesis unfolding static_service_vars_entries_def list.pred_inject
    by (intro conjI TrueI p typed_keeps [OF typed_int] typed_keeps [OF typed_chars]) (simp_all add: service_ok_def)
qed

lemma transport_entries_typed: "list_all (typed transport_ok) (static_transport_vars_entries rto)"
  unfolding static_transport_vars_entries_def list.pred_inject
  by (intro conjI TrueI typed_int typed_float password_typed) (simp_all add: transport_ok_def)

lemma entrance_entries_typed: "list_all (typed entrance_ok) dynamic_entrance_rules_entries"
  unfolding dynamic_entrance_rules_entries_def list.pred_inject
  by (intro conjI TrueI typed_short typed_chars typed_protocol) (simp_all add: entrance_ok_def)

lemma forward_entries_typed: "list_all (typed forward_ok) dynamic_forward_rules_entries"
  unfolding dynamic_forward_rules_entries_def list.pred_inject
  by (intro conjI TrueI typed_short typed_chars typed_protocol) (simp_all add: forward_ok_def)

section \<open>Objects and rule tables\<close>

lemma parse_member_keeps:
  "parse_member name x es s = Some (s', r) \<Longrightarrow> list_all (keeps P) es \<Longrightarrow> P s \<Longrightarrow> P s'"
proof (induction es arbitrary: s)
  case (Cons e es)
  show ?case
  proof (cases "pe_key e \<noteq> cstr name \<or> jtype x \<noteq> pe_type e")
    case False
    with Cons.prems(1) obtain s1 r1 where c: "call_parser x e s = Some (s1, r1)"
      "(if r1 \<noteq> NO_ERROR then Some (s1, r1) else parse_member name x es s1) = Some (s', r)"
      by (auto simp: bind_eq_Some_conv)
    have "P s1" using c(1) False Cons.prems(2,3) by (auto simp: keeps_def)
    then show ?thesis using c(2) Cons.IH [of s1] Cons.prems(2) by (auto split: if_splits)
  qed (use Cons in \<open>auto split: if_splits\<close>)
qed simp

lemma parse_members_keeps:
  "parse_members ms es s = Some (s', r) \<Longrightarrow> list_all (keeps P) es \<Longrightarrow> P s \<Longrightarrow> P s'"
proof (induction ms arbitrary: s)
  case (Cons m ms)
  obtain name x where m: "m = (name, x)" by (cases m)
  from Cons.prems(1) obtain s1 r1 where c: "parse_member name x es s = Some (s1, r1)"
    "(if r1 \<noteq> NO_ERROR then Some (s1, r1) else parse_members ms es s1) = Some (s', r)"
    by (auto simp: m bind_eq_Some_conv)
  have "P s1" by (rule parse_member_keeps [OF c(1) Cons.prems(2,3)])
  then show ?case using c(2) Cons.IH [of s1] Cons.prems(2) by (auto split: if_splits)
qed simp

lemma parse_entries_keeps:
  "parse_entries_from_jobject obj es s = Some (s', r) \<Longrightarrow> list_all (keeps P) es \<Longrightarrow> P s \<Longrightarrow> P s'"
  by (cases obj) (auto simp: parse_entries_from_jobject_def intro: parse_members_keeps)

lemma parse_member_typed:
  "list_all (typed P) es \<Longrightarrow> P s \<Longrightarrow> \<exists>s' r. parse_member name x es s = Some (s', r) \<and> P s'"
proof (induction es arbitrary: s)
  case (Cons e es)
  show ?case
  proof (cases "pe_key e \<noteq> cstr name \<or> jtype x \<noteq> pe_type e")
    case False
    then obtain s1 r1 where c: "call_parser x e s = Some (s1, r1)" "P s1" using typedD [of P e s x] Cons.prems by auto
    obtain s2 r2 where "parse_member name x es s1 = Some (s2, r2)" "P s2" using Cons.IH [OF _ c(2)] Cons.prems(1) by auto
    then show ?thesis using False c by (cases "r1 = NO_ERROR") simp_all
  qed (use Cons in auto)
qed simp

lemma parse_members_typed:
  "list_all (typed P) es \<Longrightarrow> P s \<Longrightarrow> \<exists>s' r. parse_members ms es s = Some (s', r) \<and> P s'"
proof (induction ms arbitrary: s)
  case (Cons m ms)
  obtain name x where m: "m = (name, x)" by (cases m)
  obtain s1 r1 where c: "parse_member name x es s = Some (s1, r1)" "P s1" using parse_member_typed [OF Cons.prems] by blast
  obtain s2 r2 where "parse_members ms es s1 = Some (s2, r2)" "P s2" using Cons.IH [OF Cons.prems(1) c(2)] by blast
  then show ?case using c by (cases "r1 = NO_ERROR") (simp_all add: m)
qed simp

lemma parse_entries_typed:
  "list_all (typed P) es \<Longrightarrow> P s \<Longrightarrow> \<exists>s' r. parse_entries_from_jobject obj es s = Some (s', r) \<and> P s'"
  using parse_members_typed [of P es s] by (cases obj) (simp_all add: parse_entries_from_jobject_def)

lemma rules_loop_typed:
  assumes "list_all (typed P) es"
  shows "list_all P rules \<Longrightarrow> length rules = MAX_PORT_NUM + 1 \<Longrightarrow>
    \<exists>rules' r. rules_loop items i es rules = Some (rules', r) \<and> list_all P rules' \<and> length rules' = MAX_PORT_NUM + 1 \<and>
      rules' ! MAX_PORT_NUM = rules ! MAX_PORT_NUM"
proof (induction items arbitrary: i rules)
  case (Cons item items)
  show ?case
  proof (cases "i \<ge> MAX_PORT_NUM \<or> jtype item \<noteq> json_object")
    case False
    then have i: "i < MAX_PORT_NUM" "i < length rules" using Cons.prems(2) by simp_all
    have "P (rules ! i)" using Cons.prems(1) i(2) by (simp add: list_all_length)
    from parse_entries_typed [OF assms this] obtain ru ret where c: "parse_entries_from_jobject item es (rules ! i) = Some (ru, ret)" "P ru"
      by blast
    have u: "list_all P (rules[i := ru])" "length (rules[i := ru]) = MAX_PORT_NUM + 1"
      using Cons.prems c(2) set_update_subset_insert [of rules i ru] by (auto simp: list_all_iff)
    have n: "rules[i := ru] ! MAX_PORT_NUM = rules ! MAX_PORT_NUM" using i(1) by simp
    obtain rules' r where r: "rules_loop items (i + 1) es (rules[i := ru]) = Some (rules', r)" "list_all P rules'"
      "length rules' = MAX_PORT_NUM + 1" "rules' ! MAX_PORT_NUM = rules[i := ru] ! MAX_PORT_NUM" using Cons.IH [OF u] by blast
    have e: "rules_loop (item # items) i es rules = (if ret \<noteq> NO_ERROR then Some (rules[i := ru], ret) else Some (rules', r))"
      using False i c(1) r(1) by simp
    show ?thesis unfolding e using u n r(2-4) by (cases "ret = NO_ERROR") simp_all
  qed (use Cons.prems in auto)
qed simp

lemma parse_rules_array_typed:
  assumes "list_all (typed P) es" "P zero"
  shows "\<exists>rules r. parse_rules_array x zero es = Some (rules, r) \<and> rules_ok P zero rules"
proof -
  let ?z = "replicate (MAX_PORT_NUM + 1) zero"
  have z: "list_all P ?z" "length ?z = MAX_PORT_NUM + 1" "?z ! MAX_PORT_NUM = zero"
    using assms(2) by (auto simp: list_all_iff nth_append simp flip: replicate_append_same)
  show ?thesis
  proof (cases x)
    case (JArray items)
    then show ?thesis using rules_loop_typed [OF assms(1) z(1,2), of items 0] z(3) by (auto simp: parse_rules_array_def rules_ok_def)
  qed (use z in \<open>simp_all add: parse_rules_array_def rules_ok_def\<close>)
qed

lemma zero_entry_ok: "entrance_ok zero_entrance" "forward_ok zero_forward"
  by (simp_all add: entrance_ok_def forward_ok_def zero_entrance_def zero_forward_def config_sizes)

lemma parse_rules_loop_typed:
  "rules_ok entrance_ok zero_entrance es \<Longrightarrow> rules_ok forward_ok zero_forward fs \<Longrightarrow>
    \<exists>es' fs' r. parse_rules_loop ms es fs = Some (es', fs', r) \<and> rules_ok entrance_ok zero_entrance es' \<and> rules_ok forward_ok zero_forward fs'"
proof (induction ms arbitrary: es fs)
  case (Cons m ms)
  obtain name x where m: "m = (name, x)" by (cases m)
  obtain es1 r1 where e: "parse_rules_array x zero_entrance dynamic_entrance_rules_entries = Some (es1, r1)" "rules_ok entrance_ok zero_entrance es1"
    using parse_rules_array_typed [OF entrance_entries_typed zero_entry_ok(1)] by blast
  obtain fs1 r2 where f: "parse_rules_array x zero_forward dynamic_forward_rules_entries = Some (fs1, r2)" "rules_ok forward_ok zero_forward fs1"
    using parse_rules_array_typed [OF forward_entries_typed zero_entry_ok(2)] by blast
  show ?case
  proof (cases "cstr name = ''entrance_rules''")
    case True
    then show ?thesis using Cons.IH [OF e(2) Cons.prems(2)] e Cons.prems by (cases "r1 = NO_ERROR") (simp_all add: m)
  next
    case False
    then show ?thesis using Cons.IH [OF Cons.prems(1) f(2)] Cons.IH [OF Cons.prems] f Cons.prems
      by (cases "r2 = NO_ERROR"; cases "cstr name = ''forward_rules''") (simp_all add: m)
  qed
qed simp

lemma parse_rules_typed:
  "rules_ok entrance_ok zero_entrance es \<Longrightarrow> rules_ok forward_ok zero_forward fs \<Longrightarrow>
    \<exists>es' fs' r. parse_rules obj es fs = Some (es', fs', r) \<and> rules_ok entrance_ok zero_entrance es' \<and> rules_ok forward_ok zero_forward fs'"
  using parse_rules_loop_typed [of es fs] by (cases obj) (simp_all add: parse_rules_def)

section \<open>Loading\<close>

lemma load_sections_ok: "load_sections rto ms g = Some g' \<Longrightarrow> config_ok g \<Longrightarrow> config_ok g'"
proof (induction ms arbitrary: g)
  case (Cons m ms)
  obtain name x where m: "m = (name, x)" by (cases m)
  have ts: "list_all (keeps transport_ok) (static_transport_vars_entries rto)"
    using transport_entries_typed [of rto] by (auto simp: list_all_iff intro: typed_keeps)
  from Cons.prems(1) obtain g1 where g1: "load_sections rto ms g1 = Some g'"
    "(if cstr name = ''service'' then do {
        (s, ret) \<leftarrow> parse_entries_from_jobject x static_service_vars_entries (gc_service g);
        if ret \<noteq> NO_ERROR then None else Some (g\<lparr>gc_service := s\<rparr>) }
      else if cstr name = ''transport'' then do {
        (t, ret) \<leftarrow> parse_entries_from_jobject x (static_transport_vars_entries rto) (gc_transport g);
        if ret \<noteq> NO_ERROR then None else Some (g\<lparr>gc_transport := t\<rparr>) }
      else Some g) = Some g1"
    by (auto simp: m bind_eq_Some_conv)
  have "config_ok g1"
    using g1(2) Cons.prems(2) parse_entries_keeps [OF _ service_entries_keep, of x "gc_service g"]
      parse_entries_keeps [OF _ ts, of x "gc_transport g"]
    by (auto simp: config_ok_def bind_eq_Some_conv split: if_splits)
  then show ?case using Cons.IH [OF g1(1)] by blast
qed simp

text \<open>
  C19. Reloading the configuration is type safe: for every file and every document in it, the reload does
  not crash, all arrays keep their lengths and terminating zeros and the rule tables their terminating rule, the
  service and transport settings are unchanged, and when it reports an error so are the rules.
\<close>

theorem config_reload_safe:
  assumes "config_state_ok cs"
  shows "\<exists>cs' ret. reload_config_file json_parse file mem rd cs = Some (cs', ret) \<and> config_state_ok cs' \<and>
    gc_service (cs_config cs') = gc_service (cs_config cs) \<and> gc_transport (cs_config cs') = gc_transport (cs_config cs) \<and>
    (ret \<noteq> NO_ERROR \<longrightarrow> cs_config cs' = cs_config cs)"
proof (cases "read_json json_parse file mem rd")
  case (Inl err)
  then show ?thesis using assms by (simp add: reload_config_file_def)
next
  case (Inr obj)
  obtain es fs r where p: "parse_rules obj (cs_temp_entrances cs) (cs_temp_forwards cs) = Some (es, fs, r)"
    "rules_ok entrance_ok zero_entrance es" "rules_ok forward_ok zero_forward fs"
    using parse_rules_typed [of "cs_temp_entrances cs" "cs_temp_forwards cs" obj] assms by (auto simp: config_state_ok_def)
  then show ?thesis using assms Inr
    by (cases "r = NO_ERROR") (simp_all add: reload_config_file_def config_state_ok_def config_ok_def)
qed

text \<open>
  C20. A configuration that was loaded has a group size of at most 127 and an MTU with room for the largest
  header and at least one byte of data, and not above the largest packet; its arrays are well formed and
  both rule tables end with a rule of zeros.
\<close>

theorem config_load_checked:
  assumes "config_state_ok cs" "load_config_file json_parse rto filename file mem rd cs = Some (cs', NO_ERROR)"
  shows "cf_fec_group_size (gc_transport (cs_config cs')) \<le> 127 \<and>
    of_nat LITEDT_MAX_HEADER < cf_mtu (gc_transport (cs_config cs')) \<and>
    cf_mtu (gc_transport (cs_config cs')) \<le> of_nat LITEDT_MTU_MAX \<and> config_ok (cs_config cs')"
proof -
  obtain ms g es fs where g: "load_sections rto ms (cs_config cs) = Some g"
    "parse_rules (JObject ms) (gc_entrance_rules g) (gc_forward_rules g) = Some (es, fs, NO_ERROR)"
    "cs_config cs' = upd_transport post_check (g\<lparr>gc_entrance_rules := es, gc_forward_rules := fs\<rparr>)"
    using assms(2)
    by (auto simp: load_config_file_def bind_eq_Some_conv NO_ERROR_def PARSE_FAILED_def FILE_NOT_FOUND_def NOT_ENOUGH_RESOURCES_def
        read_json_def Let_def split: option.splits sum.splits if_splits json_value.splits)
  have ok: "config_ok g" using load_sections_ok [OF g(1)] assms(1) by (simp add: config_state_ok_def)
  have r: "rules_ok entrance_ok zero_entrance es" "rules_ok forward_ok zero_forward fs"
    using parse_rules_typed [of "gc_entrance_rules g" "gc_forward_rules g" "JObject ms"] ok g(2) by (auto simp: config_ok_def)
  have "cf_fec_group_size (post_check t) \<le> 127 \<and> of_nat LITEDT_MAX_HEADER < cf_mtu (post_check t) \<and>
      cf_mtu (post_check t) \<le> of_nat LITEDT_MTU_MAX \<and> cf_password (post_check t) = cf_password t" for t
    by (simp add: post_check_def Let_def LITEDT_MAX_HEADER_def LITEDT_MTU_MAX_def LITEDT_MSS_MAX_def linorder_not_le linorder_not_less)
  then show ?thesis using g(3) ok r by (simp add: upd_transport_def config_ok_def transport_ok_def)
qed

lemma peers_loop_overflow:
  "length rows < i + length strs \<Longrightarrow> i + length strs \<le> MAX_PORT_NUM \<Longrightarrow> i \<le> length rows \<Longrightarrow>
     list_all (\<lambda>r. length r = DOMAIN_PORT_MAX_LEN) rows \<Longrightarrow> list_all (\<lambda>s. length s < DOMAIN_PORT_MAX_LEN) strs \<Longrightarrow>
     peers_loop (map JString strs :: 'd json_value list) i rows = None"
proof (induction strs arbitrary: i rows)
  case (Cons str strs)
  show ?case
  proof (cases "i < length rows")
    case True
    have "length (rows ! i) = DOMAIN_PORT_MAX_LEN" using Cons.prems(4) True by (simp add: list_all_length)
    then obtain row where row: "strncpy (rows ! i) str (DOMAIN_PORT_MAX_LEN - 1) = Some row" "length row = DOMAIN_PORT_MAX_LEN"
      by (simp add: strncpy_def zeros_def min_def config_sizes)
    have "list_all (\<lambda>r. length r = DOMAIN_PORT_MAX_LEN) (rows[i := row])"
      using Cons.prems(4) row(2) set_update_subset_insert [of rows i row] by (auto simp: list_all_iff)
    then have "peers_loop (map JString strs :: 'd json_value list) (i + 1) (rows[i := row]) = None" using Cons.IH [of "rows[i := row]" "i + 1"] Cons.prems True by simp
    then show ?thesis using Cons.prems True row(1) by simp
  qed (use Cons.prems in simp)
qed simp

text \<open>
  C37. \<open>peers_parser\<close> stops at \<open>MAX_PORT_NUM\<close>, 100 peers, but the table has room for \<open>MAX_PEER_NUM + 1\<close>, 21: a list of 22 to
  100 peers writes behind the table.
\<close>

theorem config_peers_overflow:
  assumes "MAX_PEER_NUM + 1 < length strs" "length strs \<le> MAX_PORT_NUM" "list_all (\<lambda>s. length s < DOMAIN_PORT_MAX_LEN) strs"
  shows "parse_entries_from_jobject (JObject [(''connect_peers'', JArray (map JString strs :: 'd json_value list))]) static_service_vars_entries s = None"
proof -
  have l: "peers_loop (map JString strs :: 'd json_value list) 0 (replicate (MAX_PEER_NUM + 1) (zeros DOMAIN_PORT_MAX_LEN)) = None"
    by (rule peers_loop_overflow) (use assms in \<open>simp_all add: list_all_iff zeros_def\<close>)
  have "cstr ''connect_peers'' = ''connect_peers''" by (simp add: cstr_def nul_def)
  then show ?thesis using l
    by (simp add: parse_entries_from_jobject_def static_service_vars_entries_def entry_def call_parser_def peers_parser_def)
qed

theorem config_peers_overflow_witness:
  "parse_entries_from_jobject (JObject [(''connect_peers'', JArray (map JString (replicate 22 ''10.0.0.1:19210'')))])
     static_service_vars_entries (default_service 0) = None"
  by (rule config_peers_overflow) (simp_all add: config_sizes list_all_iff)

theorem config_reload_safe_witness:
  "\<exists>cs ret. reload_config_file (\<lambda>_. Some (JObject [(''entrance_rules'', JArray [JObject [(''listen_port'', JInteger 80)]])])) (Some ''x'') True True
     (global_config_init 5) = Some (cs, ret) \<and> config_state_ok cs"
  using config_reload_safe [OF global_config_init_ok] by blast

theorem config_load_checked_witness:
  "\<exists>cs. load_config_file (\<lambda>_. Some (JObject [(''transport'', JObject [(''mtu'', JInteger 9000)])])) (\<lambda>_ _. 0) ''a.conf'' (Some ''x'') True True
     (global_config_init 5) = Some (cs, NO_ERROR) \<and> cf_mtu (gc_transport (cs_config cs)) \<le> of_nat LITEDT_MTU_MAX"
proof -
  have "\<exists>cs. load_config_file (\<lambda>_. Some (JObject [(''transport'', JObject [(''mtu'', JInteger 9000)])])) (\<lambda>_ _. 0) ''a.conf'' (Some ''x'') True True
     (global_config_init 5) = Some (cs, NO_ERROR)"
    by (simp add: load_config_file_def read_json_def strncpy_def global_config_init_def config_sizes zeros_def cstr_def nul_def
        parse_entries_from_jobject_def static_transport_vars_entries_def entry_def call_parser_def normal_parser_def parse_rules_def MAX_CONF_SIZE_def)
  then show ?thesis using config_load_checked [OF global_config_init_ok] by blast
qed

end
