(* ===== verification/EntranceCorrect.thy ===== *)
theory EntranceCorrect
  imports FlowCorrect ConfigCorrect
begin

text \<open>
  The tables of listening sockets after a reload. A table stands for the list of its sockets; the reload
  works on that list as a multiset, since a released socket is replaced by the last one. The interface
  \<open>entrance\<close> is what the reload needs from the function that opens a socket; TCP and UDP are its two
  interpretations.
\<close>

section \<open>The table as a list\<close>

definition sock_addrs :: "hsock_table \<Rightarrow> addr list" where
  "sock_addrs t = map the (take (hsock_cnt t) (hsock_list t))"

definition table_ok :: "hsock_table \<Rightarrow> bool" where
  "table_ok t \<longleftrightarrow> length (hsock_list t) = MAX_PORT_NUM + 1 \<and> hsock_cnt t \<le> MAX_PORT_NUM + 1 \<and>
     (\<forall>p\<in>set (take (hsock_cnt t) (hsock_list t)). p \<noteq> None) \<and> distinct (sock_addrs t) \<and>
     (\<forall>a\<in>set (sock_addrs t). hsock_mem t a \<noteq> None)"

definition socks :: "hsock_table \<Rightarrow> hsock_data list" where
  "socks t = map (\<lambda>a. the (hsock_mem t a)) (sock_addrs t)"

lemma zero_table_ok: "table_ok zero_hsocks" "socks zero_hsocks = []"
  by (simp_all add: table_ok_def zero_hsocks_def sock_addrs_def socks_def)

lemma sock_addrs_length: "table_ok t \<Longrightarrow> length (sock_addrs t) = hsock_cnt t"
  by (simp add: table_ok_def sock_addrs_def)

lemma socks_length: "table_ok t \<Longrightarrow> length (socks t) = hsock_cnt t"
  by (simp add: socks_def sock_addrs_length)

lemma hsock_ref_ok:
  assumes "table_ok t" "i < hsock_cnt t"
  shows "hsock_ref t i = Some (sock_addrs t ! i, socks t ! i)"
proof -
  have l: "i < length (hsock_list t)" using assms by (simp add: table_ok_def)
  have "hsock_list t ! i \<in> set (take (hsock_cnt t) (hsock_list t))"
    using assms l by (metis in_set_conv_nth length_take min_less_iff_conj nth_take)
  then have "hsock_list t ! i \<noteq> None" using assms(1) by (auto simp: table_ok_def)
  then have a: "hsock_list t ! i = Some (sock_addrs t ! i)" using assms l by (simp add: sock_addrs_def)
  have "sock_addrs t ! i \<in> set (sock_addrs t)" using assms sock_addrs_length [of t] by simp
  then have "hsock_mem t (sock_addrs t ! i) \<noteq> None" using assms(1) by (auto simp: table_ok_def)
  then show ?thesis using a l assms sock_addrs_length [of t] by (auto simp: hsock_ref_def socks_def)
qed

text \<open>A table with new addresses in its first places.\<close>

lemma table_okI:
  assumes "length l = MAX_PORT_NUM + 1" "take n l = map Some as" "n \<le> MAX_PORT_NUM + 1" "distinct as" "\<And>a. a \<in> set as \<Longrightarrow> m a \<noteq> None"
  shows "table_ok \<lparr>hsock_list = l, hsock_cnt = n, hsock_mem = m\<rparr>"
    "sock_addrs \<lparr>hsock_list = l, hsock_cnt = n, hsock_mem = m\<rparr> = as"
  using assms by (auto simp: table_ok_def sock_addrs_def comp_def)

lemma map_Some_the: "\<forall>p\<in>set ps. p \<noteq> None \<Longrightarrow> map Some (map the ps) = ps"
  by (induction ps) auto

lemma table_ok_list: "table_ok t \<Longrightarrow> take (hsock_cnt t) (hsock_list t) = map Some (sock_addrs t)"
  unfolding table_ok_def sock_addrs_def by (rule map_Some_the [symmetric]) blast

lemma sock_addrs_mem: "sock_addrs (t\<lparr>hsock_mem := m\<rparr>) = sock_addrs t"
  by (simp add: sock_addrs_def)

lemma update_sock:
  assumes "table_ok t" "i < hsock_cnt t"
  shows "table_ok (t\<lparr>hsock_mem := (hsock_mem t)(sock_addrs t ! i \<mapsto> hs)\<rparr>)"
    "socks (t\<lparr>hsock_mem := (hsock_mem t)(sock_addrs t ! i \<mapsto> hs)\<rparr>) = (socks t)[i := hs]"
proof -
  show "table_ok (t\<lparr>hsock_mem := (hsock_mem t)(sock_addrs t ! i \<mapsto> hs)\<rparr>)"
    using assms by (simp add: table_ok_def sock_addrs_mem)
  have d: "distinct (sock_addrs t)" "i < length (sock_addrs t)" using assms sock_addrs_length [of t] by (simp_all add: table_ok_def)
  show "socks (t\<lparr>hsock_mem := (hsock_mem t)(sock_addrs t ! i \<mapsto> hs)\<rparr>) = (socks t)[i := hs]"
    by (rule nth_equalityI) (use d in \<open>simp_all add: socks_def sock_addrs_mem nth_list_update nth_eq_iff_index_eq\<close>)
qed

text \<open>The socket at \<open>i\<close> is replaced by the last one.\<close>

definition drop_sock :: "nat \<Rightarrow> 'a list \<Rightarrow> 'a list" where
  "drop_sock i xs = butlast (xs[i := last xs])"

lemma drop_sock_map: "i < length xs \<Longrightarrow> map f (drop_sock i xs) = drop_sock i (map f xs)"
  by (cases "xs = []") (simp_all add: drop_sock_def map_butlast map_update last_map)

lemma drop_sock_take: "i < length xs \<Longrightarrow> take i (drop_sock i xs) = take i xs"
  by (simp add: drop_sock_def take_butlast)

lemma drop_sock_mset: "i < length xs \<Longrightarrow> mset (drop i (drop_sock i xs)) = mset (drop (Suc i) xs)"
proof (cases "Suc i = length xs")
  case False
  assume i: "i < length xs"
  then have n: "drop (Suc i) xs \<noteq> []" using False by simp
  have "drop i (drop_sock i xs) = butlast (last xs # drop (Suc i) xs)"
    using i by (simp add: drop_sock_def drop_butlast Cons_nth_drop_Suc [symmetric] drop_update_swap)
  also have "mset \<dots> = mset (butlast (drop (Suc i) xs) @ [last (drop (Suc i) xs)])" using n by simp
  also have "\<dots> = mset (drop (Suc i) xs)" by (simp only: append_butlast_last_id [OF n])
  finally show ?thesis .
qed (simp add: drop_sock_def drop_butlast butlast_conv_take)

lemma drop_sock_distinct: "i < length xs \<Longrightarrow> distinct xs \<Longrightarrow> distinct (drop_sock i xs) \<and> set (drop_sock i xs) = set xs - {xs ! i}"
proof -
  assume i: "i < length xs" "distinct xs"
  have m: "mset (drop_sock i xs) = mset xs - {#xs ! i#}"
  proof -
    have "mset (drop_sock i xs) = mset (take i xs) + mset (drop (Suc i) xs)"
      using i drop_sock_take [of i xs] drop_sock_mset [of i xs] by (metis append_take_drop_id mset_append)
    also have "\<dots> = mset (take i xs @ xs ! i # drop (Suc i) xs) - {#xs ! i#}" by simp
    finally show ?thesis using i by (simp only: id_take_nth_drop [symmetric])
  qed
  then have "distinct (drop_sock i xs)" using i by (metis distinct_remove1 mset_eq_imp_distinct_iff mset_remove1)
  moreover have "set (drop_sock i xs) = set (remove1 (xs ! i) xs)" using m by (metis mset_eq_setD mset_remove1)
  ultimately show ?thesis using i by simp
qed

lemma remove_hsock_ok:
  assumes "table_ok t" "i < hsock_cnt t"
  shows "table_ok (remove_hsock t i (sock_addrs t ! i))" "socks (remove_hsock t i (sock_addrs t ! i)) = drop_sock i (socks t)"
    "hsock_cnt (remove_hsock t i (sock_addrs t ! i)) = hsock_cnt t - 1"
proof -
  let ?n = "hsock_cnt t - 1" and ?as = "sock_addrs t" and ?t = "remove_hsock t i (sock_addrs t ! i)"
  have l: "length ?as = hsock_cnt t" "i < length ?as" "distinct ?as" using assms sock_addrs_length [of t] by (simp_all add: table_ok_def)
  have ll: "length (hsock_list t) = MAX_PORT_NUM + 1" "hsock_cnt t \<le> MAX_PORT_NUM + 1" using assms by (simp_all add: table_ok_def)
  have lst: "last ?as = ?as ! ?n" using l last_conv_nth [of ?as] by (cases "?as = []") simp_all
  have tk: "take ?n (hsock_list ?t) = map Some (drop_sock i ?as)"
  proof (rule nth_equalityI)
    fix k assume k: "k < length (take ?n (hsock_list ?t))"
    have old: "hsock_list t ! j = Some (?as ! j)" if "j < hsock_cnt t" for j
      using arg_cong [OF table_ok_list [OF assms(1)], of "\<lambda>xs. xs ! j"] that l by simp
    show "take ?n (hsock_list ?t) ! k = map Some (drop_sock i ?as) ! k"
      using k old [of k] old [of ?n] l ll assms(2)
      by (auto simp: remove_hsock_def Let_def drop_sock_def nth_butlast nth_list_update lst split: if_splits)
  qed (use l ll assms(2) in \<open>simp add: remove_hsock_def Let_def drop_sock_def\<close>)
  have d: "distinct (drop_sock i ?as)" "set (drop_sock i ?as) = set ?as - {?as ! i}" using drop_sock_distinct l by blast+
  have ok: "table_ok \<lparr>hsock_list = hsock_list ?t, hsock_cnt = ?n, hsock_mem = hsock_mem ?t\<rparr>"
    "sock_addrs \<lparr>hsock_list = hsock_list ?t, hsock_cnt = ?n, hsock_mem = hsock_mem ?t\<rparr> = drop_sock i ?as"
    by (rule table_okI; use tk d assms(1) ll in \<open>auto simp: remove_hsock_def Let_def table_ok_def\<close>)+
  have r: "?t = \<lparr>hsock_list = hsock_list ?t, hsock_cnt = ?n, hsock_mem = hsock_mem ?t\<rparr>" by (simp add: remove_hsock_def Let_def)
  show "table_ok ?t" using ok r by simp
  show "hsock_cnt ?t = ?n" by (simp add: remove_hsock_def Let_def)
  have "map (\<lambda>a. the (hsock_mem ?t a)) (drop_sock i ?as) = map (\<lambda>a. the (hsock_mem t a)) (drop_sock i ?as)"
    using d by (simp add: remove_hsock_def Let_def)
  then show "socks ?t = drop_sock i (socks t)" using ok(2) r l drop_sock_map [of i ?as "\<lambda>a. the (hsock_mem t a)"] by (simp add: socks_def)
qed

section \<open>Releasing\<close>

lemma hsocks_set [simp]:
  "hsocks proto (set_hsocks proto t w) = t" "lw_os (set_hsocks proto t w) = lw_os w"
  "set_hsocks proto t (set_hsocks proto u w) = set_hsocks proto t w" "set_hsocks proto (hsocks proto w) w = w"
  "set_hsocks proto t (upd_os f w) = upd_os f (set_hsocks proto t w)" "hsocks proto (upd_os f w) = hsocks proto w"
  "lw_os (upd_os f w) = f (lw_os w)"
  by (simp_all add: hsocks_def set_hsocks_def upd_os_def)

abbreviation add_log :: "os_action list \<Rightarrow> lf_world \<Rightarrow> lf_world" where
  "add_log as \<equiv> upd_os (\<lambda>s. s\<lparr>os_log := os_log s @ as\<rparr>)"

lemma add_log_simps [simp]: "add_log as (add_log bs w) = add_log (bs @ as) w" "upd_os (\<lambda>s. s) w = w" "os_do a w = add_log [a] w"
  by (simp_all add: upd_os_def os_do_def)

text \<open>The rule of a socket, and the socket with the tunnel of its rule.\<close>

definition rule_of :: "u16 \<Rightarrow> entrance_rule list \<Rightarrow> hsock_data \<Rightarrow> entrance_rule option" where
  "rule_of proto rules hs = find (\<lambda>e. er_protocol e = proto \<and> same_port hs e) rules"

definition retag :: "u16 \<Rightarrow> entrance_rule list \<Rightarrow> hsock_data \<Rightarrow> hsock_data" where
  "retag proto rules hs = (case rule_of proto rules hs of None \<Rightarrow> hs | Some e \<Rightarrow> hs\<lparr>hs_tunnel_id := er_tunnel_id e\<rparr>)"

definition kept :: "u16 \<Rightarrow> entrance_rule list \<Rightarrow> hsock_data \<Rightarrow> bool" where
  "kept proto rules hs \<longleftrightarrow> rule_of proto rules hs \<noteq> None"

definition released :: "u16 \<Rightarrow> entrance_rule list \<Rightarrow> nat \<Rightarrow> hsock_data list \<Rightarrow> hsock_table \<Rightarrow> hsock_data list \<Rightarrow> bool" where
  "released proto rules i xs t cs \<longleftrightarrow> table_ok t \<and>
     mset (socks t) = mset (take i xs) + mset (map (retag proto rules) (filter (kept proto rules) (drop i xs))) \<and>
     mset cs = mset (filter (\<lambda>hs. \<not> kept proto rules hs) (drop i xs))"

lemma released_keep:
  assumes "released proto rules (i + 1) (xs[i := retag proto rules (xs ! i)]) t cs" "i < length xs" "kept proto rules (xs ! i)"
  shows "released proto rules i xs t cs"
  using assms by (simp add: released_def take_Suc_conv_app_nth Cons_nth_drop_Suc [symmetric])

lemma released_drop:
  assumes "released proto rules i (drop_sock i xs) t cs" "i < length xs" "\<not> kept proto rules (xs ! i)"
  shows "released proto rules i xs t (xs ! i # cs)"
  using assms by (simp add: released_def drop_sock_take drop_sock_mset Cons_nth_drop_Suc [symmetric] mset_filter)

lemma release_hsocks_from:
  assumes "table_ok (hsocks proto w)" "i \<le> hsock_cnt (hsocks proto w)"
  shows "\<exists>t cs. release_hsocks proto rules i w = Some (add_log (map (Closed \<circ> hs_fd) cs) (set_hsocks proto t w)) \<and>
    released proto rules i (socks (hsocks proto w)) t cs \<and> dom (hsock_mem t) \<subseteq> dom (hsock_mem (hsocks proto w))"
  using assms
proof (induction "hsock_cnt (hsocks proto w) - i" arbitrary: i w)
  case 0
  then have "release_hsocks proto rules i w = Some w" by (subst release_hsocks.simps) simp
  then show ?case using 0 socks_length [of "hsocks proto w"]
    by (intro exI [of _ "hsocks proto w"] exI [of _ "[]"]) (simp add: released_def)
next
  case (Suc n)
  let ?t = "hsocks proto w"
  let ?xs = "socks ?t" and ?a = "sock_addrs ?t ! i"
  have i: "i < hsock_cnt ?t" using Suc.hyps(2) by simp
  have l: "i < length ?xs" using i socks_length Suc.prems(1) by simp
  note ref = hsock_ref_ok [OF Suc.prems(1) i]
  show ?case
  proof (cases "rule_of proto rules (?xs ! i)")
    case (Some e)
    let ?u = "?t\<lparr>hsock_mem := (hsock_mem ?t)(?a \<mapsto> (?xs ! i)\<lparr>hs_tunnel_id := er_tunnel_id e\<rparr>)\<rparr>"
    have st: "release_hsocks proto rules i w = release_hsocks proto rules (i + 1) (set_hsocks proto ?u w)"
      using i ref Some by (subst release_hsocks.simps) (simp add: rule_of_def Let_def)
    note u = update_sock [OF Suc.prems(1) i, of "(?xs ! i)\<lparr>hs_tunnel_id := er_tunnel_id e\<rparr>"]
    have "\<exists>t cs. release_hsocks proto rules (i + 1) (set_hsocks proto ?u w)
        = Some (add_log (map (Closed \<circ> hs_fd) cs) (set_hsocks proto t (set_hsocks proto ?u w))) \<and>
      released proto rules (i + 1) (socks (hsocks proto (set_hsocks proto ?u w))) t cs \<and>
      dom (hsock_mem t) \<subseteq> dom (hsock_mem (hsocks proto (set_hsocks proto ?u w)))"
      by (rule Suc.hyps(1)) (use Suc.hyps(2) i u(1) in simp_all)
    then obtain t cs where t: "release_hsocks proto rules (i + 1) (set_hsocks proto ?u w)
        = Some (add_log (map (Closed \<circ> hs_fd) cs) (set_hsocks proto t (set_hsocks proto ?u w)))"
      "released proto rules (i + 1) (socks ?u) t cs" "dom (hsock_mem t) \<subseteq> dom (hsock_mem ?u)" by auto
    have "?a \<in> dom (hsock_mem ?t)" using ref by (auto simp: hsock_ref_def bind_eq_Some_conv split: if_splits)
    then have "dom (hsock_mem t) \<subseteq> dom (hsock_mem ?t)" using t(3) by auto
    then show ?thesis using t(1,2) released_keep [OF _ l, of proto rules t cs] Some u(2) st
      by (intro exI [of _ t] exI [of _ cs]) (simp add: kept_def retag_def)
  next
    case None
    let ?u = "remove_hsock ?t i ?a"
    let ?w = "os_do (Closed (hs_fd (?xs ! i))) (set_hsocks proto ?u w)"
    have st: "release_hsocks proto rules i w = release_hsocks proto rules i ?w"
      using i ref None by (subst release_hsocks.simps) (simp add: rule_of_def Let_def)
    note u = remove_hsock_ok [OF Suc.prems(1) i]
    have "\<exists>t cs. release_hsocks proto rules i ?w = Some (add_log (map (Closed \<circ> hs_fd) cs) (set_hsocks proto t ?w)) \<and>
      released proto rules i (socks (hsocks proto ?w)) t cs \<and> dom (hsock_mem t) \<subseteq> dom (hsock_mem (hsocks proto ?w))"
      by (rule Suc.hyps(1)) (use Suc.hyps(2) i u in simp_all)
    then obtain t cs where t: "release_hsocks proto rules i ?w = Some (add_log (map (Closed \<circ> hs_fd) cs) (set_hsocks proto t ?w))"
      "released proto rules i (socks (hsocks proto ?w)) t cs" "dom (hsock_mem t) \<subseteq> dom (hsock_mem ?u)" by auto
    have "dom (hsock_mem t) \<subseteq> dom (hsock_mem ?t)" using t(3) by (auto simp: remove_hsock_def Let_def)
    then show ?thesis using t(1,2) st u(2) None released_drop [OF _ l, of proto rules t cs]
      by (intro exI [of _ t] exI [of _ "?xs ! i # cs"]) (simp add: kept_def)
  qed
qed

end
