(* ===== verification/EntranceReload.thy ===== *)
theory EntranceReload
  imports EntranceCorrect
begin

text \<open>
  The reload as a whole. The locale \<open>entrance\<close> states what opening a socket promises: it fails and leaves the table
  alone, or appends a socket for the rule; it never crashes while there is room. Interpreted for TCP and
  for UDP.
\<close>

section \<open>What opening promises\<close>

definition port_of :: "hsock_data \<Rightarrow> string \<times> u16" where
  "port_of hs = (cstr (hs_local_addr hs), hs_local_port hs)"

definition port_key :: "entrance_rule \<Rightarrow> string \<times> u16" where
  "port_key e = (cstr (er_listen_addr e), er_listen_port e)"

lemma same_port_iff: "same_port hs e \<longleftrightarrow> port_of hs = port_key e"
  by (simp add: same_port_def port_of_def port_key_def)

text \<open>The allocator returns no address twice, and none of a structure in the table.\<close>

definition fresh_heap :: "hsock_table \<Rightarrow> os \<Rightarrow> bool" where
  "fresh_heap t s \<longleftrightarrow> (\<forall>n a. os_malloc s n = Some a \<longrightarrow> hsock_mem t a = None) \<and>
     (\<forall>m n a. os_malloc s m = Some a \<longrightarrow> os_malloc s n = Some a \<longrightarrow> m = n)"

lemma fresh_heap_mono: "fresh_heap t s \<Longrightarrow> dom (hsock_mem t') \<subseteq> dom (hsock_mem t) \<Longrightarrow> fresh_heap t' (s\<lparr>os_log := l\<rparr>)"
  by (auto simp: fresh_heap_def dom_def)

definition all_work :: "os \<Rightarrow> bool" where
  "all_work s \<longleftrightarrow> (\<forall>n. os_ret s n = 0 \<and> 0 \<le> os_fd s n \<and> os_malloc s n \<noteq> None)"

definition resolves :: "os \<Rightarrow> entrance_rule \<Rightarrow> bool" where
  "resolves s e \<longleftrightarrow> os_pton s AF_INET (cstr (er_listen_addr e)) \<noteq> None \<or> os_pton s AF_INET6 (cstr (er_listen_addr e)) \<noteq> None"

definition opened :: "hsock_table \<Rightarrow> entrance_rule \<Rightarrow> hsock_table \<Rightarrow> bool" where
  "opened t e t' \<longleftrightarrow> table_ok t' \<and>
     (\<exists>hs. socks t' = socks t @ [hs] \<and> port_of hs = port_key e \<and> hs_tunnel_id hs = er_tunnel_id e)"

text \<open>What a call may change of the system: the streams move on and the log grows.\<close>

definition os_later :: "os \<Rightarrow> os \<Rightarrow> bool" where
  "os_later s s' \<longleftrightarrow> (all_work s \<longrightarrow> all_work s') \<and> os_pton s' = os_pton s \<and> set (os_log s) \<subseteq> set (os_log s')"

locale entrance =
  fixes proto :: u16
    and local_init :: "lf_world \<Rightarrow> entrance_rule \<Rightarrow> (lf_world \<times> int) option"
  assumes init_ok: "table_ok (hsocks proto w) \<Longrightarrow> hsock_cnt (hsocks proto w) < MAX_PORT_NUM \<Longrightarrow> fresh_heap (hsocks proto w) (lw_os w) \<Longrightarrow>
      entrance_ok e \<Longrightarrow> \<exists>w' ret. local_init w e = Some (w', ret) \<and> fresh_heap (hsocks proto w') (lw_os w') \<and> os_later (lw_os w) (lw_os w') \<and>
        (if ret = 0 then opened (hsocks proto w) e (hsocks proto w') else hsocks proto w' = hsocks proto w)"
    and init_works: "all_work (lw_os w) \<Longrightarrow> resolves (lw_os w) e \<Longrightarrow> hsock_cnt (hsocks proto w) < MAX_PORT_NUM \<Longrightarrow>
      local_init w e = Some (w', ret) \<Longrightarrow> ret = 0"

section \<open>Binding\<close>

lemma hsock_exists_ok: "table_ok t \<Longrightarrow>
    hsock_exists (hsock_mem t) (take (hsock_cnt t) (hsock_list t)) e = Some (\<exists>hs\<in>set (socks t). same_port hs e)"
proof -
  have "\<forall>a\<in>set as. m a \<noteq> None \<Longrightarrow> hsock_exists m (map Some as) e = Some (\<exists>hs\<in>set (map (\<lambda>a. the (m a)) as). same_port hs e)" for m as
    by (induction as) auto
  then show "table_ok t \<Longrightarrow> ?thesis" by (simp only: table_ok_list socks_def) (simp add: table_ok_def)
qed

definition tagged :: "u16 \<Rightarrow> entrance_rule list \<Rightarrow> hsock_data \<Rightarrow> bool" where
  "tagged proto rules hs \<longleftrightarrow> (\<exists>e\<in>set rules. er_protocol e = proto \<and> same_port hs e \<and> hs_tunnel_id hs = er_tunnel_id e)"

definition entrance_inv :: "u16 \<Rightarrow> entrance_rule list \<Rightarrow> lf_world \<Rightarrow> bool" where
  "entrance_inv proto rules w \<longleftrightarrow> table_ok (hsocks proto w) \<and> fresh_heap (hsocks proto w) (lw_os w) \<and>
     distinct (map port_of (socks (hsocks proto w))) \<and> (\<forall>hs\<in>set (socks (hsocks proto w)). tagged proto rules hs)"

text \<open>While a rule has no socket, there is room: the sockets have different ports, which are those of rules.\<close>

lemma room_for_rule:
  assumes "entrance_inv proto rules w" "length rules \<le> MAX_PORT_NUM" "e \<in> set rules" "\<forall>hs\<in>set (socks (hsocks proto w)). \<not> same_port hs e"
  shows "hsock_cnt (hsocks proto w) < MAX_PORT_NUM"
proof -
  let ?ps = "map port_of (socks (hsocks proto w))"
  have "insert (port_key e) (set ?ps) \<subseteq> port_key ` set rules"
    using assms(1,3) by (auto simp: entrance_inv_def tagged_def same_port_iff)
  then have "card (insert (port_key e) (set ?ps)) \<le> length rules" by (meson card_length card_image_le card_mono finite_imageI finite_set le_trans)
  moreover have "port_key e \<notin> set ?ps" using assms(4) by (auto simp: same_port_iff)
  moreover have "card (set ?ps) = hsock_cnt (hsocks proto w)"
    using assms(1) distinct_card [of ?ps] socks_length [of "hsocks proto w"] by (simp add: entrance_inv_def)
  ultimately show ?thesis using assms(2) by simp
qed

text \<open>The sockets that a reload keeps.\<close>

lemma port_of_retag [simp]: "port_of (retag proto rules hs) = port_of hs"
  by (simp add: retag_def port_of_def split: option.splits)

lemma retag_tagged: "kept proto rules hs \<Longrightarrow> tagged proto rules (retag proto rules hs)"
proof -
  assume "kept proto rules hs"
  then obtain e where e: "rule_of proto rules hs = Some e" by (auto simp: kept_def)
  then have "e \<in> set rules \<and> er_protocol e = proto \<and> same_port hs e" by (auto simp: rule_of_def find_Some_iff)
  then show ?thesis using e by (auto simp: retag_def tagged_def same_port_def)
qed

lemma retagged_inv:
  assumes "mset (socks t) = mset (map (retag proto rules) (filter (kept proto rules) xs))" "distinct (map port_of xs)"
  shows "distinct (map port_of (socks t))" "\<forall>hs\<in>set (socks t). tagged proto rules hs"
proof -
  have "mset (map port_of (socks t)) = mset (map port_of (filter (kept proto rules) xs))"
    using arg_cong [OF assms(1), of "image_mset port_of"] by (simp add: image_mset.compositionality comp_def)
  moreover have "distinct (map port_of (filter (kept proto rules) xs))" using assms(2) by (simp add: distinct_map_filter)
  ultimately show "distinct (map port_of (socks t))" using mset_eq_imp_distinct_iff by blast
  show "\<forall>hs\<in>set (socks t). tagged proto rules hs" using mset_eq_setD [OF assms(1)] retag_tagged by auto
qed

context entrance
begin

lemma bind_one:
  assumes "entrance_inv proto rules w" "length rules \<le> MAX_PORT_NUM" "e \<in> set rules" "er_protocol e = proto" "entrance_ok e"
    "\<forall>hs\<in>set (socks (hsocks proto w)). \<not> same_port hs e"
  shows "\<exists>w' ret. local_init w e = Some (w', ret) \<and> entrance_inv proto rules w' \<and> os_later (lw_os w) (lw_os w') \<and>
    set (socks (hsocks proto w)) \<subseteq> set (socks (hsocks proto w')) \<and>
    (all_work (lw_os w) \<and> resolves (lw_os w) e \<longrightarrow> (\<exists>hs\<in>set (socks (hsocks proto w')). same_port hs e))"
proof -
  note room = room_for_rule [OF assms(1-3,6)]
  obtain w' ret where w: "local_init w e = Some (w', ret)" "fresh_heap (hsocks proto w') (lw_os w')" "os_later (lw_os w) (lw_os w')"
    "if ret = 0 then opened (hsocks proto w) e (hsocks proto w') else hsocks proto w' = hsocks proto w"
    using init_ok [OF _ room _ assms(5)] assms(1) by (auto simp: entrance_inv_def)
  show ?thesis
  proof (cases "ret = 0")
    case True
    then obtain hs where hs: "table_ok (hsocks proto w')" "socks (hsocks proto w') = socks (hsocks proto w) @ [hs]" "port_of hs = port_key e"
      "hs_tunnel_id hs = er_tunnel_id e" using w(4) by (auto simp: opened_def)
    have "port_key e \<notin> port_of ` set (socks (hsocks proto w))" using assms(6) by (auto simp: same_port_iff)
    then have "entrance_inv proto rules w'"
      using hs w(2) assms(1,3,4) by (auto simp: entrance_inv_def tagged_def same_port_iff)
    then show ?thesis using w hs by (auto simp: same_port_iff)
  next
    case False
    then show ?thesis using w assms(1) init_works [OF _ _ room w(1)] by (auto simp: entrance_inv_def)
  qed
qed

lemma bind_hsocks_ok:
  assumes "entrance_inv proto rules w" "length rules \<le> MAX_PORT_NUM" "set es \<subseteq> set rules" "\<forall>e\<in>set rules. entrance_ok e"
  shows "\<exists>w'. bind_hsocks proto local_init es w = Some w' \<and> entrance_inv proto rules w' \<and> os_later (lw_os w) (lw_os w') \<and>
    set (socks (hsocks proto w)) \<subseteq> set (socks (hsocks proto w')) \<and>
    (all_work (lw_os w) \<and> (\<forall>e\<in>set es. resolves (lw_os w) e) \<longrightarrow>
      (\<forall>e\<in>set es. er_protocol e = proto \<longrightarrow> (\<exists>hs\<in>set (socks (hsocks proto w')). same_port hs e)))"
  using assms(1,3)
proof (induction es arbitrary: w)
  case Nil
  then show ?case by (simp add: os_later_def)
next
  case (Cons e es)
  have sub: "set es \<subseteq> set rules" "e \<in> set rules" using Cons.prems(2) by simp_all
  have t: "table_ok (hsocks proto w)" using Cons.prems(1) by (simp add: entrance_inv_def)
  have cnt: "hsock_cnt (hsocks proto w) \<le> length (hsock_list (hsocks proto w))" using t by (simp add: table_ok_def)
  show ?case
  proof (cases "er_protocol e = proto \<and> \<not> (\<exists>hs\<in>set (socks (hsocks proto w)). same_port hs e)")
    case False
    then have "bind_hsocks proto local_init (e # es) w = bind_hsocks proto local_init es w"
      using hsock_exists_ok [OF t, of e] cnt by (auto simp: Let_def)
    moreover obtain w' where w': "bind_hsocks proto local_init es w = Some w'" "entrance_inv proto rules w'" "os_later (lw_os w) (lw_os w')"
      "set (socks (hsocks proto w)) \<subseteq> set (socks (hsocks proto w'))"
      "all_work (lw_os w) \<and> (\<forall>e\<in>set es. resolves (lw_os w) e) \<longrightarrow>
        (\<forall>e\<in>set es. er_protocol e = proto \<longrightarrow> (\<exists>hs\<in>set (socks (hsocks proto w')). same_port hs e))"
      using Cons.IH [OF Cons.prems(1) sub(1)] by blast
    ultimately show ?thesis using False by (intro exI [of _ w']) auto
  next
    case True
    obtain w1 ret where w1: "local_init w e = Some (w1, ret)" "entrance_inv proto rules w1" "os_later (lw_os w) (lw_os w1)"
      "set (socks (hsocks proto w)) \<subseteq> set (socks (hsocks proto w1))"
      "all_work (lw_os w) \<and> resolves (lw_os w) e \<longrightarrow> (\<exists>hs\<in>set (socks (hsocks proto w1)). same_port hs e)"
      using bind_one [OF Cons.prems(1) assms(2) sub(2), of] True assms(4) sub(2) by blast
    have "bind_hsocks proto local_init (e # es) w = bind_hsocks proto local_init es w1"
      using True hsock_exists_ok [OF t, of e] cnt w1(1) by (simp add: Let_def)
    moreover obtain w' where w': "bind_hsocks proto local_init es w1 = Some w'" "entrance_inv proto rules w'" "os_later (lw_os w1) (lw_os w')"
      "set (socks (hsocks proto w1)) \<subseteq> set (socks (hsocks proto w'))"
      "all_work (lw_os w1) \<and> (\<forall>e\<in>set es. resolves (lw_os w1) e) \<longrightarrow>
        (\<forall>e\<in>set es. er_protocol e = proto \<longrightarrow> (\<exists>hs\<in>set (socks (hsocks proto w')). same_port hs e))"
      using Cons.IH [OF w1(2) sub(1)] by blast
    moreover have "os_later (lw_os w) (lw_os w')" using w1(3) w'(3) by (auto simp: os_later_def)
    moreover have "resolves (lw_os w1) x \<longleftrightarrow> resolves (lw_os w) x" for x using w1(3) by (simp add: os_later_def resolves_def)
    moreover have "all_work (lw_os w) \<longrightarrow> all_work (lw_os w1)" using w1(3) by (simp add: os_later_def)
    ultimately show ?thesis using w1(4,5) by (intro exI [of _ w']) auto
  qed
qed

lemma reload_ok:
  assumes "table_ok (hsocks proto w)" "fresh_heap (hsocks proto w) (lw_os w)" "distinct (map port_of (socks (hsocks proto w)))"
    "active_rules entrances = Some rules" "length rules \<le> MAX_PORT_NUM" "\<forall>e\<in>set rules. entrance_ok e"
  shows "\<exists>w'. local_reload proto local_init w entrances = Some (w', 0) \<and> entrance_inv proto rules w' \<and>
    (\<forall>hs\<in>set (socks (hsocks proto w)). if kept proto rules hs then retag proto rules hs \<in> set (socks (hsocks proto w'))
       else Closed (hs_fd hs) \<in> set (os_log (lw_os w'))) \<and>
    (all_work (lw_os w) \<and> (\<forall>e\<in>set rules. resolves (lw_os w) e) \<longrightarrow>
      (\<forall>e\<in>set rules. er_protocol e = proto \<longrightarrow> (\<exists>hs\<in>set (socks (hsocks proto w')). same_port hs e)))"
proof -
  let ?xs = "socks (hsocks proto w)"
  obtain t cs where t: "release_hsocks proto rules 0 w = Some (add_log (map (Closed \<circ> hs_fd) cs) (set_hsocks proto t w))"
    "released proto rules 0 ?xs t cs" "dom (hsock_mem t) \<subseteq> dom (hsock_mem (hsocks proto w))"
    using release_hsocks_from [OF assms(1), of 0 rules] by auto
  let ?w = "add_log (map (Closed \<circ> hs_fd) cs) (set_hsocks proto t w)"
  have s: "mset (socks t) = mset (map (retag proto rules) (filter (kept proto rules) ?xs))"
    "mset cs = mset (filter (\<lambda>hs. \<not> kept proto rules hs) ?xs)" "table_ok t" using t(2) by (simp_all add: released_def)
  have "entrance_inv proto rules ?w"
    using s(3) fresh_heap_mono [OF assms(2) t(3)] retagged_inv [OF s(1) assms(3)] by (simp add: entrance_inv_def)
  then obtain w' where w': "bind_hsocks proto local_init rules ?w = Some w'" "entrance_inv proto rules w'" "os_later (lw_os ?w) (lw_os w')"
    "set (socks t) \<subseteq> set (socks (hsocks proto w'))"
    "all_work (lw_os ?w) \<and> (\<forall>e\<in>set rules. resolves (lw_os ?w) e) \<longrightarrow>
      (\<forall>e\<in>set rules. er_protocol e = proto \<longrightarrow> (\<exists>hs\<in>set (socks (hsocks proto w')). same_port hs e))"
    using bind_hsocks_ok [OF _ assms(5) order_refl assms(6), of ?w] by auto
  have "set (socks t) = retag proto rules ` {hs \<in> set ?xs. kept proto rules hs}" "set cs = {hs \<in> set ?xs. \<not> kept proto rules hs}"
    using mset_eq_setD [OF s(1)] mset_eq_setD [OF s(2)] by auto
  moreover have "all_work (lw_os ?w) = all_work (lw_os w)" "resolves (lw_os ?w) x = resolves (lw_os w) x" for x
    by (simp_all add: all_work_def resolves_def)
  moreover have "set (map (Closed \<circ> hs_fd) cs) \<subseteq> set (os_log (lw_os w'))" using w'(3) by (simp add: os_later_def)
  ultimately show ?thesis using t(1) w' assms(4) by (intro exI [of _ w']) (auto simp: local_reload_def)
qed

end

end
