(* ===== verification/EntranceProps.thy ===== *)
theory EntranceProps
  imports EntranceReload
begin

text \<open>
  The interpretations of \<open>entrance\<close> for TCP and UDP, and what a reload of the program does to its listening sockets.
\<close>

section \<open>Calls that leave the table alone\<close>

definition quiet :: "u16 \<Rightarrow> lf_world \<Rightarrow> lf_world \<Rightarrow> bool" where
  "quiet proto w w' \<longleftrightarrow> hsocks proto w' = hsocks proto w \<and> os_later (lw_os w) (lw_os w') \<and>
     (\<forall>t. fresh_heap t (lw_os w) \<longrightarrow> fresh_heap t (lw_os w'))"

lemma quiet_refl [simp]: "quiet proto w w"
  by (simp add: quiet_def os_later_def)

lemma quiet_trans [trans]: "quiet proto u v \<Longrightarrow> quiet proto v w \<Longrightarrow> quiet proto u w"
  by (auto simp: quiet_def os_later_def)

lemma quiet_calls:
  "quiet proto w (fst (os_call w))" "quiet proto w (fst (os_open w))" "quiet proto w (os_do a w)" "quiet proto w (fst (set_nonblock w))"
  by (auto simp: quiet_def os_later_def os_call_def os_open_def all_work_def fresh_heap_def set_nonblock_def Let_def)

lemma quiet_bind: "quiet proto w (fst (bind_entrance w sockfd af e))"
proof -
  have c: "quiet proto u v \<Longrightarrow> quiet proto u (fst (os_call v))" "quiet proto u v \<Longrightarrow> quiet proto u (os_do a v)"
    "quiet proto u v \<Longrightarrow> quiet proto u (fst (set_nonblock v))" for u v a
    using quiet_calls quiet_trans by blast+
  show ?thesis
    using c [of w w] c [of w "fst (os_call w)"] c [of w "fst (set_nonblock (fst (os_call w)))"]
      c(2) [of w "fst (os_call (fst (set_nonblock (fst (os_call w)))))"]
    by (simp add: bind_entrance_def Let_def split_beta del: add_log_simps)
qed

lemma works_calls:
  assumes "all_work (lw_os w)"
  shows "snd (os_call w) = 0" "0 \<le> snd (os_open w)" "snd (set_nonblock w)" "snd (bind_entrance w sockfd af e) = 0"
proof -
  have q: "all_work (lw_os (fst (os_call w)))" using assms quiet_calls(1) [of 0 w] by (simp add: quiet_def os_later_def)
  show "snd (os_call w) = 0" "0 \<le> snd (os_open w)" "snd (set_nonblock w)"
    using assms by (simp_all add: all_work_def os_call_def os_open_def set_nonblock_def Let_def)
  have n: "snd (set_nonblock u) \<and> all_work (lw_os (fst (set_nonblock u)))" if "all_work (lw_os u)" for u
    using that by (simp add: all_work_def os_call_def set_nonblock_def Let_def)
  show "snd (bind_entrance w sockfd af e) = 0"
    using n [OF q] assms by (auto simp: bind_entrance_def Let_def split_beta all_work_def os_call_def)
qed

section \<open>A new socket\<close>

lemma fresh_heap_next:
  assumes "fresh_heap t s" "\<And>n a. os_malloc s (Suc n) = Some a \<Longrightarrow> hsock_mem t a = None \<Longrightarrow> hsock_mem t' a = None"
  shows "fresh_heap t' (s\<lparr>os_malloc := os_malloc s \<circ> Suc\<rparr>)"
proof -
  have a: "hsock_mem t a = None" if "os_malloc s n = Some a" for n a using assms(1) that unfolding fresh_heap_def by blast
  have i: "m = n" if "os_malloc s m = Some a" "os_malloc s n = Some a" for m n a using assms(1) that unfolding fresh_heap_def by blast
  show ?thesis unfolding fresh_heap_def using a assms(2) i [of "Suc _" _ "Suc _"] by simp
qed

lemma fresh_heap_unused:
  assumes "fresh_heap t s" "os_malloc s 0 = Some host" "os_malloc s (Suc n) = Some a"
  shows "a \<noteq> host"
  using assms unfolding fresh_heap_def by (metis Zero_neq_Suc)

lemma cstr_zeros: "cstr (cstr s @ zeros n) = cstr s"
proof -
  have "takeWhile (\<lambda>c. c \<noteq> nul) (zeros n) = []" by (cases n) (simp_all add: zeros_def)
  then show ?thesis by (simp add: cstr_def takeWhile_append)
qed

lemma strncpy_cstr:
  assumes "chars_ok (n + 1) s"
  shows "\<exists>v. strncpy (zeros (n + 1)) s n = Some v \<and> cstr v = cstr s"
proof -
  have "length (cstr s) \<le> n"
  proof (rule ccontr)
    assume "\<not> ?thesis"
    then have l: "length (takeWhile (\<lambda>c. c \<noteq> nul) s) = n + 1"
      using assms length_takeWhile_le [of "\<lambda>c. c \<noteq> nul" s] by (simp add: cstr_def chars_ok_def)
    then have "takeWhile (\<lambda>c. c \<noteq> nul) s ! n \<in> set (takeWhile (\<lambda>c. c \<noteq> nul) s)" by (intro nth_mem) simp
    then have "takeWhile (\<lambda>c. c \<noteq> nul) s ! n \<noteq> nul" by (rule set_takeWhileD [THEN conjunct2])
    then show False using assms l takeWhile_nth [of n "\<lambda>c. c \<noteq> nul" s] by (simp add: chars_ok_def)
  qed
  then have "take n (cstr s @ zeros n) @ drop n (zeros (n + 1)) = cstr s @ zeros (n - length (cstr s) + 1)"
    by (simp add: zeros_def replicate_app_Cons_same flip: replicate_Suc replicate_add)
  then show ?thesis using cstr_zeros [of s "n - length (cstr s) + 1"] by (simp only: strncpy_def) (simp add: zeros_def)
qed

definition open_result :: "u16 \<Rightarrow> lf_world \<Rightarrow> entrance_rule \<Rightarrow> (lf_world \<times> int) option \<Rightarrow> bool" where
  "open_result proto w e r \<longleftrightarrow> (\<exists>w' ret. r = Some (w', ret) \<and> fresh_heap (hsocks proto w') (lw_os w') \<and> os_later (lw_os w) (lw_os w') \<and>
     (if ret = 0 then opened (hsocks proto w) e (hsocks proto w') else hsocks proto w' = hsocks proto w))"

lemma enter_hsock_ok:
  assumes "table_ok (hsocks proto w)" "hsock_cnt (hsocks proto w) \<le> MAX_PORT_NUM" "fresh_heap (hsocks proto w) (lw_os w)" "entrance_ok e"
  shows "open_result proto w e (enter_hsock proto w sockfd e)"
proof (cases "os_malloc (lw_os w) 0")
  case None
  have "fresh_heap (hsocks proto w) ((lw_os w)\<lparr>os_malloc := os_malloc (lw_os w) \<circ> Suc\<rparr>)" by (rule fresh_heap_next [OF assms(3)])
  then have "fresh_heap (hsocks proto w) ((lw_os w)\<lparr>os_malloc := os_malloc (lw_os w) \<circ> Suc, os_log := os_log (lw_os w) @ [Closed sockfd]\<rparr>)"
    by (simp add: fresh_heap_def)
  then show ?thesis using None by (auto simp: open_result_def enter_hsock_def os_alloc_def os_later_def all_work_def)
next
  case (Some host)
  let ?t = "hsocks proto w"
  obtain v where v: "strncpy (zeros ADDRESS_MAX_LEN) (er_listen_addr e) (ADDRESS_MAX_LEN - 1) = Some v" "cstr v = cstr (er_listen_addr e)"
    using strncpy_cstr [of "ADDRESS_MAX_LEN - 1" "er_listen_addr e"] assms(4) by (auto simp: entrance_ok_def ADDRESS_MAX_LEN_def)
  define hs where "hs = \<lparr>hs_local_addr = v, hs_local_port = er_listen_port e, hs_tunnel_id = er_tunnel_id e, hs_peer_forward = er_node_id e,
    hs_fd = sockfd, hs_active = True\<rparr>"
  define t' where "t' = \<lparr>hsock_list = (hsock_list ?t)[hsock_cnt ?t := Some host], hsock_cnt = hsock_cnt ?t + 1, hsock_mem = (hsock_mem ?t)(host \<mapsto> hs)\<rparr>"
  have l: "hsock_cnt ?t < length (hsock_list ?t)" using assms by (simp add: table_ok_def)
  have new: "hsock_mem ?t host = None" using assms(3) Some by (auto simp: fresh_heap_def)
  then have h: "host \<notin> set (sock_addrs ?t)" using assms(1) by (auto simp: table_ok_def)
  have tk: "take (hsock_cnt ?t + 1) ((hsock_list ?t)[hsock_cnt ?t := Some host]) = map Some (sock_addrs ?t @ [host])"
    using l table_ok_list [OF assms(1)] by (simp add: take_Suc_conv_app_nth)
  have ok: "table_ok t'" "sock_addrs t' = sock_addrs ?t @ [host]" unfolding t'_def
    by (rule table_okI [where as = "sock_addrs ?t @ [host]"]; use tk assms(1,2) h in \<open>auto simp: table_ok_def\<close>)+
  have "socks t' = socks ?t @ [hs]" using ok(2) h by (auto simp: socks_def t'_def)
  then have "opened ?t e t'" using ok(1) v(2) by (auto simp: opened_def hs_def port_of_def port_key_def)
  moreover have "enter_hsock proto w sockfd e = Some (set_hsocks proto t' (fst (os_alloc w)), 0)"
    using Some v(1) l by (simp add: enter_hsock_def os_alloc_def Let_def t'_def hs_def)
  moreover have "fresh_heap t' (lw_os (fst (os_alloc w)))"
    using fresh_heap_next [OF assms(3), of t'] fresh_heap_unused [OF assms(3) Some] by (simp add: os_alloc_def t'_def)
  moreover have "os_later (lw_os w) (lw_os (fst (os_alloc w)))" by (simp add: os_later_def os_alloc_def all_work_def)
  ultimately show ?thesis by (simp add: open_result_def)
qed

section \<open>TCP and UDP\<close>

lemma open_failed: "quiet proto w w' \<Longrightarrow> fresh_heap (hsocks proto w) (lw_os w) \<Longrightarrow> ret \<noteq> 0 \<Longrightarrow> open_result proto w e (Some (w', ret))"
  by (simp add: open_result_def quiet_def)

lemma open_entered:
  assumes "quiet proto w v" "table_ok (hsocks proto w)" "hsock_cnt (hsocks proto w) < MAX_PORT_NUM" "fresh_heap (hsocks proto w) (lw_os w)" "entrance_ok e"
  shows "open_result proto w e (enter_hsock proto v sockfd e)"
proof -
  have v: "hsocks proto v = hsocks proto w" "os_later (lw_os w) (lw_os v)" "fresh_heap (hsocks proto w) (lw_os v)"
    using assms(1,4) by (simp_all add: quiet_def)
  then have "open_result proto v e (enter_hsock proto v sockfd e)" using enter_hsock_ok [of proto v e sockfd] assms by simp
  then obtain w' ret where w': "enter_hsock proto v sockfd e = Some (w', ret)" "fresh_heap (hsocks proto w') (lw_os w')"
    "os_later (lw_os v) (lw_os w')" "if ret = 0 then opened (hsocks proto v) e (hsocks proto w') else hsocks proto w' = hsocks proto v"
    unfolding open_result_def by blast
  have "os_later (lw_os w) (lw_os w')" using v(2) w'(3) by (auto simp: os_later_def)
  then show ?thesis using w' v(1) by (simp add: open_result_def split: if_split_asm)
qed

lemma entered_works: "all_work (lw_os v) \<Longrightarrow> enter_hsock proto v sockfd e = Some (w', ret) \<Longrightarrow> ret = 0"
proof -
  assume a: "all_work (lw_os v)" "enter_hsock proto v sockfd e = Some (w', ret)"
  obtain host where "os_malloc (lw_os v) 0 = Some host" using a(1) by (auto simp: all_work_def)
  then show ?thesis using a(2) by (auto simp: enter_hsock_def os_alloc_def Let_def bind_eq_Some_conv split: if_splits)
qed

lemma resolves_family: "resolves (lw_os w) e \<Longrightarrow> \<exists>af. get_addr_family w (er_listen_addr e) = Some af"
  by (cases "os_pton (lw_os w) AF_INET (cstr (er_listen_addr e))") (simp_all add: resolves_def get_addr_family_def)

text \<open>The calls of \<open>tcp_local_init\<close> in front of \<open>bind\<close>.\<close>

definition tcp_options :: "lf_world \<Rightarrow> lf_world" where
  "tcp_options w = (let w = (if sv_tcp_nodelay (service w) \<noteq> 0 then fst (os_call w) else w)
     in if sv_tcp_fastopen (service w) \<noteq> 0 then fst (os_call w) else w)"

lemma quiet_options: "quiet proto w (tcp_options w)"
  using quiet_calls(1) quiet_trans by (simp add: tcp_options_def Let_def) blast

lemma tcp_local_init_eq:
  "tcp_local_init w e =
     (case get_addr_family w (er_listen_addr e) of None \<Rightarrow> Some (w, -1)
      | Some af \<Rightarrow>
          let v = fst (os_open w); sockfd = snd (os_open w); b = bind_entrance (tcp_options v) sockfd af e; c = os_call (fst b)
          in if sockfd < 0 then Some (v, -1) else if snd b \<noteq> 0 then Some (fst b, snd b)
             else if snd c < 0 then Some (os_do (Closed sockfd) (fst c), -3) else enter_hsock PROTOCOL_TCP (os_do (Listening sockfd) (fst c)) sockfd e)"
  by (simp add: tcp_local_init_def tcp_options_def Let_def split_beta split: option.splits)

lemma udp_local_init_eq:
  "udp_local_init w e =
     (if hsock_cnt (lw_udp_hsocks w) \<ge> MAX_PORT_NUM then Some (w, -1)
      else case get_addr_family w (er_listen_addr e) of None \<Rightarrow> Some (w, -1)
      | Some af \<Rightarrow>
          let v = fst (os_open w); sockfd = snd (os_open w); b = bind_entrance v sockfd af e
          in if sockfd < 0 then Some (v, -1) else if snd b \<noteq> 0 then Some (fst b, snd b) else enter_hsock PROTOCOL_UDP (fst b) sockfd e)"
  by (simp add: udp_local_init_def Let_def split_beta split: option.splits)

lemma tcp_open:
  assumes "table_ok (hsocks PROTOCOL_TCP w)" "hsock_cnt (hsocks PROTOCOL_TCP w) < MAX_PORT_NUM" "fresh_heap (hsocks PROTOCOL_TCP w) (lw_os w)" "entrance_ok e"
  shows "open_result PROTOCOL_TCP w e (tcp_local_init w e)"
proof (cases "get_addr_family w (er_listen_addr e)")
  case None
  then show ?thesis using open_failed [OF quiet_refl assms(3)] by (simp add: tcp_local_init_eq)
next
  case (Some af)
  define v sockfd where v: "v = fst (os_open w)" and sockfd: "sockfd = snd (os_open w)"
  define b where b: "b = bind_entrance (tcp_options v) sockfd af e"
  define c where c: "c = os_call (fst b)"
  have qv: "quiet PROTOCOL_TCP w v" using v quiet_calls(2) by simp
  also have "quiet PROTOCOL_TCP v (tcp_options v)" by (rule quiet_options)
  also have "quiet PROTOCOL_TCP (tcp_options v) (fst b)" using b quiet_bind by simp
  finally have qb: "quiet PROTOCOL_TCP w (fst b)" .
  also have "quiet PROTOCOL_TCP (fst b) (fst c)" using c quiet_calls(1) by simp
  finally have qc: "quiet PROTOCOL_TCP w (os_do a (fst c))" for a using quiet_calls(3) quiet_trans by blast
  have "tcp_local_init w e = (if sockfd < 0 then Some (v, -1) else if snd b \<noteq> 0 then Some (fst b, snd b)
      else if snd c < 0 then Some (os_do (Closed sockfd) (fst c), -3) else enter_hsock PROTOCOL_TCP (os_do (Listening sockfd) (fst c)) sockfd e)"
    using Some by (simp add: tcp_local_init_eq Let_def v sockfd b c)
  then show ?thesis
    using open_failed [OF qv assms(3)] open_failed [OF qb assms(3)] open_failed [OF qc assms(3)] open_entered [OF qc assms]
    by (simp del: add_log_simps prod.collapse)
qed

lemma udp_open:
  assumes "table_ok (hsocks PROTOCOL_UDP w)" "hsock_cnt (hsocks PROTOCOL_UDP w) < MAX_PORT_NUM" "fresh_heap (hsocks PROTOCOL_UDP w) (lw_os w)" "entrance_ok e"
  shows "open_result PROTOCOL_UDP w e (udp_local_init w e)"
proof (cases "get_addr_family w (er_listen_addr e)")
  case None
  then show ?thesis using open_failed [OF quiet_refl assms(3)] by (simp add: udp_local_init_eq)
next
  case (Some af)
  define v sockfd where v: "v = fst (os_open w)" and sockfd: "sockfd = snd (os_open w)"
  define b where b: "b = bind_entrance v sockfd af e"
  have qv: "quiet PROTOCOL_UDP w v" using v quiet_calls(2) by simp
  also have "quiet PROTOCOL_UDP v (fst b)" using b quiet_bind by simp
  finally have qb: "quiet PROTOCOL_UDP w (fst b)" .
  have room: "\<not> MAX_PORT_NUM \<le> hsock_cnt (lw_udp_hsocks w)" using assms(2) by (simp add: hsocks_def PROTOCOL_UDP_def PROTOCOL_TCP_def)
  have "udp_local_init w e = (if sockfd < 0 then Some (v, -1) else if snd b \<noteq> 0 then Some (fst b, snd b) else enter_hsock PROTOCOL_UDP (fst b) sockfd e)"
    using Some room by (simp add: udp_local_init_eq Let_def v sockfd b)
  then show ?thesis using open_failed [OF qv assms(3)] open_failed [OF qb assms(3)] open_entered [OF qb assms]
    by (simp del: prod.collapse)
qed

lemma quiet_works: "quiet proto w v \<Longrightarrow> all_work (lw_os w) \<Longrightarrow> all_work (lw_os v)"
  by (simp add: quiet_def os_later_def)

lemma tcp_works: "all_work (lw_os w) \<Longrightarrow> resolves (lw_os w) e \<Longrightarrow> tcp_local_init w e = Some (w', ret) \<Longrightarrow> ret = 0"
proof -
  assume a: "all_work (lw_os w)" "resolves (lw_os w) e" "tcp_local_init w e = Some (w', ret)"
  obtain af where af: "get_addr_family w (er_listen_addr e) = Some af" using resolves_family [OF a(2)] by blast
  define v sockfd where v: "v = fst (os_open w)" and sockfd: "sockfd = snd (os_open w)"
  define b where b: "b = bind_entrance (tcp_options v) sockfd af e"
  have v1: "all_work (lw_os v)" using v quiet_works [OF quiet_calls(2) a(1)] by simp
  note o1 = quiet_works [OF quiet_options v1]
  have b1: "all_work (lw_os (fst b))" using b quiet_works [OF quiet_bind o1] by simp
  have c1: "all_work (lw_os (os_do x (fst (os_call (fst b)))))" for x by (rule quiet_works [OF quiet_calls(3) quiet_works [OF quiet_calls(1) b1]])
  show "ret = 0"
    using a(3) af works_calls(2) [OF a(1)] works_calls(4) [OF o1, of sockfd af e] works_calls(1) [OF b1] entered_works [OF c1]
    by (simp add: tcp_local_init_eq Let_def v [symmetric] sockfd [symmetric] b [symmetric] del: add_log_simps)
qed

lemma udp_works: "all_work (lw_os w) \<Longrightarrow> resolves (lw_os w) e \<Longrightarrow> hsock_cnt (hsocks PROTOCOL_UDP w) < MAX_PORT_NUM \<Longrightarrow>
    udp_local_init w e = Some (w', ret) \<Longrightarrow> ret = 0"
proof -
  assume a: "all_work (lw_os w)" "resolves (lw_os w) e" "hsock_cnt (hsocks PROTOCOL_UDP w) < MAX_PORT_NUM" "udp_local_init w e = Some (w', ret)"
  obtain af where af: "get_addr_family w (er_listen_addr e) = Some af" using resolves_family [OF a(2)] by blast
  define v sockfd where v: "v = fst (os_open w)" and sockfd: "sockfd = snd (os_open w)"
  define b where b: "b = bind_entrance v sockfd af e"
  have v1: "all_work (lw_os v)" using v quiet_works [OF quiet_calls(2) a(1)] by simp
  have b1: "all_work (lw_os (fst b))" using b quiet_works [OF quiet_bind v1] by simp
  have room: "\<not> MAX_PORT_NUM \<le> hsock_cnt (lw_udp_hsocks w)" using a(3) by (simp add: hsocks_def PROTOCOL_UDP_def PROTOCOL_TCP_def)
  show "ret = 0"
    using a(4) af room works_calls(2) [OF a(1)] works_calls(4) [OF v1, of sockfd af e] entered_works [OF b1]
    by (simp add: udp_local_init_eq Let_def v [symmetric] sockfd [symmetric] b [symmetric])
qed

interpretation tcp: entrance PROTOCOL_TCP tcp_local_init
  by unfold_locales (use tcp_open tcp_works in \<open>auto simp: open_result_def\<close>)

interpretation udp: entrance PROTOCOL_UDP udp_local_init
  by unfold_locales (use udp_open udp_works in \<open>auto simp: open_result_def\<close>)

section \<open>Reloading\<close>

lemma kept_cases:
  "(if kept proto rules hs then retag proto rules hs \<in> A else B) =
     (case find (\<lambda>e. er_protocol e = proto \<and> same_port hs e) rules of Some e \<Rightarrow> hs\<lparr>hs_tunnel_id := er_tunnel_id e\<rparr> \<in> A | None \<Rightarrow> B)"
  by (cases "rule_of proto rules hs") (simp_all add: kept_def retag_def rule_of_def)

lemma active_rules_eq: "\<exists>e\<in>set es. er_listen_port e = 0 \<Longrightarrow> active_rules es = Some (takeWhile (\<lambda>e. er_listen_port e \<noteq> 0) es)"
  by (induction es) auto

lemma rules_active:
  assumes "rules_ok entrance_ok zero_entrance es"
  shows "active_rules es = Some (takeWhile (\<lambda>e. er_listen_port e \<noteq> 0) es)" "length (takeWhile (\<lambda>e. er_listen_port e \<noteq> 0) es) \<le> MAX_PORT_NUM"
    "\<forall>e\<in>set (takeWhile (\<lambda>e. er_listen_port e \<noteq> 0) es). entrance_ok e"
proof -
  let ?P = "\<lambda>e. er_listen_port e \<noteq> 0"
  have z: "es ! MAX_PORT_NUM = zero_entrance" "MAX_PORT_NUM < length es" "list_all entrance_ok es" using assms by (simp_all add: rules_ok_def)
  then have "zero_entrance \<in> set es" by (metis nth_mem)
  then show "active_rules es = Some (takeWhile ?P es)" by (intro active_rules_eq bexI [of _ zero_entrance]) (simp_all add: zero_entrance_def)
  show "length (takeWhile ?P es) \<le> MAX_PORT_NUM"
  proof (rule ccontr)
    assume "\<not> ?thesis"
    then have l: "MAX_PORT_NUM < length (takeWhile ?P es)" by simp
    have "takeWhile ?P es ! MAX_PORT_NUM \<in> set (takeWhile ?P es)" "takeWhile ?P es ! MAX_PORT_NUM = es ! MAX_PORT_NUM"
      using nth_mem [OF l] takeWhile_nth [OF l] by simp_all
    then have "?P zero_entrance" using z(1) set_takeWhileD [of zero_entrance ?P es] by simp
    then show False by (simp add: zero_entrance_def)
  qed
  show "\<forall>e\<in>set (takeWhile ?P es). entrance_ok e" using z(3) set_takeWhileD by (fastforce simp: list_all_iff)
qed

text \<open>
  C21. Reloading the TCP entrances refines the rules: with a table of different ports the reload returns and never leaves its
  table. After it the ports are still different, and every socket belongs to a TCP rule and has its tunnel. A socket
  whose port still has a rule stays open under the tunnel of that rule, every other one is closed. When the
  calls of the system succeed, every rule has its socket.
\<close>

theorem tcp_reload_refines:
  fixes entrances :: "entrance_rule list"
  defines "rules \<equiv> takeWhile (\<lambda>e. er_listen_port e \<noteq> 0) entrances"
  assumes "table_ok (lw_tcp_hsocks w)" "fresh_heap (lw_tcp_hsocks w) (lw_os w)" "distinct (map port_of (socks (lw_tcp_hsocks w)))"
    "rules_ok entrance_ok zero_entrance entrances"
  shows "\<exists>w'. tcp_local_reload w entrances = Some (w', 0) \<and> table_ok (lw_tcp_hsocks w') \<and> distinct (map port_of (socks (lw_tcp_hsocks w'))) \<and>
    (\<forall>hs\<in>set (socks (lw_tcp_hsocks w')). \<exists>e\<in>set rules. er_protocol e = PROTOCOL_TCP \<and> same_port hs e \<and> hs_tunnel_id hs = er_tunnel_id e) \<and>
    (\<forall>hs\<in>set (socks (lw_tcp_hsocks w)). case find (\<lambda>e. er_protocol e = PROTOCOL_TCP \<and> same_port hs e) rules of
        Some e \<Rightarrow> hs\<lparr>hs_tunnel_id := er_tunnel_id e\<rparr> \<in> set (socks (lw_tcp_hsocks w'))
      | None \<Rightarrow> Closed (hs_fd hs) \<in> set (os_log (lw_os w'))) \<and>
    (all_work (lw_os w) \<and> (\<forall>e\<in>set rules. resolves (lw_os w) e) \<longrightarrow>
      (\<forall>e\<in>set rules. er_protocol e = PROTOCOL_TCP \<longrightarrow> (\<exists>hs\<in>set (socks (lw_tcp_hsocks w')). same_port hs e)))"
proof -
  have r: "active_rules entrances = Some rules" "length rules \<le> MAX_PORT_NUM" "\<forall>e\<in>set rules. entrance_ok e"
    using rules_active [OF assms(5)] by (simp_all add: rules_def)
  have t: "hsocks PROTOCOL_TCP u = lw_tcp_hsocks u" for u by (simp add: hsocks_def PROTOCOL_UDP_def PROTOCOL_TCP_def)
  obtain w' where w': "tcp_local_reload w entrances = Some (w', 0)" "entrance_inv PROTOCOL_TCP rules w'"
    "\<And>hs. hs \<in> set (socks (lw_tcp_hsocks w)) \<Longrightarrow> if kept PROTOCOL_TCP rules hs then retag PROTOCOL_TCP rules hs \<in> set (socks (lw_tcp_hsocks w'))
       else Closed (hs_fd hs) \<in> set (os_log (lw_os w'))"
    "all_work (lw_os w) \<and> (\<forall>e\<in>set rules. resolves (lw_os w) e) \<longrightarrow>
      (\<forall>e\<in>set rules. er_protocol e = PROTOCOL_TCP \<longrightarrow> (\<exists>hs\<in>set (socks (lw_tcp_hsocks w')). same_port hs e))"
    using tcp.reload_ok [OF _ _ _ r, of w] assms(2-4) unfolding t tcp_local_reload_def by blast
  moreover have "case find (\<lambda>e. er_protocol e = PROTOCOL_TCP \<and> same_port hs e) rules of
        Some e \<Rightarrow> hs\<lparr>hs_tunnel_id := er_tunnel_id e\<rparr> \<in> set (socks (lw_tcp_hsocks w'))
      | None \<Rightarrow> Closed (hs_fd hs) \<in> set (os_log (lw_os w'))" if "hs \<in> set (socks (lw_tcp_hsocks w))" for hs
    using w'(3) [OF that] by (simp only: kept_cases)
  ultimately show ?thesis by (intro exI [of _ w']) (simp add: entrance_inv_def tagged_def t)
qed

text \<open>
  Reloading the UDP entrances refines the rules: with a table of different ports the reload returns and never leaves its
  table. After it the ports are still different, and every socket belongs to a UDP rule and has its tunnel. A socket
  whose port still has a rule stays open under the tunnel of that rule, every other one is closed. When the
  calls of the system succeed, every rule has its socket.
\<close>

theorem udp_reload_refines:
  fixes entrances :: "entrance_rule list"
  defines "rules \<equiv> takeWhile (\<lambda>e. er_listen_port e \<noteq> 0) entrances"
  assumes "table_ok (lw_udp_hsocks w)" "fresh_heap (lw_udp_hsocks w) (lw_os w)" "distinct (map port_of (socks (lw_udp_hsocks w)))"
    "rules_ok entrance_ok zero_entrance entrances"
  shows "\<exists>w'. udp_local_reload w entrances = Some (w', 0) \<and> table_ok (lw_udp_hsocks w') \<and> distinct (map port_of (socks (lw_udp_hsocks w'))) \<and>
    (\<forall>hs\<in>set (socks (lw_udp_hsocks w')). \<exists>e\<in>set rules. er_protocol e = PROTOCOL_UDP \<and> same_port hs e \<and> hs_tunnel_id hs = er_tunnel_id e) \<and>
    (\<forall>hs\<in>set (socks (lw_udp_hsocks w)). case find (\<lambda>e. er_protocol e = PROTOCOL_UDP \<and> same_port hs e) rules of
        Some e \<Rightarrow> hs\<lparr>hs_tunnel_id := er_tunnel_id e\<rparr> \<in> set (socks (lw_udp_hsocks w'))
      | None \<Rightarrow> Closed (hs_fd hs) \<in> set (os_log (lw_os w'))) \<and>
    (all_work (lw_os w) \<and> (\<forall>e\<in>set rules. resolves (lw_os w) e) \<longrightarrow>
      (\<forall>e\<in>set rules. er_protocol e = PROTOCOL_UDP \<longrightarrow> (\<exists>hs\<in>set (socks (lw_udp_hsocks w')). same_port hs e)))"
proof -
  have r: "active_rules entrances = Some rules" "length rules \<le> MAX_PORT_NUM" "\<forall>e\<in>set rules. entrance_ok e"
    using rules_active [OF assms(5)] by (simp_all add: rules_def)
  have t: "hsocks PROTOCOL_UDP u = lw_udp_hsocks u" for u by (simp add: hsocks_def PROTOCOL_UDP_def PROTOCOL_TCP_def)
  obtain w' where w': "udp_local_reload w entrances = Some (w', 0)" "entrance_inv PROTOCOL_UDP rules w'"
    "\<And>hs. hs \<in> set (socks (lw_udp_hsocks w)) \<Longrightarrow> if kept PROTOCOL_UDP rules hs then retag PROTOCOL_UDP rules hs \<in> set (socks (lw_udp_hsocks w'))
       else Closed (hs_fd hs) \<in> set (os_log (lw_os w'))"
    "all_work (lw_os w) \<and> (\<forall>e\<in>set rules. resolves (lw_os w) e) \<longrightarrow>
      (\<forall>e\<in>set rules. er_protocol e = PROTOCOL_UDP \<longrightarrow> (\<exists>hs\<in>set (socks (lw_udp_hsocks w')). same_port hs e))"
    using udp.reload_ok [OF _ _ _ r, of w] assms(2-4) unfolding t udp_local_reload_def by blast
  moreover have "case find (\<lambda>e. er_protocol e = PROTOCOL_UDP \<and> same_port hs e) rules of
        Some e \<Rightarrow> hs\<lparr>hs_tunnel_id := er_tunnel_id e\<rparr> \<in> set (socks (lw_udp_hsocks w'))
      | None \<Rightarrow> Closed (hs_fd hs) \<in> set (os_log (lw_os w'))" if "hs \<in> set (socks (lw_udp_hsocks w))" for hs
    using w'(3) [OF that] by (simp only: kept_cases)
  ultimately show ?thesis by (intro exI [of _ w']) (simp add: entrance_inv_def tagged_def t)
qed

text \<open>A table with one socket, and rules that keep its port and add another one.\<close>

definition sample_hsocks :: hsock_table where
  "sample_hsocks = \<lparr>hsock_list = Some 5 # replicate MAX_PORT_NUM None, hsock_cnt = 1, hsock_mem = [5 \<mapsto>
     \<lparr>hs_local_addr = zeros ADDRESS_MAX_LEN, hs_local_port = 80, hs_tunnel_id = 1, hs_peer_forward = 0, hs_fd = 4, hs_active = True\<rparr>]\<rparr>"

definition sample_rules :: "u16 \<Rightarrow> entrance_rule list" where
  "sample_rules proto = zero_entrance\<lparr>er_listen_port := 80, er_tunnel_id := 2, er_protocol := proto\<rparr> #
     zero_entrance\<lparr>er_listen_port := 81, er_tunnel_id := 3, er_protocol := proto\<rparr> # replicate (MAX_PORT_NUM - 1) zero_entrance"

lemma sample_hsocks_ok: "table_ok sample_hsocks" "fresh_heap sample_hsocks sample_os" "distinct (map port_of (socks sample_hsocks))"
  by (simp_all add: sample_hsocks_def table_ok_def sock_addrs_def socks_def fresh_heap_def sample_os_def)

lemma sample_rules_ok: "rules_ok entrance_ok zero_entrance (sample_rules proto)"
  by (simp add: rules_ok_def sample_rules_def entrance_ok_def zero_entrance_def config_sizes list_all_iff)

theorem tcp_reload_refines_witness:
  "\<exists>w'. tcp_local_reload (sample_world\<lparr>lw_tcp_hsocks := sample_hsocks\<rparr>) (sample_rules PROTOCOL_TCP) = Some (w', 0) \<and> table_ok (lw_tcp_hsocks w')"
  using tcp_reload_refines [of "sample_world\<lparr>lw_tcp_hsocks := sample_hsocks\<rparr>" "sample_rules PROTOCOL_TCP"] sample_hsocks_ok sample_rules_ok
  by (simp add: sample_world_def static_world_def) blast

theorem udp_reload_refines_witness:
  "\<exists>w'. udp_local_reload (sample_world\<lparr>lw_udp_hsocks := sample_hsocks\<rparr>) (sample_rules PROTOCOL_UDP) = Some (w', 0) \<and> table_ok (lw_udp_hsocks w')"
  using udp_reload_refines [of "sample_world\<lparr>lw_udp_hsocks := sample_hsocks\<rparr>" "sample_rules PROTOCOL_UDP"] sample_hsocks_ok sample_rules_ok
  by (simp add: sample_world_def static_world_def) blast

end
