(* ===== verification/LiteflowCorrect.thy ===== *)
theory LiteflowCorrect
  imports LiteflowEvents FlowCorrect ConfigCorrect
begin

text \<open>
  What the callbacks of the program may do: which outgoing connections a peer can cause, and which
  addresses are taken for the same peer.
\<close>

section \<open>Outgoing connections\<close>

text \<open>The system after some calls: the log has grown, by connections to addresses of a set only.\<close>

definition only :: "sockaddr set \<Rightarrow> lf_world \<Rightarrow> lf_world \<Rightarrow> bool" where
  "only S w w' \<longleftrightarrow> os_pton (lw_os w') = os_pton (lw_os w) \<and>
     (\<exists>as. os_log (lw_os w') = os_log (lw_os w) @ as \<and> (\<forall>fd a. Connected fd a \<in> set as \<longrightarrow> a \<in> S))"

lemma only_refl [simp]: "only S w w"
  by (simp add: only_def)

lemma only_trans: "only S u v \<Longrightarrow> only S v w \<Longrightarrow> only S u w"
  unfolding only_def by (auto 4 4)

lemma only_calls [simp]:
  "only S w (fst (os_call w))" "only S w (fst (os_open w))" "only S w (fst (os_alloc w))" "only S w (fst (set_nonblock w))"
  "only S w (os_do (Closed fd) w)" "a \<in> S \<Longrightarrow> only S w (os_do (Connected fd a) w)"
  by (auto simp: only_def os_call_def os_open_def os_alloc_def set_nonblock_def os_do_def upd_os_def Let_def)

lemma only_os: "lw_os w' = lw_os w \<Longrightarrow> only S w w'"
  by (simp add: only_def)

lemma upd_peer_os: "upd_peer a f w = Some w' \<Longrightarrow> lw_os w' = lw_os w"
  by (auto simp: upd_peer_def bind_eq_Some_conv)

lemma only_flows:
  "create_flow w peer flow = Some (w', ret) \<Longrightarrow> only S w w'" "release_flow w peer flow = Some w' \<Longrightarrow> only S w w'"
  "bind_flow w peer flow ext cbs = Some w' \<Longrightarrow> only S w w'"
proof -
  show "create_flow w peer flow = Some (w', ret) \<Longrightarrow> only S w w'"
    using only_calls(3) [of S w]
    by (auto simp: create_flow_def bind_eq_Some_conv Let_def split_beta only_def dest!: upd_peer_os split: if_splits)
  show "release_flow w peer flow = Some w' \<Longrightarrow> only S w w'"
    by (auto simp: release_flow_def bind_eq_Some_conv intro!: only_os dest: upd_peer_os)
  show "bind_flow w peer flow ext cbs = Some w' \<Longrightarrow> only S w w'"
    by (auto simp: bind_flow_def set_flow_info_def bind_eq_Some_conv intro!: only_os dest: upd_peer_os)
qed

lemma only_fill: "only S w w' \<Longrightarrow> fill_sockaddr w' = fill_sockaddr w"
  by (intro ext) (simp add: only_def fill_sockaddr_def)

text \<open>
  The end of \<open>tcp_remote_init\<close> and \<open>udp_remote_init\<close>: the flow, the connection and the entry of the flow. The two
  have different results, the program and the host that carries it.
\<close>

definition connect_flow ::
  "lf_world \<Rightarrow> int \<Rightarrow> sockaddr \<Rightarrow> addr \<Rightarrow> u32 \<Rightarrow> (lf_world \<Rightarrow> int \<Rightarrow> 'r) \<Rightarrow> (lf_world \<Rightarrow> 'r option) \<Rightarrow> 'r option" where
  "connect_flow w sockfd a peer flow result done = do {
     (w, ret) \<leftarrow> create_flow w peer flow;
     if ret \<noteq> 0 then Some (result (os_do (Closed sockfd) w) ret)
     else do {
       let (w, ret) = os_call w;
       let w = os_do (Connected sockfd a) w;
       if ret < 0 \<and> - ret \<noteq> EINPROGRESS then do {
         w \<leftarrow> release_flow (os_do (Closed sockfd) w) peer flow;
         Some (result w LITEFLOW_CONNECT_FAIL)
       }
       else done w
     }
   }"

lemma connect_flow_only:
  assumes "connect_flow w sockfd a peer flow result done = Some r'" "a \<in> S"
    "\<And>v. only S w v \<Longrightarrow> done v = Some r' \<Longrightarrow> only S v (get r')" "\<And>v ret. get (result v ret) = v"
  shows "only S w (get r')"
proof -
  obtain v r where v: "create_flow w peer flow = Some (v, r)" using assms(1) by (auto simp: connect_flow_def bind_eq_Some_conv)
  have 1: "only S w v" by (rule only_flows(1) [OF v])
  have 2: "only S w (os_do (Closed sockfd) v)" using only_trans [OF 1 only_calls(5)] .
  have 3: "only S w (os_do (Connected sockfd a) (fst (os_call v)))"
    by (rule only_trans [OF only_trans [OF 1 only_calls(1)] only_calls(6) [OF assms(2)]])
  have 4: "release_flow (os_do (Closed sockfd) (os_do (Connected sockfd a) (fst (os_call v)))) peer flow = Some u \<Longrightarrow> only S w u" for u
    using only_trans [OF only_trans [OF 3 only_calls(5)] only_flows(2)] by blast
  have 5: "done (os_do (Connected sockfd a) (fst (os_call v))) = Some r' \<Longrightarrow> only S w (get r')"
    using only_trans [OF 3 assms(3) [OF 3]] by blast
  show ?thesis using assms(1,4) v 2 4 5 by (auto simp: connect_flow_def Let_def split_beta bind_eq_Some_conv split: if_splits)
qed

definition tcp_connect_options :: "lf_world \<Rightarrow> lf_world" where
  "tcp_connect_options w = (let w = (if sv_tcp_nodelay (service w) \<noteq> 0 then fst (os_call w) else w)
     in if sv_tcp_fastopen_connect (service w) \<noteq> 0 then fst (os_call w) else w)"

lemma tcp_remote_init_eq:
  "tcp_remote_init w peer flow ip port =
     (case get_addr_family w ip of None \<Rightarrow> Some (w, LITEFLOW_PARAMETER_ERROR)
      | Some af \<Rightarrow>
          let v1 = fst (os_open w); sockfd = snd (os_open w); v2 = fst (set_nonblock (tcp_connect_options v1)); v3 = fst (os_alloc v2)
          in if sockfd < 0 then Some (v1, LITEFLOW_INTERNAL_ERROR)
             else if \<not> snd (set_nonblock (tcp_connect_options v1)) then Some (os_do (Closed sockfd) v2, LITEFLOW_INTERNAL_ERROR)
             else case snd (os_alloc v2) of None \<Rightarrow> Some (os_do (Closed sockfd) v3, LITEFLOW_MEM_ALLOC_ERROR)
             | Some ext \<Rightarrow> connect_flow v3 sockfd (fst (fill_sockaddr v3 af ip port)) peer flow Pair (\<lambda>w. do {
                 w \<leftarrow> bind_flow w peer flow ext Tcp_flow;
                 Some (new_tcp_flow w ext sockfd peer flow, 0)
               }))"
  by (simp add: tcp_remote_init_def tcp_connect_options_def connect_flow_def Let_def split_beta split: option.splits)

lemma tcp_remote_init_only:
  assumes "tcp_remote_init w peer flow ip port = Some (w', ret)"
    "\<And>af. get_addr_family w ip = Some af \<Longrightarrow> fst (fill_sockaddr w af ip port) \<in> S"
  shows "only S w w'"
proof (cases "get_addr_family w ip")
  case None
  then show ?thesis using assms(1) by (simp add: tcp_remote_init_eq)
next
  case (Some af)
  define v1 sockfd where v1: "v1 = fst (os_open w)" and sockfd: "sockfd = snd (os_open w)"
  define v2 v3 where v2: "v2 = fst (set_nonblock (tcp_connect_options v1))" and v3: "v3 = fst (os_alloc v2)"
  have 1: "only S w v1" using v1 by simp
  have o: "only S v1 (tcp_connect_options v1)"
    using only_trans [OF only_calls(1) only_calls(1)] by (simp add: tcp_connect_options_def Let_def)
  have 2: "only S w v2" unfolding v2 by (rule only_trans [OF only_trans [OF 1 o] only_calls(4)])
  have 3: "only S w v3" unfolding v3 by (rule only_trans [OF 2 only_calls(3)])
  have c: "only S w (os_do (Closed sockfd) v2)" "only S w (os_do (Closed sockfd) v3)"
    using only_trans [OF 2 only_calls(5)] only_trans [OF 3 only_calls(5)] by blast+
  have d: "only S v w'" if "do { w \<leftarrow> bind_flow v peer flow ext Tcp_flow; Some (new_tcp_flow w ext sockfd peer flow, 0) } = Some (w', ret)" for v ext
    using that only_flows(3) [of v peer flow ext Tcp_flow _ S] by (auto simp: bind_eq_Some_conv new_tcp_flow_def only_def)
  have f: "connect_flow v3 sockfd (fst (fill_sockaddr v3 af ip port)) peer flow Pair (\<lambda>w. do {
      w \<leftarrow> bind_flow w peer flow ext Tcp_flow; Some (new_tcp_flow w ext sockfd peer flow, 0) }) = Some (w', ret) \<Longrightarrow> only S v3 w'" for ext
    using connect_flow_only [where get = fst and S = S and r' = "(w', ret)"] assms(2) [OF Some] only_fill [OF 3] d by simp
  show ?thesis using assms(1) Some 1 c only_trans [OF 3 f]
    by (auto simp: tcp_remote_init_eq Let_def v1 [symmetric] sockfd [symmetric] v2 [symmetric] v3 [symmetric] split: if_splits option.splits)
qed

abbreviation world :: "lf_host \<Rightarrow> lf_world" where
  "world h \<equiv> fst (litedt_ext h)"

lemma ext_upd [simp]: "litedt_ext (upd_world h w) = (w, snd (litedt_ext h))"
  by (simp add: upd_world_def litedt_ext_def litedt_set_ext_def)

lemma notify_ext:
  "litedt_set_notify_recv h flow b = Some h' \<Longrightarrow> litedt_ext h' = litedt_ext h"
  "litedt_set_notify_recvnew h flow b = Some h' \<Longrightarrow> litedt_ext h' = litedt_ext h"
  by (auto simp: litedt_set_notify_recv_def litedt_set_notify_recvnew_def set_notify_def put_conn_def litedt_ext_def bind_eq_Some_conv
      split: option.splits)

text \<open>The result of \<open>udp_remote_init\<close> on the host, from that on the program.\<close>

definition udp_done :: "lf_host \<Rightarrow> u32 \<Rightarrow> addr \<Rightarrow> int \<Rightarrow> lf_world \<Rightarrow> (lf_host \<times> int) option" where
  "udp_done h flow udp_ext sockfd = (\<lambda>w. do {
     w \<leftarrow> bind_flow w (snd (litedt_ext h)) flow udp_ext Udp_flow;
     let w = w\<lparr>lw_udp_flows := (lw_udp_flows w)(udp_ext \<mapsto> \<lparr>uf_read_active = Some True, uf_sock_fd = sockfd,
       uf_host_fd = 0, uf_sock_addr = Sockaddr_other 0, uf_addr_len = 0, uf_peer = Some (snd (litedt_ext h)), uf_flow = Some flow\<rparr>)\<rparr>;
     h \<leftarrow> litedt_set_notify_recv (upd_world h w) flow False;
     h \<leftarrow> litedt_set_notify_recvnew h flow True;
     Some (h, 0)
   })"

lemma udp_done_only: "udp_done h flow ext sockfd v = Some (h', ret) \<Longrightarrow> only S v (world h')"
  using only_flows(3) [of v "snd (litedt_ext h)" flow ext Udp_flow _ S]
  by (auto simp: udp_done_def bind_eq_Some_conv only_def Let_def dest!: notify_ext)

lemma udp_remote_init_only:
  assumes "udp_remote_init h flow ip port = Some (h', ret)"
    "\<And>af. get_addr_family (world h) ip = Some af \<Longrightarrow> fst (fill_sockaddr (world h) af ip port) \<in> S"
  shows "only S (world h) (world h')"
proof (cases "get_addr_family (world h) ip")
  case None
  then show ?thesis using assms(1) by (simp add: udp_remote_init_def split_beta)
next
  case (Some af)
  let ?peer = "snd (litedt_ext h)"
  define v1 sockfd where v1: "v1 = fst (os_open (world h))" and sockfd: "sockfd = snd (os_open (world h))"
  define v2 v3 where v2: "v2 = fst (set_nonblock v1)" and v3: "v3 = fst (os_alloc v2)"
  have 1: "only S (world h) v1" using v1 by simp
  have 2: "only S (world h) v2" unfolding v2 by (rule only_trans [OF 1 only_calls(4)])
  have 3: "only S (world h) v3" unfolding v3 by (rule only_trans [OF 2 only_calls(3)])
  have c: "only S (world h) (os_do (Closed sockfd) v2)" "only S (world h) (os_do (Closed sockfd) v3)"
    using only_trans [OF 2 only_calls(5)] only_trans [OF 3 only_calls(5)] by blast+
  have a: "fst (fill_sockaddr v3 af ip port) \<in> S" using assms(2) [OF Some] only_fill [OF 3] by simp
  have eq: "udp_remote_init h flow ip port =
      (if sockfd < 0 then Some (upd_world h v1, LITEFLOW_INTERNAL_ERROR)
       else if \<not> snd (set_nonblock v1) then Some (upd_world h (os_do (Closed sockfd) v2), LITEFLOW_INTERNAL_ERROR)
       else case snd (os_alloc v2) of None \<Rightarrow> Some (upd_world h (os_do (Closed sockfd) v3), LITEFLOW_MEM_ALLOC_ERROR)
       | Some ext \<Rightarrow> do {
           connect_flow v3 sockfd (fst (fill_sockaddr v3 af ip port)) ?peer flow (\<lambda>w ret. (upd_world h w, ret)) (udp_done h flow ext sockfd)
         })"
    unfolding v1 sockfd v2 v3 udp_remote_init_def connect_flow_def udp_done_def Let_def split_beta
    using Some by (simp split: option.splits)
  have f: "connect_flow v3 sockfd (fst (fill_sockaddr v3 af ip port)) ?peer flow (\<lambda>w ret. (upd_world h w, ret)) (udp_done h flow ext sockfd)
      = Some (h', ret) \<Longrightarrow> only S v3 (world h')" for ext
    using connect_flow_only [where get = "world \<circ> fst" and S = S and r' = "(h', ret)"] a udp_done_only [of h flow ext sockfd _ h' ret S] by simp
  show ?thesis using assms(1) 1 c only_trans [OF 3 f] unfolding eq by (auto split: if_splits option.splits)
qed

section \<open>The rules\<close>

definition allowed :: "lf_host \<Rightarrow> u16 \<Rightarrow> forward_rule \<Rightarrow> bool" where
  "allowed h tunnel_id r \<longleftrightarrow> fr_tunnel_id r = tunnel_id \<and> (fr_node_id r = 0 \<or> fr_node_id r = litedt_peer_node_id h) \<and>
     (fr_protocol r = PROTOCOL_TCP \<or> fr_protocol r = PROTOCOL_UDP)"

definition destination :: "lf_world \<Rightarrow> forward_rule \<Rightarrow> sockaddr option" where
  "destination w r = map_option (\<lambda>af. fst (fill_sockaddr w af (fr_destination_addr r) (fr_destination_port r)))
     (get_addr_family w (fr_destination_addr r))"

lemma connect_rule_only:
  assumes "connect_rule rs h flow tunnel_id = Some (h', ret)"
    "\<And>r a. r \<in> set (takeWhile (\<lambda>r. fr_destination_port r \<noteq> 0) rs) \<Longrightarrow> allowed h tunnel_id r \<Longrightarrow> destination (world h) r = Some a \<Longrightarrow> a \<in> S"
  shows "only S (world h) (world h')"
  using assms
proof (induction rs)
  case (Cons r rs)
  show ?case
  proof (cases "fr_destination_port r \<noteq> 0 \<and> allowed h tunnel_id r")
    case True
    then have S: "get_addr_family (world h) (fr_destination_addr r) = Some af \<Longrightarrow>
        fst (fill_sockaddr (world h) af (fr_destination_addr r) (fr_destination_port r)) \<in> S" for af
      using Cons.prems(2) [of r] by (simp add: destination_def)
    show ?thesis
    proof (cases "fr_protocol r = PROTOCOL_TCP")
      case tcp: True
      then obtain w' where "tcp_remote_init (world h) (snd (litedt_ext h)) flow (fr_destination_addr r) (fr_destination_port r) = Some (w', ret)"
        "h' = upd_world h w'" using Cons.prems(1) True by (auto simp: allowed_def bind_eq_Some_conv)
      then show ?thesis using tcp_remote_init_only S by simp
    next
      case False
      then have "udp_remote_init h flow (fr_destination_addr r) (fr_destination_port r) = Some (h', ret)"
        using Cons.prems(1) True by (auto simp: allowed_def split: if_splits)
      then show ?thesis using udp_remote_init_only S by blast
    qed
  next
    case False
    then have "h' = h \<or> connect_rule rs h flow tunnel_id = Some (h', ret) \<and> fr_destination_port r \<noteq> 0"
      using Cons.prems(1) by (auto simp: allowed_def split: if_splits)
    then show ?thesis using Cons.IH Cons.prems(2) by auto
  qed
qed simp

lemma connect_rule_denied:
  "\<exists>r\<in>set rs. fr_destination_port r = 0 \<Longrightarrow> \<forall>r\<in>set (takeWhile (\<lambda>r. fr_destination_port r \<noteq> 0) rs). \<not> allowed h tunnel_id r \<Longrightarrow>
     connect_rule rs h flow tunnel_id = Some (h, LITEFLOW_ACCESS_DENIED)"
  by (induction rs) (auto simp: allowed_def)

text \<open>
  C5. The other side of the tunnel reaches configured destinations only: whatever flow and tunnel it asks for, the program connects at
  most to the destination of a forward rule for this tunnel and this node, and when there is no such rule, it answers that access
  is denied and nothing else happens.
\<close>

theorem connect_only_configured:
  fixes h :: lf_host and tunnel_id :: u16
  defines "w \<equiv> fst (litedt_ext h)"
  defines "rules \<equiv> filter (\<lambda>r. fr_tunnel_id r = tunnel_id \<and> (fr_node_id r = 0 \<or> fr_node_id r = litedt_peer_node_id h) \<and>
    (fr_protocol r = PROTOCOL_TCP \<or> fr_protocol r = PROTOCOL_UDP))
    (takeWhile (\<lambda>r. fr_destination_port r \<noteq> 0) (gc_forward_rules (cs_config (lw_config w))))"
  assumes "rules_ok forward_ok zero_forward (gc_forward_rules (cs_config (lw_config w)))"
    "liteflow_on_connect h flow tunnel_id = Some (h', ret)"
  shows "\<exists>as. os_log (lw_os (fst (litedt_ext h'))) = os_log (lw_os w) @ as \<and>
    (\<forall>fd a. Connected fd a \<in> set as \<longrightarrow> (\<exists>r\<in>set rules. \<exists>af. get_addr_family w (fr_destination_addr r) = Some af \<and>
       a = fst (fill_sockaddr w af (fr_destination_addr r) (fr_destination_port r)))) \<and>
    (rules = [] \<longrightarrow> h' = h \<and> ret = LITEFLOW_ACCESS_DENIED)"
proof -
  let ?rs = "gc_forward_rules (cs_config (lw_config w))"
  let ?S = "{a. \<exists>r\<in>set rules. destination w r = Some a}"
  have c: "connect_rule ?rs h flow tunnel_id = Some (h', ret)" using assms(4) by (simp add: liteflow_on_connect_def w_def)
  have r: "r \<in> set rules \<longleftrightarrow> r \<in> set (takeWhile (\<lambda>r. fr_destination_port r \<noteq> 0) ?rs) \<and> allowed h tunnel_id r" for r
    by (auto simp: rules_def allowed_def)
  have "only ?S (fst (litedt_ext h)) (fst (litedt_ext h'))" by (rule connect_rule_only [OF c]) (use r in \<open>auto simp: w_def\<close>)
  then obtain as where as: "os_log (lw_os (fst (litedt_ext h'))) = os_log (lw_os w) @ as" "\<And>fd a. Connected fd a \<in> set as \<Longrightarrow> a \<in> ?S"
    unfolding only_def w_def by blast
  have "zero_forward \<in> set ?rs" using assms(3) by (metis nth_mem rules_ok_def less_add_one)
  then have z: "\<exists>r\<in>set ?rs. fr_destination_port r = 0" by (rule rev_bexI) (simp add: zero_forward_def)
  have "h' = h \<and> ret = LITEFLOW_ACCESS_DENIED" if "rules = []"
    using connect_rule_denied [OF z, of h tunnel_id flow] r that c by simp
  then show ?thesis using as by (intro exI [of _ as]) (fastforce simp: destination_def)
qed

theorem connect_only_configured_witness:
  "\<exists>h' ret. liteflow_on_connect (host_with (pi_dt sample_peer) (sample_world, 7)) 4 1 = Some (h', ret) \<and> ret = LITEFLOW_ACCESS_DENIED"
proof -
  let ?h = "host_with (pi_dt sample_peer) (sample_world, 7 :: nat)"
  have e: "litedt_ext ?h = (sample_world, 7)" by (simp add: litedt_ext_def host_with_def)
  have f: "gc_forward_rules (cs_config (lw_config sample_world)) = replicate (MAX_PORT_NUM + 1) zero_forward"
    by (simp add: sample_world_def static_world_def global_config_init_def)
  have t: "takeWhile (\<lambda>r. fr_destination_port r \<noteq> 0) (replicate (MAX_PORT_NUM + 1) zero_forward) = []" by (simp add: zero_forward_def)
  have "liteflow_on_connect ?h 4 1 = Some (?h, LITEFLOW_ACCESS_DENIED)"
    unfolding liteflow_on_connect_def e fst_conv f by (simp add: zero_forward_def)
  then show ?thesis using connect_only_configured [of ?h 4 1 ?h LITEFLOW_ACCESS_DENIED] unfolding e fst_conv f t by auto
qed

end
