(* ===== verification/Session.thy ===== *)
theory Session
  imports LitedtEvents
begin

text \<open>
  The session of two hosts: the exchange of a ping request and its response, which authenticates the
  two sides to each other by tokens over a shared password.
\<close>

section \<open>Tokens and packets\<close>

lemma token_of_total:
  assumes "length (cf_password cf) < 2 ^ 32" "length payload < 2 ^ 32"
  shows "token_of cf node_id payload = Some (sha256_ref (cf_password cf @ le 2 node_id @ payload))"
proof -
  let ?c = "\<lparr>sc_data = replicate 64 0, sc_datalen = 0, sc_bitlen = 0, sc_state = []\<rparr>"
  obtain ctx where c: "sha256_updates (sha256_init ?c) [cf_password cf, le 2 node_id, payload] = Some ctx"
    "holds (cf_password cf @ le 2 node_id @ payload) ctx"
    using updates_holds [OF holds_init [of ?c], of "[cf_password cf, le 2 node_id, payload]"] assms by auto
  then show ?thesis using final_holds [OF c(2)] by (auto simp: token_of_def bind_eq_Some_conv)
qed

lemma dec_header_enc: "dec_header (enc_header h @ rest) = Some (h, rest)"
  by (simp add: enc_header_def dec_header_def)

lemma dec_ping_enc: "length (pm_token m) = 32 \<Longrightarrow> dec_ping_req (enc_ping_req m) = Some (m, [])"
  using get_bytes_append [of "pm_token m" 32 "[]"] by (simp add: enc_ping_req_def dec_ping_req_def)

lemma ping_codecs: "enc_ping_rsp = enc_ping_req" "dec_ping_rsp = dec_ping_req"
  by (rule ext, simp add: enc_ping_rsp_def enc_ping_req_def dec_ping_rsp_def)+

lemma absorb_length: "length st = 8 \<Longrightarrow> length (absorb st bs) = 8"
proof (induction st bs rule: absorb.induct)
  case (1 st bs)
  have "length (sha256_compress st (take 64 bs)) = 8" by (simp add: sha256_compress_def split: prod.split)
  then show ?case using 1 by (subst absorb.simps) simp
qed

lemma sha256_length: "length (sha256_ref msg) = 32"
proof -
  have "length (concat (map sha256_word_bytes ws)) = 4 * length ws" for ws by (induction ws) (simp_all add: sha256_word_bytes_def)
  then show ?thesis using absorb_length [of sha256_iv "padded msg"] by (simp add: sha256_ref_def sha256_iv_def)
qed

text \<open>A message that is sent at once.\<close>

lemma send_msg_fields:
  "ho_sent (send_msg h cmd flow body) = (enc_header (build_litedt_header cmd flow) @ body) # ho_sent h"
  "ho_remote_online (send_msg h cmd flow body) = ho_remote_online h" "ho_peer_node_id (send_msg h cmd flow body) = ho_peer_node_id h"
  "ho_ping_id (send_msg h cmd flow body) = ho_ping_id h" "ho_prior_ping_time (send_msg h cmd flow body) = ho_prior_ping_time h"
  "ho_realtime (send_msg h cmd flow body) = ho_realtime h" "ho_clock (send_msg h cmd flow body) = ho_clock h"
  "ho_conn_queue (send_msg h cmd flow body) = ho_conn_queue h" "ho_node_id (send_msg h cmd flow body) = ho_node_id h"
  by (simp_all add: send_msg_def socket_send_def stat_upd_def Let_def)

text \<open>A packet with a header of this version reaches its handler.\<close>

definition arrived :: "'w litedt_host \<Rightarrow> u8 list \<Rightarrow> 'w litedt_host" where
  "arrived h buf = stat_upd (\<lambda>s. s\<lparr>st_io_event := st_io_event s + 1, st_recv_bytes_stat := st_recv_bytes_stat s + of_nat (length buf)\<rparr>)
     (h\<lparr>ho_clock := ho_clock h \<circ> Suc, ho_cur_time := ho_clock h 0\<rparr>)"

lemma arrived_fields:
  "ho_sent (arrived h buf) = ho_sent h" "ho_cur_time (arrived h buf) = ho_clock h 0" "ho_realtime (arrived h buf) = ho_realtime h"
  "ho_node_id (arrived h buf) = ho_node_id h" "ho_peer_node_id (arrived h buf) = ho_peer_node_id h" "ho_ping_id (arrived h buf) = ho_ping_id h"
  "ho_prior_ping_time (arrived h buf) = ho_prior_ping_time h" "ho_remote_online (arrived h buf) = ho_remote_online h"
  "ho_conn_queue (arrived h buf) = ho_conn_queue h" "ho_offline_time (arrived h buf) = ho_offline_time h"
  by (simp_all add: arrived_def stat_upd_def)

lemma io_event_ping:
  assumes "length (pm_token m) = 32"
  shows "buf = enc_header (build_litedt_header LITEDT_PING_REQ 0) @ enc_ping_req m \<Longrightarrow> litedt_on_ping_req cf (arrived h buf) m = Some (h', 0) \<Longrightarrow>
      litedt_io_event cf env h buf = Some h'"
    "buf = enc_header (build_litedt_header LITEDT_PING_RSP 0) @ enc_ping_rsp m \<Longrightarrow>
      litedt_on_ping_rsp cf env (arrived h buf) m = Some (h', 0) \<Longrightarrow> litedt_io_event cf env h buf = Some h'"
  using assms(1) cmd_of_code [of LITEDT_PING_REQ] cmd_of_code [of LITEDT_PING_RSP]
  by (simp_all add: litedt_io_event_def io_dispatch_def dec_header_enc dec_ping_enc ping_codecs build_litedt_header_def arrived_def get_curtime_def
      Let_def)

section \<open>A request and its response\<close>

definition fresh_for :: "transport_settings \<Rightarrow> time \<Rightarrow> time \<Rightarrow> bool" where
  "fresh_for cf t now \<longleftrightarrow> cf_token_expire cf = 0 \<or> \<not> token_expired cf t now"

lemma on_ping_req_valid:
  assumes "fresh_for cf (sint (pm_timestamp m)) (ho_realtime h 0)" "\<not> check_peer_node_id h (pm_node_id m)"
    "token_of cf (pm_node_id m) (ping_payload (pm_ping_id m) (pm_timestamp m)) = Some (pm_token m)"
    "token_of cf (ho_node_id h) (pm_token m) = Some token"
  shows "\<exists>h'. litedt_on_ping_req cf h m = Some (h', 0) \<and> ho_sent h' = (enc_header (build_litedt_header LITEDT_PING_RSP 0) @
    enc_ping_rsp \<lparr>pm_node_id = ho_node_id h, pm_ping_id = pm_ping_id m, pm_timestamp = pm_timestamp m, pm_token = token\<rparr>) # ho_sent h"
  using assms
  by (cases "cf_token_expire cf = 0")
    (auto simp: fresh_for_def litedt_on_ping_req_def litedt_ping_rsp_def validate_token_def generate_token_def get_realtime_def send_msg_fields
      check_peer_node_id_def Let_def)

definition accepted :: "transport_settings \<Rightarrow> 'w litedt_host \<Rightarrow> u16 \<Rightarrow> 'w litedt_host" where
  "accepted cf h node_id = h\<lparr>ho_realtime := ho_realtime h \<circ> Suc,
     ho_peer_node_id := (if ho_peer_node_id h = 0 then node_id else ho_peer_node_id h), ho_ping_id := ho_ping_id h + 1,
     ho_ping_rtt := word_of_int (ho_realtime h 0 - ho_prior_ping_time h), ho_next_ping_time := ho_cur_time h + PING_INTERVAL,
     ho_offline_time := get_offline_time cf (ho_cur_time h)\<rparr>"

definition answers :: "transport_settings \<Rightarrow> 'w litedt_host \<Rightarrow> ping_msg \<Rightarrow> bool" where
  "answers cf h m \<longleftrightarrow> pm_ping_id m = ho_ping_id h \<and> sint (pm_timestamp m) = ho_prior_ping_time h \<and>
     pm_node_id m \<noteq> 0 \<and> \<not> check_peer_node_id h (pm_node_id m) \<and> fresh_for cf (sint (pm_timestamp m)) (ho_realtime h 0) \<and>
     (\<exists>t. token_of cf (ho_node_id h) (ping_payload (pm_ping_id m) (pm_timestamp m)) = Some t \<and>
       token_of cf (pm_node_id m) t = Some (pm_token m))"

lemma on_ping_rsp_accepted:
  assumes "answers cf h m"
  shows "litedt_on_ping_rsp cf env h m = (let k = accepted cf h (pm_node_id m) in
    if ho_remote_online h then Some (k, 0)
    else do {
      h \<leftarrow> (case cb_online env of None \<Rightarrow> Some (k\<lparr>ho_remote_online := True, ho_pacing_time := ho_cur_time h\<rparr>)
           | Some f \<Rightarrow> f (k\<lparr>ho_remote_online := True, ho_pacing_time := ho_cur_time h\<rparr>) True);
      h \<leftarrow> (if \<not> timerlist_empty (ho_conn_queue h) then litedt_mod_evtime env h None (ho_last_event_time h + SEND_INTERVAL) else Some h);
      Some (h, 0)
    })"
proof -
  have "check_peer_node_id (h\<lparr>ho_realtime := r\<rparr>) n = check_peer_node_id h n" for r n by (simp add: check_peer_node_id_def)
  then show ?thesis
    using assms unfolding answers_def fresh_for_def litedt_on_ping_rsp_def accepted_def get_realtime_def validate_token_def generate_token_def Let_def
    by (elim conjE exE disjE; cases "cb_online env") simp_all
qed

text \<open>Two hosts that have not heard of each other, and a program without callbacks.\<close>

definition sample_node :: "u16 \<Rightarrow> unit litedt_host" where
  "sample_node n = (zero_host int int Some (\<lambda>_. 0))\<lparr>ho_node_id := n\<rparr>"

definition sample_env :: "unit litedt_env" where
  "sample_env = \<lparr>cb_online = None, cb_connect = None, cb_close = None, cb_receive = None, cb_send = None, cb_event_time = None\<rparr>"

section \<open>Responses without the token\<close>

text \<open>
  C4. A ping response changes the session only if it answers the last request, in time, in the name of the node the session is
  with, and with the token that the password gives for that node and the token of the request. Every other response is counted at most.
\<close>

theorem session_needs_token:
  assumes "length (cf_password cf) < 2 ^ 32" "\<not> (pm_ping_id m = ho_ping_id h \<and> sint (pm_timestamp m) = ho_prior_ping_time h \<and>
    pm_node_id m \<noteq> 0 \<and> (ho_peer_node_id h = 0 \<or> ho_peer_node_id h = pm_node_id m) \<and>
    (cf_token_expire cf = 0 \<or> \<not> token_expired cf (sint (pm_timestamp m)) (ho_realtime h 0)) \<and>
    pm_token m = sha256_ref (cf_password cf @ le 2 (pm_node_id m) @
      sha256_ref (cf_password cf @ le 2 (ho_node_id h) @ ping_payload (pm_ping_id m) (pm_timestamp m))))"
  shows "\<exists>stat. litedt_on_ping_rsp cf env h m = Some (h\<lparr>ho_realtime := ho_realtime h \<circ> Suc, ho_stat := stat\<rparr>, 0)"
proof -
  have t: "token_of cf (ho_node_id h) (ping_payload i ts) = Some (sha256_ref (cf_password cf @ le 2 (ho_node_id h) @ ping_payload i ts))"
    "token_of cf n (sha256_ref msg) = Some (sha256_ref (cf_password cf @ le 2 n @ sha256_ref msg))" for i ts n msg
    using assms(1) by (simp_all add: token_of_total ping_payload_def sha256_length)
  let ?h = "h\<lparr>ho_realtime := ho_realtime h \<circ> Suc\<rparr>"
  have c: "check_peer_node_id ?h (pm_node_id m) \<longleftrightarrow> \<not> (ho_peer_node_id h = 0 \<or> ho_peer_node_id h = pm_node_id m)"
    by (simp add: check_peer_node_id_def)
  note defs = litedt_on_ping_rsp_def get_realtime_def validate_token_def generate_token_def c t
  consider (other) "pm_ping_id m \<noteq> ho_ping_id h \<or> sint (pm_timestamp m) \<noteq> ho_prior_ping_time h"
    | (node) "pm_ping_id m = ho_ping_id h" "sint (pm_timestamp m) = ho_prior_ping_time h"
        "pm_node_id m = 0 \<or> check_peer_node_id ?h (pm_node_id m)"
    | (late) "pm_ping_id m = ho_ping_id h" "sint (pm_timestamp m) = ho_prior_ping_time h"
        "\<not> (pm_node_id m = 0 \<or> check_peer_node_id ?h (pm_node_id m))"
        "cf_token_expire cf \<noteq> 0 \<and> token_expired cf (ho_prior_ping_time h) (ho_realtime h 0)"
    | (token) "pm_ping_id m = ho_ping_id h" "sint (pm_timestamp m) = ho_prior_ping_time h"
        "\<not> (pm_node_id m = 0 \<or> check_peer_node_id ?h (pm_node_id m))"
        "\<not> (cf_token_expire cf \<noteq> 0 \<and> token_expired cf (ho_prior_ping_time h) (ho_realtime h 0))"
        "pm_token m \<noteq> sha256_ref (cf_password cf @ le 2 (pm_node_id m) @
          sha256_ref (cf_password cf @ le 2 (ho_node_id h) @ ping_payload (ho_ping_id h) (pm_timestamp m)))"
    using assms(2) unfolding c by argo
  then have "litedt_on_ping_rsp cf env h m = Some (?h, 0) \<or> litedt_on_ping_rsp cf env h m = Some (reject ?h, 0)"
  proof cases
    case other
    then show ?thesis by (auto simp: defs)
  next
    case node
    then show ?thesis by (simp add: defs)
  next
    case late
    then show ?thesis by (simp add: defs)
  next
    case token
    then show ?thesis unfolding litedt_on_ping_rsp_def get_realtime_def Let_def
      by (simp only: prod.case if_False if_True simp_thms validate_token_def generate_token_def t) (simp add: t)
  qed
  then show ?thesis
  proof
    assume "litedt_on_ping_rsp cf env h m = Some (?h, 0)"
    then show ?thesis by (intro exI [of _ "ho_stat h"]) simp
  next
    assume "litedt_on_ping_rsp cf env h m = Some (reject ?h, 0)"
    then show ?thesis by (intro exI [of _ "ho_stat (reject ?h)"]) (simp add: reject_def stat_upd_def)
  qed
qed

theorem session_needs_token_witness:
  "\<exists>stat. litedt_on_ping_rsp default_settings sample_env (sample_node 5)
      \<lparr>pm_node_id = 9, pm_ping_id = 7, pm_timestamp = 0, pm_token = replicate 32 0\<rparr> =
    Some ((sample_node 5)\<lparr>ho_realtime := ho_realtime (sample_node 5) \<circ> Suc, ho_stat := stat\<rparr>, 0)"
  by (rule session_needs_token) (simp_all add: default_settings_def sample_node_def zero_host_def)

end
