(* ===== verification/LiteflowRoutes.thy ===== *)
theory LiteflowRoutes
  imports LiteflowCorrect Session HashQueueCorrect
begin

text \<open>
  The table of the addresses of the peers, which decides the peer a packet is for.
\<close>

section \<open>Addresses as keys\<close>

text \<open>An address with its family's number of bytes; an IPv4 address in the form of IPv6 is the IPv4 address.\<close>

fun complete :: "sockaddr \<Rightarrow> bool" where
  "complete (Sockaddr_in port a) \<longleftrightarrow> length a = 4"
| "complete (Sockaddr_in6 port a) \<longleftrightarrow> length a = 16"
| "complete (Sockaddr_other f) \<longleftrightarrow> False"

fun endpoint :: "sockaddr \<Rightarrow> sockaddr" where
  "endpoint (Sockaddr_in6 port a) = (if v4mapped a then Sockaddr_in port (drop 12 a) else Sockaddr_in6 port a)"
| "endpoint a = a"

text \<open>
  C40. The key of an address identifies the endpoint: two addresses have the same key exactly if they have the same port and
  are the same address, where an IPv4 address written as an IPv6 one counts as the IPv4 address.
\<close>

theorem addr_key_identifies:
  assumes "complete a" "complete b"
  shows "snd (get_addr_key a) = 0 \<and> (fst (get_addr_key a) = fst (get_addr_key b) \<longleftrightarrow> endpoint a = endpoint b)"
  using assms by (cases a; cases b) (auto simp: get_addr_key_def AF_INET_def AF_INET6_def)

theorem addr_key_identifies_witness:
  "fst (get_addr_key (Sockaddr_in 80 [10, 0, 0, 1])) = fst (get_addr_key (Sockaddr_in6 80 (replicate 10 0 @ [0xFF, 0xFF, 10, 0, 0, 1])))"
  using addr_key_identifies [of "Sockaddr_in 80 [10, 0, 0, 1]" "Sockaddr_in6 80 (replicate 10 0 @ [0xFF, 0xFF, 10, 0, 0, 1])"]
  by (simp add: v4mapped_def numeral_eq_Suc)

section \<open>Routes\<close>

abbreviation route :: "lf_world \<Rightarrow> addr_key \<Rightarrow> pointer option" where
  "route w key \<equiv> queue_lookup (lw_addrs_tab w) key"

definition routes_ok :: "lf_world \<Rightarrow> bool" where
  "routes_ok w \<longleftrightarrow> hq.unique (lw_addrs_tab w) \<and> hq_mem (lw_addrs_tab w) = None \<and>
     (\<exists>a. os_malloc (lw_os w) 0 = Some a \<and> a \<notin> set (hq_queue (lw_addrs_tab w)))"

lemma unbind_route:
  assumes "routes_ok w"
  shows "\<exists>q. unbind_addr key w = Some (w\<lparr>lw_addrs_tab := q\<rparr>) \<and> routes_ok (w\<lparr>lw_addrs_tab := q\<rparr>) \<and>
    (\<forall>k. queue_lookup q k = (if k = key then Some None else route w k))"
proof -
  let ?t = "lw_addrs_tab w"
  have u: "hq.unique ?t" "hq_inv ?t" "hq_mem ?t = None" using assms by (simp_all add: routes_ok_def hq.unique_def)
  obtain q n where q: "queue_del ?t key = Some (q, n)" "hq_queue q = filter (\<lambda>n. fst (the (hq_node ?t n)) \<noteq> key) (hq_queue ?t)"
    "map_option node_total (hq_mem q) = map_option node_total (hq_mem ?t)" using queue_del_spec [OF u(2), of key] by blast
  have "hq.unique q" "\<forall>k. queue_lookup q k = (if k = key then Some None else route w k)" using hq.del_unique [OF u(1) q(1)] by blast+
  then show ?thesis using assms q u(3) by (auto simp: routes_ok_def unbind_addr_def)
qed

lemma bind_route:
  assumes "routes_ok w" "route w key = Some None"
  shows "\<exists>q. bind_addr key peer w = Some ((fst (os_alloc w))\<lparr>lw_addrs_tab := q\<rparr>) \<and> hq.unique q \<and>
    (\<forall>k. queue_lookup q k = (if k = key then Some (Some peer) else route w k))"
proof -
  let ?t = "lw_addrs_tab w" and ?m = "os_malloc (lw_os w) 0"
  have u: "hq.unique ?t" "hq_inv ?t" "fresh_mem ?t ?m" "has_room ?t ?m"
    using assms(1) by (auto simp: routes_ok_def hq.unique_def fresh_mem_def has_room_def)
  obtain q where q: "queue_append ?t key peer ?m = Some (q, 0)" using hq.app_room [OF u(2,3,4), of key peer] by blast
  have "hq.unique q" "\<forall>k. queue_lookup q k = (if k = key then Some (Some peer) else route w k)"
    using hq.app_unique [OF u(1,3) assms(2) q] u(4) by simp_all
  then show ?thesis using q by (intro exI [of _ q]) (simp add: bind_addr_def tab_append_def os_alloc_def Let_def)
qed

lemma peer_start_routes:
  fixes a :: sockaddr and p :: peer_info
  assumes "routes_ok w" "lw_peers w peer = Some p"
  defines "key \<equiv> fst (get_addr_key a)" and "old \<equiv> pi_bound_addr_key p"
  shows "\<exists>q. peer_start w peer a n = Some ((fst (os_alloc w))\<lparr>lw_addrs_tab := q, lw_peers := (lw_peers w)(peer \<mapsto>
      p\<lparr>pi_bound_addr_key := key, pi_remote_addr := a, pi_remote_addr_len := n, pi_timer_cb := Litedt_timeout_cb, pi_timer_after := 0,
        pi_timer_active := True\<rparr>)\<rparr>) \<and> hq.unique q \<and>
    (\<forall>k. queue_lookup q k = (if k = key then Some (Some peer) else if ak_family old \<noteq> AF_UNSPEC \<and> k = old then Some None else route w k))"
proof -
  obtain q1 where q1: "(if ak_family old \<noteq> AF_UNSPEC then unbind_addr old w else Some w) = Some (w\<lparr>lw_addrs_tab := q1\<rparr>)"
    "routes_ok (w\<lparr>lw_addrs_tab := q1\<rparr>)" "\<forall>k. queue_lookup q1 k = (if ak_family old \<noteq> AF_UNSPEC \<and> k = old then Some None else route w k)"
    using unbind_route [OF assms(1), of old] assms(1) by (cases "ak_family old \<noteq> AF_UNSPEC") (auto intro: that [of "lw_addrs_tab w"])
  obtain q2 where q2: "unbind_addr key (w\<lparr>lw_addrs_tab := q1\<rparr>) = Some (w\<lparr>lw_addrs_tab := q2\<rparr>)" "routes_ok (w\<lparr>lw_addrs_tab := q2\<rparr>)"
    "\<forall>k. queue_lookup q2 k = (if k = key then Some None else queue_lookup q1 k)" using unbind_route [OF q1(2), of key] by auto
  obtain q3 where q3: "bind_addr key peer (w\<lparr>lw_addrs_tab := q2\<rparr>) = Some ((fst (os_alloc w))\<lparr>lw_addrs_tab := q3\<rparr>)" "hq.unique q3"
    "\<forall>k. queue_lookup q3 k = (if k = key then Some (Some peer) else queue_lookup q2 k)"
    using bind_route [OF q2(2), of key peer] q2(3) by (auto simp: os_alloc_def upd_os_def)
  show ?thesis
    using q1(1,3) q2(1,3) q3 assms(2)
    by (cases "ak_family old \<noteq> AF_UNSPEC"; intro exI [of _ q3]) (simp_all add: peer_start_def upd_peer_def os_alloc_def upd_os_def Let_def key_def [symmetric] old_def [symmetric])
qed

section \<open>A request without a valid token\<close>

lemma dec_header_body: "dec_header buf = Some (hdr, body) \<Longrightarrow> body = drop 8 buf"
  by (auto simp: dec_header_def get_le_def bind_eq_Some_conv add.commute split: if_splits)

text \<open>The transport rejects the request: it counts it and sends nothing.\<close>

lemma io_event_invalid_token:
  assumes "dec_header buf = Some (hdr, body)" "h_ver hdr = LITEDT_VERSION" "cmd_of (h_cmd hdr) = Some LITEDT_PING_REQ"
    "dec_ping_req body = Some (req, rest)"
    "validate_token cf (pm_node_id req) (ping_payload (pm_ping_id req) (pm_timestamp req)) (pm_token req) = Some False"
  shows "\<exists>h'. litedt_io_event cf env h buf = Some h' \<and> litedt_ext h' = litedt_ext h \<and> ho_sent h' = ho_sent h"
  using assms
  by (auto simp: litedt_io_event_def io_dispatch_def litedt_on_ping_req_def get_curtime_def get_realtime_def stat_upd_def reject_def
      litedt_ext_def Let_def)

lemma peer_io_event_invalid:
  assumes "lw_peers w peer = Some p" "dec_header buf = Some (hdr, body)" "h_ver hdr = LITEDT_VERSION"
    "cmd_of (h_cmd hdr) = Some LITEDT_PING_REQ" "dec_ping_req body = Some (req, rest)"
    "validate_token (transport w) (pm_node_id req) (ping_payload (pm_ping_id req) (pm_timestamp req)) (pm_token req) = Some False"
  shows "\<exists>dt. peer_io_event w peer buf = Some (w\<lparr>lw_peers := (lw_peers w)(peer \<mapsto> p\<lparr>pi_dt := dt\<rparr>)\<rparr>) \<and> ho_sent dt = ho_sent (pi_dt p)"
proof -
  obtain h where h: "litedt_io_event (transport w) liteflow_env (host_with (pi_dt p) (w, peer)) buf = Some h" "litedt_ext h = (w, peer)"
    "ho_sent h = ho_sent (pi_dt p)"
    using io_event_invalid_token [OF assms(2-6), of liteflow_env "host_with (pi_dt p) (w, peer)"] by (auto simp: litedt_ext_def host_with_def)
  have "ho_sent (host_with h ()) = ho_sent h" by (simp add: host_with_def)
  then show ?thesis using h assms(1) by (intro exI [of _ "host_with h ()"]) (simp add: peer_io_event_def enter_host_def leave_host_def)
qed

text \<open>
  C38. Whoever sends one ping request with the node number of a known peer from an address that is not in the table takes over the
  peer, whatever token it carries: the transport rejects the request and answers nothing, but the packets for the peer now go to
  the address of the sender, and the packets from the address the peer had are no longer taken for it.
\<close>

theorem rebind_without_token:
  assumes "snd (get_addr_key addr) = 0" "dec_header buf = Some (hdr, body)" "h_ver hdr = LITEDT_VERSION"
    "cmd_of (h_cmd hdr) = Some LITEDT_PING_REQ" "dec_ping_req body = Some (req, rest)"
    "validate_token (transport w) (pm_node_id req) (ping_payload (pm_ping_id req) (pm_timestamp req)) (pm_token req) = Some False"
    and "routes_ok w" "queue_lookup (lw_addrs_tab w) (fst (get_addr_key addr)) = Some None"
    "queue_lookup (lw_peers_tab w) (pm_node_id req) = Some (Some peer)" "lw_peers w peer = Some p"
    "ak_family (pi_bound_addr_key p) \<noteq> AF_UNSPEC" "pi_bound_addr_key p \<noteq> fst (get_addr_key addr)"
  shows "\<exists>w' p'. handle_packet w buf addr addr_len = Some w' \<and> lw_peers w' peer = Some p' \<and> pi_remote_addr p' = addr \<and>
    ho_sent (pi_dt p') = ho_sent (pi_dt p) \<and> queue_lookup (lw_addrs_tab w') (fst (get_addr_key addr)) = Some (Some peer) \<and>
    queue_lookup (lw_addrs_tab w') (pi_bound_addr_key p) = Some None"
proof -
  obtain q where q: "peer_start w peer addr addr_len = Some ((fst (os_alloc w))\<lparr>lw_addrs_tab := q, lw_peers := (lw_peers w)(peer \<mapsto>
      p\<lparr>pi_bound_addr_key := fst (get_addr_key addr), pi_remote_addr := addr, pi_remote_addr_len := addr_len,
        pi_timer_cb := Litedt_timeout_cb, pi_timer_after := 0, pi_timer_active := True\<rparr>)\<rparr>)" (is "_ = Some ?w")
    "queue_lookup q (fst (get_addr_key addr)) = Some (Some peer)" "queue_lookup q (pi_bound_addr_key p) = Some None"
    using peer_start_routes [OF assms(7,10), of addr addr_len] assms(11,12) by auto
  have "transport ?w = transport w" by (simp add: os_alloc_def upd_os_def)
  then obtain p' where p': "peer_io_event ?w peer buf = Some (?w\<lparr>lw_peers := (lw_peers ?w)(peer \<mapsto> p')\<rparr>)" "ho_sent (pi_dt p') = ho_sent (pi_dt p)"
    "pi_remote_addr p' = addr" using peer_io_event_invalid [of ?w peer _ buf, OF _ assms(2-5)] assms(6) by auto
  obtain n where n: "queue_get (lw_peers_tab w) (pm_node_id req) = Some (Some n)" "queue_value (lw_peers_tab w) n = Some peer"
    using assms(9) by (auto simp: queue_lookup_def bind_eq_Some_conv)
  have "queue_get (lw_addrs_tab w) (fst (get_addr_key addr)) = Some None" using assms(7,8) queue_get_spec [of "lw_addrs_tab w" "fst (get_addr_key addr)"]
    by (auto simp: queue_lookup_def routes_ok_def hq.unique_def split: option.splits)
  then have "handle_packet w buf addr addr_len = peer_io_event ?w peer buf"
    using assms(1-5) n q(1) dec_header_body [OF assms(2)] by (simp add: handle_packet_def try_accept_peer_def split_beta)
  then show ?thesis using p' q(2,3) by simp
qed

text \<open>A world with one peer, number 9, at the address 10.0.0.1, and the packet of somebody else.\<close>

definition one_entry :: "('k \<Rightarrow> u32) \<Rightarrow> 'k \<Rightarrow> addr \<Rightarrow> ('k, addr) hash_queue" where
  "one_entry f key v = \<lparr>bucket_size = 1, hq_key_size = 20, hq_data_size = 8, node_count = 1, hq_mem = None, hash_fn = f, hq_hash = [[50]],
     hq_queue = [50], hq_node = [50 \<mapsto> (key, v)]\<rparr>"

lemma one_entry_facts: "hq.unique (one_entry f key v)" "queue_lookup (one_entry f key v) k = Some (if k = key then Some v else None)"
  by (auto simp: hq.unique_def hq_inv_def hq_core_def hq_pool_def items_def key_index_def one_entry_def queue_lookup_def queue_get_def
      hash_index_def queue_value_def)

definition sample_routes :: lf_world where
  "sample_routes = (let key = fst (get_addr_key (Sockaddr_in 80 [10, 0, 0, 1])) in
     sample_world\<lparr>lw_addrs_tab := one_entry addr_key_hash key 7, lw_peers_tab := one_entry ucast 9 7,
       lw_peers := [7 \<mapsto> sample_peer\<lparr>pi_bound_addr_key := key, pi_remote_addr := Sockaddr_in 80 [10, 0, 0, 1]\<rparr>]\<rparr>)"

definition ping_packet :: "u8 list \<Rightarrow> u8 list" where
  "ping_packet token = enc_header \<lparr>h_ver = LITEDT_VERSION, h_mode = 0, h_cmd = cmd_code LITEDT_PING_REQ, h_flow = 0\<rparr> @
     enc_ping_req \<lparr>pm_node_id = 9, pm_ping_id = 1, pm_timestamp = 2, pm_token = token\<rparr>"

lemma ping_packet_dec:
  assumes "length token = 32"
  shows "dec_header (ping_packet token) = Some (\<lparr>h_ver = LITEDT_VERSION, h_mode = 0, h_cmd = cmd_code LITEDT_PING_REQ, h_flow = 0\<rparr>,
      enc_ping_req \<lparr>pm_node_id = 9, pm_ping_id = 1, pm_timestamp = 2, pm_token = token\<rparr>)"
    "dec_ping_req (enc_ping_req \<lparr>pm_node_id = 9, pm_ping_id = 1, pm_timestamp = 2, pm_token = token\<rparr>) =
      Some (\<lparr>pm_node_id = 9, pm_ping_id = 1, pm_timestamp = 2, pm_token = token\<rparr>, [])"
  using assms by (simp_all add: ping_packet_def dec_header_enc dec_ping_enc del: cmd_code.simps)

theorem rebind_without_token_witness:
  "\<exists>token w' p'. length token = 32 \<and> handle_packet sample_routes (ping_packet token) (Sockaddr_in 80 [6, 6, 6, 6]) 16 = Some w' \<and>
    lw_peers w' 7 = Some p' \<and> pi_remote_addr p' = Sockaddr_in 80 [6, 6, 6, 6]"
proof -
  let ?t = "transport sample_routes" and ?a = "Sockaddr_in 80 [6, 6, 6, 6]"
  have "length (cf_password ?t) < 2 ^ 32"
    by (simp add: sample_routes_def sample_world_def static_world_def global_config_init_def default_settings_def Let_def)
  then obtain x where x: "token_of ?t 9 (ping_payload 1 2) = Some x" using token_of_total [of ?t] by (simp add: ping_payload_def)
  have "replicate 32 0 \<noteq> (replicate 32 1 :: u8 list)" by simp
  then obtain token :: "u8 list" where t: "length token = 32" "token \<noteq> x" by (metis length_replicate)
  have r: "lw_peers sample_routes 7 = Some (sample_peer\<lparr>pi_bound_addr_key := fst (get_addr_key (Sockaddr_in 80 [10, 0, 0, 1])),
      pi_remote_addr := Sockaddr_in 80 [10, 0, 0, 1]\<rparr>)" "routes_ok sample_routes"
    "queue_lookup (lw_addrs_tab sample_routes) (fst (get_addr_key ?a)) = Some None" "queue_lookup (lw_peers_tab sample_routes) 9 = Some (Some 7)"
    by (simp_all add: sample_routes_def Let_def routes_ok_def one_entry_facts get_addr_key_def)
      (simp add: one_entry_def sample_world_def static_world_def sample_os_def)
  show ?thesis
    using rebind_without_token [OF _ ping_packet_dec(1) [OF t(1)] _ _ ping_packet_dec(2) [OF t(1)] _ r(2), of ?a 7 "the (lw_peers sample_routes 7)" 16] r(1,3,4) t x cmd_of_code [of LITEDT_PING_REQ]
    by (auto simp: validate_token_def get_addr_key_def AF_UNSPEC_def AF_INET_def)
qed

end
