(* ===== verification/Handshake.thy ===== *)
theory Handshake
  imports LiteflowRoutes
begin

text \<open>
  The handshake of two programs: the ping request of one and the response of the other bring the first one's session up, with
  the callbacks that \<^verbatim>\<open>src/src/liteflow.c\<close> registers.
\<close>

section \<open>The callbacks of a session that begins\<close>

text \<open>A peer that this side connects to is new to the table of the peers by their node numbers, and there is memory to enter it.\<close>

definition may_enter :: "lf_world \<Rightarrow> addr \<Rightarrow> u16 \<Rightarrow> bool" where
  "may_enter w peer node_id \<longleftrightarrow> (\<exists>p. lw_peers w peer = Some p \<and>
     (pi_is_outbound p \<longrightarrow> hq.unique (lw_peers_tab w) \<and> queue_lookup (lw_peers_tab w) node_id = Some None \<and> hq_mem (lw_peers_tab w) = None \<and>
       (\<exists>a. os_malloc (lw_os w) 0 = Some a \<and> a \<notin> set (hq_queue (lw_peers_tab w)))))"

definition entered_as :: "lf_world \<Rightarrow> addr \<Rightarrow> u16 \<Rightarrow> bool" where
  "entered_as w peer node_id \<longleftrightarrow> (\<exists>p. lw_peers w peer = Some p \<and>
     (pi_is_outbound p \<longrightarrow> pi_peer_id p = node_id \<and> queue_lookup (lw_peers_tab w) node_id = Some (Some peer)))"

lemma peer_online_entered:
  assumes "may_enter w peer node_id"
  shows "\<exists>w'. peer_online w peer node_id = Some w' \<and> entered_as w' peer node_id"
proof -
  obtain p where p: "lw_peers w peer = Some p" and t: "pi_is_outbound p \<longrightarrow> hq.unique (lw_peers_tab w) \<and>
      queue_lookup (lw_peers_tab w) node_id = Some None \<and> hq_mem (lw_peers_tab w) = None \<and>
      (\<exists>a. os_malloc (lw_os w) 0 = Some a \<and> a \<notin> set (hq_queue (lw_peers_tab w)))"
    using assms by (auto simp: may_enter_def)
  show ?thesis
  proof (cases "pi_is_outbound p")
    case False
    then show ?thesis using p by (simp add: peer_online_def entered_as_def)
  next
    case True
    let ?q = "lw_peers_tab w" and ?m = "os_malloc (lw_os w) 0"
    have u: "hq.unique ?q" "hq_inv ?q" "fresh_mem ?q ?m" "has_room ?q ?m" "queue_lookup ?q node_id = Some None"
      using t True by (auto simp: hq.unique_def fresh_mem_def has_room_def)
    obtain q where q: "queue_append ?q node_id peer ?m = Some (q, 0)" using hq.app_room [OF u(2,3,4), of node_id peer] by blast
    have l: "queue_lookup q node_id = Some (Some peer)" using hq.app_unique [OF u(1,3,5) q] u(4) by simp
    have "queue_get ?q node_id = Some None"
      using u(2,5) queue_get_spec [of ?q node_id] by (auto simp: queue_lookup_def split: option.splits)
    then show ?thesis
      using p True q l by (simp add: peer_online_def entered_as_def upd_peer_def tab_append_def os_alloc_def upd_os_def Let_def)
  qed
qed

lemma on_online_entered:
  assumes "litedt_ext h = (w, peer)" "may_enter w peer (ho_peer_node_id h)"
  shows "\<exists>w'. liteflow_on_online h True = Some (upd_world h w') \<and> entered_as w' peer (ho_peer_node_id h)"
proof -
  obtain v ct where v: "os_time w = (v, ct)" by (cases "os_time w")
  then have m: "may_enter v peer (ho_peer_node_id h)" using assms(2) by (auto simp: may_enter_def os_time_def upd_os_def)
  obtain w' where "peer_online v peer (ho_peer_node_id h) = Some w'" "entered_as w' peer (ho_peer_node_id h)"
    using peer_online_entered [OF m] by blast
  moreover obtain p where "lw_peers v peer = Some p" using m unfolding may_enter_def by blast
  ultimately show ?thesis using assms(1) v by (intro exI [of _ w']) (simp add: liteflow_on_online_def)
qed

lemma mod_evtime_entered:
  assumes "litedt_ext h = (w, peer)" "entered_as w peer n"
  shows "\<exists>w' c t. litedt_mod_evtime liteflow_env h None at = Some (h\<lparr>ho_ext := (w', peer), ho_clock := c, ho_next_event_time := t\<rparr>) \<and>
    entered_as w' peer n"
proof (cases "at < ho_next_event_time h")
  case True
  obtain p where "lw_peers w peer = Some p" using assms(2) by (auto simp: entered_as_def)
  then show ?thesis using assms True
    by (intro exI [of _ "w\<lparr>lw_peers := (lw_peers w)(peer \<mapsto>
        p\<lparr>pi_timer_after := max (if at > ho_clock h 0 then at - ho_clock h 0 else 0) 0, pi_timer_active := True\<rparr>)\<rparr>"]
        exI [of _ "ho_clock h \<circ> Suc"] exI [of _ at])
      (simp add: litedt_mod_evtime_def liteflow_env_def liteflow_set_eventtime_def get_curtime_def upd_peer_def upd_world_def litedt_ext_def
        litedt_set_ext_def entered_as_def Let_def)
next
  case False
  then have "litedt_mod_evtime liteflow_env h None at = Some (h\<lparr>ho_ext := (w, peer), ho_clock := ho_clock h, ho_next_event_time := ho_next_event_time h\<rparr>)"
    using assms(1) by (simp add: litedt_mod_evtime_def litedt_ext_def)
  then show ?thesis using assms(2) by blast
qed

section \<open>The handshake\<close>

text \<open>The session as it is after an accepted response.\<close>

definition alive :: "transport_settings \<Rightarrow> 'w litedt_host \<Rightarrow> u32 \<Rightarrow> u16 \<Rightarrow> time \<Rightarrow> bool" where
  "alive cf h ping_id node_id now \<longleftrightarrow> ho_remote_online h \<and> ho_peer_node_id h = node_id \<and> ho_ping_id h = ping_id \<and>
     ho_offline_time h = get_offline_time cf now"

lemma on_ping_rsp_online:
  assumes "answers cf h m" "litedt_ext h = (w, peer)" "\<not> ho_remote_online h \<longrightarrow> may_enter w peer (pm_node_id m)"
  shows "\<exists>h'. litedt_on_ping_rsp cf liteflow_env h m = Some (h', 0) \<and> alive cf h' (ho_ping_id h + 1) (pm_node_id m) (ho_cur_time h) \<and>
    (\<not> ho_remote_online h \<longrightarrow> entered_as (fst (litedt_ext h')) peer (pm_node_id m))"
proof -
  let ?k = "(accepted cf h (pm_node_id m))\<lparr>ho_remote_online := True, ho_pacing_time := ho_cur_time h\<rparr>"
  have n: "ho_peer_node_id h = 0 \<or> ho_peer_node_id h = pm_node_id m" using assms(1) by (auto simp: answers_def check_peer_node_id_def)
  have k: "ho_peer_node_id ?k = pm_node_id m" "litedt_ext ?k = (w, peer)" using n assms(2) by (auto simp: accepted_def litedt_ext_def)
  show ?thesis
  proof (cases "ho_remote_online h")
    case True
    then show ?thesis using n by (auto simp: on_ping_rsp_accepted [OF assms(1)] alive_def accepted_def Let_def)
  next
    case False
    obtain w1 where w1: "liteflow_on_online ?k True = Some (upd_world ?k w1)" "entered_as w1 peer (pm_node_id m)"
      using on_online_entered [OF k(2)] assms(3) False k(1) by auto
    let ?k1 = "upd_world ?k w1"
    have e1: "litedt_ext ?k1 = (w1, peer)" using k(2) by (simp add: upd_world_def litedt_ext_def litedt_set_ext_def)
    obtain w2 c t where w2: "litedt_mod_evtime liteflow_env ?k1 None (ho_last_event_time ?k1 + SEND_INTERVAL) =
        Some (?k1\<lparr>ho_ext := (w2, peer), ho_clock := c, ho_next_event_time := t\<rparr>)" "entered_as w2 peer (pm_node_id m)"
      using mod_evtime_entered [OF e1 w1(2)] by blast
    have f: "alive cf ?k1 (ho_ping_id h + 1) (pm_node_id m) (ho_cur_time h)"
      using n by (auto simp: alive_def upd_world_def litedt_set_ext_def accepted_def)
    let ?r = "if \<not> timerlist_empty (ho_conn_queue ?k1) then ?k1\<lparr>ho_ext := (w2, peer), ho_clock := c, ho_next_event_time := t\<rparr> else ?k1"
    have "litedt_on_ping_rsp cf liteflow_env h m = Some (?r, 0)"
      using False w1(1) w2(1) by (simp add: on_ping_rsp_accepted [OF assms(1)] liteflow_env_def Let_def)
    moreover have "alive cf ?r (ho_ping_id h + 1) (pm_node_id m) (ho_cur_time h)" using f by (simp add: alive_def)
    moreover have "entered_as (fst (litedt_ext ?r)) peer (pm_node_id m)" using e1 w1(2) w2(2) by (simp add: litedt_ext_def)
    ultimately show ?thesis by blast
  qed
qed

text \<open>
  C17. The handshake of two programs works: a ping request of the host \<open>a\<close> that reaches a host \<open>b\<close> with the same password is
  answered, and the answer, run with the callbacks of the program, makes \<open>a\<close> see \<open>b\<close> online under its node number and prolongs the
  session; when the session was down and this side made the connection, the peer is then in the table of the peers under that
  number. The same answer a second time changes nothing of that. A session that begins needs the number to be free in the table and
  memory for the entry.
\<close>

theorem ping_handshake:
  fixes a b :: lf_host
  assumes "length (cf_password cfa) < 2 ^ 32" "cf_password cfb = cf_password cfa" "- (2 ^ 63) \<le> ho_realtime a 0" "ho_realtime a 0 < 2 ^ 63"
    "fresh_for cfb (ho_realtime a 0) (ho_realtime b 0)" "fresh_for cfa (ho_realtime a 0) (ho_realtime a 1)"
    "ho_node_id b \<noteq> 0" "\<not> check_peer_node_id a (ho_node_id b)" "\<not> check_peer_node_id b (ho_node_id a)"
    "litedt_ext a = (w, peer)" "\<not> ho_remote_online a \<longrightarrow> may_enter w peer (ho_node_id b)"
  shows "\<exists>a1 req b1 rsp a2 a3. litedt_ping_req cfa a = Some a1 \<and> ho_sent a1 = req # ho_sent a \<and>
    litedt_io_event cfb liteflow_env b req = Some b1 \<and> ho_sent b1 = rsp # ho_sent b \<and>
    litedt_io_event cfa liteflow_env a1 rsp = Some a2 \<and> alive cfa a2 (ho_ping_id a + 2) (ho_node_id b) (ho_clock a 0) \<and>
    (\<not> ho_remote_online a \<longrightarrow> entered_as (fst (litedt_ext a2)) peer (ho_node_id b)) \<and>
    litedt_io_event cfa liteflow_env a2 rsp = Some a3 \<and> alive cfa a3 (ho_ping_id a + 2) (ho_node_id b) (ho_clock a 0) \<and>
    litedt_ext a3 = litedt_ext a2"
proof -
  let ?id = "ho_ping_id a + 1" and ?ts = "word_of_int (ho_realtime a 0) :: u64"
  let ?t = "sha256_ref (cf_password cfa @ le 2 (ho_node_id a) @ ping_payload ?id ?ts)"
  let ?t' = "sha256_ref (cf_password cfa @ le 2 (ho_node_id b) @ ?t)"
  let ?m = "\<lparr>pm_node_id = ho_node_id a, pm_ping_id = ?id, pm_timestamp = ?ts, pm_token = ?t\<rparr>"
  let ?n = "\<lparr>pm_node_id = ho_node_id b, pm_ping_id = ?id, pm_timestamp = ?ts, pm_token = ?t'\<rparr>"
  define req where "req = enc_header (build_litedt_header LITEDT_PING_REQ 0) @ enc_ping_req ?m"
  define rsp where "rsp = enc_header (build_litedt_header LITEDT_PING_RSP 0) @ enc_ping_rsp ?n"
  have ts: "sint ?ts = ho_realtime a 0" using assms(3,4) by (simp add: signed_of_int signed_take_bit_int_eq_self)
  have t: "token_of cf (ho_node_id a) (ping_payload ?id ?ts) = Some ?t" "token_of cf (ho_node_id b) ?t = Some ?t'"
    if "cf = cfa \<or> cf = cfb" for cf
    using that assms(1,2) by (auto simp: token_of_total ping_payload_def sha256_length)
  obtain a1 where a1: "litedt_ping_req cfa a = Some a1" "ho_sent a1 = req # ho_sent a" "ho_ping_id a1 = ?id" "ho_prior_ping_time a1 = ho_realtime a 0"
    "ho_realtime a1 0 = ho_realtime a 1" "ho_clock a1 = ho_clock a" "ho_node_id a1 = ho_node_id a" "ho_peer_node_id a1 = ho_peer_node_id a"
    "litedt_ext a1 = (w, peer)" "ho_remote_online a1 = ho_remote_online a"
    using t(1) [of cfa] assms(10)
    by (simp add: litedt_ping_req_def get_realtime_def generate_token_def send_msg_fields req_def litedt_ext_def send_msg_def socket_send_def stat_upd_def Let_def)
  have m: "\<not> check_peer_node_id (arrived b req) (ho_node_id a)" "fresh_for cfb (sint ?ts) (ho_realtime (arrived b req) 0)"
    using assms(5,9) ts by (simp_all add: check_peer_node_id_def arrived_fields)
  obtain b1 where b1: "litedt_io_event cfb liteflow_env b req = Some b1" "ho_sent b1 = rsp # ho_sent b"
    using io_event_ping(1) [OF _ req_def, of cfb b _ liteflow_env] on_ping_req_valid [of cfb ?m "arrived b req" ?t'] m t [of cfb]
    by (auto simp: sha256_length arrived_fields rsp_def)
  have n: "answers cfa (arrived a1 rsp) ?n" "litedt_ext (arrived a1 rsp) = (w, peer)"
    using a1(3-9) assms(6,7,8) t [of cfa] ts
    by (simp_all add: answers_def arrived_fields check_peer_node_id_def litedt_ext_def) (simp_all add: arrived_def stat_upd_def)
  obtain a2 where a2: "litedt_io_event cfa liteflow_env a1 rsp = Some a2" "alive cfa a2 (ho_ping_id a + 2) (ho_node_id b) (ho_clock a 0)"
    "\<not> ho_remote_online a \<longrightarrow> entered_as (fst (litedt_ext a2)) peer (ho_node_id b)"
    using io_event_ping(2) [OF _ rsp_def, of cfa liteflow_env a1] on_ping_rsp_online [OF n] a1(3,6,10) assms(11)
    by (auto simp: sha256_length arrived_fields add.commute [of "ho_ping_id a" 2])
  then have "litedt_on_ping_rsp cfa liteflow_env (arrived a2 rsp) ?n = Some (fst (get_realtime (arrived a2 rsp)), 0)"
    by (simp add: litedt_on_ping_rsp_def get_realtime_def alive_def arrived_fields)
  then have a3: "litedt_io_event cfa liteflow_env a2 rsp = Some (fst (get_realtime (arrived a2 rsp)))"
    using io_event_ping(2) [OF _ rsp_def] by (simp add: sha256_length)
  have "alive cfa (fst (get_realtime (arrived a2 rsp))) (ho_ping_id a + 2) (ho_node_id b) (ho_clock a 0)"
    "litedt_ext (fst (get_realtime (arrived a2 rsp))) = litedt_ext a2"
    using a2(2) by (simp_all add: alive_def get_realtime_def arrived_fields litedt_ext_def) (simp add: arrived_def stat_upd_def)
  with a1(1,2) a2 a3 b1 show ?thesis by blast
qed

text \<open>A program with a peer 7 that it connects to, and a session that is down; the other one has the node number 4.\<close>

definition sample_calling :: lf_world where
  "sample_calling = sample_world\<lparr>lw_peers_tab := one_entry ucast 9 8, lw_peers := [7 \<mapsto> sample_peer\<lparr>pi_is_outbound := True\<rparr>]\<rparr>"

definition sample_caller :: lf_host where
  "sample_caller = host_with ((pi_dt sample_peer)\<lparr>ho_node_id := 5\<rparr>) (sample_calling, 7)"

definition sample_callee :: lf_host where
  "sample_callee = host_with ((pi_dt sample_peer)\<lparr>ho_node_id := 4\<rparr>) (sample_world, 7)"

lemma sample_hosts:
  "ho_node_id sample_caller = 5" "ho_realtime sample_caller = int" "ho_sent sample_caller = []" "ho_peer_node_id sample_caller = 0"
  "litedt_ext sample_caller = (sample_calling, 7)" "\<not> ho_remote_online sample_caller"
  "ho_node_id sample_callee = 4" "ho_realtime sample_callee = int" "ho_sent sample_callee = []" "ho_peer_node_id sample_callee = 0"
  by (simp_all add: sample_caller_def sample_callee_def host_with_def sample_peer_def zero_host_def litedt_ext_def)

theorem ping_handshake_witness:
  "\<exists>a1 req b1 rsp a2. litedt_ping_req default_settings sample_caller = Some a1 \<and> ho_sent a1 = [req] \<and>
    litedt_io_event default_settings liteflow_env sample_callee req = Some b1 \<and> ho_sent b1 = [rsp] \<and>
    litedt_io_event default_settings liteflow_env a1 rsp = Some a2 \<and> ho_remote_online a2 \<and> ho_peer_node_id a2 = 4 \<and>
    entered_as (fst (litedt_ext a2)) 7 4"
proof -
  have f: "fresh_for default_settings 0 0" "fresh_for default_settings 0 1" "length (cf_password default_settings) < 2 ^ 32"
    by (simp_all add: fresh_for_def token_expired_def default_settings_def USEC_PER_SEC_def)
  have m: "may_enter sample_calling 7 4"
    using one_entry_facts [of ucast "9 :: u16" 8]
    by (simp add: may_enter_def sample_calling_def) (simp add: one_entry_def sample_world_def static_world_def sample_os_def)
  have "\<not> check_peer_node_id sample_caller (ho_node_id sample_callee)" "\<not> check_peer_node_id sample_callee (ho_node_id sample_caller)"
    by (simp_all add: check_peer_node_id_def sample_hosts)
  with ping_handshake [of default_settings default_settings sample_caller sample_callee sample_calling 7] f m
  show ?thesis unfolding alive_def by (simp add: sample_hosts) blast
qed

end
