(* ===== verification/StreamTransfer.thy ===== *)
theory StreamTransfer
  imports RBufferStream Messages "HOL-Library.Sublist"
begin

text \<open>
  A flow from one host to the other: the bytes the sender writes into its send buffer, the data packets it makes
  of them, a network that loses, repeats and reorders packets, and the receive buffer on the other side.
\<close>

section \<open>The send buffer\<close>

definition stream_of :: "u8 list \<Rightarrow> nat \<Rightarrow> u8" where
  "stream_of xs i = (if i < length xs then xs ! i else 0)"

lemma stream_of_append: "i < length xs \<Longrightarrow> stream_of (xs @ ys) i = stream_of xs i"
  by (simp add: stream_of_def nth_append)

lemma segment_last: "segment (stream_of (xs @ ys)) (length xs) (length ys) = ys"
  by (rule nth_equalityI) (simp_all add: stream_of_def nth_append)

lemma segment_append: "k + n \<le> length xs \<Longrightarrow> segment (stream_of (xs @ ys)) k n = segment (stream_of xs) k n"
  by (rule nth_equalityI) (simp_all add: stream_of_append)

lemma segment_take: "n \<le> length xs \<Longrightarrow> segment (stream_of xs) 0 n = take n xs"
  by (rule nth_equalityI) (simp_all add: stream_of_def)

lemma stream_ok_append:
  assumes "stream_ok (stream_of xs) base rb" "\<forall>i \<in> stored rb. base + i < length xs"
  shows "stream_ok (stream_of (xs @ ys)) base rb"
  using assms stream_of_append [of _ xs ys] unfolding stream_ok_def by metis

text \<open>A send buffer that holds the bytes of the stream that are written and not released.\<close>

definition sending :: "u8 list \<Rightarrow> nat \<Rightarrow> rbuf \<Rightarrow> bool" where
  "sending xs base sb \<longleftrightarrow> stream_ok (stream_of xs) base sb \<and> base \<le> length xs \<and> stored sb = {..<length xs - base} \<and>
     rb_write_pos sb = of_nat (length xs)"

lemma sending_window:
  assumes "sending xs base sb"
  shows "length xs - base \<le> unat (window_size sb)" "unat (window_size sb) < 2147483648"
proof -
  have ok: "rbuf_ok sb" "ranges_ok sb" "stored sb = {..<length xs - base}" using assms by (simp_all add: sending_def stream_ok_def)
  show "length xs - base \<le> unat (window_size sb)" using stored_bound [OF ok(2), of "length xs - base - 1"] ok(3) by (cases "length xs - base") auto
  show "unat (window_size sb) < 2147483648" by (rule window_bound [OF ok(1)])
qed

lemma sending_off:
  assumes "sending xs base sb"
  shows "off (start_pos sb) (rb_write_pos sb) = length xs - base"
  using sending_window [OF assms] assms off_of_nat [of "length xs" base] by (auto simp: sending_def stream_ok_def)

lemma write_pos_irrelevant [simp]:
  "stream_ok str base (rb\<lparr>rb_write_pos := p\<rparr>) = stream_ok str base rb" "stored (rb\<lparr>rb_write_pos := p\<rparr>) = stored rb"
  by (simp_all add: stream_ok_def rbuf_ok_def ranges_ok_def stored_def window_size_def get_byte_def wrap_def lin_def cong: option.case_cong)

lemma sending_write:
  assumes "sending xs base sb" "data \<noteq> []" "length data < 4294967296" "a \<notin> fst ` set (contents (range_map sb))"
    and "\<forall>i. \<exists>b. balloc i = Some b \<and> length b = 131072"
  shows "\<exists>sb' ret. rbuf_write_front sb data (of_nat (length data)) (Some a) balloc = Some (sb', ret) \<and>
    sending (if ret \<ge> 0 then xs @ data else xs) base sb' \<and> (ret \<ge> 0 \<longleftrightarrow> length xs - base + length data \<le> unat (window_size sb))"
proof -
  let ?n = "of_nat (length data) :: u32" and ?d = "length xs - base"
  note w = sending_window [OF assms(1)] and o = sending_off [OF assms(1)]
  have s: "stream_ok (stream_of xs) base sb" "base \<le> length xs" "stored sb = {..<?d}" "rb_write_pos sb = of_nat (length xs)"
    using assms(1) by (simp_all add: sending_def)
  have n: "unat ?n = length data" using assms(3) by (simp add: unat_of_nat)
  have wr: "unat (rbuf_writable_bytes sb) = unat (window_size sb) - ?d"
    using w o by (simp add: rbuf_writable_bytes_def off_def unat_sub_if' word_le_nat_alt)
  show ?thesis
  proof (cases "?d + length data \<le> unat (window_size sb)")
    case False
    then have "rbuf_writable_bytes sb < ?n" using wr n w(1) by (simp add: word_less_nat_alt)
    then show ?thesis using assms(1) False unfolding rbuf_write_front_def by (intro exI [of _ sb] exI [of _ "-1"]) simp
  next
    case True
    let ?str = "stream_of (xs @ data)"
    have s': "stream_ok ?str base sb" by (rule stream_ok_append [OF s(1)]) (simp add: s(3) less_diff_conv add.commute)
    have "0 < unat ?n" using n assms(2) by simp
    then have k: "\<bar>int (length xs) - int base\<bar> < 2 ^ 31" "0 < ?n" using True w s(2) by (simp_all add: word_less_nat_alt)
    have win: "base \<le> length xs \<and> length xs + length data \<le> base + unat (window_size sb)" using True s(2) by simp
    obtain sb' ret where r: "rbuf_write sb (of_nat (length xs)) data ?n (Some a) balloc = Some (sb', ret)" "stream_ok ?str base sb'"
      "rb_write_pos sb' = rb_write_pos sb" "stored sb' = stored sb \<union> {?d ..< ?d + length data}"
      using arrive_stream_ok [OF s' k(1,2) assms(4,5), unfolded n segment_last] unfolding if_P [OF win] by blast
    have ok: "rbuf_ok sb" "ranges_ok sb" using s(1) by (simp_all add: stream_ok_def)
    have f: "length data = unat ?n" "off (start_pos sb) (rb_write_pos sb) + unat ?n \<le> unat (window_size sb)" using n o True by simp_all
    have "ret = 1 \<or> ret = 0" using rbuf_write_spec [OF ok k(2) f assms(4,5)] r(1) unfolding s(4) by (metis Pair_inject option.inject)
    then have "ret \<ge> 0" by auto
    moreover have "\<not> rbuf_writable_bytes sb < ?n" using wr n True by (simp add: word_less_nat_alt)
    ultimately have "rbuf_write_front sb data ?n (Some a) balloc = Some (sb'\<lparr>rb_write_pos := rb_write_pos sb' + ?n\<rparr>, ret)"
      using r(1) s(4) by (simp add: rbuf_write_front_def)
    moreover have "sending (xs @ data) base (sb'\<lparr>rb_write_pos := rb_write_pos sb' + ?n\<rparr>)"
    proof -
      have "{..<?d} \<union> {?d ..< ?d + length data} = {..<length (xs @ data) - base}" using s(2) by auto
      then show ?thesis using r(2,3,4) s(2,3,4) by (simp add: sending_def)
    qed
    ultimately show ?thesis using \<open>ret \<ge> 0\<close> True by auto
  qed
qed

lemma stream_read:
  assumes "stream_ok str base rb" "base \<le> k" "{k - base ..< k - base + unat n} \<subseteq> stored rb"
  shows "rbuf_read rb (of_nat k) n = Some (segment str k (unat n))"
proof -
  have ok: "rbuf_ok rb" "ranges_ok rb" "start_pos rb = of_nat base" "\<forall>i \<in> stored rb. get_byte rb (start_pos rb + of_nat i) = Some (str (base + i))"
    using assms(1) unfolding stream_ok_def by blast+
  have "get_byte rb (of_nat k + of_nat i) = Some (str (k + i))" if "i < unat n" for i
  proof -
    have "k - base + i \<in> stored rb" using assms(3) that by auto
    then have "get_byte rb (of_nat base + of_nat (k - base + i)) = Some (str (base + (k - base + i)))" using ok(3,4) by metis
    moreover have "base + (k - base + i) = k + i" using assms(2) by simp
    ultimately show ?thesis by (metis of_nat_add)
  qed
  then have h: "holds_bytes rb (of_nat k) (segment str k (unat n))" by (simp add: holds_bytes_def)
  show ?thesis
  proof (cases "unat n")
    case 0
    then show ?thesis by (subst rbuf_read.simps) (simp add: segment_def unat_eq_0)
  next
    case (Suc j)
    have "k - base + j \<in> stored rb" by (rule subsetD [OF assms(3)]) (simp add: Suc)
    then have b: "k - base + j < unat (window_size rb)" by (rule stored_bound [OF ok(2)])
    then have "off (start_pos rb) (of_nat k) = k - base"
      using window_bound [OF ok(1)] off_of_nat [of k base] assms(2) unfolding ok(3) by simp
    then have "lin rb (of_nat k) + unat n \<le> rb_size rb" using b Suc window_unat [OF ok(1)] by (simp add: lin_def off_def)
    then show ?thesis by (rule holds_read [OF ok(1) _ _ h]) simp
  qed
qed

lemma sending_release:
  assumes "sending xs base sb" "a \<notin> fst ` set (contents (range_map sb))" "rbuf_release sb r (Some a) = Some sb'"
  shows "sending xs (base + unat r) sb'"
proof -
  have s: "stream_ok (stream_of xs) base sb" "base \<le> length xs" "stored sb = {..<length xs - base}" "rb_write_pos sb = of_nat (length xs)"
    using assms(1) by (simp_all add: sending_def)
  obtain n where n: "rbuf_readable_bytes sb = Some (first_map sb, n)" "{..<unat n} \<subseteq> stored sb" "unat n \<notin> stored sb"
    using readable_spec [of sb] s(1) by (auto simp: stream_ok_def)
  then have u: "unat n = length xs - base" unfolding s(3) by (auto simp: not_less lessThan_subset_iff)
  have r: "r \<le> n" using assms(3) n(1) by (auto simp: rbuf_release_def bind_eq_Some_conv split: if_splits)
  then have "unat r \<le> length xs - base" using u by (simp add: word_le_nat_alt)
  moreover obtain rb' where "rbuf_release sb r (Some a) = Some rb'" "stream_ok (stream_of xs) (base + unat r) rb'"
    "rb_write_pos rb' = rb_write_pos sb" "stored rb' = {i. i + unat r \<in> stored sb}" using release_stream_ok [OF s(1) n(1) r assms(2)] by blast
  moreover have "{i. i + unat r < length xs - base} = {..<length xs - (base + unat r)}" by force
  ultimately show ?thesis using assms(3) s(2-4) by (simp add: sending_def)
qed

section \<open>Both sides\<close>

text \<open>
  A data packet as \<open>litedt_data_post\<close> builds it behind the header, from position \<open>k\<close> of the stream.
\<close>

definition data_packet :: "nat \<Rightarrow> u32 \<Rightarrow> u32 \<Rightarrow> u8 \<Rightarrow> u8 list \<Rightarrow> u8 list" where
  "data_packet k n fec_seq fec_index data =
     enc_data_post \<lparr>dp_seq = of_nat k, dp_len = ucast n, dp_fec_seq = fec_seq, dp_fec_index = fec_index\<rparr> @ data"

text \<open>
  The written bytes, the send buffer, the packets in the network with their positions, the receive buffer and the bytes taken
  from it. A packet in the network may arrive any number of times or never, but not when the receiver is half of the number space away.
\<close>

inductive transfer :: "u8 list \<Rightarrow> rbuf \<Rightarrow> (nat \<times> u8 list) set \<Rightarrow> rbuf \<Rightarrow> u8 list \<Rightarrow> bool" where
  start: "0 < unat cnt \<Longrightarrow> unat cnt \<le> 16383 \<Longrightarrow> 0 < unat cnt' \<Longrightarrow> unat cnt' \<le> 16383 \<Longrightarrow>
    transfer [] (fst (rbuf_init cnt True)) {} (fst (rbuf_init cnt' True)) []"
| send: "transfer xs sb net rb out \<Longrightarrow> data \<noteq> [] \<Longrightarrow> length data < 4294967296 \<Longrightarrow> a \<notin> fst ` set (contents (range_map sb)) \<Longrightarrow>
    \<forall>i. \<exists>b. balloc i = Some b \<and> length b = 131072 \<Longrightarrow>
    rbuf_write_front sb data (of_nat (length data)) (Some a) balloc = Some (sb', ret) \<Longrightarrow>
    transfer (if ret \<ge> 0 then xs @ data else xs) sb' net rb out"
| post: "transfer xs sb net rb out \<Longrightarrow> \<bar>int k - int (length xs)\<bar> < 2 ^ 31 \<Longrightarrow> 0 < n \<Longrightarrow> n < 65536 \<Longrightarrow>
    off (start_pos sb) (of_nat k) + unat n \<le> off (start_pos sb) (rb_write_pos sb) \<Longrightarrow>
    rbuf_read sb (of_nat k) n = Some data \<Longrightarrow> transfer xs sb (insert (k, data_packet k n fec_seq fec_index data) net) rb out"
| release: "transfer xs sb net rb out \<Longrightarrow> a \<notin> fst ` set (contents (range_map sb)) \<Longrightarrow> rbuf_release sb r (Some a) = Some sb' \<Longrightarrow>
    transfer xs sb' net rb out"
| receive: "transfer xs sb net rb out \<Longrightarrow> (k, pkt) \<in> net \<Longrightarrow> \<bar>int k - int (length out)\<bar> < 2 ^ 31 \<Longrightarrow> dec_data_post pkt = Some (d, body) \<Longrightarrow>
    a \<notin> fst ` set (contents (range_map rb)) \<Longrightarrow> \<forall>i. \<exists>b. balloc i = Some b \<and> length b = 131072 \<Longrightarrow>
    rbuf_write rb (dp_seq d) body (ucast (dp_len d)) (Some a) balloc = Some (rb', ret) \<Longrightarrow> transfer xs sb net rb' out"
| deliver: "transfer xs sb net rb out \<Longrightarrow> a \<notin> fst ` set (contents (range_map rb)) \<Longrightarrow> rbuf_read_front rb m = Some (rb1, ys) \<Longrightarrow>
    rbuf_release rb1 (of_nat (length ys)) (Some a) = Some rb2 \<Longrightarrow> transfer xs sb net rb2 (out @ ys)"

definition in_net :: "u8 list \<Rightarrow> nat \<Rightarrow> u8 list \<Rightarrow> bool" where
  "in_net xs k pkt \<longleftrightarrow> (\<exists>n fs fi. 0 < n \<and> n < 65536 \<and> k + unat n \<le> length xs \<and> pkt = data_packet k n fs fi (segment (stream_of xs) k (unat n)))"

definition receiving :: "u8 list \<Rightarrow> u8 list \<Rightarrow> rbuf \<Rightarrow> bool" where
  "receiving xs out rb \<longleftrightarrow> stream_ok (stream_of xs) (length out) rb \<and> (\<forall>i \<in> stored rb. length out + i < length xs) \<and>
     length out \<le> length xs \<and> out = segment (stream_of xs) 0 (length out)"

lemma sending_post:
  assumes "sending xs base sb" "\<bar>int k - int (length xs)\<bar> < 2 ^ 31" "0 < n" "n < 65536"
    "off (start_pos sb) (of_nat k) + unat n \<le> off (start_pos sb) (rb_write_pos sb)" "rbuf_read sb (of_nat k) n = Some data"
  shows "in_net xs k (data_packet k n fs fi data)"
proof -
  have s: "stream_ok (stream_of xs) base sb" "base \<le> length xs" "stored sb = {..<length xs - base}"
    using assms(1) by (simp_all add: sending_def)
  have p: "start_pos sb = of_nat base" using s(1) by (simp add: stream_ok_def)
  have o: "off (of_nat base) (of_nat k) + unat n \<le> length xs - base" using assms(5) sending_off [OF assms(1)] p by simp
  note w = sending_window [OF assms(1)]
  have b: "base \<le> k"
  proof (rule ccontr)
    assume "\<not> base \<le> k"
    then show False using off_of_nat [of k base] o w assms(2) s(2) by simp
  qed
  have "of_nat k - of_nat base = (of_nat (k - base) :: u32)" using b by simp
  then have "off (of_nat base) (of_nat k) = k - base" using b assms(2) s(2) w by (simp add: off_def unat_of_nat del: of_nat_diff)
  then have k: "k - base + unat n \<le> length xs - base" using o by simp
  then have "{k - base ..< k - base + unat n} \<subseteq> stored sb" unfolding s(3) by force
  then have "data = segment (stream_of xs) k (unat n)" using stream_read [OF s(1) b, of n] assms(6) by simp
  moreover have "k + unat n \<le> length xs" using k b s(2) by linarith
  ultimately show ?thesis using assms(3,4) unfolding in_net_def by blast
qed

lemma receiving_append: "receiving xs out rb \<Longrightarrow> receiving (xs @ ys) out rb"
  by (simp add: receiving_def stream_ok_append segment_append trans_less_add1)

lemma in_net_append: "in_net xs k pkt \<Longrightarrow> in_net (xs @ ys) k pkt"
  unfolding in_net_def using segment_append [of k _ xs ys] by (metis length_append trans_le_add1)

lemma receiving_arrive:
  assumes "receiving xs out rb" "in_net xs k pkt" "\<bar>int k - int (length out)\<bar> < 2 ^ 31" "dec_data_post pkt = Some (d, body)"
    "a \<notin> fst ` set (contents (range_map rb))" "\<forall>i. \<exists>b. balloc i = Some b \<and> length b = 131072"
    "rbuf_write rb (dp_seq d) body (ucast (dp_len d)) (Some a) balloc = Some (rb', ret)"
  shows "receiving xs out rb'"
proof -
  obtain n fs fi where p: "0 < n" "n < 65536" "k + unat n \<le> length xs" "pkt = data_packet k n fs fi (segment (stream_of xs) k (unat n))"
    using assms(2) unfolding in_net_def by blast
  have "unat n < 65536" using p(2) by (simp add: word_less_nat_alt)
  then have "unat (ucast (ucast n :: u16) :: u32) = unat n" by (simp add: unsigned_ucast_eq unsigned_take_bit_eq take_bit_nat_eq_self)
  then have "ucast (ucast n :: u16) = n" by (rule unsigned_word_eqI)
  then have w: "rbuf_write rb (of_nat k) (segment (stream_of xs) k (unat n)) n (Some a) balloc = Some (rb', ret)"
    using assms(4,7) p(4) by (auto simp: data_packet_def dec_data_post_enc)
  have "stream_ok (stream_of xs) (length out) rb" using assms(1) by (simp add: receiving_def)
  from arrive_stream_ok [OF this assms(3) p(1) assms(5,6)] show ?thesis
    using w assms(1) p(3) by (auto simp: receiving_def split: if_splits)
qed

lemma receiving_deliver:
  assumes "receiving xs out rb" "a \<notin> fst ` set (contents (range_map rb))" "rbuf_read_front rb m = Some (rb1, ys)"
    "rbuf_release rb1 (of_nat (length ys)) (Some a) = Some rb2"
  shows "receiving xs (out @ ys) rb2"
proof -
  let ?str = "stream_of xs"
  have r: "stream_ok ?str (length out) rb" "\<forall>i \<in> stored rb. length out + i < length xs" "length out \<le> length xs" "out = segment ?str 0 (length out)"
    using assms(1) by (simp_all add: receiving_def)
  obtain j where j: "{..<j} \<subseteq> stored rb" "ys = segment ?str (length out) (min (unat m) j)" "stream_ok ?str (length out + min (unat m) j) rb2"
    "stored rb2 = {i. i + min (unat m) j \<in> stored rb}"
    using deliver_stream_ok [OF r(1) assms(2), of m] assms(3,4) by auto
  have "length out + i < length xs" if "i < j" for i using j(1) r(2) that by auto
  then have "length out + min (unat m) j \<le> length xs" using r(3) by (cases j) force+
  moreover have "out @ ys = segment ?str 0 (length out + min (unat m) j)" using r(4) j(2) segment_simps(3) [of ?str 0 "length out"] by simp
  moreover have "\<forall>i \<in> stored rb2. length out + min (unat m) j + i < length xs"
    unfolding j(4) using r(2) by (metis add.assoc add.commute mem_Collect_eq)
  ultimately show ?thesis using j(2,3) by (simp add: receiving_def)
qed

lemma transfer_inv:
  "transfer xs sb net rb out \<Longrightarrow> (\<exists>base. sending xs base sb) \<and> (\<forall>(k, pkt) \<in> net. in_net xs k pkt) \<and> receiving xs out rb"
proof (induction rule: transfer.induct)
  case (start cnt cnt')
  have "rb_write_pos (fst (rbuf_init cnt True)) = 0" by (simp add: rbuf_init_def)
  moreover have "stored (fst (rbuf_init c True)) = {}" for c
    by (simp add: rbuf_init_def stored_def treemap_init_inv(2))
  ultimately show ?case using init_stream_ok start by (auto simp: sending_def receiving_def segment_def)
next
  case (send xs sb net rb out data a balloc sb' ret)
  then obtain base where b: "sending xs base sb" by blast
  have "sending (if ret \<ge> 0 then xs @ data else xs) base sb'" using sending_write [OF b send.hyps(2-5)] send.hyps(6) by auto
  then show ?case using send.IH receiving_append in_net_append by (auto split: if_splits)
next
  case (post xs sb net rb out k n data fec_seq fec_index)
  then obtain base where b: "sending xs base sb" by blast
  have "in_net xs k (data_packet k n fec_seq fec_index data)" by (rule sending_post [OF b post.hyps(2-6)])
  then show ?case using post.IH by auto
next
  case (release xs sb net rb out a r sb')
  then show ?case using sending_release by blast
next
  case (receive xs sb net rb out k pkt d body a balloc rb' ret)
  then show ?case using receiving_arrive [of xs out rb k pkt d body a balloc rb' ret] by auto
next
  case (deliver xs sb net rb out a m rb1 ys rb2)
  then show ?case using receiving_deliver by blast
qed

text \<open>Three bytes on their way from one side to the other.\<close>

lemma sample_transfer: "\<exists>sb net rb. transfer [7, 8, 9] sb net rb [7, 8, 9]"
proof -
  let ?xs = "[7, 8, 9] :: u8 list" and ?str = "stream_of [7, 8, 9]"
  have al: "\<forall>i. \<exists>b. sample_alloc i = Some b \<and> length b = 131072" by (simp add: sample_alloc_def)
  have s0: "transfer [] sample_rb {} sample_rb []" using transfer.start [of 2 2] by (simp add: sample_rb_def)
  then have "sending [] 0 sample_rb" using transfer_inv by (fastforce simp: sending_def)
  from sending_write [OF this, of ?xs 1 sample_alloc] obtain sb ret where w: "rbuf_write_front sample_rb ?xs 3 (Some 1) sample_alloc = Some (sb, ret)"
    "sending ?xs 0 sb" "ret \<ge> 0" using al sample_ranges by auto
  have s1: "transfer ?xs sb {} sample_rb []" using transfer.send [OF s0, of ?xs 1 sample_alloc sb ret] w al sample_ranges by simp
  have p: "stream_ok ?str 0 sb" "rb_write_pos sb = 3" "stored sb = {..<3}" using w(2) by (simp_all add: sending_def numeral_3_eq_3)
  have q: "start_pos sb = 0" using p(1) by (simp add: stream_ok_def)
  have "{0 - 0 ..< 0 - 0 + unat (3 :: u32)} \<subseteq> stored sb" unfolding p(3) by force
  from stream_read [OF p(1) _ this] have rd: "rbuf_read sb 0 3 = Some (segment ?str 0 3)" by simp
  let ?pkt = "data_packet 0 3 0 0 (segment ?str 0 3)"
  have s2: "transfer ?xs sb {(0, ?pkt)} sample_rb []" using transfer.post [OF s1, of 0 3 "segment ?str 0 3"] rd p(2) q by (simp add: off_def)
  have ok: "stream_ok ?str 0 sample_rb" using transfer_inv [OF s2] by (simp add: receiving_def)
  from arrive_stream_ok [OF ok, of 0 3 1 sample_alloc] obtain rb ret where r: "rbuf_write sample_rb 0 (segment ?str 0 3) 3 (Some 1) sample_alloc = Some (rb, ret)"
    "stored rb = {0..<3}" using al sample_ranges by auto
  have s3: "transfer ?xs sb {(0, ?pkt)} rb []"
    by (rule transfer.receive [OF s2, of 0 ?pkt "\<lparr>dp_seq = 0, dp_len = 3, dp_fec_seq = 0, dp_fec_index = 0\<rparr>" "segment ?str 0 3" 1 sample_alloc rb ret])
      (use r al sample_ranges in \<open>simp_all add: data_packet_def dec_data_post_enc\<close>)
  obtain a where a: "a \<notin> fst ` set (contents (range_map rb))" using ex_new_if_finite [of "fst ` set (contents (range_map rb))"] by auto
  have ok: "stream_ok ?str 0 rb" using transfer_inv [OF s3] by (simp add: receiving_def)
  from deliver_stream_ok [OF ok a, of 3] obtain rb1 rb2 j where j: "{..<j} \<subseteq> {0..<3}" "j \<notin> {0..<3}"
    "rbuf_read_front rb 3 = Some (rb1, segment ?str 0 (min 3 j))" "rbuf_release rb1 (of_nat (min 3 j)) (Some a) = Some rb2" using r(2) by auto
  have "j = 3" using j(1,2) subsetD [OF j(1), of 3] by (cases "j < 3") auto
  then have "transfer ?xs sb {(0, ?pkt)} rb2 ([] @ segment ?str 0 3)" using j by (intro transfer.deliver [OF s3 a, of 3 rb1]) simp_all
  then show ?thesis using segment_take [of 3 ?xs] by auto
qed

text \<open>
  C1. What the receiver has taken is a prefix of what the sender has written, in every state that the two buffers and the network can reach.
\<close>

theorem transfer_prefix:
  assumes "transfer xs sb net rb out"
  shows "prefix out xs"
proof -
  have "receiving xs out rb" using transfer_inv [OF assms] by blast
  then have "out = take (length out) xs" unfolding receiving_def by (metis segment_take)
  then show ?thesis by (metis take_is_prefix)
qed

theorem transfer_prefix_witness: "\<exists>sb net rb out. transfer [7, 8, 9] sb net rb out \<and> length out = 3 \<and> prefix out [7, 8, 9]"
proof -
  obtain sb net rb where t: "transfer [7, 8, 9] sb net rb [7, 8, 9]" using sample_transfer by blast
  show ?thesis using t transfer_prefix [OF t] by (intro exI [of _ sb] exI [of _ net] exI [of _ rb] exI [of _ "[7, 8, 9]"]) simp
qed

end
