(* ===== verification/SackMap.thy ===== *)
theory SackMap
  imports LitedtEvents RBufferStream Config
begin

text \<open>
  The ranges that a receiver acknowledges (\<^verbatim>\<open>push_sack_map\<close> in \<^verbatim>\<open>src/src/litedt.c\<close>): the map of a
  connection from the first position of a range to its end, against the set of positions that its receive buffer holds.
\<close>

section \<open>The ranges of the map\<close>

type_synonym sack_entry = "addr \<times> u32 \<times> sack_info"

definition ends :: "sack_entry list \<Rightarrow> range_entry list" where
  "ends es = map (\<lambda>(i, k, v). (i, k, si_seq_end v)) es"

definition acked :: "u32 \<Rightarrow> (u32, sack_info) treemap \<Rightarrow> nat set" where
  "acked s tm = cover s (ends (contents tm))"

definition sacks_ok :: "u32 \<Rightarrow> (u32, sack_info) treemap \<Rightarrow> bool" where
  "sacks_ok s tm \<longleftrightarrow> seq_inv s tm \<and> gapped s (ends (contents tm))"

lemma ends_simps [simp]:
  "ends [] = []" "ends ((i, k, v) # es) = (i, k, si_seq_end v) # ends es" "ends (xs @ ys) = ends xs @ ends ys"
  by (simp_all add: ends_def)

lemma ends_take: "ends (take n es) = take n (ends es)"
  by (simp add: ends_def take_map)

lemma ends_all: "(\<forall>y \<in> set (ends es). P (fst y) (fst (snd y)) (snd (snd y))) \<longleftrightarrow> (\<forall>y \<in> set es. P (fst y) (fst (snd y)) (si_seq_end (snd (snd y))))"
  by (auto simp: ends_def)

lemma sack_split:
  assumes "gapped s (ends es)"
  shows "\<exists>xs ys. es = xs @ ys \<and> split_at s pos xs ys"
proof -
  obtain xs ys where "ends es = xs @ ys" "split_at s pos xs ys" using split_exists [OF assms] by blast
  then obtain xs' ys' where "es = xs' @ ys'" "ends xs' = xs" "ends ys' = ys" unfolding ends_def by (auto simp: map_eq_append_conv)
  moreover have "split_at s pos xs' ys'"
    using \<open>split_at s pos xs ys\<close> ends_all [of xs' "\<lambda>_ k _. off s k \<le> off s pos"] ends_all [of ys' "\<lambda>_ k _. off s pos < off s k"]
    unfolding split_at_def calculation(2,3) [symmetric] by simp
  ultimately show ?thesis by blast
qed

section \<open>Merging\<close>

definition joined :: "sack_info \<Rightarrow> sack_info \<Rightarrow> u32 \<Rightarrow> sack_info" where
  "joined v nv s = (if off s (si_seq_end v) \<le> off s (si_seq_end nv) then v\<lparr>si_seq_end := si_seq_end nv\<rparr> else v)"

lemma joined_end: "off s (si_seq_end (joined v nv s)) = max (off s (si_seq_end v)) (off s (si_seq_end nv))"
  by (simp add: joined_def)

lemma merge_sacks_step:
  assumes "seq_inv s tm" "contents tm = xs @ (i, k, v) # (j, ns, nv) # ys"
    and "off s (si_seq_end v) < 2147483648" "off s (si_seq_end nv) < 2147483648"
  shows "off s ns \<le> off s (si_seq_end v) \<Longrightarrow> \<exists>tm'. merge_sacks tm i = merge_sacks tm' i \<and> seq_inv s tm' \<and>
      contents tm' = xs @ (i, k, joined v nv s) # ys"
    and "\<not> off s ns \<le> off s (si_seq_end v) \<Longrightarrow> merge_sacks tm i = Some tm"
proof -
  have asc: "ascending seq_cmp (seq_window s) (contents tm)" "distinct (map fst (contents tm))"
    using assms(1) by (simp_all add: treemap_inv_def)
  have ns: "off s ns < 2147483648" using asc(1) by (simp add: assms(2) seq_window_off)
  have acc: "treemap_value tm i = Some v" "treemap_key tm j = Some ns" "treemap_value tm j = Some nv"
    using treemap_access [OF assms(1), of i k v] treemap_access [OF assms(1), of j ns nv] by (simp_all add: assms(2))
  have nx: "treemap_next tm i = Some (Some j)" using seq.tm.next_any [OF assms(1,2)] by simp
  have le: "LESS_EQUAL ns (si_seq_end v) \<longleftrightarrow> off s ns \<le> off s (si_seq_end v)"
    "LESS_EQUAL (si_seq_end v) (si_seq_end nv) \<longleftrightarrow> off s (si_seq_end v) \<le> off s (si_seq_end nv)"
    using LESS_EQUAL_off assms(3,4) ns by blast+
  show "merge_sacks tm i = Some tm" if "\<not> off s ns \<le> off s (si_seq_end v)"
    using that acc nx le by (subst merge_sacks.simps) simp
  define tm1 where "tm1 = (if off s (si_seq_end v) \<le> off s (si_seq_end nv)
    then treemap_set_value tm i (v\<lparr>si_seq_end := si_seq_end nv\<rparr>) else tm)"
  have tm1: "seq_inv s tm1" "contents tm1 = xs @ (i, k, joined v nv s) # (j, ns, nv) # ys"
    using treemap_set_value_spec [OF assms(1), of i "v\<lparr>si_seq_end := si_seq_end nv\<rparr>"] assms(1,2) asc(2)
      set_entry_at [of xs i k v "(j, ns, nv) # ys" "v\<lparr>si_seq_end := si_seq_end nv\<rparr>"]
    unfolding tm1_def joined_def by simp_all
  have "ns \<in> seq_window s" using ns by (simp add: seq_window_off)
  then obtain tm2 ret where tm2: "treemap_delete tm1 ns = Some (tm2, ret)" "seq_inv s tm2" "contents tm2 = del_key ns (contents tm1)"
    using seq.tm.del_any [OF tm1(1), of ns] by blast
  have "ascending seq_cmp (seq_window s) ((xs @ [(i, k, joined v nv s)]) @ (j, ns, nv) # ys)" using tm1 by (simp add: treemap_inv_def)
  from del_key_at [OF this] have c: "contents tm2 = xs @ (i, k, joined v nv s) # ys" using tm2(3) tm1(2) by simp
  show "\<exists>tm'. merge_sacks tm i = merge_sacks tm' i \<and> seq_inv s tm' \<and> contents tm' = xs @ (i, k, joined v nv s) # ys"
    if "off s ns \<le> off s (si_seq_end v)"
  proof (intro exI conjI)
    show "merge_sacks tm i = merge_sacks tm2 i"
      using that acc nx le tm2(1) by (subst merge_sacks.simps) (simp add: tm1_def)
  qed (use tm2 c in simp_all)
qed

lemma merge_sacks_spec:
  assumes "seq_inv s tm" "contents tm = xs @ (i, k, v) # ys" "gapped s (ends (xs @ [(i, k, v)]))" "gapped s (ends ys)"
  shows "\<exists>tm'. merge_sacks tm i = Some tm' \<and> sacks_ok s tm' \<and> acked s tm' = acked s tm"
  using assms
proof (induction ys arbitrary: tm v)
  case Nil
  have "treemap_value tm i = Some v" using treemap_access [OF Nil(1), of i k v] by (simp add: Nil(2))
  moreover have "treemap_next tm i = Some None" using seq.tm.next_any [OF Nil(1,2)] by simp
  ultimately have "merge_sacks tm i = Some tm" by (subst merge_sacks.simps) simp
  then show ?case using Nil(1-3) by (simp add: sacks_ok_def)
next
  case (Cons y ys)
  obtain j ns nv where y: "y = (j, ns, nv)" by (cases y)
  let ?e = "off s (si_seq_end v)" and ?ne = "off s (si_seq_end nv)"
  have b: "?e < 2147483648" "?ne < 2147483648" "off s k < ?e" "off s ns < ?ne" using Cons.prems y by simp_all
  have kn: "off s k < off s ns" using ascending_off [of s xs i k v "y # ys" y] Cons.prems(1,2) y by (simp add: treemap_inv_def)
  show ?case
  proof (cases "off s ns \<le> ?e")
    case True
    obtain tm1 where tm1: "merge_sacks tm i = merge_sacks tm1 i" "seq_inv s tm1" "contents tm1 = xs @ (i, k, joined v nv s) # ys"
      using merge_sacks_step(1) [OF Cons.prems(1) Cons.prems(2) [unfolded y] b(1,2) True] by blast
    have "gapped s (ends (xs @ [(i, k, joined v nv s)]))" using Cons.prems(3) b by (simp add: joined_end)
    moreover have "gapped s (ends ys)" using Cons.prems(4) by (simp add: y)
    ultimately obtain tm' where r: "merge_sacks tm1 i = Some tm'" "sacks_ok s tm'" "acked s tm' = acked s tm1"
      using Cons.IH [OF tm1(2,3)] by blast
    have "{off s k ..< max ?e ?ne} = {off s k ..< ?e} \<union> {off s ns ..< ?ne}" using True kn b by auto
    then have "acked s tm1 = acked s tm" unfolding acked_def tm1(3) Cons.prems(2) y by (simp add: joined_end Un_ac)
    then show ?thesis using r unfolding tm1(1) by simp
  next
    case False
    have "merge_sacks tm i = Some tm" by (rule merge_sacks_step(2) [OF Cons.prems(1) Cons.prems(2) [unfolded y] b(1,2) False])
    moreover have "?e < off s (fst (snd z))" if "z \<in> set (ends (y # ys))" for z
      using that Cons.prems(4) False b(4) y by (auto dest: less_trans)
    then have "gapped s (ends (contents tm))" using Cons.prems(3,4) kn y unfolding Cons.prems(2)
      by (simp add: y) (meson less_trans)
    ultimately show ?thesis using Cons.prems(1) by (simp add: sacks_ok_def)
  qed
qed

section \<open>Ranges below the window\<close>

definition above :: "u32 \<Rightarrow> u32 \<Rightarrow> sack_entry list \<Rightarrow> bool" where
  "above s rs es \<longleftrightarrow> (\<forall>x \<in> set es. off s rs \<le> off s (fst (snd x)))"

lemma above_acked:
  assumes "above s rs es"
  shows "cover s (ends es) \<inter> {off s rs ..} = cover s (ends es)"
  using assms by (fastforce simp: above_def cover_def ends_def)

lemma gapped_above:
  assumes "gapped s ((i, k, e) # ends es)" "off s rs \<le> off s e"
  shows "\<forall>x \<in> set es. off s rs < off s (fst (snd x))"
  using assms ends_all [of es "\<lambda>_ k _. off s rs < off s k"] by (auto dest: le_less_trans)

lemma expire_sacks_spec:
  assumes "sacks_ok s tm" "off s rs < 2147483648" "p \<notin> fst ` set (contents tm)"
  shows "\<exists>tm'. expire_sacks rs (Some p) tm = Some tm' \<and> sacks_ok s tm' \<and> acked s tm' = acked s tm \<inter> {off s rs ..} \<and>
    above s rs (contents tm') \<and> fst ` set (contents tm') \<subseteq> insert p (fst ` set (contents tm))"
  using assms
proof (induction "contents tm" arbitrary: tm)
  case Nil
  have "treemap_first tm = (fst (treemap_first tm), None)" "sacks_ok s (fst (treemap_first tm))" "contents (fst (treemap_first tm)) = []"
    using seq.tm.first_any [of s tm] Nil by (auto simp: sacks_ok_def prod_eq_iff)
  then show ?case using Nil(1) by (subst expire_sacks.simps) (auto simp: acked_def above_def split: prod.splits)
next
  case (Cons x es)
  obtain a k v where x: "x = (a, k, v)" by (cases x)
  define tm1 where "tm1 = fst (treemap_first tm)"
  have inv: "seq_inv s tm1" "contents tm1 = (a, k, v) # es" and f: "treemap_first tm = (tm1, Some a)"
    using seq.tm.first_any [of s tm] Cons.prems(1) Cons.hyps(2) [symmetric] by (auto simp: sacks_ok_def tm1_def x prod_eq_iff)
  have acc: "treemap_key tm1 a = Some k" "treemap_value tm1 a = Some v" using treemap_access [OF inv(1), of a k v] inv(2) by simp_all
  have g: "gapped s ((a, k, si_seq_end v) # ends es)" using Cons.prems(1) Cons.hyps(2) [symmetric] by (simp add: sacks_ok_def x)
  have b: "off s k < off s (si_seq_end v)" "off s (si_seq_end v) < 2147483648" "off s k < 2147483648" using g by simp_all
  have le: "LESS_EQUAL rs k \<longleftrightarrow> off s rs \<le> off s k" "LESS_EQUAL (si_seq_end v) rs \<longleftrightarrow> off s (si_seq_end v) \<le> off s rs"
    using LESS_EQUAL_off [OF Cons.prems(2) b(3)] LESS_EQUAL_off [OF b(2) Cons.prems(2)] by simp_all
  have ac: "acked s tm = {off s k ..< off s (si_seq_end v)} \<union> cover s (ends es)"
    using Cons.hyps(2) [symmetric] by (simp add: acked_def x)
  have k: "k \<in> seq_window s" using b(3) by (simp add: seq_window_off)
  obtain tm2 ret where tm2: "treemap_delete tm1 k = Some (tm2, ret)" "seq_inv s tm2" "contents tm2 = es"
    using seq.tm.del_any [OF inv(1) k] del_key_at [of s "[]" a k v es] inv by (auto simp: treemap_inv_def)
  have ok2: "sacks_ok s tm2" "p \<notin> fst ` set (contents tm2)" "fst ` set (contents tm2) \<subseteq> fst ` set (contents tm)"
    using tm2 g Cons.prems(3) Cons.hyps(2) [symmetric] by (auto simp: sacks_ok_def)
  consider (keep) "off s rs \<le> off s k" | (cut) "off s k < off s rs" "off s rs < off s (si_seq_end v)" | (drop) "off s k < off s rs" "off s (si_seq_end v) \<le> off s rs"
    by linarith
  then show ?case
  proof cases
    case keep
    then have "above s rs (contents tm1)" using gapped_above [OF g, of rs] b(1) inv(2) by (auto simp: above_def intro: less_imp_le)
    then show ?thesis using keep f acc le above_acked [of s rs "contents tm1"] inv g ac Cons.hyps(2) [symmetric]
      by (subst expire_sacks.simps) (auto simp: sacks_ok_def acked_def x)
  next
    case cut
    have ab: "\<forall>x \<in> set es. off s rs < off s (fst (snd x))" by (rule gapped_above [OF g]) (use cut in simp)
    obtain tm3 where tm3: "treemap_insert2 tm2 rs v (Some p) = Some (tm3, 0, Some (Some p))" "seq_inv s tm3" "contents tm3 = (p, rs, v) # es"
      using insert_between [OF tm2(2), of "[]" es rs p v] Cons.prems(2) ok2(2) tm2(3) ab by (auto simp: split_at_def)
    have e3: "expire_sacks rs (Some p) tm = Some tm3" using cut f acc le tm2(1) tm3(1) by (subst expire_sacks.simps) (simp add: treemap_insert_def)
    have ok3: "sacks_ok s tm3" using tm3 g cut by (simp add: sacks_ok_def)
    have above3: "above s rs (contents tm3)" using ab by (auto simp: above_def tm3(3) intro: less_imp_le)
    have "above s rs es" using above3 by (simp add: above_def tm3(3))
    from above_acked [OF this] have "cover s (ends es) \<inter> {off s rs ..} = cover s (ends es)" .
    moreover have "{off s k ..< off s (si_seq_end v)} \<inter> {off s rs ..} = {off s rs ..< off s (si_seq_end v)}" using cut by auto
    ultimately have "acked s tm3 = acked s tm \<inter> {off s rs ..}" unfolding ac by (simp add: acked_def tm3(3) Int_Un_distrib2)
    then show ?thesis using e3 ok3 above3 Cons.hyps(2) [symmetric] by (intro exI [of _ tm3]) (auto simp: tm3(3))
  next
    case drop
    obtain tm' where tm': "expire_sacks rs (Some p) tm2 = Some tm'" "sacks_ok s tm'" "acked s tm' = acked s tm2 \<inter> {off s rs ..}"
      "above s rs (contents tm')" "fst ` set (contents tm') \<subseteq> insert p (fst ` set (contents tm2))"
      using Cons.hyps(1) [OF tm2(3) [symmetric] ok2(1) Cons.prems(2) ok2(2)] by blast
    have "expire_sacks rs (Some p) tm = Some tm'" using drop f acc le tm2(1) tm'(1) by (subst expire_sacks.simps) simp
    moreover have "acked s tm2 = cover s (ends es)" by (simp add: acked_def tm2(3))
    then have "acked s tm' = acked s tm \<inter> {off s rs ..}" unfolding tm'(3) ac using drop by auto
    ultimately show ?thesis using tm'(2,4,5) ok2(3) by blast
  qed
qed

section \<open>Entering a range\<close>

text \<open>The second half of \<open>push_sack_map\<close>.\<close>

definition enter_sack :: "(u32, sack_info) treemap \<Rightarrow> u32 \<Rightarrow> u32 \<Rightarrow> pointer \<Rightarrow> (u32, sack_info) treemap option" where
  "enter_sack sm start seq_end mem = do {
     let sack = \<lparr>si_seq_end = seq_end, si_send_times = 0\<rparr>;
     it \<leftarrow> prev_entry sm start;
     let insert = do { (tm, ret, at) \<leftarrow> treemap_insert2 sm start sack mem;
                       Some (if ret = -1 then (tm, None) else (tm, case at of None \<Rightarrow> it | Some q \<Rightarrow> q)) };
     (sm, it) \<leftarrow>
       (case it of
          Some i \<Rightarrow> do {
            rstart \<leftarrow> treemap_key sm i;
            prev \<leftarrow> treemap_value sm i;
            if LESS_EQUAL seq_end (si_seq_end prev) then Some (sm, None)
            else if LESS_EQUAL rstart start \<and> LESS_EQUAL start (si_seq_end prev)
            then Some (treemap_set_value sm i (prev\<lparr>si_seq_end := seq_end, si_send_times := 0\<rparr>), it)
            else insert
          }
        | None \<Rightarrow> insert);
     case it of None \<Rightarrow> Some sm | Some i \<Rightarrow> merge_sacks sm i
   }"

lemma enter_new_sack:
  assumes "sacks_ok s sm" "contents sm = xs @ ys" "split_at s start xs ys" "off s start < off s seq_end" "off s seq_end < 2147483648"
    and "a \<notin> fst ` set (contents sm)" "\<forall>x \<in> set (ends xs). off s (snd (snd x)) < off s start"
  shows "\<exists>tm sm'. treemap_insert2 sm start \<lparr>si_seq_end = seq_end, si_send_times = 0\<rparr> (Some a) = Some (tm, 0, Some (Some a)) \<and>
    merge_sacks tm a = Some sm' \<and> sacks_ok s sm' \<and> acked s sm' = acked s sm \<union> {off s start ..< off s seq_end}"
proof -
  have g: "seq_inv s sm" "gapped s (ends xs)" "gapped s (ends ys)" using assms(1,2) by (simp_all add: sacks_ok_def)
  have "\<forall>x \<in> set (ends xs). off s (fst (snd x)) < off s start" using g(2) assms(7) unfolding gapped_def by (meson less_trans)
  then have "\<forall>x \<in> set xs. off s (fst (snd x)) < off s start" using ends_all [of xs "\<lambda>_ k _. off s k < off s start"] by simp
  then obtain tm where tm: "treemap_insert2 sm start \<lparr>si_seq_end = seq_end, si_send_times = 0\<rparr> (Some a) = Some (tm, 0, Some (Some a))"
    "seq_inv s tm" "contents tm = xs @ (a, start, \<lparr>si_seq_end = seq_end, si_send_times = 0\<rparr>) # ys"
    using insert_between [OF g(1) assms(2,3) _ _ assms(6)] assms(4,5) by fastforce
  have "gapped s (ends (xs @ [(a, start, \<lparr>si_seq_end = seq_end, si_send_times = 0\<rparr>)]))" using g(2) assms(4,5,7) by simp
  from merge_sacks_spec [OF tm(2,3) this g(3)] obtain sm' where "merge_sacks tm a = Some sm'" "sacks_ok s sm'" "acked s sm' = acked s tm" by blast
  moreover have "acked s tm = acked s sm \<union> {off s start ..< off s seq_end}" by (simp add: acked_def tm(3) assms(2) Un_ac)
  ultimately show ?thesis using tm(1) by auto
qed

lemma enter_sack_spec:
  assumes "sacks_ok s sm" "off s start < off s seq_end" "off s seq_end < 2147483648" "a \<notin> fst ` set (contents sm)"
  shows "\<exists>sm'. enter_sack sm start seq_end (Some a) = Some sm' \<and> sacks_ok s sm' \<and> acked s sm' = acked s sm \<union> {off s start ..< off s seq_end}"
proof -
  have p: "off s start < 2147483648" using assms(2,3) by linarith
  have g: "seq_inv s sm" "gapped s (ends (contents sm))" using assms(1) by (simp_all add: sacks_ok_def)
  obtain xs ys where sp: "contents sm = xs @ ys" "split_at s start xs ys" using sack_split [OF g(2)] by blast
  have it: "prev_entry sm start = Some (last_addr xs)" using predecessor [OF g(1) sp p] by (simp add: prev_entry_def)
  note new = enter_new_sack [OF assms(1) sp assms(2-4)]
  show ?thesis
  proof (cases xs rule: rev_cases)
    case Nil
    then show ?thesis using new it by (auto simp: enter_sack_def)
  next
    case (snoc zs z)
    obtain i rs v where z: "z = (i, rs, v)" by (cases z)
    let ?v = "v\<lparr>si_seq_end := seq_end, si_send_times := 0\<rparr>"
    have acc: "treemap_key sm i = Some rs" "treemap_value sm i = Some v"
      using treemap_access [OF g(1), of i rs v] by (simp_all add: sp(1) snoc z)
    have b: "off s rs \<le> off s start" "off s rs < off s (si_seq_end v)" "off s (si_seq_end v) < 2147483648" "off s rs < 2147483648"
      using sp snoc z g(2) by (auto simp: split_at_def)
    have le: "LESS_EQUAL seq_end (si_seq_end v) \<longleftrightarrow> off s seq_end \<le> off s (si_seq_end v)" "LESS_EQUAL rs start"
      "LESS_EQUAL start (si_seq_end v) \<longleftrightarrow> off s start \<le> off s (si_seq_end v)"
      using LESS_EQUAL_off [OF assms(3) b(3)] LESS_EQUAL_off [OF b(4) p] LESS_EQUAL_off [OF p b(3)] b(1) by simp_all
    have l: "last_addr xs = Some i" by (simp add: snoc z)
    consider (dup) "off s seq_end \<le> off s (si_seq_end v)" | (grow) "off s (si_seq_end v) < off s seq_end" "off s start \<le> off s (si_seq_end v)"
      | (new) "off s (si_seq_end v) < off s start" using assms(2) by linarith
    then show ?thesis
    proof cases
      case dup
      then have "{off s start ..< off s seq_end} \<subseteq> acked s sm" using b(1) by (auto simp: acked_def sp(1) snoc z)
      then show ?thesis using dup it l acc le assms(1) by (auto simp: enter_sack_def)
    next
      case grow
      define tm where "tm = treemap_set_value sm i ?v"
      have c: "seq_inv s tm" "contents tm = zs @ (i, rs, ?v) # ys"
        using treemap_set_value_spec [OF g(1), of i ?v] set_entry_at [of zs i rs v ys ?v] g(1)
        by (simp_all add: tm_def sp(1) snoc z treemap_inv_def)
      have gg: "gapped s (ends (zs @ [(i, rs, ?v)]))" "gapped s (ends ys)" using g(2) b assms(2,3) by (simp_all add: sp(1) snoc z)
      have "{off s rs ..< off s seq_end} = {off s rs ..< off s (si_seq_end v)} \<union> {off s start ..< off s seq_end}" using grow b by auto
      then have "acked s tm = acked s sm \<union> {off s start ..< off s seq_end}" by (simp add: acked_def c(2) sp(1) snoc z Un_ac)
      moreover have "enter_sack sm start seq_end (Some a) = merge_sacks tm i" using grow it l acc le by (simp add: enter_sack_def tm_def)
      ultimately show ?thesis using merge_sacks_spec [OF c gg] by auto
    next
      case new
      have "off s (snd (snd x)) < off s start" if "x \<in> set (ends xs)" for x
        using that g(2) new b(2) by (auto simp: sp(1) snoc z dest: less_trans)
      then have "\<forall>x \<in> set (ends xs). off s (snd (snd x)) < off s start" by blast
      from enter_new_sack [OF assms(1) sp assms(2-4) this] show ?thesis using new it l acc le assms(2) by (auto simp: enter_sack_def)
    qed
  qed
qed

section \<open>Acknowledging received data\<close>

text \<open>The positions, counted from \<open>s\<close>, that have arrived: those before the buffer and those stored in it.\<close>

definition received :: "u32 \<Rightarrow> rbuf \<Rightarrow> nat set" where
  "received s rb = {..<off s (start_pos rb)} \<union> (\<lambda>i. off s (start_pos rb) + i) ` stored rb"

lemma off_base: "off s t + off t p < 2147483648 \<Longrightarrow> off s p = off s t + off t p"
proof -
  assume a: "off s t + off t p < 2147483648"
  have "p - s = (t - s) + (p - t)" by simp
  moreover have "unat ((t - s) + (p - t)) = unat (t - s) + unat (p - t)"
    by (subst unat_add_lem [THEN iffD1]) (use a in \<open>simp_all add: off_def\<close>)
  ultimately show ?thesis unfolding off_def by metis
qed

text \<open>The positions that a position of a set of positions hangs together with.\<close>

definition run :: "nat set \<Rightarrow> nat \<Rightarrow> nat set" where
  "run X p = {i. {min i p .. max i p} \<subseteq> X}"

lemma run_interval:
  assumes "a \<le> p" "p < b" "{a ..< b} \<subseteq> X" "b \<notin> X" "0 < a \<longrightarrow> a - 1 \<notin> X"
  shows "run X p = {a ..< b}"
proof (rule equalityI)
  show "run X p \<subseteq> {a ..< b}"
  proof
    fix i
    assume "i \<in> run X p"
    then have i: "{min i p .. max i p} \<subseteq> X" by (simp add: run_def)
    have "\<not> b \<le> i" using i assms(1,2,4) by (auto simp: subset_iff)
    moreover have "\<not> i < a"
    proof
      assume "i < a"
      then have "a - 1 \<in> {min i p .. max i p}" "0 < a" using assms(1) by auto
      then show False using i assms(5) by blast
    qed
    ultimately show "i \<in> {a ..< b}" by simp
  qed
  show "{a ..< b} \<subseteq> run X p"
  proof
    fix i
    assume "i \<in> {a ..< b}"
    then have "{min i p .. max i p} \<subseteq> {a ..< b}" using assms(1,2) by auto
    then show "i \<in> run X p" using assms(3) by (auto simp: run_def)
  qed
qed

lemma gapped_neighbours:
  assumes "gapped s (zs @ (a, k, e) # ys)"
  shows "off s e \<notin> cover s (zs @ (a, k, e) # ys)" "0 < off s k \<longrightarrow> off s k - 1 \<notin> cover s (zs @ (a, k, e) # ys)"
proof -
  have z: "off s (snd (snd x)) < off s k" if "x \<in> set zs" for x using assms that by simp
  have y: "off s e < off s (fst (snd x))" if "x \<in> set ys" for x using assms that by simp
  have b: "off s k < off s e" using assms by simp
  show "off s e \<notin> cover s (zs @ (a, k, e) # ys)"
    using z y b by (force simp: cover_def dest: less_trans)
  have "off s k - 1 \<notin> {off s (fst (snd x)) ..< off s (snd (snd x))}" if "x \<in> set zs" for x
    unfolding atLeastLessThan_iff using z [OF that] by linarith
  moreover have "off s k - 1 \<notin> {off s (fst (snd x)) ..< off s (snd (snd x))}" if "x \<in> set ys" for x
    unfolding atLeastLessThan_iff using y [OF that] b by linarith
  ultimately show "0 < off s k \<longrightarrow> off s k - 1 \<notin> cover s (zs @ (a, k, e) # ys)" unfolding cover_def by auto
qed

lemma range_of_stored:
  assumes "ranges_ok rb" "rbuf_ok rb" "off (start_pos rb) seq \<in> stored rb"
  shows "\<exists>a k e. prev_entry (range_map rb) seq = Some (Some a) \<and> treemap_key (range_map rb) a = Some k \<and>
    treemap_value (range_map rb) a = Some e \<and> off (start_pos rb) k \<le> off (start_pos rb) seq \<and> off (start_pos rb) seq < off (start_pos rb) e \<and>
    off (start_pos rb) e \<le> unat (window_size rb) \<and> {off (start_pos rb) k ..< off (start_pos rb) e} \<subseteq> stored rb \<and>
    run (stored rb) (off (start_pos rb) seq) = {off (start_pos rb) k ..< off (start_pos rb) e}"
proof -
  let ?s = "start_pos rb" and ?tm = "range_map rb"
  have r: "seq_inv ?s ?tm" "gapped ?s (contents ?tm)" "fits ?s (unat (window_size rb)) (contents ?tm)" using assms(1) by (simp_all add: ranges_ok_def)
  obtain a k e where m: "(a, k, e) \<in> set (contents ?tm)" "off ?s k \<le> off ?s seq" "off ?s seq < off ?s e"
    using assms(3) by (auto simp: stored_def cover_def)
  then obtain zs ys where c: "contents ?tm = zs @ (a, k, e) # ys" by (auto simp: in_set_conv_decomp)
  have e: "off ?s e \<le> unat (window_size rb)" using r(3) by (simp add: c)
  then have p: "off ?s seq < 2147483648" using m(3) window_bound [OF assms(2)] by linarith
  have "off ?s (fst (snd x)) \<le> off ?s seq" if "x \<in> set zs" for x
  proof -
    have "off ?s (fst (snd x)) < off ?s (snd (snd x))" "off ?s (snd (snd x)) < off ?s k" using r(2) that unfolding c gapped_def by (simp_all add: sorted_wrt_append)
    then show ?thesis using m(2) by linarith
  qed
  moreover have "off ?s seq < off ?s (fst (snd y))" if "y \<in> set ys" for y
  proof -
    have "off ?s e < off ?s (fst (snd y))" using r(2) that by (simp add: c)
    then show ?thesis using m(3) by linarith
  qed
  ultimately have "split_at ?s seq (zs @ [(a, k, e)]) ys" using m(2) by (simp add: split_at_def)
  from predecessor [OF r(1) _ this p] have "prev_entry ?tm seq = Some (Some a)" by (simp add: c prev_entry_def)
  moreover have s: "{off ?s k ..< off ?s e} \<subseteq> stored rb" by (auto simp: stored_def c)
  moreover have "run (stored rb) (off ?s seq) = {off ?s k ..< off ?s e}"
    using gapped_neighbours [OF r(2) [unfolded c]] s m(2,3) by (intro run_interval) (simp_all add: stored_def c)
  ultimately show ?thesis using treemap_access [OF r(1) m(1)] m e by blast
qed

lemma push_sack_map_enter:
  assumes "LESS_EQUAL (cn_rwin_start c) seq" "expire_sacks (cn_rwin_start c) m1 (cn_sack_map c) = Some sm"
    and "prev_entry (range_map (cn_recv_buf c)) seq = Some (Some a)" "treemap_key (range_map (cn_recv_buf c)) a = Some k"
    and "treemap_value (range_map (cn_recv_buf c)) a = Some e"
  shows "push_sack_map c seq m1 m2 = do { sm \<leftarrow> enter_sack sm k e m2; Some (c\<lparr>cn_sack_map := sm\<rparr>) }"
  using assms by (simp add: push_sack_map_def enter_sack_def Let_def rbuf_range_map_def split_def)

text \<open>
  C3. Entering received data in the map of acknowledgements always returns. For a position below the receive window nothing changes.
  Otherwise what is below the window is taken out, the whole run of stored positions around the position is added, nothing else
  changes, and only received positions are ever acknowledged.
\<close>

theorem push_sack_map_refines:
  assumes "rbuf_ok (cn_recv_buf c)" "ranges_ok (cn_recv_buf c)" "sacks_ok s (cn_sack_map c)"
    and "off s (start_pos (cn_recv_buf c)) + unat (window_size (cn_recv_buf c)) < 2147483648"
    and "off (start_pos (cn_recv_buf c)) seq \<in> stored (cn_recv_buf c)" "off s (cn_rwin_start c) < 2147483648"
    and "a1 \<notin> fst ` set (contents (cn_sack_map c))" "a2 \<notin> fst ` set (contents (cn_sack_map c))" "a1 \<noteq> a2"
    and "acked s (cn_sack_map c) \<subseteq> received s (cn_recv_buf c)"
  shows "if off s seq < off s (cn_rwin_start c) then push_sack_map c seq (Some a1) (Some a2) = Some c
    else \<exists>sm. push_sack_map c seq (Some a1) (Some a2) = Some (c\<lparr>cn_sack_map := sm\<rparr>) \<and> sacks_ok s sm \<and>
      acked s sm = acked s (cn_sack_map c) \<inter> {off s (cn_rwin_start c) ..} \<union>
        (\<lambda>i. off s (start_pos (cn_recv_buf c)) + i) ` run (stored (cn_recv_buf c)) (off (start_pos (cn_recv_buf c)) seq) \<and>
      off s seq \<in> acked s sm \<and> acked s sm \<subseteq> received s (cn_recv_buf c)"
proof -
  let ?rb = "cn_recv_buf c" and ?rs = "cn_rwin_start c"
  let ?d = "off s (start_pos ?rb)"
  obtain a k e where r: "prev_entry (range_map ?rb) seq = Some (Some a)" "treemap_key (range_map ?rb) a = Some k" "treemap_value (range_map ?rb) a = Some e"
    "off (start_pos ?rb) k \<le> off (start_pos ?rb) seq" "off (start_pos ?rb) seq < off (start_pos ?rb) e"
    "off (start_pos ?rb) e \<le> unat (window_size ?rb)" "{off (start_pos ?rb) k ..< off (start_pos ?rb) e} \<subseteq> stored ?rb"
    "run (stored ?rb) (off (start_pos ?rb) seq) = {off (start_pos ?rb) k ..< off (start_pos ?rb) e}"
    using range_of_stored [OF assms(2,1,5)] by blast
  have o: "off s p = ?d + off (start_pos ?rb) p" if "off (start_pos ?rb) p \<le> off (start_pos ?rb) e" for p
    by (rule off_base) (use that r(6) assms(4) in linarith)
  have os: "off s k = ?d + off (start_pos ?rb) k" "off s seq = ?d + off (start_pos ?rb) seq" "off s e = ?d + off (start_pos ?rb) e"
    using r(4,5) by (intro o; linarith)+
  have b: "off s k \<le> off s seq" "off s seq < off s e" "off s e < 2147483648" "off s seq < 2147483648" using os r(4-6) assms(4) by linarith+
  note le = LESS_EQUAL_off [OF assms(6) b(4)]
  obtain sm where sm: "expire_sacks ?rs (Some a1) (cn_sack_map c) = Some sm" "sacks_ok s sm" "acked s sm = acked s (cn_sack_map c) \<inter> {off s ?rs ..}"
    "fst ` set (contents sm) \<subseteq> insert a1 (fst ` set (contents (cn_sack_map c)))"
    using expire_sacks_spec [OF assms(3,6,7)] by blast
  have "a2 \<notin> fst ` set (contents sm)" using sm(4) assms(8,9) by auto
  from enter_sack_spec [OF sm(2) _ b(3) this, of k] obtain sm' where sm': "enter_sack sm k e (Some a2) = Some sm'" "sacks_ok s sm'"
    "acked s sm' = acked s sm \<union> {off s k ..< off s e}" using b by auto
  have im: "{off s k ..< off s e} = (\<lambda>i. ?d + i) ` run (stored ?rb) (off (start_pos ?rb) seq)"
    by (simp add: os r(8) image_add_atLeastLessThan add.commute)
  have ac: "acked s sm' \<subseteq> received s ?rb" using assms(10) r(7) unfolding sm'(3) sm(3) im r(8) received_def by blast
  show ?thesis
  proof (cases "off s seq < off s ?rs")
    case True
    then show ?thesis using le by (simp add: push_sack_map_def)
  next
    case False
    have "push_sack_map c seq (Some a1) (Some a2) = Some (c\<lparr>cn_sack_map := sm'\<rparr>)"
      using push_sack_map_enter [OF _ sm(1) r(1-3)] le False sm'(1) by simp
    moreover have "off s seq \<in> acked s sm'" using sm'(3) b by simp
    ultimately show ?thesis using sm'(2,3) sm(3) ac im False by (simp only: if_False) blast
  qed
qed

definition sample_receiver :: "rbuf \<Rightarrow> litedt_conn" where
  "sample_receiver rb = (new_connection default_settings 1 1 CONN_ESTABLISHED 0 True True)\<lparr>cn_recv_buf := rb\<rparr>"

lemma sample_receiver_fields:
  "cn_recv_buf (sample_receiver rb) = rb" "cn_sack_map (sample_receiver rb) = treemap_init 4 8 seq_cmp" "cn_rwin_start (sample_receiver rb) = 0"
  by (simp_all add: sample_receiver_def new_connection_def retrans_mod_init_def rbuf_window_info_def rbuf_init_def Let_def)

lemma sample_received: "\<exists>rb. rbuf_ok rb \<and> ranges_ok rb \<and> stored rb = {5, 6} \<and> start_pos rb = 0 \<and> window_size rb = window_size sample_rb"
proof -
  obtain rb tm where r: "rbuf_ok rb" "ranges_ok rb" "start_pos rb = 0" "stored rb = {5 ..< 7}" "written (sample_rb\<lparr>range_map := tm\<rparr>) 5 [8, 9] rb"
    using rbuf_write_spec [of sample_rb 2 "[8, 9]" 5 1 sample_alloc] by (auto simp: sample_ranges sample_alloc_def off_def)
  have e: "rb = (sample_rb\<lparr>range_map := tm\<rparr>)\<lparr>blocks := blocks rb\<rparr>" using r(5) unfolding written_def by blast
  have "window_size rb = window_size sample_rb" by (subst e) (simp add: window_size_def)
  then show ?thesis using r by auto
qed

lemma sacks_start: "sacks_ok s (treemap_init 4 8 seq_cmp)" "acked s (treemap_init 4 8 seq_cmp) = {}"
  by (simp_all add: sacks_ok_def acked_def treemap_init_inv)

lemma run_sample: "run {5, 6} 6 = {5, 6}"
  using run_interval [of 5 6 7 "{5, 6}"] by (auto simp: atLeastLessThan_nat_numeral)

theorem push_sack_map_refines_witness:
  "\<exists>rb sm. stored rb = {5, 6} \<and> push_sack_map (sample_receiver rb) 6 (Some 1) (Some 2) = Some (sample_receiver rb\<lparr>cn_sack_map := sm\<rparr>) \<and>
     acked 0 sm = {5, 6}"
proof -
  obtain rb where rb: "rbuf_ok rb" "ranges_ok rb" "stored rb = {5, 6}" "start_pos rb = 0" "window_size rb = window_size sample_rb"
    using sample_received by blast
  let ?c = "sample_receiver rb"
  have o: "off 0 6 = 6" "off 0 0 = 0" by (simp_all add: off_def)
  have "if off 0 6 < off 0 (cn_rwin_start ?c) then push_sack_map ?c 6 (Some 1) (Some 2) = Some ?c
    else \<exists>sm. push_sack_map ?c 6 (Some 1) (Some 2) = Some (?c\<lparr>cn_sack_map := sm\<rparr>) \<and> sacks_ok 0 sm \<and>
      acked 0 sm = acked 0 (cn_sack_map ?c) \<inter> {off 0 (cn_rwin_start ?c) ..} \<union>
        (\<lambda>i. off 0 (start_pos (cn_recv_buf ?c)) + i) ` run (stored (cn_recv_buf ?c)) (off (start_pos (cn_recv_buf ?c)) 6) \<and>
      off 0 6 \<in> acked 0 sm \<and> acked 0 sm \<subseteq> received 0 (cn_recv_buf ?c)"
    by (rule push_sack_map_refines) (simp_all add: sample_receiver_fields rb sacks_start treemap_init_inv sample_ranges(6) off_def)
  then obtain sm where "push_sack_map ?c 6 (Some 1) (Some 2) = Some (?c\<lparr>cn_sack_map := sm\<rparr>)" "acked 0 sm = {5, 6}"
    by (auto simp: sample_receiver_fields sacks_start rb(3,4) o run_sample)
  then show ?thesis using rb(3) by blast
qed

section \<open>Sending the ranges\<close>

text \<open>The entries that stay in the map when they have been sent once more.\<close>

definition resent :: "sack_entry list \<Rightarrow> sack_entry list" where
  "resent es = filter (\<lambda>(a, k, v). si_send_times v < 2) (map (\<lambda>(a, k, v). (a, k, v\<lparr>si_send_times := si_send_times v + 1\<rparr>)) es)"

lemma resent_simps [simp]:
  "resent [] = []"
  "resent ((a, k, v) # es) = (if si_send_times v + 1 < 2 then (a, k, v\<lparr>si_send_times := si_send_times v + 1\<rparr>) # resent es else resent es)"
  by (simp_all add: resent_def)

lemma collect_step:
  assumes "seq_inv s tm" "contents tm = xs @ (a, k, v) # ys"
  shows "\<exists>tm' ret. (if si_send_times v + 1 \<ge> 2 then treemap_delete (treemap_set_value tm a (v\<lparr>si_send_times := si_send_times v + 1\<rparr>)) k
      else Some (treemap_set_value tm a (v\<lparr>si_send_times := si_send_times v + 1\<rparr>), 0)) = Some (tm', ret) \<and>
    seq_inv s tm' \<and> contents tm' = xs @ resent [(a, k, v)] @ ys"
proof -
  let ?v = "v\<lparr>si_send_times := si_send_times v + 1\<rparr>"
  define tm1 where "tm1 = treemap_set_value tm a ?v"
  have tm1: "seq_inv s tm1" "contents tm1 = xs @ (a, k, ?v) # ys"
    using treemap_set_value_spec [OF assms(1), of a ?v] set_entry_at [of xs a k v ys ?v] assms
    by (simp_all add: tm1_def treemap_inv_def)
  have asc: "ascending seq_cmp (seq_window s) (xs @ (a, k, ?v) # ys)" using tm1 by (simp add: treemap_inv_def)
  then have "k \<in> seq_window s" by simp
  then obtain tm2 ret where "treemap_delete tm1 k = Some (tm2, ret)" "seq_inv s tm2" "contents tm2 = xs @ ys"
    using seq.tm.del_any [OF tm1(1), of k] del_key_at [OF asc] tm1(2) by auto
  then show ?thesis using tm1 by (auto simp: tm1_def [symmetric] not_less)
qed

lemma collect_sacks_spec:
  assumes "seq_inv s tm" "contents tm = xs @ ys" "17 + 8 * length acks \<le> LITEDT_MTU_MAX" "length acks < max 1 (unat ack_size)"
    and "n = max 1 (unat ack_size) - length acks"
  shows "if 17 + 8 * (length acks + length (take n ys)) \<le> LITEDT_MTU_MAX
    then \<exists>tm'. collect_sacks ack_size tm (head_addr ys) acks = Some (tm', acks @ map snd (ends (take n ys))) \<and>
      seq_inv s tm' \<and> contents tm' = xs @ resent (take n ys) @ drop n ys
    else collect_sacks ack_size tm (head_addr ys) acks = None"
  using assms
proof (induction ys arbitrary: tm xs acks n)
  case Nil
  then show ?case by (subst collect_sacks.simps) simp
next
  case (Cons y ys)
  obtain a k v where y: "y = (a, k, v)" by (cases y)
  have c: "contents tm = xs @ (a, k, v) # ys" using Cons.prems(2) by (simp add: y)
  have acc: "treemap_key tm a = Some k" "treemap_value tm a = Some v" using treemap_access [OF Cons.prems(1), of a k v] by (simp_all add: c)
  have nx: "treemap_next tm a = Some (head_addr ys)" using seq.tm.next_any [OF Cons.prems(1) c] by simp
  have "0 < n" using Cons.prems(4,5) by simp
  then obtain m where m: "n = Suc m" using gr0_implies_Suc by blast
  obtain tm1 ret where tm1: "(if si_send_times v + 1 \<ge> 2 then treemap_delete (treemap_set_value tm a (v\<lparr>si_send_times := si_send_times v + 1\<rparr>)) k
      else Some (treemap_set_value tm a (v\<lparr>si_send_times := si_send_times v + 1\<rparr>), 0)) = Some (tm1, ret)"
    "seq_inv s tm1" "contents tm1 = (xs @ resent [(a, k, v)]) @ ys" using collect_step [OF Cons.prems(1) c] by auto
  let ?acks = "acks @ [(k, si_seq_end v)]"
  show ?case
  proof (cases "17 + 8 * length ?acks \<le> LITEDT_MTU_MAX")
    case fit: True
    then have "length ?acks < 2 ^ 32" by (simp add: LITEDT_MTU_MAX_def LITEDT_MSS_MAX_def LITEDT_MAX_HEADER_def)
    then have full: "ack_size \<le> of_nat (length ?acks) \<longleftrightarrow> unat ack_size \<le> length ?acks"
      by (simp add: word_le_nat_alt unat_of_nat del: length_append of_nat_Suc)
    have step: "collect_sacks ack_size tm (head_addr (y # ys)) acks =
        (if unat ack_size \<le> length ?acks then Some (tm1, ?acks) else collect_sacks ack_size tm1 (head_addr ys) ?acks)"
      using acc nx tm1(1) fit full by (subst collect_sacks.simps) (simp add: y Let_def cong: if_cong)
    show ?thesis
    proof (cases "unat ack_size \<le> length ?acks")
      case True
      then have "n = 1" using Cons.prems(4,5) by simp
      then show ?thesis using step True tm1(2,3) fit by (auto simp: y)
    next
      case False
      then have "m = max 1 (unat ack_size) - length ?acks" "length ?acks < max 1 (unat ack_size)" using Cons.prems(4,5) m by auto
      from Cons.IH [OF tm1(2,3) fit this(2,1)] show ?thesis using step False m by (auto simp: y split: if_splits)
    qed
  next
    case False
    then show ?thesis using acc m by (subst collect_sacks.simps) (simp add: y)
  qed
qed

lemma gapped_resent:
  assumes "gapped s (ends (xs @ ys))"
  shows "gapped s (ends (resent xs @ ys))" "cover s (ends (resent xs @ ys)) \<subseteq> cover s (ends (xs @ ys))"
proof -
  have "set (ends (resent xs)) \<subseteq> set (ends xs)" by (force simp: ends_def resent_def)
  then show "cover s (ends (resent xs @ ys)) \<subseteq> cover s (ends (xs @ ys))" by (auto simp: cover_def)
  show "gapped s (ends (resent xs @ ys))" using assms
  proof (induction xs)
    case (Cons x xs)
    obtain a k v where x: "x = (a, k, v)" by (cases x)
    have "set (ends (resent xs)) \<subseteq> set (ends xs)" by (force simp: ends_def resent_def)
    then show ?case using Cons by (auto simp: x)
  qed simp
qed

text \<open>
  C8. An acknowledgement carries the first ranges of the map, as many as the limit \<open>ack_size\<close> of the configuration allows, and at
  least one; a range is forgotten when it has been sent twice and kept otherwise, and every position that a sent range names has
  been received. The limit is not checked against the packet: exactly when these ranges do not fit behind the 17 bytes of the
  headers, the loop writes outside the buffer.
\<close>

theorem data_ack_ranges:
  assumes "sacks_ok s tm" "acked s tm \<subseteq> received s rb"
  shows "if 17 + 8 * length (take (max 1 (unat ack_size)) (contents tm)) \<le> LITEDT_MTU_MAX
    then \<exists>tm' acks. collect_sacks ack_size (fst (treemap_first tm)) (snd (treemap_first tm)) [] = Some (tm', acks) \<and>
      acks = map (\<lambda>(a, k, v). (k, si_seq_end v)) (take (max 1 (unat ack_size)) (contents tm)) \<and>
      contents tm' = resent (take (max 1 (unat ack_size)) (contents tm)) @ drop (max 1 (unat ack_size)) (contents tm) \<and>
      sacks_ok s tm' \<and> acked s tm' \<subseteq> received s rb \<and> (\<forall>r \<in> set acks. {off s (fst r) ..< off s (snd r)} \<subseteq> received s rb)
    else collect_sacks ack_size (fst (treemap_first tm)) (snd (treemap_first tm)) [] = None"
proof -
  let ?n = "max 1 (unat ack_size)"
  let ?es = "take ?n (contents tm)"
  have f: "snd (treemap_first tm) = head_addr (contents tm)" "seq_inv s (fst (treemap_first tm))" "contents (fst (treemap_first tm)) = contents tm"
    using seq.tm.first_any [of s tm] assms(1) by (simp_all add: sacks_ok_def)
  have m: "17 + 8 * length ([] :: (u32 \<times> u32) list) \<le> LITEDT_MTU_MAX" by (simp add: LITEDT_MTU_MAX_def LITEDT_MSS_MAX_def)
  note spec = collect_sacks_spec [OF f(2) _ m, of "[]" "contents tm" ack_size ?n, unfolded f(1) [symmetric]]
  have g: "gapped s (ends (?es @ drop ?n (contents tm)))" using assms(1) by (simp add: sacks_ok_def del: ends_simps)
  have q: "{off s (fst q) ..< off s (snd q)} \<subseteq> received s rb" if q: "q \<in> set (map snd (ends ?es))" for q
  proof -
    obtain x where "x \<in> set (ends (contents tm))" "q = snd x" using q unfolding ends_take by (auto dest: in_set_takeD)
    then show ?thesis using assms(2) by (auto simp: acked_def cover_def)
  qed
  show ?thesis
  proof (cases "17 + 8 * length ?es \<le> LITEDT_MTU_MAX")
    case True
    then obtain tm' where r: "collect_sacks ack_size (fst (treemap_first tm)) (snd (treemap_first tm)) [] = Some (tm', map snd (ends ?es))"
      "seq_inv s tm'" "contents tm' = resent ?es @ drop ?n (contents tm)"
      using spec f(3) by (auto simp: less_max_iff_disj)
    have a: "map snd (ends ?es) = map (\<lambda>(a, k, v). (k, si_seq_end v)) ?es" by (auto simp: ends_def)
    have ok: "sacks_ok s tm'" "acked s tm' \<subseteq> received s rb"
      using gapped_resent [OF g] r(2,3) assms(2) by (simp_all add: sacks_ok_def acked_def del: ends_simps)
    show ?thesis using True r ok a q by (simp only: if_True) metis
  next
    case False
    then show ?thesis using spec f(3) by (auto simp: less_max_iff_disj)
  qed
qed

theorem data_ack_ranges_witness:
  "\<exists>rb sm tm'. stored rb = {5, 6} \<and> collect_sacks 4 (fst (treemap_first sm)) (snd (treemap_first sm)) [] = Some (tm', [(5, 7)]) \<and>
     acked 0 tm' \<subseteq> received 0 rb"
proof -
  obtain rb where rb: "rbuf_ok rb" "ranges_ok rb" "stored rb = {5, 6}" "start_pos rb = 0" "window_size rb = window_size sample_rb"
    using sample_received by blast
  obtain sm where sm: "treemap_insert2 (treemap_init 4 8 seq_cmp) 5 \<lparr>si_seq_end = 7, si_send_times = 0\<rparr> (Some 1) = Some (sm, 0, Some (Some 1))"
    "seq_inv 0 sm" "contents sm = [(1, 5, \<lparr>si_seq_end = 7, si_send_times = 0\<rparr>)]"
    using insert_between [of 0 "treemap_init 4 8 seq_cmp" "[]" "[]" 5 1 "\<lparr>si_seq_end = 7, si_send_times = 0\<rparr>"]
    by (auto simp: treemap_init_inv split_at_def off_def)
  have "acked 0 sm = {5 ..< 7}" by (simp add: acked_def sm(3) off_def)
  moreover have "received 0 rb = {5, 6}" by (simp add: received_def rb(3,4) off_def)
  ultimately have "acked 0 sm \<subseteq> received 0 rb" by auto
  moreover have "sacks_ok 0 sm" using sm(2) by (simp add: sacks_ok_def sm(3) off_def)
  ultimately show ?thesis
    using data_ack_ranges [of 0 sm rb 4] rb(3) sm(3) by (auto simp: LITEDT_MTU_MAX_def LITEDT_MSS_MAX_def LITEDT_MAX_HEADER_def)
qed

end
