(* ===== verification/Entry.thy ===== *)
theory Entry
  imports LiteflowEvents FlowCorrect ConfigCorrect
begin

text \<open>
  The start of the process, \<^verbatim>\<open>src/src/main.c\<close>. The option parser of the C library calls \<open>parse_opt\<close> for every option and
  argument of the command line, and with keys of its own, in the order of the list \<open>calls\<close>; it ends the process with a usage
  message when an option or argument is refused. \<open>files\<close> gives for a name the contents of the file, if there is one, and
  whether there is memory for it and it can be read.
\<close>

definition PATH_MAX :: nat where "PATH_MAX = 4096"
definition ARGP_ERR_UNKNOWN :: int where "ARGP_ERR_UNKNOWN = 7"
definition EX_USAGE :: int where "EX_USAGE = 64"

datatype opt_key = Key_config | Key_version | Key_test | Key_arg | Key_other

record entry =
  config_name :: string
  test_mode :: bool

text \<open>\<open>Inl\<close> is the code with which the process ends.\<close>

definition parse_opt :: "opt_key \<Rightarrow> string \<Rightarrow> entry \<Rightarrow> (int + entry \<times> int) option" where
  "parse_opt key arg e =
     (case key of
        Key_config \<Rightarrow> do { name \<leftarrow> strncpy (config_name e) arg (PATH_MAX - 1); Some (Inr (e\<lparr>config_name := name\<rparr>, 0)) }
      | Key_version \<Rightarrow> Some (Inl 0)
      | Key_test \<Rightarrow> Some (Inr (e\<lparr>test_mode := True\<rparr>, 0))
      | _ \<Rightarrow> Some (Inr (e, ARGP_ERR_UNKNOWN)))"

fun argp_parse :: "(opt_key \<times> string) list \<Rightarrow> entry \<Rightarrow> (int + entry) option" where
  "argp_parse [] e = Some (Inr e)"
| "argp_parse ((key, arg) # calls) e = do {
     r \<leftarrow> parse_opt key arg e;
     case r of Inl code \<Rightarrow> Some (Inl code)
     | Inr (e, ret) \<Rightarrow> if ret \<noteq> 0 \<and> key \<noteq> Key_other then Some (Inl EX_USAGE) else argp_parse calls e
   }"

definition default_name :: "string \<Rightarrow> string" where
  "default_name argv0 = (let s = take (PATH_MAX - 1) (cstr argv0 @ ''.conf'') in s @ zeros (PATH_MAX - length s))"

text \<open>The state at the end and the exit code, or \<open>None\<close> when the process runs its event loop.\<close>

definition main ::
  "(string \<Rightarrow> 'd json_value option) \<Rightarrow> ('d \<Rightarrow> u32 \<Rightarrow> int) \<Rightarrow> int \<Rightarrow> u32 \<Rightarrow> int \<Rightarrow> (string \<Rightarrow> string option \<times> bool \<times> bool) \<Rightarrow> os \<Rightarrow>
     string \<Rightarrow> (opt_key \<times> string) list \<Rightarrow> (lf_world \<times> int option) option" where
  "main json_parse rto rnd1 rnd2 resolver files sys argv0 calls = do {
     let cs = global_config_init rnd1;
     r \<leftarrow> argp_parse calls \<lparr>config_name = default_name argv0, test_mode = False\<rparr>;
     case r of Inl code \<Rightarrow> Some (static_world sys cs, Some code)
     | Inr e \<Rightarrow> do {
         let (file, mem, rd) = files (cstr (config_name e));
         (cs, ret) \<leftarrow> load_config_file json_parse rto (cstr (config_name e)) file mem rd cs;
         let w = static_world sys cs;
         if test_mode e then Some (w, Some ret)
         else if ret \<noteq> NO_ERROR then Some (w, Some ret)
         else do {
           (w, ret) \<leftarrow> init_liteflow resolver rnd2 w;
           if ret \<noteq> 0 then Some (w, Some ret) else Some (start_liteflow w, None)
         }
       }
   }"

section \<open>What the options say\<close>

text \<open>The name of the configuration file: that of the last option for it, cut at the size of the buffer, or the default.\<close>

definition config_path :: "string \<Rightarrow> (opt_key \<times> string) list \<Rightarrow> string" where
  "config_path argv0 calls =
     foldl (\<lambda>name (key, arg). if key = Key_config then take (PATH_MAX - 1) (cstr arg) else name)
       (take (PATH_MAX - 1) (cstr argv0 @ ''.conf'')) calls"

text \<open>The first option or argument that ends the process, and the exit code.\<close>

definition ended_by :: "(opt_key \<times> string) list \<Rightarrow> int option" where
  "ended_by calls = map_option (\<lambda>(key, arg). if key = Key_version then 0 else EX_USAGE)
     (find (\<lambda>(key, arg). key = Key_version \<or> key = Key_arg) calls)"

lemma ended_by_simps [simp]:
  "ended_by [] = None"
  "ended_by ((key, arg) # calls) = (if key = Key_version then Some 0 else if key = Key_arg then Some EX_USAGE else ended_by calls)"
  by (simp_all add: ended_by_def)

definition named :: "entry \<Rightarrow> string \<Rightarrow> bool" where
  "named e name \<longleftrightarrow> length (config_name e) = PATH_MAX \<and> drop (PATH_MAX - 1) (config_name e) = [nul] \<and> cstr (config_name e) = name"

lemma cstr_stop: "\<forall>c \<in> set s. c \<noteq> nul \<Longrightarrow> cstr (s @ zeros (Suc n)) = s"
  by (simp add: cstr_def zeros_def)

lemma cstr_no_nul: "\<forall>c \<in> set (cstr s). c \<noteq> nul"
  by (auto simp: cstr_def dest: set_takeWhileD)

lemma strncpy_named:
  assumes "named e name"
  shows "\<exists>v. strncpy (config_name e) arg (PATH_MAX - 1) = Some v \<and> named (e\<lparr>config_name := v\<rparr>) (take (PATH_MAX - 1) (cstr arg))"
proof -
  let ?n = "PATH_MAX - 1" and ?v = "take (PATH_MAX - 1) (cstr arg @ zeros (PATH_MAX - 1)) @ [nul]"
  have v: "?v = take ?n (cstr arg) @ zeros (Suc (?n - length (cstr arg)))"
    by (simp add: zeros_def min_def replicate_append_same)
  have "\<forall>c \<in> set (take ?n (cstr arg)). c \<noteq> nul" using cstr_no_nul [of arg] by (auto dest: in_set_takeD)
  then have "cstr ?v = take ?n (cstr arg)" unfolding v by (rule cstr_stop)
  then show ?thesis using assms by (simp add: named_def strncpy_def zeros_def PATH_MAX_def)
qed

lemma default_named: "named \<lparr>config_name = default_name argv0, test_mode = b\<rparr> (take (PATH_MAX - 1) (cstr argv0 @ ''.conf''))"
proof -
  let ?s = "take (PATH_MAX - 1) (cstr argv0 @ ''.conf'')"
  have l: "PATH_MAX - length ?s = Suc (PATH_MAX - 1 - length ?s)" by (simp add: PATH_MAX_def)
  have "nul \<notin> set ''.conf''" by (simp add: nul_def)
  then have "\<forall>c \<in> set ?s. c \<noteq> nul" using cstr_no_nul [of argv0] by (auto dest!: in_set_takeD)
  then have "cstr (?s @ zeros (PATH_MAX - length ?s)) = ?s" unfolding l by (rule cstr_stop)
  moreover have "drop (PATH_MAX - 1) (?s @ zeros (PATH_MAX - length ?s)) = [nul]"
    by (simp add: zeros_def PATH_MAX_def)
  ultimately show ?thesis by (simp add: named_def default_name_def Let_def zeros_def PATH_MAX_def)
qed

lemma argp_parse_spec:
  assumes "named e name"
  shows "case ended_by calls of Some code \<Rightarrow> argp_parse calls e = Some (Inl code)
    | None \<Rightarrow> \<exists>e'. argp_parse calls e = Some (Inr e') \<and> (test_mode e' \<longleftrightarrow> test_mode e \<or> Key_test \<in> fst ` set calls) \<and>
        named e' (foldl (\<lambda>name (key, arg). if key = Key_config then take (PATH_MAX - 1) (cstr arg) else name) name calls)"
  using assms
proof (induction calls arbitrary: e name)
  case (Cons c calls)
  obtain key arg where c: "c = (key, arg)" by (cases c)
  obtain v where v: "strncpy (config_name e) arg (PATH_MAX - 1) = Some v" "named (e\<lparr>config_name := v\<rparr>) (take (PATH_MAX - 1) (cstr arg))"
    using strncpy_named [OF Cons.prems] by blast
  have t: "named (e\<lparr>test_mode := True\<rparr>) name" using Cons.prems by (simp add: named_def)
  note IH = Cons.IH [OF v(2)] Cons.IH [OF t] Cons.IH [OF Cons.prems]
  show ?case
    by (cases key; use IH v(1) in \<open>simp add: c parse_opt_def ARGP_ERR_UNKNOWN_def split: option.splits\<close>)
qed simp

text \<open>
  C39. With the option to test the configuration the process never starts to serve. A version option or an argument that is not
  an option ends it, whichever is first, with 0 or with the code for wrong usage. Otherwise the file that the last option for it names is
  loaded, the result is the exit code, and the process aborts only where loading does; the system is not touched.
\<close>

theorem main_config_test:
  assumes "Key_test \<in> fst ` set calls"
  shows "main json_parse rto rnd1 rnd2 resolver files sys argv0 calls =
      (case ended_by calls of Some code \<Rightarrow> Some (static_world sys (global_config_init rnd1), Some code)
       | None \<Rightarrow> (case files (config_path argv0 calls) of (file, mem, rd) \<Rightarrow>
           map_option (\<lambda>(cs, ret). (static_world sys cs, Some ret))
             (load_config_file json_parse rto (config_path argv0 calls) file mem rd (global_config_init rnd1)))) \<and>
    (\<forall>cs. lw_os (static_world sys cs) = sys \<and> lw_config (static_world sys cs) = cs)"
proof -
  let ?e = "\<lparr>config_name = default_name argv0, test_mode = False\<rparr>"
  note p = argp_parse_spec [OF default_named, of calls argv0 False, folded config_path_def]
  have "main json_parse rto rnd1 rnd2 resolver files sys argv0 calls =
      (case ended_by calls of Some code \<Rightarrow> Some (static_world sys (global_config_init rnd1), Some code)
       | None \<Rightarrow> (case files (config_path argv0 calls) of (file, mem, rd) \<Rightarrow>
           map_option (\<lambda>(cs, ret). (static_world sys cs, Some ret))
             (load_config_file json_parse rto (config_path argv0 calls) file mem rd (global_config_init rnd1))))"
  proof (cases "ended_by calls")
    case None
    then obtain e where e: "argp_parse calls ?e = Some (Inr e)" "test_mode e" "cstr (config_name e) = config_path argv0 calls"
      using p assms by (auto simp: named_def)
    obtain t mem rd where f: "files (config_path argv0 calls) = (t, mem, rd)" by (cases "files (config_path argv0 calls)")
    show ?thesis
      by (cases "load_config_file json_parse rto (config_path argv0 calls) t mem rd (global_config_init rnd1)")
        (use e f None in \<open>auto simp: main_def Let_def\<close>)
  next
    case (Some code)
    then show ?thesis using p by (simp add: main_def Let_def)
  qed
  then show ?thesis by (simp add: static_world_def)
qed

definition no_json :: "string \<Rightarrow> nat json_value option" where
  "no_json s = None"

text \<open>A test of a file that is not there, and one that a version option ends.\<close>

theorem main_config_test_witness:
  "map_option snd (main no_json (\<lambda>_ _. 0) 5 7 0 (\<lambda>_. (None, True, True)) sample_os ''liteflow''
      [(Key_test, []), (Key_config, ''a.conf''), (Key_other, [])]) = Some (Some FILE_NOT_FOUND) \<and>
   map_option snd (main no_json (\<lambda>_ _. 0) 5 7 0 (\<lambda>_. (None, True, True)) sample_os ''liteflow''
      [(Key_test, []), (Key_version, []), (Key_arg, ''x'')]) = Some (Some 0)"
proof -
  have "load_config_file no_json (\<lambda>_ _. 0) name None True True cs = Some (cs, FILE_NOT_FOUND)" for name cs
    by (simp add: load_config_file_def read_json_def Let_def)
  then show ?thesis
    using main_config_test [of "[(Key_test, []), (Key_config, ''a.conf''), (Key_other, [])]" no_json "\<lambda>_ _. 0" 5 7 0 "\<lambda>_. (None, True, True)" sample_os "''liteflow''"]
      main_config_test [of "[(Key_test, []), (Key_version, []), (Key_arg, ''x'')]" no_json "\<lambda>_ _. 0" 5 7 0 "\<lambda>_. (None, True, True)" sample_os "''liteflow''"]
    by (simp add: case_prod_beta)
qed

end
