(* ===== verification/Spec2Isabelle.thy ===== *)
theory Spec2Isabelle
  imports TreeMapProps IntrusiveList HashQueueCorrect TimerListCorrect Fnv WindowedFilter Sha256 RBufferStream Messages FecLoops
    LitedtTime EntranceProps Handshake StreamTransfer SackMap Entry
begin

text \<open>
  Liteflow tunnels TCP and UDP flows over an unreliable datagram link. Its transport, the protocol
  \<open>litedt\<close>, numbers the bytes of every flow with wrapping 32 bit sequence numbers, acknowledges them
  selectively, retransmits what is lost, paces the sending with a BBR controller and can repair single
  losses with xor packets. This library models the program from its containers up to the callbacks
  of the event loop.

  \<^bold>\<open>Conventions.\<close> Machine integers are words of their width, so that every wrap-around of the source is
  there; times in microseconds are \<open>int\<close>. An address is a natural number and a pointer an optional one.
  A function that can follow a null pointer, index outside an array or fail an assertion returns an
  \<open>option\<close>, and \<open>None\<close> is the crash; a theorem that an operation returns \<open>Some\<close> is therefore also a
  theorem of memory safety. The result of \<open>malloc\<close> is an argument of the containers, and in the host it is
  read from a stream, as are the clocks and the result of the system's send. Loops over pointers are
  \<open>partial_function (option)\<close>; where a theorem says such a loop returns, it says that it ends.

  \<^bold>\<open>The containers (\<open>src/common\<close>).\<close>
  \<^item> \<open>Prelude\<close>, \<open>Seq\<close>: shared types; \<open>LESS_EQUAL\<close>, \<open>BEFORE\<close>, \<open>AFTER\<close> and \<open>seq_cmp\<close> of \<open>util.h\<close>, and
    that they order any window of less than \<open>2 ^ 31\<close> numbers (locale \<open>cmp_order\<close>).
  \<^item> \<open>TreeMap\<close> models \<open>treemap.c\<close>, a left-leaning red-black tree with parent pointers and a cached first
    node, with every node at its address. \<open>TreeMapShape\<close> has the balance invariant, \<open>TreeMapSpec\<close> the view as an
    ascending list of entries, \<open>TreeMapDelete\<close>, \<open>TreeMapInsert\<close> and \<open>TreeMapSearch\<close> the correctness of
    the operations, \<open>TreeMapProps\<close> the interface \<open>ordered_map\<close>, its interpretation on sequence numbers and the
    properties: insertion, deletion, search, iteration, the maps that a program can build and their height, clearing, no memory.
  \<^item> \<open>IntrusiveList\<close> models \<open>list.h\<close> over a store of \<open>next\<close> and \<open>prev\<close> fields and shows that the
    operations refine list operations and leave every other list alone.
  \<^item> \<open>HashQueue\<close> models \<open>hashqueue.c\<close> over lists of node addresses; \<open>HashQueueCorrect\<close> shows that it is
    a queue of entries and, with distinct keys, a map (locale \<open>keyed_queue\<close>), and that no node of the pool
    is lost or used twice.
  \<^item> \<open>TimerList\<close> models \<open>timerlist.c\<close>, a binary heap whose nodes know their position and hang in hash
    buckets; \<open>TimerListCorrect\<close> shows heap order and the consistency of the positions, that pushing,
    deleting and rescheduling change exactly the timers they should, and that draining sorts (locale
    \<open>timer_queue\<close>).
  \<^item> \<open>Fnv\<close> models \<open>hash_32.c\<close>, \<open>WindowedFilter\<close> models \<open>windowed_filter.c\<close> (locale \<open>sample_filter\<close> with the
    maximum and the minimum filter as interpretations), \<open>Sha256\<close> models \<open>sha256.c\<close> and shows that the streaming
    interface computes the padded hash of the concatenated data.
  \<^item> \<open>RBuffer\<close> models \<open>rbuffer.c\<close>: a ring of blocks and a tree map of the written ranges. \<open>RBufferCorrect\<close> places
    every position of the window in the ring and shows that what is written is what is read; \<open>RBufferRanges\<close>
    shows that a write always returns and adds exactly the written positions to the stored ones. \<open>RBufferStream\<close> adds
    reading and releasing and shows that a receiver takes the stream from its buffer in order, whatever the network
    does with its segments (the step relation \<open>receives\<close>), and what a failed allocation leaves behind.

  \<^bold>\<open>The transport (\<open>src/src\<close>).\<close>
  \<^item> \<open>Messages\<close>: the packed layouts of \<open>litedt_messages.h\<close>. The source casts a buffer to a packed structure; the model has a pair
    of functions for each structure, with the lemma that they are inverse.
  \<^item> \<open>StreamTransfer\<close> puts a send buffer, the data packets of \<open>Messages\<close>, a network and a receive buffer together and shows that
    what is received is a prefix of what was sent.
  \<^item> \<open>Fec\<close> models \<open>fec.c\<close>; \<open>FecCorrect\<close> shows that the word-wise xor is the bytewise one, and what an unchecked index
    does. \<open>FecGroup\<close> and \<open>FecRecovery\<close> follow a group from \<open>fec_push_data\<close> and \<open>fec_post\<close> of the sender to \<open>fec_insert\<close> of the
    receiver and show that a lost packet is recovered; \<open>FecLoops\<close> shows that the loops over the groups end and what they leave.
  \<^item> \<open>Host\<close>: the state of a host and its connections (\<open>litedt.h\<close>, \<open>ctrl.h\<close>, \<open>retrans.h\<close>) as records; connections
    and packets live at addresses of two stores, so that the queues that share them alias as in the source.
  \<^item> \<open>Ctrl\<close> models \<open>ctrl.c\<close> and shows the exact mode after every event and the bounds of the pacing rate.
  \<^item> \<open>Retrans\<close> models \<open>retrans.c\<close> without the two functions that send, which need the senders and are in
    \<open>LitedtSend\<close> with the token and the senders of \<open>litedt.c\<close>. \<open>Litedt\<close> has the life of a connection and
    the user calls, \<open>LitedtEvents\<close> the handlers and \<open>litedt_io_event\<close>, \<open>LitedtTime\<close> the timers up to
    \<open>litedt_time_event\<close>, and \<open>litedt_init\<close>. The callbacks of the host are an argument, the record
    \<open>litedt_env\<close>: arbitrary functions on the host state. \<open>Session\<close> has what the two sides make of a ping request
    and its response, and shows that no response without the token changes a session.
    \<open>SackMap\<close> relates the map of acknowledged ranges to the receive buffer and shows which ranges a receiver
    acknowledges, all of them received, and when an acknowledgement does not fit its packet.

  \<^bold>\<open>The program around it.\<close>
  \<^item> \<open>Config\<close> models \<open>config.c\<close>: the parser tables, the walk over the tree that the third-party JSON parser
    returns, loading and reloading. \<open>ConfigCorrect\<close> shows that a reload is type safe and leaves a consistent
    configuration whatever the file holds, what a loaded configuration guarantees to the transport, and
    that a long list of peers overruns its table.

  \<^item> \<open>Flow\<close> has the state of the program around the transport (\<open>lf_world\<close>): the configuration in force, the tables of
    flows, peers and addresses as hash queues, the objects at their addresses, and the system. The system is a
    record of streams, one for each kind of call, of which every call takes its result, and a log of the calls
    made, so that a theorem can say which sockets were opened, closed or connected. \<open>Flow\<close> further has the
    operations of \<open>liteflow.c\<close> on flows and peers that the entrances need, and \<open>FlowCorrect\<close> that the
    search for a flow number ends.
  \<^item> \<open>Entrance\<close> has the table of listening sockets and its reload, which \<open>tcp.c\<close> and \<open>udp.c\<close> each write out in the
    same way, with the socket calls as arguments; \<open>Tcp\<close> and \<open>Udp\<close> model the two files over it.
    \<open>EntranceCorrect\<close> shows what releasing and binding do to the table, \<open>EntranceReload\<close> states
    the contract of the socket calls (locale \<open>entrance\<close>) and proves the reload in it, and \<open>EntranceProps\<close>
    interprets it for both files and has their properties.
  \<^item> \<open>Liteflow\<close> models the peers, their addresses, name resolution and the callbacks that the transport
    makes; \<open>LiteflowEvents\<close> ties the knot: a host whose outer state is the program, the packets from the socket,
    the timers, reloading and start. \<open>LiteflowCorrect\<close> shows that a peer can make the program connect to configured
    destinations only, \<open>LiteflowRoutes\<close> that the keys of the address table identify endpoints and how a
    packet without a valid token changes the address of a peer. \<open>Handshake\<close> shows that a ping request and its response establish
    a session between two programs with the same password, with the callbacks that \<open>liteflow.c\<close> registers.
  \<^item> \<open>Entry\<close> models \<open>main.c\<close>, with the option parser of the C library as the list of its calls, and shows what a test of
    the configuration returns, and that it makes no call to the system.

  \<^bold>\<open>Bounds.\<close> Three loops, \<open>queue_clear_loop\<close>, \<open>fec_mod_fini_loop\<close> and \<open>fec_checkpoint_loop\<close>, have a bound, the number
  of nodes of the queue they run over. Each round removes a node, and \<open>queue_clear_correct\<close> and \<open>fec_loops_end\<close> show that the bound is
  enough. No other loop of the model has fuel: the loops over tables are structural or have a termination
  proof, those over pointers and the search for a flow number are partial functions that the theorems show to return.

  \<^bold>\<open>Not modelled.\<close> The tests. Of \<open>main.c\<close> the version text, seeding \<open>rand\<close> (the random numbers are arguments) and ignoring
  \<open>SIGPIPE\<close> (a send to a closed socket returns an error, as in the model of the system). The loops of libev and c-ares are
  third-party: the model has the callbacks they make as operations, and watchers and timers as fields. Log output
  and the functions that only print are left out everywhere. The setters of the callbacks are not operations of
  the model, since the callbacks are fixed in a run. The JSON parser is third-party; its tree is an argument.
\<close>

end
